(* ===== verification/Prelude.thy ===== *)
theory Prelude
  imports Main "HOL-Library.Sublist" "HOL-Library.AList"
begin

section \<open>Shared vocabulary: JavaScript strings, sets and maps\<close>

text \<open>
  The program is TypeScript.  A string is a sequence of code units; the development models the
  strings whose code units are below 256 (ISO 8859-1, which contains every DNS name, permission,
  address and number the program compares), one HOL \<open>char\<close> per code unit.  On that range the
  definitions below are exactly \<open>String.prototype.trim\<close> and
  \<open>String.prototype.toLowerCase\<close>; upper-casing leaves the range for two
  characters (see \<open>upper_char\<close>).

  A JavaScript \<open>Map\<close> keeps its keys in the order of first insertion and \<open>set\<close> on a
  present key replaces the value in place: that is \<open>AList.update\<close> on an association list.
  A \<open>Set\<close> is a list without duplicates in insertion order, with \<open>jset_add\<close>.
\<close>

named_theorems js_simps "rewrite rules for the JavaScript string operations"
named_theorems ok_defs "definitions unfolded when a component's check is evaluated"

subsection \<open>Characters\<close>

abbreviation code :: "char \<Rightarrow> nat" where
  "code c \<equiv> of_char c"

definition is_ws :: "char \<Rightarrow> bool" where
  "is_ws c \<longleftrightarrow> 9 \<le> code c \<and> code c \<le> 13 \<or> code c = 32 \<or> code c = 160"

definition is_digit :: "char \<Rightarrow> bool" where
  "is_digit c \<longleftrightarrow> 48 \<le> code c \<and> code c \<le> 57"

definition is_upper :: "char \<Rightarrow> bool" where
  "is_upper c \<longleftrightarrow> 65 \<le> code c \<and> code c \<le> 90
     \<or> 192 \<le> code c \<and> code c \<le> 222 \<and> code c \<noteq> 215"

definition lower_char :: "char \<Rightarrow> char" where
  "lower_char c = (if is_upper c then char_of (code c + 32) else c)"

text \<open>
  Upper-casing of one code unit.  \<open>\<ss>\<close> (223) becomes two letters; the micro sign (181)
  and y with diaeresis (255) have their upper case outside ISO 8859-1, and stay as they are here.
\<close>

definition upper_char :: "char \<Rightarrow> string" where
  "upper_char c =
     (if 97 \<le> code c \<and> code c \<le> 122
         \<or> 224 \<le> code c \<and> code c \<le> 254 \<and> code c \<noteq> 247
      then [char_of (code c - 32)]
      else if code c = 223 then ''SS'' else [c])"

subsection \<open>String operations\<close>

definition js_lower :: "string \<Rightarrow> string" where
  "js_lower s = map lower_char s"

definition js_upper :: "string \<Rightarrow> string" where
  "js_upper s = concat (map upper_char s)"

definition js_trim :: "string \<Rightarrow> string" where
  "js_trim s = rev (dropWhile is_ws (rev (dropWhile is_ws s)))"

definition ends_with :: "string \<Rightarrow> string \<Rightarrow> bool" where
  "ends_with s t \<longleftrightarrow> length t \<le> length s \<and> drop (length s - length t) s = t"

definition starts_with :: "string \<Rightarrow> string \<Rightarrow> bool" where
  "starts_with s t \<longleftrightarrow> take (length t) s = t"

text \<open>\<open>s.replace(/\.$/, "")\<close> and \<open>s.replace(/\.+$/, "")\<close>.\<close>

definition strip_dot :: "string \<Rightarrow> string" where
  "strip_dot s = (if ends_with s ''.'' then butlast s else s)"

definition strip_dots :: "string \<Rightarrow> string" where
  "strip_dots s = rev (dropWhile (\<lambda>c. c = CHR ''.'') (rev s))"

text \<open>\<open>s.split(d)\<close> for a separator of one character, and \<open>parts.join(sep)\<close>.\<close>

fun split_on :: "char \<Rightarrow> string \<Rightarrow> string list" where
  "split_on d [] = [[]]"
| "split_on d (c # cs) =
     (if c = d then [] # split_on d cs
      else (case split_on d cs of [] \<Rightarrow> [[c]] | p # ps \<Rightarrow> (c # p) # ps))"

fun join :: "string \<Rightarrow> string list \<Rightarrow> string" where
  "join sep [] = []"
| "join sep [p] = p"
| "join sep (p # q # ps) = p @ sep @ join sep (q # ps)"

text \<open>Decimal notation: \<open>String(n)\<close> of a natural number, \<open>Number(s)\<close> of a digit string.\<close>

fun dec_of_nat :: "nat \<Rightarrow> string" where
  "dec_of_nat n =
     (if n < 10 then [char_of (48 + n)] else dec_of_nat (n div 10) @ [char_of (48 + n mod 10)])"

declare dec_of_nat.simps [simp del]

definition digit_val :: "char \<Rightarrow> nat" where
  "digit_val c = code c - 48"

definition nat_of_dec :: "string \<Rightarrow> nat" where
  "nat_of_dec s = foldl (\<lambda>n c. 10 * n + digit_val c) 0 s"

subsection \<open>Sets in insertion order\<close>

definition jset_add :: "'a \<Rightarrow> 'a list \<Rightarrow> 'a list" where
  "jset_add x xs = (if x \<in> set xs then xs else xs @ [x])"

definition jset_of :: "'a list \<Rightarrow> 'a list" where
  "jset_of xs = foldl (\<lambda>s x. jset_add x s) [] xs"

text \<open>\<open>xs.find(p)\<close> and \<open>xs.some(p)\<close> are \<open>List.find\<close> and \<open>list_ex\<close>.\<close>

subsection \<open>Lemmas on characters and strings\<close>

lemma code_less: "code c < 256"
  using of_char_mod_256 [of c, where 'a = nat] by (metis mod_less_divisor zero_less_numeral)

lemma code_eq_iff: "code c = code d \<longleftrightarrow> c = d"
  by (simp add: of_char_eq_iff)

lemma char_of_code: "code c = n \<Longrightarrow> c = char_of n"
  by auto

lemma code_char_of [simp]: "n < 256 \<Longrightarrow> code (char_of n) = n"
  by simp

lemma code_lower_char:
  "code (lower_char c) = (if is_upper c then code c + 32 else code c)"
  using code_less [of c] by (auto simp: lower_char_def is_upper_def)

lemma not_upper_lower_char [simp]: "\<not> is_upper (lower_char c)"
  by (auto simp: is_upper_def code_lower_char)

lemma lower_char_idem [simp]: "lower_char (lower_char c) = lower_char c"
  by (subst lower_char_def) simp

lemma is_ws_lower_char [simp]: "is_ws (lower_char c) = is_ws c"
  by (auto simp: is_ws_def code_lower_char is_upper_def)

lemma is_ws_dot [simp]: "\<not> is_ws (CHR ''.'')"
  by (simp add: is_ws_def)

lemma is_digit_lower_char [simp]: "is_digit (lower_char c) = is_digit c"
  by (auto simp: is_digit_def code_lower_char is_upper_def)

lemma lower_char_low: "code c < 65 \<Longrightarrow> lower_char c = c"
  by (simp add: lower_char_def is_upper_def)

lemma lower_char_eq_low: "code d < 65 \<Longrightarrow> (lower_char c = d) = (c = d)"
proof
  assume d: "code d < 65" and "lower_char c = d"
  then have "\<not> is_upper c"
    using code_lower_char [of c] by (auto simp: is_upper_def split: if_splits)
  with \<open>lower_char c = d\<close> show "c = d" by (simp add: lower_char_def)
qed (simp add: lower_char_low)

lemma lower_char_eq_dot [simp]: "(lower_char c = CHR ''.'') = (c = CHR ''.'')"
  by (rule lower_char_eq_low) simp

lemma js_lower_idem [simp]: "js_lower (js_lower s) = js_lower s"
  by (simp add: js_lower_def)

lemma js_lower_append [simp]: "js_lower (s @ t) = js_lower s @ js_lower t"
  by (simp add: js_lower_def)

lemma js_lower_Nil_iff [simp]: "(js_lower s = []) = (s = [])" "([] = js_lower s) = (s = [])"
  by (auto simp: js_lower_def)

lemma js_lower_Nil [simp]: "js_lower [] = []"
  by (simp add: js_lower_def)

lemma js_trim_Nil [simp]: "js_trim [] = []"
  by (simp add: js_trim_def)

lemma js_lower_dot [simp]: "js_lower ''.'' = ''.''"
  by (simp add: js_lower_def lower_char_low)

lemma dropWhile_ws_map_lower:
  "dropWhile is_ws (map lower_char s) = map lower_char (dropWhile is_ws s)"
  by (induction s) auto

lemma js_trim_lower: "js_trim (js_lower s) = js_lower (js_trim s)"
  by (simp add: js_trim_def js_lower_def dropWhile_ws_map_lower rev_map)

lemma dropWhile_idem [simp]: "dropWhile P (dropWhile P xs) = dropWhile P xs"
  by (induction xs) auto

lemma dropWhile_id_hd: "(xs \<noteq> [] \<Longrightarrow> \<not> P (hd xs)) \<Longrightarrow> dropWhile P xs = xs"
  by (cases xs) auto

text \<open>What trimming produces: no white space at either end.  Such a string is a fixed point.\<close>

lemma js_trim_id: "(s \<noteq> [] \<Longrightarrow> \<not> is_ws (hd s) \<and> \<not> is_ws (last s)) \<Longrightarrow> js_trim s = s"
  by (cases "s = []") (auto simp: js_trim_def dropWhile_id_hd hd_rev)

lemma js_trim_ends:
  assumes "js_trim s \<noteq> []"
  shows "\<not> is_ws (hd (js_trim s)) \<and> \<not> is_ws (last (js_trim s))"
proof -
  define t where "t = dropWhile is_ws s"
  define u where "u = dropWhile is_ws (rev t)"
  have tr: "js_trim s = rev u" by (simp add: js_trim_def t_def u_def)
  with assms have u: "u \<noteq> []" by simp
  have lst: "\<not> is_ws (hd u)" using u unfolding u_def by (rule hd_dropWhile)
  have "suffix u (rev t)" unfolding u_def by (rule suffix_dropWhile)
  then obtain w where w: "rev t = w @ u" by (auto simp: suffix_def)
  then have t: "t = rev u @ rev w" by (metis rev_append rev_rev_ident)
  with u have "t \<noteq> []" by simp
  then have "\<not> is_ws (hd t)" unfolding t_def by (rule hd_dropWhile)
  with t u have "\<not> is_ws (hd (rev u))" by simp
  with lst u tr show ?thesis by (simp add: last_rev)
qed

lemma js_trim_idem [simp]: "js_trim (js_trim s) = js_trim s"
  by (rule js_trim_id) (use js_trim_ends in blast)

lemma ends_with_iff: "ends_with s t \<longleftrightarrow> (\<exists>u. s = u @ t)"
proof
  assume "ends_with s t"
  then have "s = take (length s - length t) s @ t"
    unfolding ends_with_def by (metis append_take_drop_id)
  then show "\<exists>u. s = u @ t" ..
qed (auto simp: ends_with_def)

lemma ends_with_append [simp]: "ends_with (u @ t) t"
  by (auto simp: ends_with_iff)

lemma ends_with_dot: "ends_with s ''.'' \<longleftrightarrow> s \<noteq> [] \<and> last s = CHR ''.''"
  unfolding ends_with_iff by (metis append_butlast_last_id last_snoc snoc_eq_iff_butlast)

lemma strip_dot_snoc [simp]: "strip_dot (s @ ''.'') = s"
  by (simp add: strip_dot_def)

lemma strip_dot_restore: "ends_with s ''.'' \<Longrightarrow> strip_dot s @ ''.'' = s"
  by (auto simp: ends_with_iff)

lemma strip_dot_id: "\<not> ends_with s ''.'' \<Longrightarrow> strip_dot s = s"
  by (simp add: strip_dot_def)

lemma starts_with_iff: "starts_with s t \<longleftrightarrow> (\<exists>u. s = t @ u)"
  unfolding starts_with_def by (metis append_eq_conv_conj append_take_drop_id)

lemma starts_with_append [simp]: "starts_with (t @ u) t"
  by (auto simp: starts_with_iff)

lemma ends_with_lower: "ends_with s ''.'' \<Longrightarrow> ends_with (js_lower s) ''.''"
  by (auto simp: ends_with_dot js_lower_def last_map)

lemma strip_dots_no_dot: "strip_dots s = [] \<or> last (strip_dots s) \<noteq> CHR ''.''"
proof (cases "strip_dots s = []")
  case False
  then have "dropWhile (\<lambda>c. c = CHR ''.'') (rev s) \<noteq> []" by (simp add: strip_dots_def)
  then have "hd (dropWhile (\<lambda>c. c = CHR ''.'') (rev s)) \<noteq> CHR ''.''"
    by (rule hd_dropWhile)
  then show ?thesis by (simp add: strip_dots_def last_rev)
qed simp

lemma strip_dots_append_dot [simp]: "strip_dots (s @ ''.'') = strip_dots s"
  by (simp add: strip_dots_def)

lemma strip_dots_idem [simp]: "strip_dots (strip_dots s) = strip_dots s"
  by (simp add: strip_dots_def)

lemma strip_dots_id: "s = [] \<or> last s \<noteq> CHR ''.'' \<Longrightarrow> strip_dots s = s"
  by (cases s rule: rev_cases) (auto simp: strip_dots_def)

lemma strip_dots_prefix: "prefix (strip_dots s) s"
  using suffix_dropWhile [of "\<lambda>c. c = CHR ''.''" "rev s"]
  by (simp add: strip_dots_def suffix_to_prefix)

lemma js_lower_id: "(\<And>c. c \<in> set s \<Longrightarrow> \<not> is_upper c) \<Longrightarrow> js_lower s = s"
  by (induction s) (auto simp: js_lower_def lower_char_def)

lemma js_trim_no_ws: "(\<And>c. c \<in> set s \<Longrightarrow> \<not> is_ws c) \<Longrightarrow> js_trim s = s"
  by (rule js_trim_id) auto

subsection \<open>Lemmas on splitting and joining\<close>

lemma set_join: "set (join sep ps) \<subseteq> set sep \<union> \<Union> (set ` set ps)"
  by (induction sep ps rule: join.induct) auto

lemma split_on_ne [simp]: "split_on d s \<noteq> []"
  by (induction s) (auto split: list.splits)

lemma join_Cons: "ps \<noteq> [] \<Longrightarrow> join sep (p # ps) = p @ sep @ join sep ps"
  by (cases ps) auto

lemma join_append: "xs \<noteq> [] \<Longrightarrow> ys \<noteq> [] \<Longrightarrow> join sep (xs @ ys) = join sep xs @ sep @ join sep ys"
  by (induction xs rule: induct_list012) (auto simp: join_Cons)

lemma join_split [simp]: "join [d] (split_on d s) = s"
proof (induction s)
  case (Cons c cs)
  then show ?case
    by (cases "split_on d cs" rule: list.exhaust [case_names Nil Cons'])
       (auto simp: join_Cons split: list.splits,
        metis append_Cons join.simps(2) join_Cons list.discI)
qed simp

lemma split_on_no_sep: "d \<notin> set s \<Longrightarrow> split_on d s = [s]"
  by (induction s) auto

lemma split_on_append: "d \<notin> set p \<Longrightarrow> split_on d (p @ d # s) = p # split_on d s"
  by (induction p) auto

lemma split_join: "ps \<noteq> [] \<Longrightarrow> \<forall>p \<in> set ps. d \<notin> set p \<Longrightarrow> split_on d (join [d] ps) = ps"
  by (induction ps rule: induct_list012) (auto simp: split_on_no_sep split_on_append)

lemma split_on_parts: "p \<in> set (split_on d s) \<Longrightarrow> d \<notin> set p"
  by (induction s arbitrary: p) (auto split: if_splits list.splits)

lemma set_split_on_subset: "p \<in> set (split_on d s) \<Longrightarrow> set p \<subseteq> set s"
  by (induction s arbitrary: p) (fastforce split: if_splits list.splits)+

subsection \<open>Lemmas on decimal numbers\<close>

lemma nat_of_dec_snoc: "nat_of_dec (s @ [c]) = 10 * nat_of_dec s + digit_val c"
  by (simp add: nat_of_dec_def)

lemma nat_of_dec_of_nat [simp]: "nat_of_dec (dec_of_nat n) = n"
proof (induction n rule: dec_of_nat.induct)
  case (1 n)
  then show ?case
    by (cases "n < 10")
       (simp_all add: dec_of_nat.simps [of n] nat_of_dec_snoc,
        simp_all add: nat_of_dec_def digit_val_def)
qed

lemma dec_of_nat_digits: "c \<in> set (dec_of_nat n) \<Longrightarrow> is_digit c"
proof (induction n rule: dec_of_nat.induct)
  case (1 n)
  then show ?case
    by (cases "n < 10") (auto simp: dec_of_nat.simps [of n] is_digit_def)
qed

lemma dec_of_nat_ne [simp]: "dec_of_nat n \<noteq> []"
  by (subst dec_of_nat.simps) simp

lemma dec_of_nat_inject: "dec_of_nat m = dec_of_nat n \<Longrightarrow> m = n"
  by (metis nat_of_dec_of_nat)

lemma digit_val_less: "is_digit c \<Longrightarrow> digit_val c < 10"
  by (auto simp: is_digit_def digit_val_def)

lemma char_of_digit_val: "is_digit c \<Longrightarrow> char_of (48 + digit_val c) = c"
  by (auto simp: is_digit_def digit_val_def)

lemma nat_of_dec_Cons: "nat_of_dec (c # s) = digit_val c * 10 ^ length s + nat_of_dec s"
proof (induction s rule: rev_induct)
  case Nil
  then show ?case by (simp add: nat_of_dec_def)
next
  case (snoc x xs)
  then show ?case
    using nat_of_dec_snoc [of "c # xs" x] by (simp add: nat_of_dec_snoc algebra_simps)
qed

lemma nat_of_dec_less: "list_all is_digit s \<Longrightarrow> nat_of_dec s < 10 ^ length s"
proof (induction s)
  case Nil
  then show ?case by (simp add: nat_of_dec_def)
next
  case (Cons c s)
  then have "nat_of_dec s < 10 ^ length s" "digit_val c \<le> 9"
    using digit_val_less [of c] by auto
  moreover from this(2) have "digit_val c * 10 ^ length s \<le> 9 * 10 ^ length s"
    by (rule mult_le_mono1)
  ultimately have "nat_of_dec (c # s) < 10 ^ length s + 9 * 10 ^ length s"
    unfolding nat_of_dec_Cons by linarith
  then show ?case by simp
qed

lemma digit_val_pos: "is_digit c \<Longrightarrow> c \<noteq> CHR ''0'' \<Longrightarrow> 0 < digit_val c"
proof -
  assume d: "is_digit c" and "c \<noteq> CHR ''0''"
  then have "code c \<noteq> code (CHR ''0'')" by (simp only: code_eq_iff not_False_eq_True)
  then have "code c \<noteq> 48" by simp
  with d show ?thesis by (auto simp: is_digit_def digit_val_def)
qed

lemma dec_of_nat_of_dec:
  "s \<noteq> [] \<Longrightarrow> list_all is_digit s \<Longrightarrow> length s = 1 \<or> hd s \<noteq> CHR ''0'' \<Longrightarrow>
   dec_of_nat (nat_of_dec s) = s"
proof (induction s rule: rev_induct)
  case Nil
  then show ?case by simp
next
  case (snoc c q)
  show ?case
  proof (cases "q = []")
    case True
    with snoc.prems show ?thesis
      by (simp add: dec_of_nat.simps nat_of_dec_def digit_val_less char_of_digit_val)
  next
    case False
    with snoc.prems have hd: "hd q \<noteq> CHR ''0''" "list_all is_digit q" "is_digit c" by auto
    with False have "0 < nat_of_dec q"
      using digit_val_pos [of "hd q"] by (cases q) (auto simp: nat_of_dec_Cons)
    then show ?thesis
      using snoc.IH [OF False] hd digit_val_less [of c]
      by (subst dec_of_nat.simps) (simp add: nat_of_dec_snoc char_of_digit_val)
  qed
qed

lemma dec_of_nat_length_le: "n < 10 ^ k \<Longrightarrow> 0 < k \<Longrightarrow> length (dec_of_nat n) \<le> k"
proof (induction n arbitrary: k rule: dec_of_nat.induct)
  case (1 n)
  show ?case
  proof (cases "n < 10")
    case True
    with 1 show ?thesis by (simp add: dec_of_nat.simps [of n])
  next
    case False
    then obtain j where k: "k = Suc j" "0 < j"
      using 1(2,3) by (cases k; cases "k = 1") (auto simp: not_less)
    then have "n div 10 < 10 ^ j" using 1(2) by (simp add: less_mult_imp_div_less mult.commute)
    with 1(1) False k show ?thesis by (simp add: dec_of_nat.simps [of n])
  qed
qed

lemma hd_dec_of_nat: "10 \<le> n \<Longrightarrow> hd (dec_of_nat n) \<noteq> CHR ''0''"
proof (induction n rule: dec_of_nat.induct)
  case (1 n)
  show ?case
  proof (cases "n < 100")
    case True
    with 1(2) have "dec_of_nat (n div 10) = [char_of (48 + n div 10)]" "n div 10 < 10" "0 < n div 10"
      by (auto simp: dec_of_nat.simps [of "n div 10"])
    moreover from this have "code (char_of (48 + n div 10)) = 48 + n div 10" by simp
    then have "char_of (48 + n div 10) \<noteq> CHR ''0''" 
      using \<open>0 < n div 10\<close> by (auto dest: arg_cong [where f = code] simp del: code_char_of)
    ultimately show ?thesis using 1(2) by (simp add: dec_of_nat.simps [of n])
  next
    case False
    with 1 have "hd (dec_of_nat (n div 10)) \<noteq> CHR ''0''" by simp
    with False show ?thesis by (simp add: dec_of_nat.simps [of n])
  qed
qed

lemma length_dec_of_nat_1: "length (dec_of_nat n) > 1 \<Longrightarrow> hd (dec_of_nat n) \<noteq> CHR ''0''"
  by (cases "n < 10") (simp_all add: dec_of_nat.simps [of n] hd_dec_of_nat del: dec_of_nat_ne,
     use hd_dec_of_nat [of n] in \<open>simp add: dec_of_nat.simps [of n]\<close>)

lemma dec_no_char: "\<not> is_digit c \<Longrightarrow> c \<notin> set (dec_of_nat n)"
  using dec_of_nat_digits [of c n] by auto

subsection \<open>Lemmas on insertion-ordered sets and maps\<close>

lemma set_jset_add [simp]: "set (jset_add x xs) = insert x (set xs)"
  by (auto simp: jset_add_def)

lemma distinct_jset_add [simp]: "distinct (jset_add x xs) = distinct xs"
  by (auto simp: jset_add_def)

lemma set_foldl_jset_add: "set (foldl (\<lambda>s x. jset_add x s) ys xs) = set ys \<union> set xs"
  by (induction xs arbitrary: ys) auto

lemma distinct_foldl_jset_add:
  "distinct (foldl (\<lambda>s x. jset_add x s) ys xs) = distinct ys"
  by (induction xs arbitrary: ys) auto

lemma set_jset_of [simp]: "set (jset_of xs) = set xs"
  by (simp add: jset_of_def set_foldl_jset_add)

lemma distinct_jset_of [simp]: "distinct (jset_of xs)"
  by (simp add: jset_of_def distinct_foldl_jset_add)

lemma map_of_update: "map_of (AList.update k v al) = (map_of al)(k \<mapsto> v)"
  by (rule update_conv')

lemma set_update_subset: "set (AList.update k v al) \<subseteq> insert (k, v) (set al)"
  by (induction al) auto

lemma find_SomeD: "List.find P xs = Some x \<Longrightarrow> x \<in> set xs \<and> P x"
  by (induction xs) (auto split: if_splits)

lemma find_None_ball: "(List.find P xs = None) = (\<forall>x \<in> set xs. \<not> P x)"
  by (induction xs) auto

end
