(* ===== verification/Json.thy ===== *)
theory Json
  imports Prelude
begin

section \<open>JSON text of strings\<close>

text \<open>
  The program uses \<open>JSON.stringify\<close> to build keys and hash inputs (zone identities in
  \<open>lib/dns/zone-dedupe.ts\<close>, the RRset hash in \<open>lib/pdns/rrset-hash.ts\<close>).  Here is the
  serialisation of strings, numbers and booleans, with a reader that shows it loses nothing: a
  quoted string followed by anything reads back as that string.
\<close>

abbreviation quote :: char where "quote \<equiv> CHR 0x22"
abbreviation backslash :: char where "backslash \<equiv> CHR 0x5C"

definition hex_digit :: "nat \<Rightarrow> char" where
  "hex_digit n = (if n < 10 then char_of (48 + n) else char_of (87 + n))"

definition hex_val :: "char \<Rightarrow> nat" where
  "hex_val c = (if code c < 58 then code c - 48 else code c - 87)"

definition json_escape :: "char \<Rightarrow> string" where
  "json_escape c =
     (let n = code c in
      if n = 8 then [backslash, CHR ''b'']
      else if n = 9 then [backslash, CHR ''t'']
      else if n = 10 then [backslash, CHR ''n'']
      else if n = 12 then [backslash, CHR ''f'']
      else if n = 13 then [backslash, CHR ''r'']
      else if n = 34 \<or> n = 92 then [backslash, c]
      else if n < 32 then
        [backslash, CHR ''u'', CHR ''0'', CHR ''0'', hex_digit (n div 16), hex_digit (n mod 16)]
      else [c])"

definition json_string :: "string \<Rightarrow> string" where
  "json_string s = quote # concat (map json_escape s) @ [quote]"

definition json_bool :: "bool \<Rightarrow> string" where
  "json_bool b = (if b then ''true'' else ''false'')"

subsection \<open>Reading a quoted string back\<close>

definition json_unescape :: "char \<Rightarrow> char" where
  "json_unescape d =
     (if d = CHR ''b'' then char_of (8::nat) else if d = CHR ''t'' then char_of (9::nat)
      else if d = CHR ''n'' then char_of (10::nat) else if d = CHR ''f'' then char_of (12::nat)
      else if d = CHR ''r'' then char_of (13::nat) else d)"

fun json_read :: "string \<Rightarrow> (string \<times> string) option" where
  "json_read [] = None"
| "json_read [c] = (if c = quote then Some ([], []) else None)"
| "json_read (c # d # cs) =
     (if c = quote then Some ([], d # cs)
      else if c = backslash then
        (if d = CHR ''u'' then
           (case cs of x # y # a # b # es \<Rightarrow>
              map_option (apfst (Cons (char_of (16 * hex_val a + hex_val b)))) (json_read es)
            | _ \<Rightarrow> None)
         else map_option (apfst (Cons (json_unescape d))) (json_read cs))
      else map_option (apfst (Cons c)) (json_read (d # cs)))"

lemma hex_val_digit: "n < 16 \<Longrightarrow> hex_val (hex_digit n) = n"
  by (simp add: hex_val_def hex_digit_def)

lemma json_read_plain:
  "c \<noteq> quote \<Longrightarrow> c \<noteq> backslash \<Longrightarrow> r \<noteq> [] \<Longrightarrow>
   json_read (c # r) = map_option (apfst (Cons c)) (json_read r)"
  by (cases r) auto

lemma json_read_escape:
  assumes "r \<noteq> []"
  shows "json_read (json_escape c @ r) = map_option (apfst (Cons c)) (json_read r)"
proof -
  consider "code c \<in> {8, 9, 10, 12, 13}" | "code c \<in> {34, 92}"
    | "code c < 32" "code c \<notin> {8, 9, 10, 12, 13}"
    | "32 \<le> code c" "code c \<notin> {34, 92}"
    by fastforce
  then show ?thesis
  proof cases
    case 1
    then show ?thesis by (auto simp: json_escape_def json_unescape_def dest: char_of_code)
  next
    case 2
    then show ?thesis by (auto simp: json_escape_def json_unescape_def dest: char_of_code)
  next
    case 3
    have "16 * (code c div 16) + code c mod 16 = code c" by simp
    with 3 show ?thesis by (simp add: json_escape_def hex_val_digit Let_def)
  next
    case 4
    then have "c \<noteq> quote" "c \<noteq> backslash" by auto
    with 4 assms show ?thesis by (simp add: json_escape_def json_read_plain Let_def)
  qed
qed

lemma json_read_string:
  "json_read (concat (map json_escape s) @ quote # r) = Some (s, r)"
proof (induction s)
  case Nil
  then show ?case by (cases r) auto
next
  case (Cons c s)
  then show ?case by (simp add: json_read_escape)
qed

lemma json_string_append_inject:
  assumes "json_string s @ r = json_string s' @ r'"
  shows "s = s' \<and> r = r'"
proof -
  from assms have "concat (map json_escape s) @ quote # r = concat (map json_escape s') @ quote # r'"
    by (simp add: json_string_def)
  then have "json_read (concat (map json_escape s) @ quote # r)
      = json_read (concat (map json_escape s') @ quote # r')" by simp
  then show ?thesis by (simp add: json_read_string)
qed

lemma json_string_inject [simp]: "json_string s = json_string s' \<longleftrightarrow> s = s'"
  using json_string_append_inject [of s "[]" s' "[]"] by auto

lemma json_bool_inject: "json_bool b @ r = json_bool b' @ r' \<Longrightarrow> b = b' \<and> r = r'"
  by (auto simp: json_bool_def split: if_splits)

end
