(* ===== verification/ZoneNames.thy ===== *)
theory ZoneNames
  imports Json "HOL-Library.Multiset"
begin

section \<open>Zone names: canonical form, kind, horizon and identity\<close>

text \<open>
  Models \<open>lib/dns/zone-name.ts\<close>, \<open>lib/dns/zone-kind.ts\<close>, \<open>lib/dns/zone-horizon.ts\<close>
  and \<open>lib/dns/zone-dedupe.ts\<close>.  Grants, audit ids, cache keys and event filters compare zone
  names after \<open>canonicalZoneName\<close>; the locale \<open>canonical_form\<close> is what every such
  comparison relies on, and is interpreted on each of the program's canonical forms.
\<close>

subsection \<open>The interface: comparing by a canonical form\<close>

locale canonical_form =
  fixes canon :: "'a \<Rightarrow> 'a"
  assumes canon_idem: "canon (canon x) = canon x"
begin

definition same :: "'a \<Rightarrow> 'a \<Rightarrow> bool" where
  "same x y \<longleftrightarrow> canon x = canon y"

lemma same_refl: "same x x"
  by (simp add: same_def)

lemma same_sym: "same x y \<Longrightarrow> same y x"
  by (simp add: same_def)

lemma same_trans: "same x y \<Longrightarrow> same y z \<Longrightarrow> same x z"
  by (simp add: same_def)

lemma same_canon: "same (canon x) x"
  by (simp add: same_def canon_idem)

lemma canon_eq_iff: "canon x = x \<longleftrightarrow> (\<exists>y. x = canon y)"
  by (metis canon_idem)

lemma equiv_same: "equivp same"
  by (rule equivpI) (auto simp: reflp_def symp_def transp_def same_def)

lemma same_unique: "same x y \<Longrightarrow> canon x = x \<Longrightarrow> canon y = y \<Longrightarrow> x = y"
  by (simp add: same_def)

end

subsection \<open>zone-name.ts\<close>

definition canonicalZoneName :: "string \<Rightarrow> string" where
  "canonicalZoneName name =
     (let trimmed = js_lower (js_trim name) in
      if trimmed = [] then trimmed
      else if ends_with trimmed ''.'' then trimmed else trimmed @ ''.'')"

definition sameZoneName :: "string \<Rightarrow> string \<Rightarrow> bool" where
  "sameZoneName a b \<longleftrightarrow> canonicalZoneName a = canonicalZoneName b"

definition displayZoneName :: "string \<Rightarrow> string" where
  "displayZoneName name = strip_dot name"

lemma js_trim_snoc_dot: "js_trim s = s \<Longrightarrow> js_trim (s @ ''.'') = s @ ''.''"
proof (rule js_trim_id)
  assume "js_trim s = s"
  then show "\<not> is_ws (hd (s @ ''.'')) \<and> \<not> is_ws (last (s @ ''.''))"
    using js_trim_ends [of s] by (cases s) auto
qed

lemma trim_lower_canonicalZoneName:
  "js_lower (js_trim (canonicalZoneName n)) = canonicalZoneName n"
proof -
  have t: "js_trim (js_lower (js_trim n)) = js_lower (js_trim n)"
    by (simp add: js_trim_lower)
  show ?thesis
    using js_trim_snoc_dot [OF t] t by (simp add: canonicalZoneName_def Let_def)
qed

lemma canonicalZoneName_Nil: "canonicalZoneName n = [] \<longleftrightarrow> js_trim n = []"
  by (simp add: canonicalZoneName_def Let_def)

lemma canonicalZoneName_dot: "canonicalZoneName n \<noteq> [] \<Longrightarrow> ends_with (canonicalZoneName n) ''.''"
  by (auto simp: canonicalZoneName_def Let_def)

lemma canonicalZoneName_idem [simp]:
  "canonicalZoneName (canonicalZoneName n) = canonicalZoneName n"
proof -
  have "canonicalZoneName (canonicalZoneName n) =
      (if canonicalZoneName n = [] then canonicalZoneName n
       else if ends_with (canonicalZoneName n) ''.'' then canonicalZoneName n
       else canonicalZoneName n @ ''.'')"
    by (subst canonicalZoneName_def) (simp only: Let_def trim_lower_canonicalZoneName)
  then show ?thesis using canonicalZoneName_dot by auto
qed

interpretation zname: canonical_form canonicalZoneName
  by unfold_locales simp

interpretation lowercase: canonical_form js_lower
  by unfold_locales simp

lemma canonicalZoneName_strip:
  "js_trim n \<noteq> [] \<Longrightarrow> canonicalZoneName n = strip_dot (js_lower (js_trim n)) @ ''.''"
  by (simp add: canonicalZoneName_def Let_def strip_dot_restore strip_dot_id)

text \<open>
  \<open>canonicalZoneName\<close> and \<open>sameZoneName\<close> compare zone names up to surrounding white
  space, letter case and one trailing dot, and nothing else; the empty name is only equal to
  other blank names, never to the root zone.
\<close>

theorem sameZoneName_spec:
  "sameZoneName a b \<longleftrightarrow>
     (js_trim a = [] \<longleftrightarrow> js_trim b = []) \<and>
     strip_dot (js_lower (js_trim a)) = strip_dot (js_lower (js_trim b))"
proof (cases "js_trim a = [] \<or> js_trim b = []")
  case True
  then show ?thesis
    using canonicalZoneName_Nil [of a] canonicalZoneName_Nil [of b]
    by (auto simp: sameZoneName_def js_lower_def strip_dot_def)
next
  case False
  then show ?thesis by (simp add: sameZoneName_def canonicalZoneName_strip)
qed

subsection \<open>zone-kind.ts\<close>

datatype zone_kind = Forward | ReverseIpv4 | ReverseIpv6

definition zoneKind :: "string \<Rightarrow> zone_kind" where
  "zoneKind name =
     (let normalized = strip_dot (js_lower name) in
      if normalized = ''in-addr.arpa'' \<or> ends_with normalized ''.in-addr.arpa'' then ReverseIpv4
      else if normalized = ''ip6.arpa'' \<or> ends_with normalized ''.ip6.arpa'' then ReverseIpv6
      else Forward)"

definition isReverseZone :: "string \<Rightarrow> bool" where
  "isReverseZone name \<longleftrightarrow> zoneKind name \<noteq> Forward"

subsection \<open>zone-horizon.ts\<close>

datatype horizon = Public | Internal

definition PRIVATE_USE_NAMES :: "string list" where
  "PRIVATE_USE_NAMES =
     [''internal.'', ''home.arpa.'', ''local.'', ''test.'', ''invalid.'', ''localhost.'']"

definition isPrivateUseZoneName :: "string \<Rightarrow> bool" where
  "isPrivateUseZoneName zoneName =
     (let normalized = strip_dots (js_lower (js_trim zoneName)) @ ''.'' in
      list_ex (\<lambda>name. normalized = name \<or> ends_with normalized (''.'' @ name)) PRIVATE_USE_NAMES)"

definition defaultZoneHorizonForName :: "string \<Rightarrow> horizon" where
  "defaultZoneHorizonForName zoneName =
     (if isPrivateUseZoneName zoneName then Internal else Public)"

text \<open>
  \<open>isZoneHorizon\<close> and \<open>toZoneHorizon\<close> take an untrusted value; here the values they can
  tell apart are strings, \<open>None\<close> standing for every value that is not a string.
\<close>

definition isZoneHorizon :: "string option \<Rightarrow> bool" where
  "isZoneHorizon v \<longleftrightarrow> v = Some ''public'' \<or> v = Some ''internal''"

definition toZoneHorizon :: "string option \<Rightarrow> horizon" where
  "toZoneHorizon v =
     (if isZoneHorizon v then (if v = Some ''internal'' then Internal else Public) else Public)"

definition zoneHorizonLabel :: "horizon \<Rightarrow> string" where
  "zoneHorizonLabel h = (if h = Internal then ''internal'' else ''public'')"

lemma toZoneHorizon_label: "toZoneHorizon (Some (zoneHorizonLabel h)) = h"
  by (cases h) (simp_all add: toZoneHorizon_def zoneHorizonLabel_def isZoneHorizon_def)

subsection \<open>zone-dedupe.ts\<close>

text \<open>
  A zone row is the record below extended by whatever the list shows (the source is generic in
  \<open>T extends DedupableZoneRow\<close>).  \<open>readOnly\<close> is optional in the source.
\<close>

record dedupable_zone_row =
  row_name :: string
  row_horizon :: horizon
  row_readOnly :: "bool option"

definition zoneIdentityKey :: "'a dedupable_zone_row_scheme \<Rightarrow> string" where
  "zoneIdentityKey row =
     ''['' @ json_string (zoneHorizonLabel (row_horizon row)) @ '','' @ json_string (row_name row)
     @ '']''"

definition mirror :: "'a dedupable_zone_row_scheme \<Rightarrow> bool" where
  "mirror row \<longleftrightarrow> row_readOnly row = Some True"

fun dedupe_loop :: "(string \<times> 'a dedupable_zone_row_scheme) list \<Rightarrow>
    'a dedupable_zone_row_scheme list \<Rightarrow> 'a dedupable_zone_row_scheme list \<Rightarrow>
    (string \<times> 'a dedupable_zone_row_scheme) list \<times> 'a dedupable_zone_row_scheme list" where
  "dedupe_loop byIdentity hidden [] = (byIdentity, hidden)"
| "dedupe_loop byIdentity hidden (row # rows) =
     (let key = zoneIdentityKey row in
      case map_of byIdentity key of
        None \<Rightarrow> dedupe_loop (AList.update key row byIdentity) hidden rows
      | Some existing \<Rightarrow>
          if mirror existing \<and> \<not> mirror row
          then dedupe_loop (AList.update key row byIdentity) (hidden @ [existing]) rows
          else dedupe_loop byIdentity (hidden @ [row]) rows)"

definition dedupeZonesByIdentity :: "'a dedupable_zone_row_scheme list \<Rightarrow>
    'a dedupable_zone_row_scheme list \<times> 'a dedupable_zone_row_scheme list" where
  "dedupeZonesByIdentity rows =
     (let (byIdentity, hidden) = dedupe_loop [] [] rows in (map snd byIdentity, hidden))"

text \<open>
  Two rows have the same identity key exactly when they have the same name and the same
  horizon: no spelling of a name can make two different zones collapse into one row.
\<close>

theorem zoneIdentityKey_eq:
  "zoneIdentityKey r = zoneIdentityKey s \<longleftrightarrow>
     row_name r = row_name s \<and> row_horizon r = row_horizon s"
proof
  assume "zoneIdentityKey r = zoneIdentityKey s"
  then have eq: "json_string (zoneHorizonLabel (row_horizon r)) @ ('','' @ json_string (row_name r) @ '']'')
      = json_string (zoneHorizonLabel (row_horizon s)) @ ('','' @ json_string (row_name s) @ '']'')"
    by (simp add: zoneIdentityKey_def)
  from json_string_append_inject [OF eq]
  have "zoneHorizonLabel (row_horizon r) = zoneHorizonLabel (row_horizon s)"
    and "json_string (row_name r) @ '']'' = json_string (row_name s) @ '']''" by auto
  then show "row_name r = row_name s \<and> row_horizon r = row_horizon s"
    using json_string_append_inject toZoneHorizon_label by metis
qed (simp add: zoneIdentityKey_def)

subsubsection \<open>What the loop keeps\<close>

lemma find_append: "find P (xs @ ys) = (case find P xs of None \<Rightarrow> find P ys | Some x \<Rightarrow> Some x)"
  by (induction xs) auto

lemma image_update_new:
  "map_of m k = None \<Longrightarrow>
   image_mset snd (mset (AList.update k v m)) = add_mset v (image_mset snd (mset m))"
  by (induction m) (auto split: if_splits)

lemma image_update_old:
  "map_of m k = Some w \<Longrightarrow>
   add_mset w (image_mset snd (mset (AList.update k v m))) = add_mset v (image_mset snd (mset m))"
  by (induction m) (auto split: if_splits simp: add_mset_commute)

definition preferred :: "string \<Rightarrow> 'a dedupable_zone_row_scheme list \<Rightarrow>
    'a dedupable_zone_row_scheme option" where
  "preferred k rows =
     (case find (\<lambda>r. zoneIdentityKey r = k \<and> \<not> mirror r) rows of
        Some r \<Rightarrow> Some r | None \<Rightarrow> find (\<lambda>r. zoneIdentityKey r = k) rows)"

lemma preferred_snoc:
  "preferred k (xs @ [r]) =
     (if zoneIdentityKey r \<noteq> k then preferred k xs
      else case preferred k xs of None \<Rightarrow> Some r
           | Some e \<Rightarrow> if mirror e \<and> \<not> mirror r then Some r else Some e)"
proof (cases "find (\<lambda>r. zoneIdentityKey r = k \<and> \<not> mirror r) xs")
  case None
  then have m: "\<forall>x \<in> set xs. zoneIdentityKey x = k \<longrightarrow> mirror x" by (simp add: find_None_ball)
  show ?thesis
  proof (cases "find (\<lambda>r. zoneIdentityKey r = k) xs")
    case None': None
    with None show ?thesis by (simp add: preferred_def find_append)
  next
    case (Some e)
    then have "mirror e" using m find_SomeD [OF Some] by blast
    with None Some show ?thesis by (simp add: preferred_def find_append)
  qed
next
  case (Some e)
  then have "\<not> mirror e" using find_SomeD [OF Some] by blast
  with Some show ?thesis by (simp add: preferred_def find_append)
qed

definition dedupe_inv :: "'a dedupable_zone_row_scheme list \<Rightarrow>
    (string \<times> 'a dedupable_zone_row_scheme) list \<Rightarrow> 'a dedupable_zone_row_scheme list \<Rightarrow> bool" where
  "dedupe_inv seen m hidden \<longleftrightarrow>
     distinct (map fst m) \<and> image_mset snd (mset m) + mset hidden = mset seen
     \<and> (\<forall>k. map_of m k = preferred k seen)"

lemma dedupe_inv_step:
  assumes inv: "dedupe_inv seen m hidden"
    and m1: "map_of m1 = (map_of m)(zoneIdentityKey row :=
      preferred (zoneIdentityKey row) (seen @ [row]))"
    and "distinct (map fst m1)" "image_mset snd (mset m1) + mset h1 = add_mset row (mset seen)"
  shows "dedupe_inv (seen @ [row]) m1 h1"
  using assms by (simp add: dedupe_inv_def preferred_snoc)

lemma dedupe_inv_loop:
  "dedupe_inv seen m hidden \<Longrightarrow> dedupe_loop m hidden rows = (m', hidden') \<Longrightarrow>
   dedupe_inv (seen @ rows) m' hidden'"
proof (induction rows arbitrary: seen m hidden)
  case Nil
  then show ?case by simp
next
  case (Cons row rows)
  let ?k = "zoneIdentityKey row"
  note inv = Cons.prems(1)[unfolded dedupe_inv_def]
  have keys: "distinct (map fst (AList.update ?k row m))"
    using inv by (simp add: distinct_update)
  have IH: "dedupe_inv (seen @ [row]) m1 h1 \<Longrightarrow> dedupe_loop m1 h1 rows = (m', hidden') \<Longrightarrow>
      dedupe_inv (seen @ row # rows) m' hidden'" for m1 h1
    using Cons.IH [of "seen @ [row]" m1 h1] by simp
  show ?case
  proof (cases "map_of m ?k")
    case None
    have "dedupe_inv (seen @ [row]) (AList.update ?k row m) hidden"
      by (rule dedupe_inv_step [OF Cons.prems(1) _ keys])
         (use inv None in \<open>auto simp: map_of_update preferred_snoc image_update_new\<close>)
    with IH Cons.prems(2) None show ?thesis by simp
  next
    case (Some ex)
    show ?thesis
    proof (cases "mirror ex \<and> \<not> mirror row")
      case True
      have "image_mset snd (mset (AList.update ?k row m)) + mset (hidden @ [ex]) = add_mset row (mset seen)"
      proof -
        have "image_mset snd (mset (AList.update ?k row m)) + mset (hidden @ [ex])
            = add_mset ex (image_mset snd (mset (AList.update ?k row m))) + mset hidden" by simp
        also have "\<dots> = add_mset row (image_mset snd (mset m)) + mset hidden"
          by (simp only: image_update_old [OF Some])
        finally show ?thesis using inv by simp
      qed
      then have "dedupe_inv (seen @ [row]) (AList.update ?k row m) (hidden @ [ex])"
        by (intro dedupe_inv_step [OF Cons.prems(1) _ keys])
           (use inv Some True in \<open>auto simp: map_of_update preferred_snoc\<close>)
      with IH Cons.prems(2) Some True show ?thesis by simp
    next
      case False
      have "map_of m = (map_of m)(?k := preferred ?k (seen @ [row]))"
        using inv Some False by (auto simp: preferred_snoc fun_eq_iff)
      then have "dedupe_inv (seen @ [row]) m (hidden @ [row])"
        by (rule dedupe_inv_step [OF Cons.prems(1)]) (use inv in auto)
      with IH Cons.prems(2) Some False show ?thesis by simp
    qed
  qed
qed

lemma dedupe_inv_result:
  assumes "dedupeZonesByIdentity rows = (kept, hidden)"
  obtains m where "kept = map snd m" "dedupe_inv rows m hidden"
proof -
  obtain m h where l: "dedupe_loop [] [] rows = (m, h)" by fastforce
  have "dedupe_inv [] [] ([] :: 'a dedupable_zone_row_scheme list)"
    by (simp add: dedupe_inv_def preferred_def)
  from dedupe_inv_loop [OF this l] have "dedupe_inv rows m h" by simp
  moreover have "kept = map snd m" "hidden = h"
    using assms l by (simp_all add: dedupeZonesByIdentity_def)
  ultimately show ?thesis using that by blast
qed

lemma preferred_key: "preferred k rows = Some e \<Longrightarrow> zoneIdentityKey e = k \<and> e \<in> set rows"
  by (auto simp: preferred_def split: option.splits dest: find_SomeD)

lemma dedupe_inv_keys: "dedupe_inv rows m h \<Longrightarrow> map zoneIdentityKey (map snd m) = map fst m"
  by (auto simp: dedupe_inv_def intro!: map_cong dest!: preferred_key map_of_is_SomeI)

text \<open>
  The deduplicated list loses no row (every input row is kept or counted as hidden, once),
  has one row per (name, horizon) of the input, and that row is the first authoritative copy when
  there is one, else the first mirror.
\<close>

theorem dedupeZonesByIdentity_correct:
  assumes "dedupeZonesByIdentity rows = (kept, hidden)"
  shows "mset kept + mset hidden = mset rows
    \<and> distinct (map (\<lambda>r. (row_name r, row_horizon r)) kept)
    \<and> (\<forall>r \<in> set rows. \<exists>e \<in> set kept. row_name e = row_name r \<and> row_horizon e = row_horizon r)
    \<and> (\<forall>e \<in> set kept. preferred (zoneIdentityKey e) rows = Some e)"
proof -
  from assms obtain m where m: "kept = map snd m" and inv: "dedupe_inv rows m hidden"
    by (rule dedupe_inv_result)
  have keys: "map zoneIdentityKey kept = map fst m"
    using dedupe_inv_keys [OF inv] m by simp
  have pref: "preferred (zoneIdentityKey e) rows = Some e" if "e \<in> set kept" for e
  proof -
    from that m obtain k where "(k, e) \<in> set m" by auto
    with inv have "preferred k rows = Some e"
      by (auto simp: dedupe_inv_def dest: map_of_is_SomeI)
    then show ?thesis using preferred_key by blast
  qed
  have "distinct (map zoneIdentityKey kept)" using inv keys by (simp add: dedupe_inv_def)
  then have "distinct (map (\<lambda>r. (row_name r, row_horizon r)) kept)"
    by (auto simp: distinct_map inj_on_def zoneIdentityKey_eq)
  moreover have "\<exists>e \<in> set kept. row_name e = row_name r \<and> row_horizon e = row_horizon r"
    if r: "r \<in> set rows" for r
  proof -
    from r have "find (\<lambda>x. zoneIdentityKey x = zoneIdentityKey r) rows \<noteq> None"
      by (auto simp: find_None_ball)
    then have "preferred (zoneIdentityKey r) rows \<noteq> None"
      by (simp add: preferred_def split: option.splits)
    then obtain e where e: "preferred (zoneIdentityKey r) rows = Some e" by blast
    with inv have "map_of m (zoneIdentityKey r) = Some e" by (simp add: dedupe_inv_def)
    then have "e \<in> set kept" using m by (force dest: map_of_SomeD)
    with preferred_key [OF e] show ?thesis by (auto simp: zoneIdentityKey_eq)
  qed
  ultimately show ?thesis using inv m pref by (simp add: dedupe_inv_def)
qed

theorem dedupeZonesByIdentity_correct_witness:
  "\<exists>kept hidden. dedupeZonesByIdentity
     [\<lparr>row_name = ''a.'', row_horizon = Public, row_readOnly = Some True\<rparr>,
      \<lparr>row_name = ''a.'', row_horizon = Internal, row_readOnly = None\<rparr>,
      \<lparr>row_name = ''a.'', row_horizon = Public, row_readOnly = None\<rparr>] = (kept, hidden)
   \<and> length kept = 2 \<and> length hidden = 1
   \<and> distinct (map (\<lambda>r. (row_name r, row_horizon r)) kept)"
  using dedupeZonesByIdentity_correct
    [of "[\<lparr>row_name = ''a.'', row_horizon = Public, row_readOnly = Some True\<rparr>,
      \<lparr>row_name = ''a.'', row_horizon = Internal, row_readOnly = None\<rparr>,
      \<lparr>row_name = ''a.'', row_horizon = Public, row_readOnly = None\<rparr>]"]
  by (simp add: dedupeZonesByIdentity_def zoneIdentityKey_eq mirror_def)

end
