(* ===== verification/JsSort.thy ===== *)
theory JsSort
  imports Prelude "HOL-Library.Multiset" "HOL-Library.List_Lexorder" "HOL-Library.Char_ord"
begin

section \<open>Array.prototype.sort\<close>

text \<open>
  Sorting with a comparison function, as the stable insertion sort \<open>js_sort\<close>, and the locale of
  the comparison functions for which its result is determined by the elements alone.  The default
  comparison of JavaScript orders strings by their code units: \<open>unit_compare\<close>.
\<close>

fun insert_by :: "('a \<Rightarrow> 'a \<Rightarrow> int) \<Rightarrow> 'a \<Rightarrow> 'a list \<Rightarrow> 'a list" where
  "insert_by cmp x [] = [x]"
| "insert_by cmp x (y # ys) = (if cmp x y \<le> 0 then x # y # ys else y # insert_by cmp x ys)"

definition js_sort :: "('a \<Rightarrow> 'a \<Rightarrow> int) \<Rightarrow> 'a list \<Rightarrow> 'a list" where
  "js_sort cmp xs = foldr (insert_by cmp) xs []"

lemma mset_insert_by [simp]: "mset (insert_by cmp x xs) = add_mset x (mset xs)"
  by (induction xs) auto

lemma mset_js_sort [simp]: "mset (js_sort cmp xs) = mset xs"
  by (induction xs) (simp_all add: js_sort_def)

lemma set_js_sort [simp]: "set (js_sort cmp xs) = set xs"
  by (metis mset_js_sort set_mset_mset)

lemma js_sort_Cons: "js_sort cmp (x # xs) = insert_by cmp x (js_sort cmp xs)"
  by (simp add: js_sort_def)

lemma length_js_sort [simp]: "length (js_sort cmp xs) = length xs"
  by (metis mset_js_sort size_mset)

locale comparison =
  fixes cmp :: "'a \<Rightarrow> 'a \<Rightarrow> int"
  assumes cmp_total: "cmp x y \<le> 0 \<or> cmp y x \<le> 0"
    and cmp_trans: "cmp x y \<le> 0 \<Longrightarrow> cmp y z \<le> 0 \<Longrightarrow> cmp x z \<le> 0"
    and cmp_antisym: "cmp x y \<le> 0 \<Longrightarrow> cmp y x \<le> 0 \<Longrightarrow> x = y"
begin

abbreviation below :: "'a \<Rightarrow> 'a \<Rightarrow> bool" where
  "below x y \<equiv> cmp x y \<le> 0"

lemma insert_sorted: "sorted_wrt below xs \<Longrightarrow> sorted_wrt below (insert_by cmp x xs)"
proof (induction xs)
  case (Cons y ys)
  have set: "set (insert_by cmp x ys) = insert x (set ys)" by (metis mset_insert_by set_mset_add_mset_insert set_mset_mset)
  show ?case
  proof (cases "cmp x y \<le> 0")
    case True
    then show ?thesis using Cons.prems cmp_trans by auto
  next
    case False
    then have "cmp y x \<le> 0" using cmp_total by blast
    then show ?thesis using Cons False set by auto
  qed
qed simp

lemma js_sort_sorted: "sorted_wrt below (js_sort cmp xs)"
  by (induction xs) (auto simp: js_sort_def insert_sorted)

lemma sorted_unique:
  "sorted_wrt below xs \<Longrightarrow> sorted_wrt below ys \<Longrightarrow> mset xs = mset ys \<Longrightarrow> xs = ys"
proof (induction xs arbitrary: ys)
  case (Cons x xs)
  then obtain y ys' where ys: "ys = y # ys'" by (cases ys) auto
  have "x \<in> set ys" "y \<in> set (x # xs)" using Cons.prems(3) ys
    by (metis list.set_intros(1) set_mset_mset)+
  then have "x = y \<or> below y x" "x = y \<or> below x y" using Cons.prems(1,2) ys by auto
  then have "x = y" using cmp_antisym by blast
  then show ?case using Cons ys by simp
qed simp

text \<open>The result depends on the elements only, not on the order they come in.\<close>

lemma js_sort_unique: "js_sort cmp xs = js_sort cmp ys \<longleftrightarrow> mset xs = mset ys"
  by (metis js_sort_sorted mset_js_sort sorted_unique)

end

definition unit_compare :: "string \<Rightarrow> string \<Rightarrow> int" where
  "unit_compare a b = (if a < b then - 1 else if a = b then 0 else 1)"

interpretation units: comparison unit_compare
  by unfold_locales (auto simp: unit_compare_def split: if_splits)

lemma js_sort_units: "js_sort unit_compare xs = sort xs"
proof -
  have "sorted_wrt (\<lambda>x y. unit_compare x y \<le> 0) (sort xs)"
    by (rule sorted_wrt_mono_rel [OF _ sorted_sort]) (auto simp: unit_compare_def)
  then show ?thesis
    by (intro units.sorted_unique [OF units.js_sort_sorted]) simp_all
qed

end
