(* ===== verification/ZoneDiff.thy ===== *)
theory ZoneDiff
  imports ZoneNames JsSort
begin

section \<open>Comparing two copies of a zone by meaning\<close>

text \<open>
  Models \<open>lib/dns/txt.ts\<close> (the character-strings of a TXT value and their canonical
  presentation) and \<open>lib/pdns/zone-diff.ts\<close> (the record-level comparison of a primary and a
  secondary).  A scan over an index of the input is a recursion over what is left of it; \<open>sort\<close>
  on strings is the order of their code units, as JavaScript's default comparison.
\<close>

subsection \<open>txt.ts\<close>

definition three_digits :: "string \<Rightarrow> bool" where
  "three_digits s \<longleftrightarrow> 3 \<le> length s \<and> list_all is_digit (take 3 s)"

text \<open>
  The inner loop: the payload up to the closing quote, and the input after it; \<open>None\<close> when the
  closing quote is missing.
\<close>

function scan_quoted :: "string \<Rightarrow> (string \<times> string) option" where
  "scan_quoted [] = None"
| "scan_quoted (c # cs) =
     (if c = quote then Some ([], cs)
      else if c = backslash \<and> cs \<noteq> [] then
        (if three_digits cs \<and> nat_of_dec (take 3 cs) \<le> 255
         then map_option (\<lambda>(s, rest). (char_of (nat_of_dec (take 3 cs)) # s, rest))
                (scan_quoted (drop 3 cs))
         else map_option (\<lambda>(s, rest). (hd cs # s, rest)) (scan_quoted (tl cs)))
      else map_option (\<lambda>(s, rest). (c # s, rest)) (scan_quoted cs))"
  by pat_completeness auto
termination
  by (relation "measure length") (auto simp: less_Suc_eq_le)

lemma scan_quoted_shorter: "scan_quoted s = Some (p, rest) \<Longrightarrow> length rest < length s"
proof (induction s arbitrary: p rest rule: scan_quoted.induct)
  case (2 c cs)
  then show ?case
    by (fastforce split: if_splits)
qed simp

function quoted_loop :: "string \<Rightarrow> string list option" where
  "quoted_loop input =
     (case dropWhile is_ws input of
        [] \<Rightarrow> Some []
      | c # cs \<Rightarrow>
          if c \<noteq> quote then None
          else (case scan_quoted cs of
                  None \<Rightarrow> None
                | Some (s, rest) \<Rightarrow> map_option ((#) s) (quoted_loop rest)))"
  by pat_completeness auto
termination
proof (relation "measure length", goal_cases)
  case (2 input c cs q s rest)
  have "length (dropWhile is_ws input) \<le> length input" by (rule length_dropWhile_le)
  with 2 scan_quoted_shorter [of cs s rest] show ?case by simp
qed simp

declare quoted_loop.simps [simp del]

definition extractQuotedStrings :: "string \<Rightarrow> string list option" where
  "extractQuotedStrings input =
     (case quoted_loop input of None \<Rightarrow> None | Some out \<Rightarrow> if length out > 0 then Some out else None)"

definition octetLength :: "string \<Rightarrow> nat" where
  "octetLength s = sum_list (map (\<lambda>c. if code c < 128 then 1 else 2) s)"

text \<open>\<open>s.replace(/c/g, t)\<close> for a single character.\<close>

definition replace_char :: "char \<Rightarrow> string \<Rightarrow> string \<Rightarrow> string" where
  "replace_char c t s = concat (map (\<lambda>x. if x = c then t else [x]) s)"

definition escape_payload :: "string \<Rightarrow> string" where
  "escape_payload payload =
     replace_char quote [backslash, quote] (replace_char backslash [backslash, backslash] payload)"

definition canonicalTxtContent :: "string \<Rightarrow> string" where
  "canonicalTxtContent content =
     (let trimmed = js_trim content in
      case extractQuotedStrings trimmed of
        None \<Rightarrow> trimmed
      | Some strings \<Rightarrow> quote # escape_payload (concat strings) @ [quote])"

subsection \<open>zone-diff.ts\<close>

definition DNSSEC_GENERATED_TYPES :: "string list" where
  "DNSSEC_GENERATED_TYPES =
     [''RRSIG'', ''NSEC'', ''NSEC3'', ''NSEC3PARAM'', ''DNSKEY'', ''CDS'', ''CDNSKEY'']"

record diff_record =
  dr_content :: string
  dr_disabled :: "bool option"

record diff_rrset =
  df_name :: string
  df_type :: string
  df_ttl :: nat
  df_records :: "diff_record list"

record zone_diff =
  onlyOnPrimary :: "string list"
  onlyOnSecondary :: "string list"
  presignedRecords :: nat

text \<open>\<open>s.split(/\s+/)\<close>.\<close>

function split_ws :: "string \<Rightarrow> string list" where
  "split_ws s =
     (case dropWhile (\<lambda>c. \<not> is_ws c) s of
        [] \<Rightarrow> [s]
      | c # rest \<Rightarrow> takeWhile (\<lambda>c. \<not> is_ws c) s # split_ws (dropWhile is_ws rest))"
  by pat_completeness auto
termination
proof (relation "measure length", goal_cases)
  case (2 s c rest)
  have "length (dropWhile is_ws rest) \<le> length rest" by (rule length_dropWhile_le)
  moreover have "length (c # rest) \<le> length s" unfolding 2 [symmetric] by (rule length_dropWhile_le)
  ultimately show ?case by simp
qed simp

declare split_ws.simps [simp del]

definition maskSoaSerial :: "string \<Rightarrow> string" where
  "maskSoaSerial content =
     (let fields = split_ws (js_trim content) in
      if length fields \<noteq> 7 then content
      else join '' '' (fields[2 := ''<serial>'']))"

definition canonicalContentForCompare :: "string \<Rightarrow> string \<Rightarrow> string" where
  "canonicalContentForCompare type content =
     (let t = js_upper type in
      if t = ''TXT'' \<or> t = ''SPF'' then canonicalTxtContent content
      else if t = ''SOA'' then maskSoaSerial content
      else content)"

abbreviation tab :: char where "tab \<equiv> CHR 0x09"

definition record_line :: "diff_rrset \<Rightarrow> diff_record \<Rightarrow> string" where
  "record_line rr r =
     (if dr_disabled r = Some True then ''; DISABLED '' else []) @ df_name rr @ [tab]
       @ dec_of_nat (df_ttl rr) @ [tab] @ ''IN'' @ [tab] @ df_type rr @ [tab]
       @ canonicalContentForCompare (js_upper (df_type rr)) (dr_content r)"

definition lines_step :: "string list option \<Rightarrow> string list \<times> nat \<Rightarrow> diff_rrset \<Rightarrow> string list \<times> nat" where
  "lines_step skipTypes acc rr =
     (case acc of (ls, skipped) \<Rightarrow>
        (case skipTypes of
           Some ts \<Rightarrow>
             if js_upper (df_type rr) \<in> set ts then (ls, skipped + length (df_records rr))
             else (ls @ map (record_line rr) (df_records rr), skipped)
         | None \<Rightarrow> (ls @ map (record_line rr) (df_records rr), skipped)))"

definition rrsetsToCanonicalLines :: "diff_rrset list \<Rightarrow> string list option \<Rightarrow> string list \<times> nat" where
  "rrsetsToCanonicalLines rrsets skipTypes =
     (case foldl (lines_step skipTypes) ([], 0) rrsets of (ls, skipped) \<Rightarrow> (sort ls, skipped))"

definition diffZoneRecords :: "diff_rrset list \<Rightarrow> diff_rrset list \<Rightarrow> bool option \<Rightarrow> zone_diff" where
  "diffZoneRecords primary secondary signed =
     (let skip = (if signed = Some True then Some DNSSEC_GENERATED_TYPES else None);
          primaryLines = fst (rrsetsToCanonicalLines primary skip);
          sl = rrsetsToCanonicalLines secondary skip;
          secondaryLines = fst sl; skipped = snd sl
      in \<lparr>onlyOnPrimary = filter (\<lambda>l. l \<notin> set secondaryLines) primaryLines,
          onlyOnSecondary = filter (\<lambda>l. l \<notin> set primaryLines) secondaryLines,
          presignedRecords = skipped\<rparr>)"

subsection \<open>TXT values up to presentation\<close>

lemma replace_char_simps [simp]:
  "replace_char c t [] = []"
  "replace_char c t (x # s) = (if x = c then t else [x]) @ replace_char c t s"
  "replace_char c t (s @ u) = replace_char c t s @ replace_char c t u"
  by (simp_all add: replace_char_def)

lemma escape_payload_simps [simp]:
  "escape_payload [] = []"
  "escape_payload (c # s) =
     (if c = backslash then [backslash, backslash]
      else if c = quote then [backslash, quote] else [c]) @ escape_payload s"
  by (simp_all add: escape_payload_def)

lemma three_digits_hd: "\<not> is_digit c \<Longrightarrow> \<not> three_digits (c # s)"
  by (simp add: three_digits_def)

lemma scan_escaped: "scan_quoted (escape_payload p @ quote # rest) = Some (p, rest)"
proof (induction p)
  case (Cons c p)
  have "\<not> is_digit backslash" "\<not> is_digit quote" by (simp_all add: is_digit_def)
  then show ?case using Cons.IH by (auto simp: three_digits_hd)
qed simp

definition present_string :: "string \<Rightarrow> string" where
  "present_string s = quote # escape_payload s @ [quote]"

lemma quoted_loop_Nil: "list_all is_ws s \<Longrightarrow> quoted_loop s = Some []"
proof -
  assume "list_all is_ws s"
  then have "dropWhile is_ws s = []" by (simp add: list_all_iff dropWhile_eq_Nil_conv)
  then show ?thesis by (subst quoted_loop.simps) (simp only: list.case)
qed

lemma dropWhile_ws_prefix: "list_all is_ws ws \<Longrightarrow> \<not> is_ws c \<Longrightarrow> dropWhile is_ws (ws @ c # s) = c # s"
  by (induction ws) auto

lemma not_ws_quote [simp]: "\<not> is_ws quote"
  by (simp add: is_ws_def)

lemma quoted_loop_present:
  "list_all is_ws ws \<Longrightarrow>
   quoted_loop (ws @ present_string s @ rest) = map_option ((#) s) (quoted_loop rest)"
  by (subst quoted_loop.simps)
     (simp add: present_string_def dropWhile_ws_prefix scan_escaped)

text \<open>A value written as the given character-strings, separated by any white space.\<close>

fun present_strings :: "(string \<times> string) list \<Rightarrow> string" where
  "present_strings [] = []"
| "present_strings ((ws, s) # cs) = ws @ present_string s @ present_strings cs"

lemma quoted_loop_strings:
  "list_all (\<lambda>(ws, s). list_all is_ws ws) cs \<Longrightarrow> quoted_loop (present_strings cs) = Some (map snd cs)"
proof (induction cs)
  case (Cons a cs)
  then show ?case by (cases a) (simp add: quoted_loop_present)
qed (simp add: quoted_loop_Nil)

lemma trim_present_strings:
  assumes "cs \<noteq> []" "list_all (\<lambda>(ws, s). list_all is_ws ws) cs"
  shows "js_trim (present_strings cs) = present_strings (([], snd (hd cs)) # tl cs)"
proof -
  obtain ws s cs' where cs: "cs = (ws, s) # cs'" using assms(1) by (cases cs) auto
  have last: "\<exists>u. present_strings ds = u @ [quote]" if "ds \<noteq> []" for ds
    using that
  proof (induction ds)
    case (Cons d ds)
    show ?case
    proof (cases "ds = []")
      case True
      then show ?thesis by (cases d) (simp add: present_string_def)
    next
      case False
      then obtain u where "present_strings ds = u @ [quote]" using Cons.IH by blast
      then show ?thesis by (cases d) simp
    qed
  qed simp
  obtain u where u: "present_strings (([], s) # cs') = u @ [quote]" using last by blast
  have q: "present_strings (([], s) # cs') = quote # (escape_payload s @ quote # present_strings cs')"
    by (simp add: present_string_def)
  have "list_all is_ws ws" using assms(2) cs by simp
  then have "dropWhile is_ws (present_strings cs) = present_strings (([], s) # cs')"
    using q by (simp add: cs present_string_def dropWhile_ws_prefix)
  then show ?thesis using u by (simp add: js_trim_def cs del: present_strings.simps)
qed

lemma canonicalTxt_strings:
  assumes "cs \<noteq> []" "list_all (\<lambda>(ws, s). list_all is_ws ws) cs"
  shows "extractQuotedStrings (js_trim (present_strings cs)) = Some (map snd cs)"
    and "canonicalTxtContent (present_strings cs) = present_string (concat (map snd cs))"
proof -
  have "list_all (\<lambda>(ws, s). list_all is_ws ws) (([], snd (hd cs)) # tl cs)"
    using assms by (cases cs) auto
  from quoted_loop_strings [OF this]
  have "quoted_loop (js_trim (present_strings cs)) = Some (map snd cs)"
    unfolding trim_present_strings [OF assms] using assms(1) by (cases cs) simp_all
  then show e: "extractQuotedStrings (js_trim (present_strings cs)) = Some (map snd cs)"
    using assms(1) by (simp add: extractQuotedStrings_def)
  show "canonicalTxtContent (present_strings cs) = present_string (concat (map snd cs))"
    by (simp add: canonicalTxtContent_def Let_def e present_string_def)
qed

lemma extract_trim_present [simp]: "extractQuotedStrings (js_trim (present_string s)) = Some [s]"
  using canonicalTxt_strings(1) [of "[([], s)]"] by simp

lemma present_string_inject [simp]: "present_string s = present_string t \<longleftrightarrow> s = t"
  by (metis extract_trim_present list.inject option.inject)

lemma canonicalTxt_alt:
  "canonicalTxtContent c = (case extractQuotedStrings (js_trim c) of
     None \<Rightarrow> js_trim c | Some strings \<Rightarrow> present_string (concat strings))"
  by (simp add: canonicalTxtContent_def Let_def present_string_def split: option.splits)

lemma canonicalTxt_idem: "canonicalTxtContent (canonicalTxtContent c) = canonicalTxtContent c"
proof (cases "extractQuotedStrings (js_trim c)")
  case None
  then show ?thesis by (simp add: canonicalTxt_alt)
next
  case (Some strings)
  then show ?thesis by (simp add: canonicalTxt_alt)
qed

interpretation txtval: canonical_form canonicalTxtContent
  by unfold_locales (rule canonicalTxt_idem)

lemma canonicalTxt_eq_iff:
  "canonicalTxtContent a = canonicalTxtContent b \<longleftrightarrow>
     (case (extractQuotedStrings (js_trim a), extractQuotedStrings (js_trim b)) of
        (Some xs, Some ys) \<Rightarrow> concat xs = concat ys
      | (None, None) \<Rightarrow> js_trim a = js_trim b
      | _ \<Rightarrow> False)"
proof -
  have "present_string s \<noteq> js_trim c" if "extractQuotedStrings (js_trim c) = None" for s c
  proof
    assume "present_string s = js_trim c"
    then have "js_trim (present_string s) = js_trim c" by simp
    with that show False using extract_trim_present [of s] by simp
  qed
  then show ?thesis
    by (auto simp: canonicalTxt_alt dest: sym split: option.split)
qed

text \<open>
  Two TXT values compare equal exactly when they carry the same payload: if both parse as
  character-strings, when the concatenated strings agree, however they are split, spaced or
  escaped; a value that does not parse compares by its trimmed text and never equals one that
  does.  Writing any list of strings in presentation form reads back as that list.
\<close>

theorem canonicalTxtContent_correct:
  "(canonicalTxtContent a = canonicalTxtContent b \<longleftrightarrow>
     (case (extractQuotedStrings (js_trim a), extractQuotedStrings (js_trim b)) of
        (Some xs, Some ys) \<Rightarrow> concat xs = concat ys
      | (None, None) \<Rightarrow> js_trim a = js_trim b
      | _ \<Rightarrow> False))
   \<and> extractQuotedStrings (js_trim (present_strings (map (Pair '' '') (s # ss)))) = Some (s # ss)"
proof -
  have "map snd (map (Pair '' '') (s # ss)) = s # ss" by (simp add: comp_def)
  moreover have "list_all (\<lambda>(ws, s). list_all is_ws ws) (map (Pair '' '') (s # ss))"
    by (simp add: list_all_iff is_ws_def)
  ultimately show ?thesis
    using canonicalTxt_strings(1) [of "map (Pair '' '') (s # ss)"] canonicalTxt_eq_iff by simp
qed

subsection \<open>SOA lines with the serial masked\<close>

lemma split_ws_no: "list_all (\<lambda>c. \<not> is_ws c) s \<Longrightarrow> split_ws s = [s]"
proof -
  assume "list_all (\<lambda>c. \<not> is_ws c) s"
  then have "dropWhile (\<lambda>c. \<not> is_ws c) s = []" by (simp add: list_all_iff dropWhile_eq_Nil_conv)
  then show ?thesis by (subst split_ws.simps) (simp only: list.case)
qed

lemma split_ws_step:
  assumes "list_all (\<lambda>c. \<not> is_ws c) w" "is_ws c" "rest = [] \<or> \<not> is_ws (hd rest)"
  shows "split_ws (w @ c # rest) = w # split_ws rest"
proof -
  have w: "\<And>x. x \<in> set w \<Longrightarrow> \<not> is_ws x" using assms(1) by (simp add: list_all_iff)
  have "dropWhile (\<lambda>c. \<not> is_ws c) (w @ c # rest) = c # rest"
    using w assms(2) by (simp add: dropWhile_append2)
  moreover have "takeWhile (\<lambda>c. \<not> is_ws c) (w @ c # rest) = w"
    using w assms(2) by (simp add: takeWhile_append2)
  moreover have "dropWhile is_ws rest = rest"
    using assms(3) by (auto intro: dropWhile_id_hd)
  ultimately show ?thesis by (subst split_ws.simps) simp
qed

definition plain_word :: "string \<Rightarrow> bool" where
  "plain_word w \<longleftrightarrow> w \<noteq> [] \<and> list_all (\<lambda>c. \<not> is_ws c) w"

lemma hd_join_word: "list_all plain_word ws \<Longrightarrow> ws \<noteq> [] \<Longrightarrow>
    join '' '' ws \<noteq> [] \<and> \<not> is_ws (hd (join '' '' ws)) \<and> \<not> is_ws (last (join '' '' ws))"
proof (induction ws)
  case (Cons w ws)
  then show ?case
    by (cases ws) (auto simp: plain_word_def list_all_iff hd_append last_append)
qed simp

lemma split_ws_join: "list_all plain_word ws \<Longrightarrow> ws \<noteq> [] \<Longrightarrow> split_ws (join '' '' ws) = ws"
proof (induction ws)
  case (Cons w ws)
  show ?case
  proof (cases "ws = []")
    case True
    with Cons.prems show ?thesis by (simp add: plain_word_def split_ws_no)
  next
    case False
    have sp: "is_ws (CHR '' '')" by (simp add: is_ws_def)
    have w: "list_all (\<lambda>c. \<not> is_ws c) w" using Cons.prems by (simp add: plain_word_def)
    have h: "join '' '' ws = [] \<or> \<not> is_ws (hd (join '' '' ws))"
      using hd_join_word [of ws] Cons.prems False by simp
    have "split_ws (w @ CHR '' '' # join '' '' ws) = w # split_ws (join '' '' ws)"
      by (rule split_ws_step [OF w sp h])
    with Cons False show ?thesis by (simp add: join_Cons)
  qed
qed simp

lemma trim_join_words: "list_all plain_word ws \<Longrightarrow> js_trim (join '' '' ws) = join '' '' ws"
  using hd_join_word [of ws] by (cases "ws = []") (auto intro: js_trim_id)

text \<open>Two SOA contents that differ in the serial only.\<close>

lemma maskSoaSerial_join:
  assumes "list_all plain_word ws" "length ws = 7"
  shows "maskSoaSerial (join '' '' ws) = join '' '' (ws[2 := ''<serial>''])"
proof -
  have "ws \<noteq> []" using assms(2) by auto
  then show ?thesis
    by (simp add: maskSoaSerial_def trim_join_words [OF assms(1)] split_ws_join [OF assms(1)] assms(2))
qed

lemma maskSoaSerial_eq_iff:
  assumes "list_all plain_word ws" "length ws = 7" "list_all plain_word vs" "length vs = 7"
  shows "maskSoaSerial (join '' '' ws) = maskSoaSerial (join '' '' vs)
     \<longleftrightarrow> ws[2 := ''<serial>''] = vs[2 := ''<serial>'']"
proof -
  have p: "plain_word ''<serial>''" by (simp add: plain_word_def is_ws_def)
  have "list_all plain_word (us[2 := ''<serial>''])" if "list_all plain_word us" for us
    using that p by (auto simp: list_all_iff dest!: set_update_subset_insert [THEN subsetD])
  moreover have "us[2 := ''<serial>''] \<noteq> []" if "length us = 7" for us :: "string list"
    using that by auto
  ultimately have "split_ws (join '' '' (ws[2 := ''<serial>''])) = ws[2 := ''<serial>'']"
    "split_ws (join '' '' (vs[2 := ''<serial>''])) = vs[2 := ''<serial>'']"
    using assms by (simp_all add: split_ws_join)
  then show ?thesis
    unfolding maskSoaSerial_join [OF assms(1,2)] maskSoaSerial_join [OF assms(3,4)] by metis
qed

text \<open>
  The serial and nothing else is masked in an SOA record: two SOA contents of seven fields
  compare equal exactly when they agree on every field but the third.
\<close>

theorem soa_compare_ignores_serial_only:
  assumes "list_all plain_word ws" "length ws = 7" "list_all plain_word vs" "length vs = 7"
  shows "canonicalContentForCompare ''soa'' (join '' '' ws)
       = canonicalContentForCompare ''soa'' (join '' '' vs)
     \<longleftrightarrow> (\<forall>i < 7. i \<noteq> 2 \<longrightarrow> ws ! i = vs ! i)"
proof -
  have u: "js_upper ''soa'' = ''SOA''" by code_simp
  have "ws[2 := ''<serial>''] = vs[2 := ''<serial>''] \<longleftrightarrow> (\<forall>i < 7. i \<noteq> 2 \<longrightarrow> ws ! i = vs ! i)"
    using assms(2,4) by (auto simp: list_eq_iff_nth_eq nth_list_update)
  then show ?thesis
    using maskSoaSerial_eq_iff [OF assms] by (simp add: canonicalContentForCompare_def u)
qed

definition demo_soa :: "string \<Rightarrow> string list" where
  "demo_soa serial = [''ns1.example.'', ''host.example.'', serial, ''3600'', ''600'', ''86400'', ''300'']"

theorem soa_compare_ignores_serial_only_witness:
  "canonicalContentForCompare ''soa'' (join '' '' (demo_soa ''2024010101''))
     = canonicalContentForCompare ''soa'' (join '' '' (demo_soa ''2024010102''))"
proof -
  have w: "list_all plain_word (demo_soa ''2024010101'')" "list_all plain_word (demo_soa ''2024010102'')"
    by code_simp+
  have l: "length (demo_soa s) = 7" for s by (simp add: demo_soa_def)
  have "\<forall>i < 7. i \<noteq> 2 \<longrightarrow> demo_soa ''2024010101'' ! i = demo_soa ''2024010102'' ! i"
    by (simp add: demo_soa_def All_less_Suc eval_nat_numeral nth_Cons split: nat.split)
  then show ?thesis
    using soa_compare_ignores_serial_only [OF w(1) l w(2) l] by blast
qed

subsection \<open>The lines of a zone and the diff\<close>

definition skipped_type :: "string list option \<Rightarrow> diff_rrset \<Rightarrow> bool" where
  "skipped_type skip rr \<longleftrightarrow> (\<exists>ts. skip = Some ts \<and> js_upper (df_type rr) \<in> set ts)"

lemma lines_fold:
  "foldl (lines_step skip) (ls, n) rrs =
     (ls @ concat (map (\<lambda>rr. map (record_line rr) (df_records rr)) (filter (\<lambda>rr. \<not> skipped_type skip rr) rrs)),
      n + sum_list (map (\<lambda>rr. length (df_records rr)) (filter (skipped_type skip) rrs)))"
proof (induction rrs arbitrary: ls n)
  case (Cons rr rrs)
  then show ?case
    by (cases skip) (simp_all add: lines_step_def skipped_type_def)
qed simp

lemma canonical_lines_set:
  "set (fst (rrsetsToCanonicalLines rrs skip)) =
     (\<Union>rr \<in> {rr \<in> set rrs. \<not> skipped_type skip rr}. record_line rr ` set (df_records rr))"
  by (simp add: rrsetsToCanonicalLines_def lines_fold)

text \<open>What one record says, apart from how it is presented.\<close>

type_synonym record_meaning = "bool \<times> string \<times> nat \<times> string \<times> string"

definition meaning :: "diff_rrset \<Rightarrow> diff_record \<Rightarrow> record_meaning" where
  "meaning rr r = (dr_disabled r = Some True, df_name rr, df_ttl rr, df_type rr,
     canonicalContentForCompare (js_upper (df_type rr)) (dr_content r))"

definition zone_meaning :: "string list option \<Rightarrow> diff_rrset list \<Rightarrow> record_meaning set" where
  "zone_meaning skip rrs =
     (\<Union>rr \<in> {rr \<in> set rrs. \<not> skipped_type skip rr}. meaning rr ` set (df_records rr))"

definition plain_rrset :: "diff_rrset \<Rightarrow> bool" where
  "plain_rrset rr \<longleftrightarrow> tab \<notin> set (df_name rr) \<and> CHR '';'' \<notin> set (df_name rr) \<and> tab \<notin> set (df_type rr)"

lemma append_sep_eq: "d \<notin> set a \<Longrightarrow> d \<notin> set b \<Longrightarrow> a @ d # x = b @ d # y \<longleftrightarrow> a = b \<and> x = y"
  by (induction a arbitrary: b) (case_tac [!] b, auto)

lemma tab_not_digit [simp]: "tab \<notin> set (dec_of_nat n)"
  by (rule dec_no_char) (simp add: is_digit_def)

lemma record_line_eq_iff:
  assumes "plain_rrset rr" "plain_rrset ss"
  shows "record_line rr r = record_line ss q \<longleftrightarrow> meaning rr r = meaning ss q"
proof -
  let ?body = "\<lambda>rr r. df_name rr @ tab # dec_of_nat (df_ttl rr) @ tab # ''IN'' @ tab # df_type rr
      @ tab # canonicalContentForCompare (js_upper (df_type rr)) (dr_content r)"
  let ?mark = "\<lambda>r. if dr_disabled r = Some True then ''; DISABLED '' else []"
  have line: "record_line rr r = ?mark r @ ?body rr r" for rr r
    by (simp add: record_line_def)
  have no: "hd (?body rr r) \<noteq> CHR '';''" if "plain_rrset rr" for rr r
    using that by (cases "df_name rr") (auto simp: plain_rrset_def)
  have "?mark r @ ?body rr r = ?mark q @ ?body ss q \<longleftrightarrow>
      (dr_disabled r = Some True \<longleftrightarrow> dr_disabled q = Some True) \<and> ?body rr r = ?body ss q"
    using no [OF assms(1), of r] no [OF assms(2), of q]
    by (cases "dr_disabled r = Some True"; cases "dr_disabled q = Some True") (auto dest: sym)
  moreover have "?body rr r = ?body ss q \<longleftrightarrow> snd (meaning rr r) = snd (meaning ss q)"
    using assms dec_of_nat_inject [of "df_ttl rr" "df_ttl ss"]
    by (auto simp: append_sep_eq plain_rrset_def meaning_def)
  ultimately show ?thesis unfolding line by (auto simp: meaning_def)
qed

lemma lines_meaning:
  assumes "list_all plain_rrset ps" "list_all plain_rrset ss"
  shows "set (fst (rrsetsToCanonicalLines ps skip)) \<subseteq> set (fst (rrsetsToCanonicalLines ss skip))
     \<longleftrightarrow> zone_meaning skip ps \<subseteq> zone_meaning skip ss"
proof -
  let ?in = "\<lambda>rrs. {(rr, r). rr \<in> set rrs \<and> \<not> skipped_type skip rr \<and> r \<in> set (df_records rr)}"
  have l: "set (fst (rrsetsToCanonicalLines rrs skip)) = (\<lambda>(rr, r). record_line rr r) ` ?in rrs"
    and m: "zone_meaning skip rrs = (\<lambda>(rr, r). meaning rr r) ` ?in rrs" for rrs
    unfolding canonical_lines_set zone_meaning_def by auto
  have eq: "(record_line (fst x) (snd x) = record_line (fst y) (snd y)) =
      (meaning (fst x) (snd x) = meaning (fst y) (snd y))" if "x \<in> ?in ps" "y \<in> ?in ss" for x y
    by (rule record_line_eq_iff) (use that assms in \<open>auto simp: list_all_iff\<close>)
  show ?thesis
    unfolding l m image_subset_iff image_iff using eq by (simp add: case_prod_beta)
qed

lemma diff_empty:
  "onlyOnPrimary (diffZoneRecords ps ss signed) = [] \<longleftrightarrow>
     set (fst (rrsetsToCanonicalLines ps (if signed = Some True then Some DNSSEC_GENERATED_TYPES else None)))
     \<subseteq> set (fst (rrsetsToCanonicalLines ss (if signed = Some True then Some DNSSEC_GENERATED_TYPES else None)))"
  "onlyOnSecondary (diffZoneRecords ps ss signed) = [] \<longleftrightarrow>
     set (fst (rrsetsToCanonicalLines ss (if signed = Some True then Some DNSSEC_GENERATED_TYPES else None)))
     \<subseteq> set (fst (rrsetsToCanonicalLines ps (if signed = Some True then Some DNSSEC_GENERATED_TYPES else None)))"
  by (auto simp: diffZoneRecords_def Let_def filter_empty_conv)


definition demo_txt :: "string list \<Rightarrow> diff_rrset list" where
  "demo_txt strings = [\<lparr>df_name = ''a.example.'', df_type = ''TXT'', df_ttl = 60,
     df_records = [\<lparr>dr_content = present_strings (map (Pair '' '') strings), dr_disabled = None\<rparr>]\<rparr>]"


end
