(* ===== verification/Zonefile.thy ===== *)
theory Zonefile
  imports ZoneDiff
begin

section \<open>Zone files: printing and reading\<close>

text \<open>
  \<open>lib/dns/zonefile.ts\<close> prints a zone as a master file and \<open>lib/dns/zonefile-parser.ts\<close> reads one or
  more zones from such a file.  The scanner of a line is one transition per character over the state
  the code keeps (\<open>scan_char\<close>), the physical lines are joined into logical ones by \<open>join_line\<close>, and
  each logical line is a step over the parser's state.  \<open>localeCompare\<close> is a parameter.  The numbers
  of the file are natural numbers: above \<open>2^53\<close> the code rounds them to doubles.
\<close>

abbreviation LF :: char where "LF \<equiv> CHR 0x0A"
abbreviation CR :: char where "CR \<equiv> CHR 0x0D"
abbreviation SPACE :: char where "SPACE \<equiv> CHR 0x20"
abbreviation QUOTE :: char where "QUOTE \<equiv> CHR 0x22"
abbreviation BACKSLASH :: char where "BACKSLASH \<equiv> CHR 0x5C"

text \<open>\<open>s.split(/\r?\n/)\<close>, \<open>s.split(/\s+/)\<close>, \<open>s.padEnd(n)\<close>.\<close>

fun split_lines :: "string \<Rightarrow> string list" where
  "split_lines [] = [[]]"
| "split_lines (c # cs) =
     (if c = LF then [] # split_lines cs
      else if c = CR \<and> cs \<noteq> [] \<and> hd cs = LF then split_lines cs
      else (case split_lines cs of [] \<Rightarrow> [[c]] | p # ps \<Rightarrow> (c # p) # ps))"

lemma split_ws_no_ws: "w \<in> set (split_ws s) \<Longrightarrow> c \<in> set w \<Longrightarrow> \<not> is_ws c"
proof (induction s arbitrary: w rule: split_ws.induct)
  case (1 s)
  show ?case
  proof (cases "dropWhile (\<lambda>c. \<not> is_ws c) s")
    case Nil
    then have "w = s" using 1(2) by (subst (asm) split_ws.simps) (simp only: list.case set_simps singleton_iff)
    moreover from Nil have "\<forall>c \<in> set s. \<not> is_ws c" by simp
    ultimately show ?thesis using 1(3) by simp
  next
    case (Cons d rest)
    then have "w = takeWhile (\<lambda>c. \<not> is_ws c) s \<or> w \<in> set (split_ws (dropWhile is_ws rest))"
      using 1(2) by (subst (asm) split_ws.simps) (simp only: list.case set_simps insert_iff)
    then show ?thesis using 1(1) [OF Cons _ 1(3)] 1(3) by (auto dest: set_takeWhileD)
  qed
qed

definition padEnd :: "nat \<Rightarrow> string \<Rightarrow> string" where
  "padEnd n s = s @ replicate (n - length s) SPACE"

subsection \<open>zonefile.ts\<close>

record zonefile_record =
  zf_content :: string
  zf_disabled :: bool

record zonefile_rrset =
  zf_name :: string
  zf_type :: string
  zf_ttl :: nat
  zf_records :: "zonefile_record list"

record serialize_input =
  si_zoneName :: string
  si_rrsets :: "zonefile_rrset list"
  si_defaultTtl :: "nat option"
  si_headerComments :: "string list"

definition ensureTrailingDot_zf :: "string \<Rightarrow> string" where
  "ensureTrailingDot_zf s = (if ends_with s ''.'' then s else s @ ''.'')"

definition relativise :: "string \<Rightarrow> string \<Rightarrow> string" where
  "relativise owner origin =
     (if owner = origin then ''@''
      else if ends_with owner (''.'' @ origin) then take (length owner - (length origin + 1)) owner
      else ensureTrailingDot_zf owner)"

definition ttl_counts :: "zonefile_rrset list \<Rightarrow> (nat \<times> nat) list" where
  "ttl_counts rrsets =
     foldl (\<lambda>counts rr. AList.update (zf_ttl rr) ((case map_of counts (zf_ttl rr) of Some n \<Rightarrow> n | None \<Rightarrow> 0) + 1) counts)
       [] rrsets"

definition most_used :: "nat \<times> nat \<Rightarrow> nat \<times> nat \<Rightarrow> nat \<times> nat" where
  "most_used best tc = (if snd tc > snd best then tc else best)"

definition pickDefaultTtl :: "zonefile_rrset list \<Rightarrow> nat option \<Rightarrow> nat" where
  "pickDefaultTtl rrsets override =
     (if (case override of Some n \<Rightarrow> n > 0 | None \<Rightarrow> False) then the override
      else case rrsets of
        [] \<Rightarrow> 3600
      | rr # _ \<Rightarrow> fst (foldl most_used (zf_ttl rr, 0) (ttl_counts rrsets)))"

definition sortRrsets :: "(string \<Rightarrow> string \<Rightarrow> int) \<Rightarrow> zonefile_rrset list \<Rightarrow> zonefile_rrset list" where
  "sortRrsets localeCompare rrsets =
     (let apexSoa = filter (\<lambda>r. zf_type r = ''SOA'') rrsets;
          apexNs = filter (\<lambda>r. zf_type r = ''NS'') rrsets;
          others = js_sort (\<lambda>a b. if localeCompare (zf_name a) (zf_name b) \<noteq> 0
                                  then localeCompare (zf_name a) (zf_name b)
                                  else localeCompare (zf_type a) (zf_type b))
                     (filter (\<lambda>r. zf_type r \<noteq> ''SOA'' \<and> zf_type r \<noteq> ''NS'') rrsets)
      in apexSoa @ js_sort (\<lambda>a b. localeCompare (zf_name a) (zf_name b)) apexNs @ others)"

definition formatSoa :: "string \<Rightarrow> string" where
  "formatSoa content =
     (let parts = split_ws (js_trim content) in
      if length parts \<noteq> 7 then content
      else join [LF]
        [parts ! 0 @ '' '' @ parts ! 1 @ '' ('',
         ''    '' @ padEnd 11 (parts ! 2) @ '' ; serial'',
         ''    '' @ padEnd 11 (parts ! 3) @ '' ; refresh'',
         ''    '' @ padEnd 11 (parts ! 4) @ '' ; retry'',
         ''    '' @ padEnd 11 (parts ! 5) @ '' ; expire'',
         ''    '' @ padEnd 11 (parts ! 6) @ '' ; minimum'',
         '')''])"

definition escape_with :: "char \<Rightarrow> string \<Rightarrow> string" where
  "escape_with d s = concat (map (\<lambda>c. if c = d then [BACKSLASH, c] else [c]) s)"

definition formatTxt :: "string \<Rightarrow> string" where
  "formatTxt content =
     (if starts_with content [QUOTE] \<and> ends_with content [QUOTE] then content
      else [QUOTE] @ escape_with QUOTE (escape_with BACKSLASH content) @ [QUOTE])"

definition formatRdata :: "string \<Rightarrow> string \<Rightarrow> string" where
  "formatRdata type content =
     (if type = ''SOA'' then formatSoa content
      else if type = ''TXT'' then formatTxt content
      else content)"

definition DISABLED_PREFIX :: string where
  "DISABLED_PREFIX = ''; (disabled) ''"

definition record_lines :: "zonefile_rrset \<Rightarrow> string \<Rightarrow> nat \<Rightarrow> zonefile_record \<Rightarrow> string list" where
  "record_lines rr origin defaultTtl r =
     (let owner = relativise (zf_name rr) origin;
          ttl = (if zf_ttl rr = defaultTtl then [] else dec_of_nat (zf_ttl rr));
          ownerCol = padEnd 20 owner;
          ttlCol = padEnd 8 ttl;
          typeCol = padEnd 8 (zf_type rr);
          prefix = (if zf_disabled r then DISABLED_PREFIX else []);
          rdata = formatRdata (zf_type rr) (zf_content r)
      in if zf_type rr = ''SOA'' \<and> LF \<in> set rdata then
           (prefix @ ownerCol @ ttlCol @ ''IN      '' @ typeCol @ hd (split_on LF rdata))
             # map (\<lambda>l. prefix @ replicate 28 SPACE @ l) (tl (split_on LF rdata))
         else [prefix @ ownerCol @ ttlCol @ ''IN      '' @ typeCol @ rdata])"

definition serializeRRSet :: "zonefile_rrset \<Rightarrow> string \<Rightarrow> nat \<Rightarrow> string list" where
  "serializeRRSet rr origin defaultTtl = concat (map (record_lines rr origin defaultTtl) (zf_records rr))"

definition header_lines :: "serialize_input \<Rightarrow> string list" where
  "header_lines inp = concat (map (\<lambda>c. map (\<lambda>sub. ''; '' @ sub) (split_lines c)) (si_headerComments inp))"

definition zonefile_lines :: "(string \<Rightarrow> string \<Rightarrow> int) \<Rightarrow> serialize_input \<Rightarrow> string list" where
  "zonefile_lines localeCompare inp =
     (let origin = ensureTrailingDot_zf (si_zoneName inp);
          defaultTtl = pickDefaultTtl (si_rrsets inp) (si_defaultTtl inp)
      in header_lines inp @ [''$TTL '' @ dec_of_nat defaultTtl, ''$ORIGIN '' @ origin, []]
         @ concat (map (\<lambda>rr. serializeRRSet rr origin defaultTtl) (sortRrsets localeCompare (si_rrsets inp))))"

definition serializeZonefile :: "(string \<Rightarrow> string \<Rightarrow> int) \<Rightarrow> serialize_input \<Rightarrow> string" where
  "serializeZonefile localeCompare inp = join [LF] (zonefile_lines localeCompare inp) @ [LF]"

subsection \<open>The scanner of zonefile-parser.ts\<close>

record scan_state =
  sc_fields :: "string list"
  sc_field :: string
  sc_inQuotes :: bool
  sc_escaped :: bool
  sc_depth :: nat

definition flush :: "scan_state \<Rightarrow> scan_state" where
  "flush s = (if length (sc_field s) > 0 then s\<lparr>sc_fields := sc_fields s @ [sc_field s], sc_field := []\<rparr> else s)"

definition add_char :: "char \<Rightarrow> scan_state \<Rightarrow> scan_state" where
  "add_char c s = s\<lparr>sc_field := sc_field s @ [c]\<rparr>"

definition is_blank :: "char \<Rightarrow> bool" where
  "is_blank c \<longleftrightarrow> c = SPACE \<or> c = CHR 0x09 \<or> c = CHR 0x0C \<or> c = CHR 0x0B"

text \<open>\<open>None\<close> is the \<open>break\<close> at a comment.\<close>

definition scan_char :: "char \<Rightarrow> scan_state \<Rightarrow> scan_state option" where
  "scan_char c s =
     (if sc_escaped s then Some ((add_char c s)\<lparr>sc_escaped := False\<rparr>)
      else if c = BACKSLASH then Some ((add_char c s)\<lparr>sc_escaped := True\<rparr>)
      else if c = QUOTE then Some ((add_char c s)\<lparr>sc_inQuotes := \<not> sc_inQuotes s\<rparr>)
      else if sc_inQuotes s then Some (add_char c s)
      else if c = CHR '';'' then None
      else if c = CHR ''('' then Some (flush (s\<lparr>sc_depth := sc_depth s + 1\<rparr>))
      else if c = CHR '')'' then Some (flush (s\<lparr>sc_depth := sc_depth s - 1\<rparr>))
      else if is_blank c then Some (flush s)
      else Some (add_char c s))"

fun scan_chars :: "string \<Rightarrow> scan_state \<Rightarrow> scan_state" where
  "scan_chars [] s = s"
| "scan_chars (c # cs) s = (case scan_char c s of None \<Rightarrow> s | Some s' \<Rightarrow> scan_chars cs s')"

definition scan_start :: "nat \<Rightarrow> scan_state" where
  "scan_start parenDepth =
     \<lparr>sc_fields = [], sc_field = [], sc_inQuotes = False, sc_escaped = False, sc_depth = parenDepth\<rparr>"

record scanned_line =
  sl_fields :: "string list"
  sl_parenDepth :: nat
  sl_unterminatedQuote :: bool
  sl_leadingWhitespace :: bool

definition scanLine :: "string \<Rightarrow> nat \<Rightarrow> scanned_line" where
  "scanLine line parenDepth =
     (let s = flush (scan_chars line (scan_start parenDepth)) in
      \<lparr>sl_fields = sc_fields s, sl_parenDepth = sc_depth s, sl_unterminatedQuote = sc_inQuotes s,
       sl_leadingWhitespace = (line \<noteq> [] \<and> is_blank (hd line))\<rparr>)"

subsection \<open>Logical lines\<close>

datatype diag_level = DiagError | DiagWarning

record parse_diagnostic =
  pd_line :: nat
  pd_level :: diag_level
  pd_message :: string

record logical_line =
  ll_line :: nat
  ll_fields :: "string list"
  ll_leadingWhitespace :: bool

record join_state =
  jn_lines :: "logical_line list"
  jn_buffer :: "string list"
  jn_start :: nat
  jn_leading :: bool
  jn_depth :: nat
  jn_diags :: "parse_diagnostic list"

definition join_start :: join_state where
  "join_start = \<lparr>jn_lines = [], jn_buffer = [], jn_start = 0, jn_leading = False, jn_depth = 0, jn_diags = []\<rparr>"

definition parse_error :: "nat \<Rightarrow> string \<Rightarrow> parse_diagnostic" where
  "parse_error line message = \<lparr>pd_line = line, pd_level = DiagError, pd_message = message\<rparr>"

definition parse_warning :: "nat \<Rightarrow> string \<Rightarrow> parse_diagnostic" where
  "parse_warning line message = \<lparr>pd_line = line, pd_level = DiagWarning, pd_message = message\<rparr>"

definition unterminated_quote :: "nat \<Rightarrow> parse_diagnostic" where
  "unterminated_quote line =
     parse_error line ''Unterminated quoted string (a character-string cannot span lines).''"

definition join_line :: "join_state \<Rightarrow> nat \<times> string \<Rightarrow> join_state" where
  "join_line st il =
     (let scanned = scanLine (snd il) (jn_depth st);
          st1 = st\<lparr>jn_depth := sl_parenDepth scanned,
                   jn_diags := jn_diags st
                     @ (if sl_unterminatedQuote scanned then [unterminated_quote (fst il + 1)] else [])\<rparr>
      in if sl_parenDepth scanned = 0 then
           (if length (jn_buffer st) > 0 then
              st1\<lparr>jn_lines := jn_lines st @ [\<lparr>ll_line = jn_start st, ll_fields = jn_buffer st @ sl_fields scanned,
                                              ll_leadingWhitespace = jn_leading st\<rparr>],
                  jn_buffer := []\<rparr>
            else if length (sl_fields scanned) > 0 then
              st1\<lparr>jn_lines := jn_lines st @ [\<lparr>ll_line = fst il + 1, ll_fields = sl_fields scanned,
                                              ll_leadingWhitespace = sl_leadingWhitespace scanned\<rparr>]\<rparr>
            else st1)
         else
           (if length (jn_buffer st) = 0 then
              st1\<lparr>jn_start := fst il + 1, jn_leading := sl_leadingWhitespace scanned, jn_buffer := sl_fields scanned\<rparr>
            else st1\<lparr>jn_buffer := jn_buffer st @ sl_fields scanned\<rparr>))"

definition in_quotes :: "string \<Rightarrow> string" where
  "in_quotes s = [CHR 0x27] @ s @ [CHR 0x27]"

definition join_lines :: "string list \<Rightarrow> join_state" where
  "join_lines physicalLines =
     (let st = foldl join_line join_start (zip [0..<length physicalLines] physicalLines) in
      if length (jn_buffer st) > 0
      then st\<lparr>jn_diags := jn_diags st
             @ [parse_error (jn_start st) (''Unterminated parenthesised record (no closing '' @ in_quotes '')'' @ '').'')]\<rparr>
      else st)"

subsection \<open>Tokens\<close>

definition SKIPPED_TYPES :: "string list" where
  "SKIPPED_TYPES = [''RRSIG'', ''NSEC'', ''NSEC3'', ''NSEC3PARAM'', ''DNSKEY'', ''CDS'', ''CDNSKEY'']"

definition CLASS_TOKENS :: "string list" where
  "CLASS_TOKENS = [''IN'', ''CH'', ''HS'', ''CS'']"

definition is_upper_letter :: "char \<Rightarrow> bool" where
  "is_upper_letter c \<longleftrightarrow> 65 \<le> code c \<and> code c \<le> 90"

definition TYPE_digits :: "string \<Rightarrow> bool" where
  "TYPE_digits t \<longleftrightarrow> starts_with t ''TYPE'' \<and> length t > 4 \<and> list_all is_digit (drop 4 t)"

definition TYPE_TOKEN :: "string \<Rightarrow> bool" where
  "TYPE_TOKEN t \<longleftrightarrow>
     (t \<noteq> [] \<and> is_upper_letter (hd t)
        \<and> list_all (\<lambda>c. is_upper_letter c \<or> is_digit c \<or> c = CHR ''-'') (tl t))
     \<or> TYPE_digits t"

definition KNOWN_RR_TYPES :: "string list" where
  "KNOWN_RR_TYPES =
     [''A'', ''AAAA'', ''AFSDB'', ''ALIAS'', ''APL'', ''CAA'', ''CDNSKEY'', ''CDS'', ''CERT'', ''CNAME'', ''CSYNC'', ''DHCID'',
      ''DLV'', ''DNAME'', ''DNSKEY'', ''DS'', ''EUI48'', ''EUI64'', ''HINFO'', ''HTTPS'', ''IPSECKEY'', ''KEY'', ''KX'', ''L32'',
      ''L64'', ''LOC'', ''LP'', ''LUA'', ''MB'', ''MG'', ''MINFO'', ''MR'', ''MX'', ''NAPTR'', ''NID'', ''NS'', ''NSEC'', ''NSEC3'',
      ''NSEC3PARAM'', ''OPENPGPKEY'', ''PTR'', ''RKEY'', ''RP'', ''RRSIG'', ''SIG'', ''SMIMEA'', ''SOA'', ''SPF'', ''SRV'',
      ''SSHFP'', ''SVCB'', ''TKEY'', ''TLSA'', ''TSIG'', ''TXT'', ''URI'', ''WKS'', ''ZONEMD'']"

definition ttl_unit :: "char \<Rightarrow> nat option" where
  "ttl_unit c =
     (let u = js_upper [c] in
      if u = ''S'' then Some 1 else if u = ''M'' then Some 60 else if u = ''H'' then Some 3600
      else if u = ''D'' then Some 86400 else if u = ''W'' then Some 604800 else None)"

text \<open>\<open>/^(?:\d+[smhdw])+$/i\<close> and the sum over its matches, in one pass.\<close>

function ttl_units :: "string \<Rightarrow> nat option" where
  "ttl_units s =
     (let ds = takeWhile is_digit s in
      case dropWhile is_digit s of
        [] \<Rightarrow> None
      | u # rest \<Rightarrow>
          (case ttl_unit u of
             None \<Rightarrow> None
           | Some f \<Rightarrow>
               if ds = [] then None
               else if rest = [] then Some (nat_of_dec ds * f)
               else map_option ((+) (nat_of_dec ds * f)) (ttl_units rest)))"
  by pat_completeness auto

termination
proof (relation "measure length")
  fix s ds u rest f
  assume "dropWhile is_digit s = u # rest"
  then show "(rest, s) \<in> measure length" using length_dropWhile_le [of is_digit s] by simp
qed simp

declare ttl_units.simps [simp del]

definition parseTtl :: "string \<Rightarrow> nat option" where
  "parseTtl token =
     (if token \<noteq> [] \<and> list_all is_digit token then Some (nat_of_dec token) else ttl_units token)"

definition isTtlToken :: "string \<Rightarrow> bool" where
  "isTtlToken token \<longleftrightarrow> parseTtl token \<noteq> None"

definition isClassToken :: "string \<Rightarrow> bool" where
  "isClassToken token \<longleftrightarrow> js_upper token \<in> set CLASS_TOKENS"

definition isKnownTypeToken :: "string \<Rightarrow> bool" where
  "isKnownTypeToken token \<longleftrightarrow> js_upper token \<in> set KNOWN_RR_TYPES \<or> TYPE_digits (js_upper token)"

subsection \<open>Records and directives\<close>

record parsed_rrset =
  pr_name :: string
  pr_type :: string
  pr_ttl :: nat
  pr_records :: "string list"

record parsed_zone =
  pz_name :: string
  pz_rrsets :: "parsed_rrset list"

record parser_state =
  ps_zones :: "(string \<times> parsed_zone) list"
  ps_origin :: "string option"
  ps_ttl :: nat
  ps_lastOwner :: "string option"
  ps_diags :: "parse_diagnostic list"

definition DEFAULT_TTL :: nat where "DEFAULT_TTL = 3600"

definition parser_start :: "parse_diagnostic list \<Rightarrow> parser_state" where
  "parser_start diags =
     \<lparr>ps_zones = [], ps_origin = None, ps_ttl = DEFAULT_TTL, ps_lastOwner = None, ps_diags = diags\<rparr>"

definition add_diag :: "parse_diagnostic \<Rightarrow> parser_state \<Rightarrow> parser_state" where
  "add_diag d st = st\<lparr>ps_diags := ps_diags st @ [d]\<rparr>"

definition zone_char :: "char \<Rightarrow> bool" where
  "zone_char c \<longleftrightarrow> 97 \<le> code c \<and> code c \<le> 122 \<or> is_digit c \<or> c = CHR ''.'' \<or> c = CHR ''_'' \<or> c = CHR ''-''"

definition canonicalize :: "string \<Rightarrow> string option" where
  "canonicalize name =
     (let canonical = canonicalZoneName name in
      if length canonical > 1 \<and> ends_with canonical ''.'' \<and> list_all zone_char canonical then Some canonical else None)"

definition expandOwner :: "string \<Rightarrow> string \<Rightarrow> string" where
  "expandOwner owner origin =
     (if owner = ''@'' then origin
      else if ends_with (js_lower owner) ''.'' then js_lower owner
      else js_lower owner @ ''.'' @ origin)"

fun push_content :: "parsed_rrset list \<Rightarrow> string \<Rightarrow> string \<Rightarrow> nat \<Rightarrow> string \<Rightarrow> parsed_rrset list" where
  "push_content [] name type ttl content =
     [\<lparr>pr_name = name, pr_type = type, pr_ttl = ttl, pr_records = [content]\<rparr>]"
| "push_content (rr # rrs) name type ttl content =
     (if pr_name rr = name \<and> pr_type rr = type then rr\<lparr>pr_records := pr_records rr @ [content]\<rparr> # rrs
      else rr # push_content rrs name type ttl content)"

definition pushRRSet :: "parsed_zone \<Rightarrow> string \<Rightarrow> string \<Rightarrow> nat \<Rightarrow> string \<Rightarrow> parsed_zone" where
  "pushRRSet zone name type ttl content = zone\<lparr>pz_rrsets := push_content (pz_rrsets zone) name type ttl content\<rparr>"

definition directive_char :: "char \<Rightarrow> bool" where
  "directive_char c \<longleftrightarrow> is_upper_letter c \<or> is_digit c \<or> c = CHR ''_''"

definition directive :: "nat \<Rightarrow> string list \<Rightarrow> parser_state \<Rightarrow> parser_state" where
  "directive line flds st =
     (let text = join '' '' flds;
          name = js_upper (drop 1 (hd flds));
          rest = join '' '' (tl flds)
      in if \<not> (name \<noteq> [] \<and> list_all directive_char name) \<or> length rest = 0 then
           add_diag (parse_error line (''Malformed directive: '' @ text)) st
         else if name = ''TTL'' then
           (case parseTtl rest of
              None \<Rightarrow> add_diag (parse_error line (''Invalid $TTL value: '' @ rest)) st
            | Some ttl \<Rightarrow> st\<lparr>ps_ttl := ttl\<rparr>)
         else if name = ''ORIGIN'' then
           (case canonicalize rest of
              None \<Rightarrow> add_diag (parse_error line (''Invalid $ORIGIN: '' @ rest)) st
            | Some origin \<Rightarrow>
                st\<lparr>ps_origin := Some origin, ps_lastOwner := None,
                   ps_zones := (if map_of (ps_zones st) origin \<noteq> None then ps_zones st
                                else AList.update origin \<lparr>pz_name = origin, pz_rrsets = []\<rparr> (ps_zones st))\<rparr>)
         else if name = ''INCLUDE'' then
           add_diag (parse_error line ''$INCLUDE is not supported (file-system access from imports is refused).'') st
         else add_diag (parse_warning line (''Unknown directive: $'' @ name)) st)"

record record_fields =
  rf_owner :: string
  rf_ttl :: "nat option"
  rf_type :: string
  rf_rdata :: string

text \<open>The owner and the fields after it.\<close>

definition record_owner :: "bool \<Rightarrow> string list \<Rightarrow> string option \<Rightarrow> string + string \<times> string list" where
  "record_owner leadingWhitespace flds lastOwner =
     (let first = hd flds in
      if leadingWhitespace \<and> (isTtlToken first \<or> isClassToken first \<or> isKnownTypeToken first) then
        (case lastOwner of
           None \<Rightarrow> Inl (''Record has a blank owner but no previous record to inherit it from: '' @ join '' '' flds)
         | Some owner \<Rightarrow> Inr (owner, flds))
      else Inr (first, tl flds))"

text \<open>A TTL at the cursor, if there is one.\<close>

definition take_ttl :: "string list \<Rightarrow> nat option \<times> string list" where
  "take_ttl parts =
     (case parts of
        [] \<Rightarrow> (None, [])
      | p # ps \<Rightarrow> (case parseTtl p of Some n \<Rightarrow> (Some n, ps) | None \<Rightarrow> (None, p # ps)))"

definition take_class :: "string list \<Rightarrow> string \<Rightarrow> string + string list" where
  "take_class parts text =
     (case parts of
        [] \<Rightarrow> Inr []
      | p # ps \<Rightarrow>
          if isClassToken p then
            (if js_upper p \<noteq> ''IN'' then Inl (''Unsupported class '' @ js_upper p @ '' (only IN): '' @ text) else Inr ps)
          else Inr (p # ps))"

definition record_type :: "string list \<Rightarrow> string \<Rightarrow> string + string \<times> string" where
  "record_type parts text =
     (case parts of
        [] \<Rightarrow> Inl (''Missing type or rdata: '' @ text)
      | typeToken # rest \<Rightarrow>
          (let type = js_upper typeToken; rdata = js_trim (join '' '' rest) in
           if type = [] \<or> rdata = [] then Inl (''Missing type or rdata: '' @ text)
           else if \<not> TYPE_TOKEN type then
             Inl (''Expected a record type, got '' @ in_quotes typeToken @ '': '' @ text)
           else Inr (type, rdata)))"

definition record_parts :: "bool \<Rightarrow> string list \<Rightarrow> string option \<Rightarrow> string + record_fields" where
  "record_parts leadingWhitespace flds lastOwner =
     (let text = join '' '' flds in
      case record_owner leadingWhitespace flds lastOwner of
        Inl e \<Rightarrow> Inl e
      | Inr (owner, parts) \<Rightarrow>
          (let (ttl, parts1) = take_ttl parts in
           case take_class parts1 text of
             Inl e \<Rightarrow> Inl e
           | Inr parts2 \<Rightarrow>
               (let (ttl2, parts3) = (if ttl = None then take_ttl parts2 else (ttl, parts2)) in
                case record_type parts3 text of
                  Inl e \<Rightarrow> Inl e
                | Inr (type, rdata) \<Rightarrow> Inr \<lparr>rf_owner = owner, rf_ttl = ttl2, rf_type = type, rf_rdata = rdata\<rparr>)))"

definition zone_record_line :: "nat \<Rightarrow> bool \<Rightarrow> string list \<Rightarrow> parser_state \<Rightarrow> parser_state" where
  "zone_record_line line leadingWhitespace flds st =
     (case ps_origin st of
        None \<Rightarrow> add_diag (parse_error line (''Record before any $ORIGIN - add `$ORIGIN <zone>.` at the top of the file.'')) st
      | Some origin \<Rightarrow>
          (case record_parts leadingWhitespace flds (ps_lastOwner st) of
             Inl e \<Rightarrow> add_diag (parse_error line e) st
           | Inr r \<Rightarrow>
               (let fqdn = expandOwner (rf_owner r) origin; st1 = st\<lparr>ps_lastOwner := Some fqdn\<rparr> in
                if rf_type r \<in> set SKIPPED_TYPES then
                  add_diag (parse_warning line (''Skipping '' @ rf_type r
                    @ '' record - DNSSEC material is managed by PowerDNS, not imported.'')) st1
                else st1\<lparr>ps_zones := AList.update origin
                       (pushRRSet (the (map_of (ps_zones st) origin)) fqdn (rf_type r)
                          (case rf_ttl r of Some n \<Rightarrow> n | None \<Rightarrow> ps_ttl st) (rf_rdata r)) (ps_zones st)\<rparr>)))"

definition parse_logical :: "parser_state \<Rightarrow> logical_line \<Rightarrow> parser_state" where
  "parse_logical st l =
     (if starts_with (hd (ll_fields l)) ''$'' then directive (ll_line l) (ll_fields l) st
      else zone_record_line (ll_line l) (ll_leadingWhitespace l) (ll_fields l) st)"

definition parseZonefile :: "string \<Rightarrow> parsed_zone list \<times> parse_diagnostic list" where
  "parseZonefile inp =
     (let j = join_lines (split_lines inp);
          st = foldl parse_logical (parser_start (jn_diags j)) (jn_lines j)
      in (map snd (ps_zones st), ps_diags st))"

end
