(* ===== verification/ReverseName.thy ===== *)
theory ReverseName
  imports ZoneNames
begin

section \<open>Addresses and their reverse names\<close>

text \<open>
  Models \<open>lib/dns/reverse-name.ts\<close>: parsing of IPv4 and IPv6 text, the owner name of an
  address in the reverse tree, the choice of the hosted reverse zone (RFC 2317 classless blocks
  first, then the longest suffix), and the way back from an owner name to an address.  Each regular
  expression of the source is anchored and is written as the split into dot-separated parts that it
  describes.
\<close>

subsection \<open>Text helpers\<close>

text \<open>\<open>\d{1,3}\<close>: one to three decimal digits.\<close>

definition digits13 :: "string \<Rightarrow> bool" where
  "digits13 p \<longleftrightarrow> 1 \<le> length p \<and> length p \<le> 3 \<and> list_all is_digit p"

definition is_hex :: "char \<Rightarrow> bool" where
  "is_hex c \<longleftrightarrow> is_digit c \<or> 97 \<le> code c \<and> code c \<le> 102"

fun hex_of_nat :: "nat \<Rightarrow> string" where
  "hex_of_nat n = (if n < 16 then [hex_digit n] else hex_of_nat (n div 16) @ [hex_digit (n mod 16)])"

declare hex_of_nat.simps [simp del]

definition nat_of_hex :: "string \<Rightarrow> nat" where
  "nat_of_hex s = foldl (\<lambda>n c. 16 * n + hex_val c) 0 s"

text \<open>\<open>s.includes(t)\<close>, \<open>g.padStart(4, "0")\<close> and \<open>s.split("::")\<close>.\<close>

fun js_includes :: "string \<Rightarrow> string \<Rightarrow> bool" where
  "js_includes [] t = (t = [])"
| "js_includes (c # cs) t = (starts_with (c # cs) t \<or> js_includes cs t)"

definition pad4 :: "string \<Rightarrow> string" where
  "pad4 g = replicate (4 - length g) (CHR ''0'') @ g"

fun split_dcolon :: "string \<Rightarrow> string list" where
  "split_dcolon [] = [[]]"
| "split_dcolon [c] = [[c]]"
| "split_dcolon (c # d # cs) =
     (if c = CHR '':'' \<and> d = CHR '':'' then [] # split_dcolon cs
      else (case split_dcolon (d # cs) of [] \<Rightarrow> [[c]] | p # ps \<Rightarrow> (c # p) # ps))"

subsection \<open>Parsing addresses\<close>

fun ipv4_octets :: "string list \<Rightarrow> nat list option" where
  "ipv4_octets [] = Some []"
| "ipv4_octets (p # ps) =
     (if length p > 1 \<and> starts_with p ''0'' then None
      else let n = nat_of_dec p in
        if n > 255 then None else map_option (Cons n) (ipv4_octets ps))"

definition parseIpv4 :: "string \<Rightarrow> nat list option" where
  "parseIpv4 text =
     (let parts = split_on (CHR ''.'') (js_trim text) in
      if length parts = 4 \<and> list_all digits13 parts then ipv4_octets parts else None)"

text \<open>The \<open>groups\<close> closure of \<open>expandIpv6\<close>.\<close>

definition ipv6_groups :: "string \<Rightarrow> string list option" where
  "ipv6_groups part =
     (if part = [] then Some []
      else let out = split_on (CHR '':'') part in
        if list_ex (\<lambda>g. g = [] \<or> length g > 4) out then None else Some out)"

text \<open>
  The embedded dotted quad: \<open>None\<close> is the early \<open>return null\<close>, otherwise the body that is
  left and the two groups of the quad.
\<close>

definition ipv6_tail :: "string \<Rightarrow> (string \<times> string list) option" where
  "ipv6_tail s =
     (let lastpart = rev (takeWhile (\<lambda>c. c \<noteq> CHR '':'') (rev s)) in
      if CHR '':'' \<in> set s \<and> CHR ''.'' \<in> set lastpart then
        (case parseIpv4 lastpart of
           None \<Rightarrow> None
         | Some v4 \<Rightarrow>
             let tail = [hex_of_nat (or (push_bit 8 (v4 ! 0)) (v4 ! 1)),
                         hex_of_nat (or (push_bit 8 (v4 ! 2)) (v4 ! 3))];
                 body = take (length s - length lastpart) s
             in Some (if ends_with body ''::'' then body else butlast body, tail))
      else if CHR ''.'' \<in> set s then None
      else Some (s, []))"

definition expandIpv6 :: "string \<Rightarrow> string option" where
  "expandIpv6 text =
     (let s = js_lower (js_trim text) in
      if s = [] \<or> CHR ''%'' \<in> set s
         \<or> list_ex (\<lambda>c. \<not> (is_hex c \<or> c = CHR '':'' \<or> c = CHR ''.'')) s then None
      else if js_includes s '':::'' then None
      else case ipv6_tail s of
        None \<Rightarrow> None
      | Some (body, tail) \<Rightarrow>
          let halves = split_dcolon body in
          if length halves > 2 then None
          else case (ipv6_groups (halves ! 0),
                     if length halves = 2 then ipv6_groups (halves ! 1) else Some []) of
            (Some head, Some rest) \<Rightarrow>
              let given = length head + length rest + length tail in
              if length halves = 2 then
                (if given > 7 then None
                 else Some (concat (map pad4
                   (head @ replicate (8 - given) ''0'' @ rest @ tail))))
              else if given \<noteq> 8 then None
              else Some (concat (map pad4 (head @ tail)))
          | _ \<Rightarrow> None)"

datatype ip_family = V4 | V6

record parsed_ip =
  ip_family :: ip_family
  ip_canonical :: string

definition parseIp :: "string \<Rightarrow> parsed_ip option" where
  "parseIp text =
     (case parseIpv4 text of
        Some v4 \<Rightarrow> Some \<lparr>ip_family = V4, ip_canonical = join ''.'' (map dec_of_nat v4)\<rparr>
      | None \<Rightarrow> (case expandIpv6 text of
          Some v6 \<Rightarrow> Some \<lparr>ip_family = V6, ip_canonical = v6\<rparr>
        | None \<Rightarrow> None))"

definition sameAddress :: "string \<Rightarrow> string \<Rightarrow> bool" where
  "sameAddress a b =
     (case (parseIp a, parseIp b) of
        (Some pa, Some pb) \<Rightarrow> ip_family pa = ip_family pb \<and> ip_canonical pa = ip_canonical pb
      | _ \<Rightarrow> js_trim a = js_trim b)"

subsection \<open>Owner names and hosted reverse zones\<close>

definition reverseOwnerName :: "string \<Rightarrow> string option" where
  "reverseOwnerName ip =
     (case parseIp ip of
        None \<Rightarrow> None
      | Some parsed \<Rightarrow>
          if ip_family parsed = V4
          then Some (join ''.'' (rev (split_on (CHR ''.'') (ip_canonical parsed)))
                     @ ''.in-addr.arpa.'')
          else Some (join ''.'' (rev (map (\<lambda>c. [c]) (ip_canonical parsed))) @ ''.ip6.arpa.''))"

record reverse_zone_match =
  m_zone :: string
  m_owner :: string
  m_classless :: bool

definition canonicalZone :: "string \<Rightarrow> string" where
  "canonicalZone name = strip_dots (js_lower (js_trim name)) @ ''.''"

text \<open>\<open>(\d{1,3})([/-])(\d{1,3})\<close>: the first label of an RFC 2317 zone.\<close>

definition parse_block :: "string \<Rightarrow> (string \<times> char \<times> string) option" where
  "parse_block lbl =
     (let m1 = takeWhile is_digit lbl in
      case dropWhile is_digit lbl of
        [] \<Rightarrow> None
      | sep # m3 \<Rightarrow>
          if digits13 m1 \<and> (sep = CHR ''/'' \<or> sep = CHR ''-'') \<and> digits13 m3
          then Some (m1, sep, m3) else None)"

record classless_block =
  b_first :: nat
  b_last :: nat
  b_parentLabels :: string

definition classless_block_of :: "string \<Rightarrow> string \<Rightarrow> string \<Rightarrow> string \<Rightarrow> string \<Rightarrow> string \<Rightarrow> string \<Rightarrow>
    classless_block option" where
  "classless_block_of lbl c b a inaddr arpa e =
     (if digits13 c \<and> digits13 b \<and> digits13 a
         \<and> inaddr = ''in-addr'' \<and> arpa = ''arpa'' \<and> e = [] then
        (case parse_block lbl of
           None \<Rightarrow> None
         | Some (m1, sep, m3) \<Rightarrow>
             let first = nat_of_dec m1; n = nat_of_dec m3; parent = join ''.'' [c, b, a] in
             if first > 255 then None
             else if sep = CHR ''/'' then
               (if n < 25 \<or> n > 32 then None
                else let size = 2 ^ (32 - n) in
                  if first mod size \<noteq> 0 then None
                  else Some \<lparr>b_first = first, b_last = first + size - 1,
                              b_parentLabels = parent\<rparr>)
             else if n > 255 \<or> n < first then None
             else Some \<lparr>b_first = first, b_last = n, b_parentLabels = parent\<rparr>)
      else None)"

definition parseClasslessZone :: "string \<Rightarrow> classless_block option" where
  "parseClasslessZone zone =
     (case split_on (CHR ''.'') zone of
        [lbl, c, b, a, inaddr, arpa, e] \<Rightarrow> classless_block_of lbl c b a inaddr arpa e
      | _ \<Rightarrow> None)"

text \<open>\<open>None\<close> is \<open>Number.POSITIVE_INFINITY\<close>.\<close>

definition bestSpan :: "reverse_zone_match \<Rightarrow> nat option" where
  "bestSpan match =
     (case parseClasslessZone (m_zone match) of
        Some block \<Rightarrow> Some (b_last block - b_first block) | None \<Rightarrow> None)"

definition classless_step ::
  "nat list \<Rightarrow> reverse_zone_match option \<Rightarrow> string \<Rightarrow> reverse_zone_match option" where
  "classless_step octets best zone =
     (let parentLabels = join ''.'' (map dec_of_nat [octets ! 2, octets ! 1, octets ! 0]) in
      case parseClasslessZone zone of
        None \<Rightarrow> best
      | Some block \<Rightarrow>
          if b_parentLabels block \<noteq> parentLabels then best
          else if octets ! 3 < b_first block \<or> octets ! 3 > b_last block then best
          else if (case best of None \<Rightarrow> True
                   | Some m \<Rightarrow> (case bestSpan m of None \<Rightarrow> True
                       | Some span \<Rightarrow> b_last block - b_first block < span))
          then Some \<lparr>m_zone = zone, m_owner = dec_of_nat (octets ! 3) @ ''.'' @ zone,
                      m_classless = True\<rparr>
          else best)"

definition suffix_match :: "string \<Rightarrow> string list \<Rightarrow> reverse_zone_match option" where
  "suffix_match owner hosted =
     (let labels = split_on (CHR ''.'') owner in
      map_option (\<lambda>i. \<lparr>m_zone = join ''.'' (drop i labels), m_owner = owner, m_classless = False\<rparr>)
        (find (\<lambda>i. join ''.'' (drop i labels) \<in> set hosted) [1..<length labels - 1]))"

definition findReverseZone :: "string \<Rightarrow> string list \<Rightarrow> reverse_zone_match option" where
  "findReverseZone ip hostedZones =
     (case (parseIp ip, reverseOwnerName ip) of
        (Some parsed, Some owner) \<Rightarrow>
          let hosted = jset_of (map canonicalZone hostedZones);
              best = (if ip_family parsed = V4
                then let octets = map nat_of_dec (split_on (CHR ''.'') (ip_canonical parsed))
                     in foldl (classless_step octets) None hosted
                else None)
          in (case best of Some m \<Rightarrow> Some m | None \<Rightarrow> suffix_match owner hosted)
      | _ \<Rightarrow> None)"

subsection \<open>From an owner name to its address\<close>

text \<open>The scan for the longest run of zero groups: the position, what is left, best so far.\<close>

fun zero_run :: "nat \<Rightarrow> string list \<Rightarrow> nat \<times> nat \<Rightarrow> nat \<times> nat" where
  "zero_run i [] best = best"
| "zero_run i (g # gs) best =
     (if g \<noteq> ''0'' then zero_run (Suc i) gs best
      else let n = Suc (length (takeWhile (\<lambda>x. x = ''0'') gs)) in
        zero_run (i + n) (drop (n - 1) gs) (if n > snd best then (i, n) else best))"

definition ipv6_text :: "string list \<Rightarrow> string" where
  "ipv6_text groups =
     (let (bestStart, bestLen) = zero_run 0 groups (0, 0) in
      if bestLen \<ge> 2
      then join '':'' (take bestStart groups) @ ''::'' @ join '':'' (drop (bestStart + bestLen) groups)
      else join '':'' groups)"

fun chunks4 :: "string \<Rightarrow> string list" where
  "chunks4 (a # b # c # d # s) = [a, b, c, d] # chunks4 s"
| "chunks4 s = []"

definition owner_v4 :: "string \<Rightarrow> string option" where
  "owner_v4 name =
     (case split_on (CHR ''.'') name of
        [d, c, b, a, inaddr, arpa] \<Rightarrow>
          if list_all digits13 [d, c, b, a] \<and> inaddr = ''in-addr'' \<and> arpa = ''arpa''
          then Some (join ''.'' [a, b, c, d]) else None
      | [d, lbl, c, b, a, inaddr, arpa] \<Rightarrow>
          if list_all digits13 [d, c, b, a] \<and> parse_block lbl \<noteq> None
             \<and> inaddr = ''in-addr'' \<and> arpa = ''arpa''
          then Some (join ''.'' [a, b, c, d]) else None
      | _ \<Rightarrow> None)"

definition owner_v6 :: "string \<Rightarrow> string option" where
  "owner_v6 name =
     (let parts = split_on (CHR ''.'') name; nibbles = take 32 parts in
      if length parts = 34 \<and> list_all (\<lambda>p. length p = 1 \<and> list_all is_hex p) nibbles
         \<and> drop 32 parts = [''ip6'', ''arpa'']
      then Some (concat (rev nibbles)) else None)"

definition ipFromReverseOwner :: "string \<Rightarrow> string option" where
  "ipFromReverseOwner owner =
     (let name = strip_dot (js_lower (js_trim owner)) in
      case owner_v4 name of
        Some ip \<Rightarrow> if parseIpv4 ip \<noteq> None then Some ip else None
      | None \<Rightarrow> (case owner_v6 name of
          Some hex \<Rightarrow> Some (ipv6_text (map (\<lambda>g. hex_of_nat (nat_of_hex g)) (chunks4 hex)))
        | None \<Rightarrow> None))"

subsection \<open>IPv4 text\<close>

lemma digits13_dec_of_nat: "n \<le> 255 \<Longrightarrow> digits13 (dec_of_nat n)"
  using dec_of_nat_length_le [of n 3] dec_of_nat_digits [of _ n]
  by (auto simp: digits13_def list_all_iff Suc_le_eq)

lemma ipv4_octets_Some:
  "ipv4_octets ps = Some os \<Longrightarrow> list_all digits13 ps \<Longrightarrow>
   map dec_of_nat os = ps \<and> (\<forall>n \<in> set os. n \<le> 255)"
proof (induction ps arbitrary: os)
  case Nil
  then show ?case by simp
next
  case (Cons p ps)
  from Cons.prems have p: "p \<noteq> []" "list_all is_digit p" "\<not> (length p > 1 \<and> starts_with p ''0'')"
    by (auto simp: digits13_def split: if_splits)
  then have "length p = 1 \<or> hd p \<noteq> CHR ''0''"
    by (cases p) (auto simp: starts_with_def)
  with p have "dec_of_nat (nat_of_dec p) = p" using dec_of_nat_of_dec by blast
  with Cons show ?case by (auto simp: Let_def split: if_splits)
qed

lemma ipv4_octets_dec: "\<forall>n \<in> set os. n \<le> 255 \<Longrightarrow> ipv4_octets (map dec_of_nat os) = Some os"
proof (induction os)
  case (Cons n os)
  have "\<not> (length (dec_of_nat n) > 1 \<and> starts_with (dec_of_nat n) ''0'')"
    using length_dec_of_nat_1 [of n] by (cases "dec_of_nat n") (auto simp: starts_with_def)
  with Cons show ?case by (simp add: Let_def)
qed simp

lemma dec_no_dot: "CHR ''.'' \<notin> set (dec_of_nat n)"
  using dec_of_nat_digits [of "CHR ''.''" n] by (auto simp: is_digit_def)

lemma parseIpv4_iff:
  "parseIpv4 text = Some os \<longleftrightarrow>
     length os = 4 \<and> (\<forall>n \<in> set os. n \<le> 255) \<and> js_trim text = join ''.'' (map dec_of_nat os)"
proof
  assume *: "parseIpv4 text = Some os"
  let ?ps = "split_on (CHR ''.'') (js_trim text)"
  from * have "length ?ps = 4" "list_all digits13 ?ps" "ipv4_octets ?ps = Some os"
    by (auto simp: parseIpv4_def Let_def split: if_splits)
  moreover from ipv4_octets_Some [OF this(3,2)] have "map dec_of_nat os = ?ps"
    and "\<forall>n \<in> set os. n \<le> 255" by auto
  ultimately show "length os = 4 \<and> (\<forall>n \<in> set os. n \<le> 255)
      \<and> js_trim text = join ''.'' (map dec_of_nat os)"
    by (metis join_split length_map)
next
  assume *: "length os = 4 \<and> (\<forall>n \<in> set os. n \<le> 255) \<and> js_trim text = join ''.'' (map dec_of_nat os)"
  then have "map dec_of_nat os \<noteq> []" by auto
  then have "split_on (CHR ''.'') (js_trim text) = map dec_of_nat os"
    using * dec_no_dot by (simp add: split_join)
  with * show "parseIpv4 text = Some os"
    by (simp add: parseIpv4_def ipv4_octets_dec list_all_iff digits13_dec_of_nat)
qed

text \<open>
  \<open>parseIpv4\<close> accepts exactly the dotted quads in canonical decimal form: four numbers up to
  255 written without leading zeros, surrounded by white space at most.  So an IPv4 address has one
  accepted spelling.
\<close>

theorem parseIpv4_canonical:
  "parseIpv4 text = Some os \<longleftrightarrow>
     length os = 4 \<and> (\<forall>n \<in> set os. n \<le> 255) \<and> js_trim text = join ''.'' (map dec_of_nat os)"
  by (rule parseIpv4_iff)

theorem parseIpv4_canonical_witness:
  "parseIpv4 '' 192.0.2.10 '' = Some [192, 0, 2, 10] \<and> parseIpv4 ''192.0.2.010'' = None"
proof -
  have "js_trim '' 192.0.2.10 '' = join ''.'' (map dec_of_nat [192, 0, 2, 10])" by code_simp
  then have "parseIpv4 '' 192.0.2.10 '' = Some [192, 0, 2, 10]"
    by (simp add: parseIpv4_canonical)
  moreover have "parseIpv4 ''192.0.2.010'' = None" by code_simp
  ultimately show ?thesis by simp
qed

lemma char_of_48: "char_of (48 :: nat) = CHR ''0''"
  by (rule char_of_code [symmetric]) simp

subsection \<open>Hexadecimal\<close>

lemma hex_val_less: "is_hex c \<Longrightarrow> hex_val c < 16"
  by (auto simp: is_hex_def is_digit_def hex_val_def)

lemma hex_digit_val: "is_hex c \<Longrightarrow> hex_digit (hex_val c) = c"
  by (auto simp: is_hex_def is_digit_def hex_val_def hex_digit_def)

lemma is_hex_digit: "n < 16 \<Longrightarrow> is_hex (hex_digit n)"
  by (auto simp: is_hex_def is_digit_def hex_digit_def)

lemma nat_of_hex_snoc: "nat_of_hex (s @ [c]) = 16 * nat_of_hex s + hex_val c"
  by (simp add: nat_of_hex_def)

lemma hex_of_nat_hex: "list_all is_hex (hex_of_nat n)"
proof (induction n rule: hex_of_nat.induct)
  case (1 n)
  then show ?case by (cases "n < 16") (simp_all add: hex_of_nat.simps [of n] is_hex_digit)
qed

lemma hex_of_nat_ne [simp]: "hex_of_nat n \<noteq> []"
  by (subst hex_of_nat.simps) simp

lemma hex_of_nat_length: "n < 16 ^ k \<Longrightarrow> 0 < k \<Longrightarrow> length (hex_of_nat n) \<le> k"
proof (induction n arbitrary: k rule: hex_of_nat.induct)
  case (1 n)
  show ?case
  proof (cases "n < 16")
    case True
    with 1 show ?thesis by (simp add: hex_of_nat.simps [of n])
  next
    case False
    then obtain j where k: "k = Suc j" "0 < j"
      using 1(2,3) by (cases k; cases "k = 1") (auto simp: not_less)
    then have "n div 16 < 16 ^ j" using 1(2) by (simp add: less_mult_imp_div_less mult.commute)
    with 1(1) False k show ?thesis by (simp add: hex_of_nat.simps [of n])
  qed
qed

lemma hex_of_nat_16: "hex_of_nat (16 * m + d) = (if m = 0 then [] else hex_of_nat m) @ [hex_digit d]"
  if "d < 16" for m d
  using that by (cases "m = 0") (simp_all add: hex_of_nat.simps [of "16 * m + d"] hex_of_nat.simps [of d])

lemma nat_of_hex_less: "list_all is_hex s \<Longrightarrow> nat_of_hex s < 16 ^ length s"
proof (induction s rule: rev_induct)
  case Nil
  then show ?case by (simp add: nat_of_hex_def)
next
  case (snoc c s)
  then show ?case using hex_val_less [of c] by (simp add: nat_of_hex_snoc)
qed

text \<open>Printing a parsed group drops its leading zeros and nothing else.\<close>

lemma zeros_group:
  "replicate k (CHR ''0'') @ ''0'' = s \<Longrightarrow> s = replicate (Suc k) (CHR ''0'')"
  by (simp add: replicate_append_same)

lemma hex_of_nat_of_hex:
  "s \<noteq> [] \<Longrightarrow> list_all is_hex s \<Longrightarrow>
   \<exists>k. s = replicate k (CHR ''0'') @ hex_of_nat (nat_of_hex s)"
proof (induction s rule: rev_induct)
  case Nil
  then show ?case by simp
next
  case (snoc c s)
  let ?m = "nat_of_hex s"
  from snoc.prems have c: "is_hex c" and s: "list_all is_hex s" by auto
  have eq: "hex_of_nat (nat_of_hex (s @ [c])) = (if ?m = 0 then [] else hex_of_nat ?m) @ [c]"
    using hex_of_nat_16 [of "hex_val c" ?m] hex_val_less [OF c] hex_digit_val [OF c]
    by (simp add: nat_of_hex_snoc)
  show ?case
  proof (cases "s = []")
    case True
    then show ?thesis using eq by (intro exI [of _ 0]) (simp add: nat_of_hex_def)
  next
    case False
    with snoc.IH s obtain k where k: "s = replicate k (CHR ''0'') @ hex_of_nat ?m" by blast
    show ?thesis
    proof (cases "?m = 0")
      case True
      then have "s = replicate k (CHR ''0'') @ ''0''"
        using k by (simp add: hex_of_nat.simps hex_digit_def char_of_48)
      then have "s = replicate (Suc k) (CHR ''0'')" by (metis zeros_group)
      with eq True show ?thesis by (intro exI [of _ "Suc k"]) simp
    next
      case False
      with eq k have "s @ [c] = replicate k (CHR ''0'') @ hex_of_nat (nat_of_hex (s @ [c]))"
        by simp
      then show ?thesis ..
    qed
  qed
qed

lemma hex_print_length:
  "s \<noteq> [] \<Longrightarrow> list_all is_hex s \<Longrightarrow>
   replicate (length s - length (hex_of_nat (nat_of_hex s))) (CHR ''0'')
     @ hex_of_nat (nat_of_hex s) = s"
  using hex_of_nat_of_hex [of s] by (metis add_diff_cancel_right' length_append length_replicate)

lemma pad4_hex: "length g = 4 \<Longrightarrow> list_all is_hex g \<Longrightarrow> pad4 (hex_of_nat (nat_of_hex g)) = g"
  using hex_print_length [of g] by (cases g) (auto simp: pad4_def)

definition hex_group :: "string \<Rightarrow> bool" where
  "hex_group g \<longleftrightarrow> g \<noteq> [] \<and> length g \<le> 4 \<and> list_all is_hex g"

lemma hex_group_print: "length g = 4 \<Longrightarrow> list_all is_hex g \<Longrightarrow> hex_group (hex_of_nat (nat_of_hex g))"
  using nat_of_hex_less [of g] hex_of_nat_length [of "nat_of_hex g" 4] hex_of_nat_hex
  by (simp add: hex_group_def)

lemma length_pad4: "length g \<le> 4 \<Longrightarrow> length (pad4 g) = 4"
  by (simp add: pad4_def)

lemma pad4_is_hex: "list_all is_hex g \<Longrightarrow> list_all is_hex (pad4 g)"
  by (auto simp: pad4_def list_all_iff is_hex_def is_digit_def)

lemma chunks4_concat: "\<forall>g \<in> set gs. length g = 4 \<Longrightarrow> chunks4 (concat gs) = gs"
proof (induction gs)
  case (Cons g gs)
  then obtain a b c d where "g = [a, b, c, d]"
    by (auto simp: length_Suc_conv eval_nat_numeral)
  with Cons show ?case by simp
qed simp

lemma chunks4_32:
  "length h = 4 * n \<Longrightarrow> concat (chunks4 h) = h \<and> length (chunks4 h) = n
     \<and> (\<forall>g \<in> set (chunks4 h). length g = 4 \<and> set g \<subseteq> set h)"
proof (induction n arbitrary: h)
  case (Suc n)
  then obtain a b c d t where h: "h = a # b # c # d # t" and "length t = 4 * n"
    by (cases h rule: chunks4.cases) auto
  with Suc.IH [of t] show ?case by auto
qed simp

subsection \<open>The longest run of zero groups\<close>

lemma takeWhile_split:
  obtains ys where "xs = takeWhile P xs @ ys" "ys = drop (length (takeWhile P xs)) xs"
  by (metis dropWhile_eq_drop takeWhile_dropWhile_id)

lemma zero_run_bounds:
  assumes "zero_run i gs best = (b, l)" "all = pre @ gs" "length pre = i"
    "fst best + snd best \<le> length all" "\<forall>j < snd best. all ! (fst best + j) = ''0''"
  shows "b + l \<le> length all \<and> (\<forall>j < l. all ! (b + j) = ''0'')"
  using assms
proof (induction i gs best arbitrary: pre rule: zero_run.induct)
  case (1 i best)
  then show ?case by simp
next
  case (2 i g gs best)
  show ?case
  proof (cases "g = ''0''")
    case False
    show ?thesis
      by (rule "2.IH"(1) [OF False, of "pre @ [g]"]) (use 2(3-) False in auto)
  next
    case True
    define run where "run = takeWhile (\<lambda>x. x = ''0'') gs"
    obtain ys where gs: "gs = run @ ys" and ys: "ys = drop (length run) gs"
      unfolding run_def by (rule takeWhile_split)
    define n where "n = Suc (length run)"
    have zeros: "\<forall>x \<in> set (g # run). x = ''0''"
      using True set_takeWhileD by (force simp: run_def)
    have all: "all = pre @ (g # run) @ ys" using 2(4) gs by simp
    have run0: "all ! (i + j) = ''0''" if "j < n" for j
    proof -
      have "all ! (i + j) = (g # run) ! j"
        using that 2(5) by (simp add: all nth_append n_def del: append_Cons)
      moreover have "(g # run) ! j \<in> set (g # run)" using that by (intro nth_mem) (simp add: n_def)
      ultimately show ?thesis using zeros by metis
    qed
    have "zero_run (i + n) ys (if n > snd best then (i, n) else best) = (b, l)"
      using 2(3) True unfolding n_def run_def ys by (simp add: Let_def split del: if_split)
    then show ?thesis
      by (intro "2.IH"(2) [of n "pre @ g # run"])
         (use 2(5-) True run0 all ys in \<open>auto simp: n_def run_def\<close>)
  qed
qed

subsection \<open>The text form of an IPv6 address reads back\<close>

lemma is_hex_chars:
  "is_hex c \<Longrightarrow> \<not> is_upper c \<and> \<not> is_ws c \<and> c \<noteq> CHR '':'' \<and> c \<noteq> CHR ''.'' \<and> c \<noteq> CHR ''%''"
  by (auto simp: is_hex_def is_digit_def is_upper_def is_ws_def)

definition addr_group :: "string \<Rightarrow> bool" where
  "addr_group g \<longleftrightarrow> g \<noteq> [] \<and> CHR '':'' \<notin> set g"

lemma hex_group_addr: "hex_group g \<Longrightarrow> addr_group g"
  using is_hex_chars by (auto simp: hex_group_def addr_group_def list_all_iff)

lemma split_dcolon_ne [simp]: "split_dcolon s \<noteq> []"
  by (induction s rule: split_dcolon.induct) (auto split: list.splits)

lemma split_dcolon_Cons:
  "c \<noteq> CHR '':'' \<or> r = [] \<or> hd r \<noteq> CHR '':'' \<Longrightarrow>
   split_dcolon (c # r) = (c # hd (split_dcolon r)) # tl (split_dcolon r)"
  by (cases r) (auto split: list.splits)

lemma split_dcolon_prefix:
  "CHR '':'' \<notin> set p \<Longrightarrow>
   split_dcolon (p @ r) = (p @ hd (split_dcolon r)) # tl (split_dcolon r)"
  by (induction p) (auto simp: split_dcolon_Cons)

lemma join_hd: "\<forall>g \<in> set gs. addr_group g \<Longrightarrow> gs \<noteq> [] \<Longrightarrow> 
   join sep gs \<noteq> [] \<and> hd (join sep gs) \<noteq> CHR '':''"
  by (cases gs; cases "tl gs") (auto simp: addr_group_def neq_Nil_conv)

lemma split_dcolon_join:
  "\<forall>g \<in> set gs. addr_group g \<Longrightarrow> split_dcolon (join '':'' gs) = [join '':'' gs]"
proof (induction gs rule: induct_list012)
  case (2 g)
  then show ?case using split_dcolon_prefix [of g "[]"] by (simp add: addr_group_def)
next
  case (3 g h gs)
  have "split_dcolon (CHR '':'' # join '':'' (h # gs)) = [CHR '':'' # join '':'' (h # gs)]"
    using join_hd [of "h # gs" "'':''"] 3 by (subst split_dcolon_Cons) auto
  with 3(3) show ?case by (simp add: split_dcolon_prefix addr_group_def)
qed simp

lemma split_dcolon_join2:
  "\<forall>g \<in> set gs. addr_group g \<Longrightarrow> \<forall>g \<in> set hs. addr_group g \<Longrightarrow>
   split_dcolon (join '':'' gs @ ''::'' @ join '':'' hs) = [join '':'' gs, join '':'' hs]"
proof (induction gs rule: induct_list012)
  case 1
  then show ?case by (simp add: split_dcolon_join)
next
  case (2 g)
  then show ?case by (simp add: split_dcolon_prefix addr_group_def split_dcolon_join)
next
  case (3 g h gs)
  have "split_dcolon (CHR '':'' # (join '':'' (h # gs) @ ''::'' @ join '':'' hs))
      = [CHR '':'' # join '':'' (h # gs), join '':'' hs]"
    using join_hd [of "h # gs" "'':''"] 3 by (subst split_dcolon_Cons) auto
  with 3(3) show ?case by (simp add: split_dcolon_prefix addr_group_def)
qed

lemma includes3_Cons:
  "c \<noteq> CHR '':'' \<or> r = [] \<or> hd r \<noteq> CHR '':'' \<Longrightarrow> js_includes (c # r) '':::'' = js_includes r '':::''"
  by (cases r) (auto simp: starts_with_def)

lemma includes3_prefix: "CHR '':'' \<notin> set p \<Longrightarrow> js_includes (p @ r) '':::'' = js_includes r '':::''"
proof (induction p)
  case (Cons a p)
  then have "js_includes (a # (p @ r)) '':::'' = js_includes (p @ r) '':::''"
    by (intro includes3_Cons) auto
  with Cons show ?case by (simp del: js_includes.simps)
qed simp

lemma includes3_dcolon: "r = [] \<or> hd r \<noteq> CHR '':'' \<Longrightarrow> js_includes (''::'' @ r) '':::'' = js_includes r '':::''"
  by (cases r) (auto simp: starts_with_def)

lemma includes3_join: "\<forall>g \<in> set gs. addr_group g \<Longrightarrow> \<not> js_includes (join '':'' gs) '':::''"
proof (induction gs rule: induct_list012)
  case (2 g)
  then show ?case using includes3_prefix [of g "[]"] by (simp add: addr_group_def)
next
  case (3 g h gs)
  have "\<not> js_includes (CHR '':'' # join '':'' (h # gs)) '':::''"
    using join_hd [of "h # gs" "'':''"] 3 by (subst includes3_Cons) auto
  with 3(3) show ?case by (simp add: includes3_prefix addr_group_def)
qed simp

lemma includes3_join2:
  "\<forall>g \<in> set gs. addr_group g \<Longrightarrow> \<forall>g \<in> set hs. addr_group g \<Longrightarrow>
   \<not> js_includes (join '':'' gs @ ''::'' @ join '':'' hs) '':::''"
proof (induction gs rule: induct_list012)
  case 1
  have "js_includes (''::'' @ join '':'' hs) '':::'' = js_includes (join '':'' hs) '':::''"
    using 1 join_hd [of hs "'':''"] by (intro includes3_dcolon) (cases hs; auto)
  with 1 show ?case by (simp add: includes3_join)
next
  case (2 g)
  have "js_includes (''::'' @ join '':'' hs) '':::'' = js_includes (join '':'' hs) '':::''"
    using 2 join_hd [of hs "'':''"] by (intro includes3_dcolon) (cases hs; auto)
  with 2 show ?case by (simp add: includes3_prefix addr_group_def includes3_join)
next
  case (3 g h gs)
  have "\<not> js_includes (CHR '':'' # (join '':'' (h # gs) @ ''::'' @ join '':'' hs)) '':::''"
    using join_hd [of "h # gs" "'':''"] 3 by (subst includes3_Cons) auto
  with 3(3) show ?case by (simp add: includes3_prefix addr_group_def)
qed

lemma ipv6_groups_join: "\<forall>g \<in> set gs. hex_group g \<Longrightarrow> ipv6_groups (join '':'' gs) = Some gs"
proof (cases "gs = []")
  case False
  assume h: "\<forall>g \<in> set gs. hex_group g"
  then have a: "\<forall>g \<in> set gs. addr_group g" using hex_group_addr by blast
  with False have "join '':'' gs \<noteq> []" using join_hd by blast
  moreover have "split_on (CHR '':'') (join '':'' gs) = gs"
    using False a by (intro split_join) (auto simp: addr_group_def)
  ultimately show ?thesis
    using h by (auto simp: ipv6_groups_def list_ex_iff hex_group_def Let_def)
qed (simp add: ipv6_groups_def)

lemma ipv6_tail_plain: "CHR ''.'' \<notin> set s \<Longrightarrow> ipv6_tail s = Some (s, [])"
proof -
  assume "CHR ''.'' \<notin> set s"
  moreover have "set (rev (takeWhile (\<lambda>c. c \<noteq> CHR '':'') (rev s))) \<subseteq> set s"
    using set_takeWhileD by fastforce
  ultimately show ?thesis by (auto simp: ipv6_tail_def Let_def)
qed

lemma ipv6_text_zero_run:
  obtains b l where "zero_run 0 gs (0, 0) = (b, l)" "b + l \<le> length gs"
    "take b gs @ replicate l ''0'' @ drop (b + l) gs = gs"
proof -
  obtain b l where z: "zero_run 0 gs (0, 0) = (b, l)" by fastforce
  from zero_run_bounds [OF z, of gs "[]"] have b: "b + l \<le> length gs"
    and zs: "\<forall>j<l. gs ! (b + j) = ''0''" by auto
  have "take l (drop b gs) = replicate l ''0''"
    using b zs by (intro nth_equalityI) auto
  then have "take b gs @ replicate l ''0'' @ drop (b + l) gs = gs"
    by (metis append_take_drop_id drop_drop add.commute)
  with z b that show ?thesis by blast
qed

lemma ipv6_text_chars:
  assumes "\<forall>g \<in> set gs. hex_group g" "c \<in> set (ipv6_text gs)"
  shows "is_hex c \<or> c = CHR '':''"
proof -
  obtain b l where z: "zero_run 0 gs (0, 0) = (b, l)" by fastforce
  have sub: "set (join '':'' hs) \<subseteq> {CHR '':''} \<union> \<Union> (set ` set gs)" if "set hs \<subseteq> set gs" for hs
    using set_join [of "'':''" hs] that by auto
  have "set (ipv6_text gs) \<subseteq> {CHR '':''} \<union> \<Union> (set ` set gs)"
    using sub [OF set_take_subset] sub [OF set_drop_subset] sub [OF order.refl]
    by (simp add: ipv6_text_def z)
  with assms show ?thesis by (auto simp: hex_group_def list_all_iff)
qed

lemma expandIpv6_text:
  assumes len: "length gs = 8" and hex: "\<forall>g \<in> set gs. hex_group g"
  shows "expandIpv6 (ipv6_text gs) = Some (concat (map pad4 gs))"
proof -
  let ?t = "ipv6_text gs"
  obtain b l where z: "zero_run 0 gs (0, 0) = (b, l)" and bl: "b + l \<le> length gs"
    and gs: "take b gs @ replicate l ''0'' @ drop (b + l) gs = gs"
    by (rule ipv6_text_zero_run)
  have chars: "is_hex c \<or> c = CHR '':''" if "c \<in> set ?t" for c
    using ipv6_text_chars [OF hex that] .
  have colon: "\<not> is_upper (CHR '':'')" "\<not> is_ws (CHR '':'')"
    by (simp_all add: is_upper_def is_ws_def)
  have low: "js_lower (js_trim ?t) = ?t"
    using chars is_hex_chars colon by (metis js_lower_id js_trim_no_ws)
  have ok: "CHR ''%'' \<notin> set ?t" "CHR ''.'' \<notin> set ?t"
    "\<not> list_ex (\<lambda>c. \<not> (is_hex c \<or> c = CHR '':'' \<or> c = CHR ''.'')) ?t"
    using chars is_hex_chars by (auto simp: list_ex_iff)
  have addr: "\<forall>g \<in> set gs. addr_group g" using hex hex_group_addr by blast
  have sub: "set (take b gs) \<subseteq> set gs" "set (drop (b + l) gs) \<subseteq> set gs"
    by (rule set_take_subset, rule set_drop_subset)
  show ?thesis
  proof (cases "l \<ge> 2")
    case True
    then have t: "?t = join '':'' (take b gs) @ ''::'' @ join '':'' (drop (b + l) gs)"
      by (simp add: ipv6_text_def z)
    have "split_dcolon ?t = [join '':'' (take b gs), join '':'' (drop (b + l) gs)]"
      unfolding t using addr sub by (intro split_dcolon_join2) auto
    moreover have "\<not> js_includes ?t '':::''"
      unfolding t using addr sub by (intro includes3_join2) auto
    moreover have "ipv6_groups (join '':'' (take b gs)) = Some (take b gs)"
      "ipv6_groups (join '':'' (drop (b + l) gs)) = Some (drop (b + l) gs)"
      using hex sub by (auto intro!: ipv6_groups_join)
    moreover have "?t \<noteq> []" using t by simp
    moreover have "8 - (length (take b gs) + length (drop (b + l) gs)) = l"
      "\<not> length (take b gs) + length (drop (b + l) gs) > 7" using bl len True by auto
    ultimately show ?thesis
      using low ok gs by (simp add: expandIpv6_def ipv6_tail_plain Let_def)
  next
    case False
    then have t: "?t = join '':'' gs" by (simp add: ipv6_text_def z)
    have "gs \<noteq> []" using len by auto
    then have "?t \<noteq> []" unfolding t using addr join_hd by blast
    moreover have "split_dcolon ?t = [?t]" "\<not> js_includes ?t '':::''" "ipv6_groups ?t = Some gs"
      unfolding t using addr hex
      by (simp_all add: split_dcolon_join includes3_join ipv6_groups_join)
    ultimately show ?thesis
      using low ok len by (simp add: expandIpv6_def ipv6_tail_plain Let_def)
  qed
qed

subsection \<open>The expanded form\<close>

lemma octet_pair_less:
  assumes "a \<le> (255 :: nat)" "b \<le> 255"
  shows "or (push_bit 8 a) b < 16 ^ 4"
proof -
  have "take_bit 16 (push_bit 8 a) = push_bit 8 a" "take_bit 16 b = b"
    using assms by (simp_all add: take_bit_nat_eq_self_iff push_bit_nat_def)
  then have "take_bit 16 (or (push_bit 8 a) b) = or (push_bit 8 a) b"
    by (simp only: take_bit_or)
  then show ?thesis unfolding take_bit_nat_eq_self_iff by simp
qed

lemma parseIpv4_octets:
  assumes "parseIpv4 t = Some v4"
  shows "length v4 = 4" "i < 4 \<Longrightarrow> v4 ! i \<le> 255"
  using assms by (auto simp: parseIpv4_iff)

definition text_group :: "string \<Rightarrow> bool" where
  "text_group g \<longleftrightarrow> length g \<le> 4 \<and> (\<forall>c \<in> set g. is_hex c \<or> c = CHR ''.'')"

lemma hex_text_group: "hex_group g \<Longrightarrow> text_group g"
  by (auto simp: hex_group_def text_group_def list_all_iff)

lemma ipv6_tail_Some:
  assumes "ipv6_tail s = Some (body, tail)"
  shows "set body \<subseteq> set s" "\<forall>g \<in> set tail. hex_group g"
proof -
  have sub: "set (take n s) \<subseteq> set s" "set (butlast (take n s)) \<subseteq> set s" for n
    by (auto dest: in_set_takeD in_set_butlastD)
  show "set body \<subseteq> set s"
    using assms sub by (auto simp: ipv6_tail_def Let_def split: if_splits option.splits)
  have "hex_group (hex_of_nat (or (push_bit 8 a) b))" if "a \<le> 255" "b \<le> 255" for a b :: nat
    using hex_of_nat_length [OF octet_pair_less [OF that]] hex_of_nat_hex
    by (simp add: hex_group_def)
  then show "\<forall>g \<in> set tail. hex_group g"
    using assms by (auto simp: ipv6_tail_def Let_def parseIpv4_octets split: if_splits option.splits)
qed

lemma ipv6_groups_Some:
  "ipv6_groups part = Some gs \<Longrightarrow> \<forall>c \<in> set part. is_hex c \<or> c = CHR '':'' \<or> c = CHR ''.'' \<Longrightarrow>
   g \<in> set gs \<Longrightarrow> text_group g"
  using split_on_parts [of g "CHR '':''" part] set_split_on_subset [of g "CHR '':''" part]
  by (force simp: ipv6_groups_def Let_def list_ex_iff text_group_def split: if_splits)

lemma set_split_dcolon: "p \<in> set (split_dcolon s) \<Longrightarrow> set p \<subseteq> set s"
  by (induction s arbitrary: p rule: split_dcolon.induct)
     (fastforce split: if_splits list.splits)+

lemma concat_pad4:
  "\<forall>g \<in> set gs. text_group g \<Longrightarrow> length (concat (map pad4 gs)) = 4 * length gs
     \<and> (\<forall>c \<in> set (concat (map pad4 gs)). is_hex c \<or> c = CHR ''.'')"
proof (induction gs)
  case (Cons g gs)
  then have "length (pad4 g) = 4" "\<forall>c \<in> set (pad4 g). is_hex c \<or> c = CHR ''.''"
    by (auto simp: text_group_def length_pad4 pad4_def is_hex_def is_digit_def)
  with Cons show ?case by auto
qed simp

lemma expandIpv6_shape:
  assumes "expandIpv6 t = Some h"
  shows "length h = 32 \<and> (\<forall>c \<in> set h. is_hex c \<or> c = CHR ''.'')"
proof -
  let ?s = "js_lower (js_trim t)"
  obtain body tail where tl: "ipv6_tail ?s = Some (body, tail)"
    using assms by (auto simp: expandIpv6_def Let_def split: if_splits option.splits)
  let ?halves = "split_dcolon body"
  obtain head where hd: "ipv6_groups (?halves ! 0) = Some head"
    using assms tl by (auto simp: expandIpv6_def Let_def split: if_splits option.splits)
  obtain rest where rs: "(if length ?halves = 2 then ipv6_groups (?halves ! 1) else Some []) = Some rest"
    using assms tl hd by (auto simp: expandIpv6_def Let_def split: if_splits option.splits)
  have chars: "\<forall>c \<in> set ?s. is_hex c \<or> c = CHR '':'' \<or> c = CHR ''.''"
    using assms by (auto simp: expandIpv6_def Let_def list_ex_iff split: if_splits)
  then have part: "\<forall>c \<in> set p. is_hex c \<or> c = CHR '':'' \<or> c = CHR ''.''" if "p \<in> set ?halves" for p
    using set_split_dcolon [OF that] ipv6_tail_Some(1) [OF tl] by blast
  have "\<forall>g \<in> set head. text_group g"
    using ipv6_groups_Some [OF hd part] nth_mem [of 0 ?halves] by simp
  moreover have "\<forall>g \<in> set rest. text_group g"
    using ipv6_groups_Some [OF _ part] nth_mem [of 1 ?halves] rs by (auto split: if_splits)
  moreover have "\<forall>g \<in> set tail. text_group g"
    using ipv6_tail_Some(2) [OF tl] hex_text_group by blast
  moreover have "text_group ''0''" by (simp add: text_group_def is_hex_def is_digit_def)
  ultimately have ok: "\<forall>g \<in> set (head @ replicate n ''0'' @ rest @ tail). text_group g" for n
    by auto
  obtain n where "h = concat (map pad4 (head @ replicate n ''0'' @ rest @ tail))"
    "length (head @ replicate n ''0'' @ rest @ tail) = 8"
  proof (cases "length ?halves = 2")
    case True
    with assms tl hd rs that [of "8 - (length head + length rest + length tail)"] show ?thesis
      by (auto simp: expandIpv6_def Let_def split: if_splits)
  next
    case False
    with assms tl hd rs that [of 0] show ?thesis
      by (auto simp: expandIpv6_def Let_def split: if_splits)
  qed
  with concat_pad4 [OF ok, of n] show ?thesis by simp
qed


subsection \<open>Owner names and back\<close>

lemma split_last: "split_on d (s @ [d]) = split_on d s @ [[]]"
  by (induction s) (auto split: list.splits)

lemma split_on_concat: "split_on d (p @ d # s) = split_on d p @ split_on d s"
  by (induction p) (auto split: list.splits)

lemma plain_name:
  assumes "\<And>c. c \<in> set s \<Longrightarrow> \<not> is_upper c \<and> \<not> is_ws c"
  shows "strip_dot (js_lower (js_trim (s @ ''.''))) = s"
proof -
  have "js_trim (s @ ''.'') = s @ ''.''"
    using assms by (intro js_trim_no_ws) auto
  moreover have "js_lower (s @ ''.'') = s @ ''.''"
    using assms by (intro js_lower_id) (auto simp: is_upper_def)
  ultimately show ?thesis by simp
qed

definition label_ok :: "string \<Rightarrow> bool" where
  "label_ok l \<longleftrightarrow> (\<forall>c \<in> set l. \<not> is_upper c \<and> \<not> is_ws c \<and> c \<noteq> CHR ''.'')"

lemma join_ok:
  "\<forall>l \<in> set ls. label_ok l \<Longrightarrow> c \<in> set (join ''.'' ls) \<Longrightarrow> \<not> is_upper c \<and> \<not> is_ws c"
  using set_join [of "''.''" ls] by (fastforce simp: label_ok_def is_upper_def is_ws_def)

lemma owner_of_labels:
  assumes "ls \<noteq> []" "\<forall>l \<in> set ls. label_ok l"
  shows "strip_dot (js_lower (js_trim (join ''.'' ls @ ''.''))) = join ''.'' ls"
    "split_on (CHR ''.'') (join ''.'' ls) = ls"
  using assms join_ok [OF assms(2)] by (auto intro!: plain_name split_join simp: label_ok_def)

lemma label_ok_dec: "label_ok (dec_of_nat n)"
  using dec_of_nat_digits [of _ n] by (force simp: label_ok_def is_digit_def is_upper_def is_ws_def)

lemma label_ok_arpa: "label_ok ''in-addr''" "label_ok ''ip6''" "label_ok ''arpa''"
  by (simp_all add: label_ok_def is_upper_def is_ws_def)

lemma reverseOwnerName_v4:
  assumes "parseIpv4 ip = Some os"
  shows "reverseOwnerName ip
    = Some (join ''.'' (rev (map dec_of_nat os) @ [''in-addr'', ''arpa'']) @ ''.'')"
proof -
  have os: "os \<noteq> []" using assms by (auto simp: parseIpv4_iff)
  then have "split_on (CHR ''.'') (join ''.'' (map dec_of_nat os)) = map dec_of_nat os"
    by (intro split_join) (auto simp: dec_no_dot)
  with assms os show ?thesis
    by (simp add: reverseOwnerName_def parseIp_def join_append rev_map)
qed

lemma owner_v4_plain:
  "parseIpv4 ip = Some os \<Longrightarrow>
   owner_v4 (join ''.'' (rev (map dec_of_nat os) @ [''in-addr'', ''arpa'']))
     = Some (join ''.'' (map dec_of_nat os))"
proof -
  assume *: "parseIpv4 ip = Some os"
  then obtain a b c d where os: "os = [a, b, c, d]" "a \<le> 255" "b \<le> 255" "c \<le> 255" "d \<le> 255"
    by (auto simp: parseIpv4_iff length_Suc_conv eval_nat_numeral)
  have "split_on (CHR ''.'') (join ''.'' (rev (map dec_of_nat os) @ [''in-addr'', ''arpa'']))
      = rev (map dec_of_nat os) @ [''in-addr'', ''arpa'']"
    by (rule owner_of_labels(2)) (auto simp: label_ok_dec label_ok_arpa os)
  with os show ?thesis by (simp add: owner_v4_def digits13_dec_of_nat)
qed

lemma parseIp_v4: "parseIpv4 ip = Some os \<Longrightarrow>
   parseIp ip = Some \<lparr>ip_family = V4, ip_canonical = join ''.'' (map dec_of_nat os)\<rparr>"
  by (simp add: parseIp_def)

lemma parseIpv4_dec:
  "parseIpv4 ip = Some os \<Longrightarrow> parseIpv4 (join ''.'' (map dec_of_nat os)) = Some os"
proof -
  assume *: "parseIpv4 ip = Some os"
  then have "js_trim (join ''.'' (map dec_of_nat os)) = join ''.'' (map dec_of_nat os)"
    by (metis js_trim_idem parseIpv4_iff)
  with * show ?thesis by (simp add: parseIpv4_iff)
qed

lemma roundtrip_v4:
  assumes "parseIpv4 ip = Some os"
  shows "\<exists>owner t. reverseOwnerName ip = Some owner \<and> ipFromReverseOwner owner = Some t
     \<and> parseIp t = parseIp ip"
proof -
  let ?ls = "rev (map dec_of_nat os) @ [''in-addr'', ''arpa'']"
  have ok: "?ls \<noteq> []" "\<forall>l \<in> set ?ls. label_ok l" by (auto simp: label_ok_dec label_ok_arpa)
  have "ipFromReverseOwner (join ''.'' ?ls @ ''.'') = Some (join ''.'' (map dec_of_nat os))"
    using owner_of_labels(1) [OF ok] owner_v4_plain [OF assms] parseIpv4_dec [OF assms]
    by (simp add: ipFromReverseOwner_def Let_def)
  moreover have "parseIp (join ''.'' (map dec_of_nat os)) = parseIp ip"
    using parseIp_v4 [OF assms] parseIp_v4 [OF parseIpv4_dec [OF assms]] by simp
  ultimately show ?thesis using reverseOwnerName_v4 [OF assms] by blast
qed

lemma owner_v4_length: "owner_v4 name \<noteq> None \<Longrightarrow> length (split_on (CHR ''.'') name) \<le> 7"
  by (auto simp: owner_v4_def split: list.splits)

lemma parseIpv4_no_dot: "CHR ''.'' \<notin> set t \<Longrightarrow> parseIpv4 t = None"
proof -
  assume "CHR ''.'' \<notin> set t"
  moreover have "set (js_trim t) \<subseteq> set t"
    unfolding js_trim_def by (metis set_dropWhileD set_rev subsetI)
  ultimately show ?thesis
    by (simp add: parseIpv4_def Let_def split_on_no_sep subset_eq)
       (metis split_on_no_sep One_nat_def length_Cons list.size(3) numeral_eq_one_iff semiring_norm(83))
qed

lemma concat_singletons: "concat (map (\<lambda>c. [c]) s) = s"
  by (induction s) auto

lemma roundtrip_v6:
  assumes v4: "parseIpv4 ip = None" and h: "expandIpv6 ip = Some h" and nodot: "CHR ''.'' \<notin> set h"
  shows "\<exists>owner t. reverseOwnerName ip = Some owner \<and> ipFromReverseOwner owner = Some t
     \<and> parseIp t = parseIp ip"
proof -
  from expandIpv6_shape [OF h] nodot have len: "length h = 32" and hex: "list_all is_hex h"
    by (auto simp: list_all_iff)
  let ?ns = "rev (map (\<lambda>c. [c]) h)" 
  let ?ls = "?ns @ [''ip6'', ''arpa'']"
  let ?gs = "map (\<lambda>g. hex_of_nat (nat_of_hex g)) (chunks4 h)"
  let ?t = "ipv6_text ?gs"
  have ne: "?ns \<noteq> []" using len by auto
  have own: "reverseOwnerName ip = Some (join ''.'' ?ls @ ''.'')"
    using v4 h ne by (simp add: reverseOwnerName_def parseIp_def join_append del: rev_is_Nil_conv)
  have ok: "?ls \<noteq> []" "\<forall>l \<in> set ?ls. label_ok l"
    using hex is_hex_chars by (auto simp: label_ok_arpa) (auto simp: label_ok_def list_all_iff)
  have sp: "split_on (CHR ''.'') (join ''.'' ?ls) = ?ls"
    by (rule owner_of_labels(2) [OF ok])
  have "owner_v4 (join ''.'' ?ls) = None"
    using owner_v4_length [of "join ''.'' ?ls"] len by (fastforce simp: sp)
  moreover have "owner_v6 (join ''.'' ?ls) = Some h"
    using len hex by (simp add: owner_v6_def sp Let_def list_all_iff rev_map [symmetric] concat_singletons)
  ultimately have bk: "ipFromReverseOwner (join ''.'' ?ls @ ''.'') = Some ?t"
    using owner_of_labels(1) [OF ok] by (simp add: ipFromReverseOwner_def Let_def)
  have ch: "concat (chunks4 h) = h" "length (chunks4 h) = 8"
    "\<And>g. g \<in> set (chunks4 h) \<Longrightarrow> length g = 4 \<and> list_all is_hex g"
    using chunks4_32 [of h 8] len hex by (auto simp: list_all_iff)
  have groups: "\<forall>g \<in> set ?gs. hex_group g" using ch(3) hex_group_print by auto
  have "expandIpv6 ?t = Some (concat (map pad4 ?gs))"
    using ch(2) groups by (intro expandIpv6_text) auto
  moreover have "map pad4 ?gs = chunks4 h"
    using ch(3) by (auto intro!: map_idI simp: pad4_hex)
  ultimately have "expandIpv6 ?t = Some h" using ch(1) by simp
  moreover have "CHR ''.'' \<notin> set ?t"
    using ipv6_text_chars [OF groups] is_hex_chars by fastforce
  then have "parseIpv4 ?t = None" by (rule parseIpv4_no_dot)
  ultimately have "parseIp ?t = parseIp ip" using v4 h by (simp add: parseIp_def)
  with own bk show ?thesis by blast
qed

lemma reverse_roundtrip_main:
  assumes "parseIp ip = Some p" and "ip_family p = V6 \<Longrightarrow> CHR ''.'' \<notin> set (ip_canonical p)"
  shows "\<exists>owner t. reverseOwnerName ip = Some owner \<and> ipFromReverseOwner owner = Some t
     \<and> parseIp t = Some p"
proof (cases "parseIpv4 ip")
  case (Some os)
  with assms(1) roundtrip_v4 show ?thesis by metis
next
  case None
  with assms obtain h where "expandIpv6 ip = Some h" "CHR ''.'' \<notin> set h"
    by (auto simp: parseIp_def split: option.splits)
  with assms(1) None roundtrip_v6 show ?thesis by metis
qed

text \<open>
  C13. Round trip: the reverse owner name of an address, read back by \<open>ipFromReverseOwner\<close>, gives
  a text that parses to the same address, for IPv4 and for IPv6 (where the text is the compressed
  RFC 5952 form).  The one exception is IPv6 text whose expansion keeps a stray dot (the claim on expansion).
\<close>

theorem reverse_roundtrip:
  assumes "parseIp ip = Some p" and "ip_family p = V6 \<Longrightarrow> CHR ''.'' \<notin> set (ip_canonical p)"
  shows "\<exists>owner t. reverseOwnerName ip = Some owner \<and> ipFromReverseOwner owner = Some t
     \<and> parseIp t = Some p"
  by (rule reverse_roundtrip_main [OF assms])

theorem reverse_roundtrip_witness:
  "\<exists>owner t. reverseOwnerName ''2001:DB8::ff00:0:1'' = Some owner
     \<and> ipFromReverseOwner owner = Some t
     \<and> parseIp t = Some \<lparr>ip_family = V6, ip_canonical = ''20010db8000000000000ff0000000001''\<rparr>"
proof (rule reverse_roundtrip)
  show "parseIp ''2001:DB8::ff00:0:1'' = Some \<lparr>ip_family = V6, ip_canonical = ''20010db8000000000000ff0000000001''\<rparr>"
    by code_simp
qed simp


lemma expandIpv6_stray_dot:
  "expandIpv6 ''1.2::1.2.3.4'' = Some ''01.20000000000000000000001020304''"
  by code_simp



end
