(* ===== verification/RrNames.thy ===== *)
theory RrNames
  imports Zonefile ZoneDiff ReverseName
begin

section \<open>Record contents: results, names and numbers\<close>

text \<open>
  \<open>lib/validators/rr-types/types.ts\<close>, \<open>hostname.ts\<close> and the validators whose content is built on a name:
  CNAME, DNAME, NS, PTR, MX, SRV, and the generic one.  A message is a constructor that carries the
  values the text is filled with.  \<open>numText\<close> stands for \<open>String(Number(s))\<close> on text that is not a run of
  digits of a number a double holds exactly; a validator that uses it has reported an error.
\<close>

datatype rr_level = RrError | RrWarning

datatype rr_message =
    NameRequired | NameTooLong nat | MissingTrailingDot | EmptyLabel nat | LabelTooLong string nat
  | WildcardUnusual | WildcardNotLeftmost | LabelUnderscore string | LabelHyphen string | LabelCharacters string
  | LooksLikeAddress | WrongTokenCount nat | NotAnInteger string string | OutOfRange16 string | OutOfRange8 string
  | NullMxPreference | PortZero | ContentEmpty | ContentNewline | ContentTooLong nat | NoTypeAwareCheck string
  | NotIpv4 | OctetRange nat | SpecialAddress string | NotIpv6
  | TxtNotQuoted | TxtStringTooLong nat | TxtTooLong nat | TxtAutoQuote
  | CaaReservedFlags | CaaTagSyntax | CaaUnknownTag string | CaaAutoQuote
  | UriEmptyTarget | UriNoScheme
  | LuaQueryType string | LuaTypeRange | LuaSnippet string | LuaEmptySnippet | LuaSegmentTooLong nat
  | FieldUnknown string nat | FieldDeprecated string nat | HexRequired string | HexEmpty string
  | HexLength string nat nat | CertShort
  | NotBase64 | Base64Length nat | KeyShort nat
  | AliasModeParams | TargetEmpty | ParamKeyEmpty string | ParamDuplicate string | ParamUnknown string
  | ParamNoValue string | ParamBoolean string | ParamNotUint16 string string | ParamNotBase64 string string
  | NaptrTokens | NaptrFlagsLong string | NaptrFlagUnknown char | NotQuoted string | NaptrRegexpParts nat
  | NaptrReplacementDot string | NaptrNothing | NaptrBoth

type_synonym rr_issue = "rr_level \<times> rr_message"

record rr_result =
  rv_issues :: "rr_issue list"
  rv_normalized :: string

definition hasErrors :: "rr_result \<Rightarrow> bool" where
  "hasErrors result \<longleftrightarrow> list_ex (\<lambda>i. fst i = RrError) (rv_issues result)"

definition hasIssues :: "rr_result \<Rightarrow> bool" where
  "hasIssues result \<longleftrightarrow> length (rv_issues result) > 0"

definition rr_return :: "rr_issue list \<Rightarrow> string \<Rightarrow> rr_result" where
  "rr_return issues normalized = \<lparr>rv_issues = issues, rv_normalized = normalized\<rparr>"

definition rr_error :: "rr_message \<Rightarrow> rr_issue" where "rr_error m = (RrError, m)"

definition rr_warning :: "rr_message \<Rightarrow> rr_issue" where "rr_warning m = (RrWarning, m)"

text \<open>\<open>push\<close> under a condition.\<close>

definition when_issue :: "bool \<Rightarrow> rr_issue \<Rightarrow> rr_issue list" where
  "when_issue b i = (if b then [i] else [])"

subsection \<open>hostname.ts\<close>

record hostname_options =
  ho_allowWildcard :: bool
  ho_requireTrailingDot :: bool
  ho_allowUnderscore :: bool

definition no_options :: hostname_options where
  "no_options = \<lparr>ho_allowWildcard = False, ho_requireTrailingDot = False, ho_allowUnderscore = False\<rparr>"

definition is_letter :: "char \<Rightarrow> bool" where
  "is_letter c \<longleftrightarrow> 65 \<le> code c \<and> code c \<le> 90 \<or> 97 \<le> code c \<and> code c \<le> 122"

definition PREFERRED_LABEL :: "string \<Rightarrow> bool" where
  "PREFERRED_LABEL l \<longleftrightarrow> 1 \<le> length l \<and> length l \<le> 63
     \<and> list_all (\<lambda>c. is_letter c \<or> is_digit c \<or> c = CHR ''-'') l \<and> hd l \<noteq> CHR ''-'' \<and> last l \<noteq> CHR ''-''"

definition RELAXED_LABEL :: "string \<Rightarrow> bool" where
  "RELAXED_LABEL l \<longleftrightarrow> 1 \<le> length l \<and> length l \<le> 63
     \<and> list_all (\<lambda>c. is_letter c \<or> is_digit c \<or> c = CHR ''_'' \<or> c = CHR ''-'') l"

definition label_issues :: "hostname_options \<Rightarrow> nat \<Rightarrow> string \<Rightarrow> rr_issue list" where
  "label_issues opts idx l =
     (if l = [] then [rr_error (EmptyLabel (idx + 1))]
      else when_issue (length l > 63) (rr_error (LabelTooLong l (length l)))
        @ (if l = ''*'' then
             (if \<not> ho_allowWildcard opts then [rr_warning WildcardUnusual]
              else if idx \<noteq> 0 then [rr_error WildcardNotLeftmost]
              else [])
           else
             when_issue (CHR ''_'' \<in> set l \<and> \<not> ho_allowUnderscore opts) (rr_warning (LabelUnderscore l))
             @ (if \<not> PREFERRED_LABEL l then
                  (if RELAXED_LABEL l then when_issue (CHR ''_'' \<notin> set l) (rr_warning (LabelHyphen l))
                   else [rr_error (LabelCharacters l)])
                else [])))"

definition validateHostname :: "string \<Rightarrow> hostname_options \<Rightarrow> rr_result" where
  "validateHostname raw opts =
     (let trimmed = js_trim raw in
      if trimmed = [] then rr_return [rr_error NameRequired] raw
      else
        let hadTrailingDot = ends_with trimmed ''.'';
            withoutDot = (if hadTrailingDot then butlast trimmed else trimmed);
            labels = split_on (CHR ''.'') withoutDot
        in rr_return
             (when_issue (length trimmed > 254) (rr_error (NameTooLong (length trimmed)))
              @ when_issue (\<not> hadTrailingDot) (rr_warning MissingTrailingDot)
              @ concat (map (\<lambda>il. label_issues opts (fst il) (snd il)) (List.enumerate 0 labels)))
             (js_lower withoutDot @ ''.''))"

definition validateRRsetName :: "string \<Rightarrow> rr_result" where
  "validateRRsetName raw =
     (let trimmed = js_trim raw in
      if trimmed = [] \<or> trimmed = ''@'' then rr_return [] ''@''
      else validateHostname trimmed no_options)"

subsection \<open>Types whose content is a name\<close>

definition ns_validate :: "string \<Rightarrow> rr_result" where
  "ns_validate content = validateHostname (js_trim content) no_options"

definition ptr_validate :: "string \<Rightarrow> rr_result" where
  "ptr_validate content = validateHostname (js_trim content) no_options"

definition IPV4_LITERAL :: "string \<Rightarrow> bool" where
  "IPV4_LITERAL s \<longleftrightarrow> (let parts = split_on (CHR ''.'') (strip_dot s) in length parts = 4 \<and> list_all digits13 parts)"

definition is_hex_any :: "char \<Rightarrow> bool" where
  "is_hex_any c \<longleftrightarrow> is_digit c \<or> 97 \<le> code c \<and> code c \<le> 102 \<or> 65 \<le> code c \<and> code c \<le> 70"

definition IPV6_LITERAL :: "string \<Rightarrow> bool" where
  "IPV6_LITERAL s \<longleftrightarrow> (let t = strip_dot s in t \<noteq> [] \<and> list_all (\<lambda>c. is_hex_any c \<or> c = CHR '':'') t)"

definition name_target_validate :: "string \<Rightarrow> rr_result" where
  "name_target_validate content =
     (let trimmed = js_trim content; result = validateHostname trimmed no_options in
      rr_return
        (when_issue (IPV4_LITERAL trimmed \<or> CHR '':'' \<in> set trimmed \<and> IPV6_LITERAL trimmed) (rr_warning LooksLikeAddress)
         @ rv_issues result)
        (rv_normalized result))"

definition cname_validate :: "string \<Rightarrow> rr_result" where
  "cname_validate content = name_target_validate content"

definition dname_validate :: "string \<Rightarrow> rr_result" where
  "dname_validate content = name_target_validate content"

definition all_digits :: "string \<Rightarrow> bool" where
  "all_digits s \<longleftrightarrow> s \<noteq> [] \<and> list_all is_digit s"

definition num_text :: "(string \<Rightarrow> string) \<Rightarrow> string \<Rightarrow> string" where
  "num_text numText s = (if all_digits s \<and> nat_of_dec s \<le> 2 ^ 53 then dec_of_nat (nat_of_dec s) else numText s)"

definition uint16_issues :: "string \<Rightarrow> string \<Rightarrow> rr_issue list" where
  "uint16_issues field s =
     (if \<not> all_digits s then [rr_error (NotAnInteger field s)]
      else when_issue (nat_of_dec s > 65535) (rr_error (OutOfRange16 field)))"

definition mx_validate :: "(string \<Rightarrow> string) \<Rightarrow> string \<Rightarrow> rr_result" where
  "mx_validate numText content =
     (let trimmed = js_trim content; parts = split_ws trimmed in
      if length parts \<noteq> 2 then rr_return [rr_error (WrongTokenCount 2)] trimmed
      else
        let prefStr = parts ! 0; exchange = parts ! 1; issues = uint16_issues ''preference'' prefStr in
        if exchange = ''.'' then
          rr_return (issues @ when_issue (prefStr \<noteq> ''0'') (rr_warning NullMxPreference)) (prefStr @ '' .'')
        else
          let host = validateHostname exchange no_options in
          rr_return (issues @ rv_issues host) (num_text numText prefStr @ '' '' @ rv_normalized host))"

definition srv_field_issues :: "string \<Rightarrow> string \<Rightarrow> rr_issue list" where
  "srv_field_issues lbl v =
     (if \<not> all_digits v then [rr_error (NotAnInteger lbl v)]
      else let n = nat_of_dec v in
        if lbl = ''port'' \<and> n > 65535 then [rr_error (OutOfRange16 lbl)]
        else if lbl = ''port'' \<and> n < 1 then [rr_warning PortZero]
        else if (lbl = ''priority'' \<or> lbl = ''weight'') \<and> n > 65535 then [rr_error (OutOfRange16 lbl)]
        else [])"

definition srv_validate :: "(string \<Rightarrow> string) \<Rightarrow> string \<Rightarrow> rr_result" where
  "srv_validate numText content =
     (let trimmed = js_trim content; parts = split_ws trimmed in
      if length parts \<noteq> 4 then rr_return [rr_error (WrongTokenCount 4)] trimmed
      else
        let prio = parts ! 0; weight = parts ! 1; port = parts ! 2; target = parts ! 3;
            issues = srv_field_issues ''priority'' prio @ srv_field_issues ''weight'' weight @ srv_field_issues ''port'' port
        in if target = ''.'' then rr_return issues (prio @ '' '' @ weight @ '' '' @ port @ '' .'')
           else
             let host = validateHostname target no_options in
             rr_return (issues @ rv_issues host)
               (num_text numText prio @ '' '' @ num_text numText weight @ '' '' @ num_text numText port @ '' ''
                 @ rv_normalized host))"

definition generic_validate :: "string \<Rightarrow> string \<Rightarrow> rr_result" where
  "generic_validate type content =
     (let upper = js_upper type; trimmed = js_trim content in
      if trimmed = [] then rr_return [rr_error ContentEmpty] trimmed
      else if LF \<in> set trimmed then rr_return [rr_error ContentNewline] trimmed
      else rr_return
        (when_issue (length trimmed > 65535) (rr_error (ContentTooLong (length trimmed)))
         @ [rr_warning (NoTypeAwareCheck upper)])
        trimmed)"

subsection \<open>Results and their issues\<close>

lemma rr_return_sel [simp]: "rv_normalized (rr_return i n) = n" "rv_issues (rr_return i n) = i"
  by (simp_all add: rr_return_def)

lemma hasErrors_return [simp]: "hasErrors (rr_return is n) \<longleftrightarrow> list_ex (\<lambda>i. fst i = RrError) is"
  by (simp add: hasErrors_def)

lemma when_issue_error [simp]: "list_ex (\<lambda>i. fst i = RrError) (when_issue b i) \<longleftrightarrow> b \<and> fst i = RrError"
  by (simp add: when_issue_def)

lemma issue_levels [simp]: "fst (rr_error m) = RrError" "fst (rr_warning m) = RrWarning"
  by (simp_all add: rr_error_def rr_warning_def)

subsection \<open>Which names are accepted\<close>

definition label_accepted :: "hostname_options \<Rightarrow> nat \<Rightarrow> string \<Rightarrow> bool" where
  "label_accepted opts idx l \<longleftrightarrow> (if l = ''*'' then \<not> ho_allowWildcard opts \<or> idx = 0 else RELAXED_LABEL l)"

lemma preferred_relaxed: "PREFERRED_LABEL l \<Longrightarrow> RELAXED_LABEL l"
  by (auto simp: PREFERRED_LABEL_def RELAXED_LABEL_def list_all_iff)

lemma label_issues_accepted:
  "list_ex (\<lambda>i. fst i = RrError) (label_issues opts idx l) \<longleftrightarrow> \<not> label_accepted opts idx l"
proof (cases "l = [] \<or> l = ''*''")
  case True
  then show ?thesis by (auto simp: label_issues_def label_accepted_def RELAXED_LABEL_def)
next
  case False
  then have "length l > 63 \<Longrightarrow> \<not> RELAXED_LABEL l" by (simp add: RELAXED_LABEL_def)
  with False preferred_relaxed [of l] show ?thesis
    by (auto simp: label_issues_def label_accepted_def list_ex_append)
qed

lemma list_ex_concat_enumerate:
  "list_ex P (concat (map (\<lambda>il. f (fst il) (snd il)) (List.enumerate n ls)))
    \<longleftrightarrow> (\<exists>i < length ls. list_ex P (f (n + i) (ls ! i)))"
proof (induction ls arbitrary: n)
  case (Cons l ls)
  show ?case by (auto simp: list_ex_append Cons less_Suc_eq_0_disj)
qed simp

lemma hostname_labels:
  assumes "js_trim raw \<noteq> []"
  shows "rv_issues (validateHostname raw opts) =
    when_issue (length (js_trim raw) > 254) (rr_error (NameTooLong (length (js_trim raw))))
    @ when_issue (\<not> ends_with (js_trim raw) ''.'') (rr_warning MissingTrailingDot)
    @ concat (map (\<lambda>il. label_issues opts (fst il) (snd il)) (List.enumerate 0 (split_on (CHR ''.'') (strip_dot (js_trim raw)))))"
  using assms by (simp add: validateHostname_def Let_def strip_dot_def)

text \<open>
  A name is accepted exactly when it is not blank, has at most 254 characters, and each of its labels is
  either a run of 1 to 63 letters, digits, hyphens and underscores or an asterisk; where the caller asked
  for wildcards, the asterisk may only be the leftmost label.
\<close>

theorem hostname_accepts:
  "\<not> hasErrors (validateHostname raw opts) \<longleftrightarrow>
     js_trim raw \<noteq> [] \<and> length (js_trim raw) \<le> 254
     \<and> (let labels = split_on (CHR ''.'') (strip_dot (js_trim raw)) in
        list_all (\<lambda>i. label_accepted opts i (labels ! i)) [0..<length labels])"
proof (cases "js_trim raw = []")
  case True
  then show ?thesis by (simp add: validateHostname_def)
next
  case False
  let ?ls = "split_on (CHR ''.'') (strip_dot (js_trim raw))"
  have "hasErrors (validateHostname raw opts) \<longleftrightarrow>
      length (js_trim raw) > 254 \<or> (\<exists>i < length ?ls. \<not> label_accepted opts i (?ls ! i))"
    by (simp add: hasErrors_def hostname_labels [OF False] list_ex_append list_ex_concat_enumerate label_issues_accepted)
  with False show ?thesis by (auto simp: Let_def list_all_iff)
qed

end
