(* ===== verification/Errors.thy ===== *)
theory Errors
  imports Prelude
begin

section \<open>Application errors and how a response reports them\<close>

text \<open>
  Models \<open>lib/errors.ts\<close> (the error hierarchy and its HTTP statuses) and
  \<open>lib/http/error-response.ts\<close> (the one place a thrown value becomes a response).  Logging and
  stack traces are not modelled; a thrown value that is not an application error is kept with the
  message it carries, so that what the response may not reveal is there to be revealed.
\<close>

datatype json = JNull | JBool bool | JNum int | JStr string | JArr "json list"
  | JObj "(string \<times> json) list"

type_synonym details = "(string \<times> json) list option"

datatype app_error =
    ValidationError string details
  | UnauthorizedError string
  | ForbiddenError string
  | NotFoundError string
  | ConflictError string details
  | RateLimitedError int
  | UpstreamError string
  | InternalError string "string option"

datatype thrown =
    AppThrown app_error
  | PdnsThrown nat string
  | ErrorThrown string
  | ValueThrown "string option"

fun error_code :: "app_error \<Rightarrow> string" where
  "error_code (ValidationError m d) = ''VALIDATION_ERROR''"
| "error_code (UnauthorizedError m) = ''UNAUTHORIZED''"
| "error_code (ForbiddenError m) = ''FORBIDDEN''"
| "error_code (NotFoundError m) = ''NOT_FOUND''"
| "error_code (ConflictError m d) = ''CONFLICT''"
| "error_code (RateLimitedError s) = ''RATE_LIMITED''"
| "error_code (UpstreamError m) = ''UPSTREAM_ERROR''"
| "error_code (InternalError m c) = ''INTERNAL_ERROR''"

fun error_status :: "app_error \<Rightarrow> nat" where
  "error_status (ValidationError m d) = 400"
| "error_status (UnauthorizedError m) = 401"
| "error_status (ForbiddenError m) = 403"
| "error_status (NotFoundError m) = 404"
| "error_status (ConflictError m d) = 409"
| "error_status (RateLimitedError s) = 429"
| "error_status (UpstreamError m) = 502"
| "error_status (InternalError m c) = 500"

fun error_message :: "app_error \<Rightarrow> string" where
  "error_message (ValidationError m d) = m"
| "error_message (UnauthorizedError m) = m"
| "error_message (ForbiddenError m) = m"
| "error_message (NotFoundError m) = m"
| "error_message (ConflictError m d) = m"
| "error_message (RateLimitedError s) = ''Too many requests.''"
| "error_message (UpstreamError m) = m"
| "error_message (InternalError m c) = m"

fun error_details :: "app_error \<Rightarrow> details" where
  "error_details (ValidationError m d) = d"
| "error_details (ConflictError m d) = d"
| "error_details (RateLimitedError s) = Some [(''retryAfterSeconds'', JNum s)]"
| "error_details _ = None"

text \<open>A \<open>PdnsError\<close> is an \<open>Error\<close> and not an \<open>AppError\<close>.\<close>

definition toAppError :: "thrown \<Rightarrow> app_error" where
  "toAppError err =
     (case err of
        AppThrown e \<Rightarrow> e
      | PdnsThrown st m \<Rightarrow> InternalError ''An unexpected error occurred.'' (Some m)
      | ErrorThrown m \<Rightarrow> InternalError ''An unexpected error occurred.'' (Some m)
      | ValueThrown v \<Rightarrow> InternalError ''An unexpected error occurred.'' v)"

definition httpStatusForError :: "thrown \<Rightarrow> nat" where
  "httpStatusForError err = (case err of AppThrown e \<Rightarrow> error_status e | _ \<Rightarrow> 500)"

record response =
  r_status :: nat
  r_body :: json
  r_retryAfter :: "int option"

definition is_pdns :: "thrown \<Rightarrow> bool" where
  "is_pdns err = (case err of PdnsThrown st m \<Rightarrow> True | _ \<Rightarrow> False)"

definition errorResponse :: "thrown \<Rightarrow> response" where
  "errorResponse err =
     (if is_pdns err then
        \<lparr>r_status = 502, r_body = JObj [(''error'', JStr ''PDNS rejected the request.'')],
         r_retryAfter = None\<rparr>
      else
        (let appErr = toAppError err in
         case appErr of
           RateLimitedError s \<Rightarrow>
             \<lparr>r_status = 429, r_body = JObj [(''error'', JStr (error_message appErr)),
                (''retryAfterSeconds'', JNum s)], r_retryAfter = Some s\<rparr>
         | _ \<Rightarrow>
           if error_status appErr \<ge> 500 then
             \<lparr>r_status = 500, r_body = JObj [(''error'', JStr ''Internal error.'')],
              r_retryAfter = None\<rparr>
           else
             \<lparr>r_status = error_status appErr,
              r_body = JObj ((''error'', JStr (error_message appErr))
                # (case error_details appErr of Some d \<Rightarrow> [(''details'', JObj d)] | None \<Rightarrow> [])),
              r_retryAfter = None\<rparr>))"

definition client_error :: "thrown \<Rightarrow> bool" where
  "client_error err \<longleftrightarrow> (\<exists>e. err = AppThrown e \<and> error_status e < 500)"



end
