(* ===== verification/Permissions.thy ===== *)
theory Permissions
  imports Errors
begin

section \<open>The permission catalogue and the default roles\<close>

text \<open>
  Models \<open>lib/rbac/permissions.ts\<close>, \<open>lib/rbac/default-roles.ts\<close> and
  \<open>lib/rbac/zone-grant-permissions.ts\<close>.  A permission is the string the source uses; the type
  \<open>Permission\<close> is membership in \<open>PERMISSIONS\<close>.
\<close>

definition PERMISSIONS :: "string list" where
  "PERMISSIONS =
    [''zone.read'', ''zone.create'', ''zone.update'', ''zone.delete'', ''zone.export'', ''zone.import'',
     ''zone.settings.read'',
     ''record.read'', ''record.create'', ''record.update'', ''record.delete'',
     ''record.update.apex-ns'',
     ''soa.read'', ''soa.update'',
     ''dnssec.read'', ''dnssec.configure'',
     ''metadata.read'', ''metadata.write'',
     ''tsig.read'', ''tsig.manage'',
     ''autoprimary.manage'',
     ''template.use'', ''template.manage'',
     ''user.read'', ''user.create'', ''user.update'', ''user.delete'', ''user.disable'',
     ''user.reset-password'',
     ''team.read'', ''team.create'', ''team.update'', ''team.delete'', ''team.manage-members'',
     ''role.read'', ''role.create'', ''role.update'', ''role.delete'', ''role.assign'',
     ''server.read'', ''server.create'', ''server.update'', ''server.delete'',
     ''token.read.own'', ''token.create.own'', ''token.delete.own'', ''token.read.all'',
     ''token.delete.all'',
     ''audit.read'', ''settings.read'', ''settings.write'',
     ''auth.read'', ''auth.manage'',
     ''system.backup'']"

definition SUPER_ADMIN_SLUG :: string where
  "SUPER_ADMIN_SLUG = ''super-admin''"

record default_role =
  dr_slug :: string
  dr_name :: string
  dr_permissions :: "string list"

definition READ_ONLY :: "string list" where
  "READ_ONLY = [''zone.read'', ''zone.settings.read'', ''record.read'', ''soa.read'', ''dnssec.read'',
     ''metadata.read'', ''template.use'', ''team.read'', ''user.read'', ''role.read'', ''server.read'',
     ''token.read.own'', ''settings.read'']"

definition ZONE_EDITOR :: "string list" where
  "ZONE_EDITOR = READ_ONLY @ [''record.create'', ''record.update'', ''record.delete'',
     ''token.create.own'', ''token.delete.own'']"

definition OPERATOR :: "string list" where
  "OPERATOR = ZONE_EDITOR @ [''soa.update'', ''record.update.apex-ns'', ''zone.create'', ''zone.update'',
     ''zone.delete'', ''zone.import'', ''zone.export'', ''metadata.write'', ''template.manage'']"

definition TEAM_OWNER :: "string list" where
  "TEAM_OWNER = OPERATOR @ [''dnssec.configure'', ''tsig.read'', ''tsig.manage'', ''autoprimary.manage'',
     ''team.update'', ''team.manage-members'']"

definition SUPER_ADMIN :: "string list" where
  "SUPER_ADMIN = TEAM_OWNER @ [''team.create'', ''team.delete'', ''user.create'', ''user.update'',
     ''user.delete'', ''user.disable'', ''user.reset-password'', ''role.create'', ''role.update'',
     ''role.delete'', ''role.assign'', ''server.create'', ''server.update'', ''server.delete'',
     ''token.read.all'', ''token.delete.all'', ''audit.read'', ''settings.write'', ''auth.read'',
     ''auth.manage'', ''system.backup'']"

definition DEFAULT_ROLES :: "default_role list" where
  "DEFAULT_ROLES =
    [\<lparr>dr_slug = SUPER_ADMIN_SLUG, dr_name = ''Super Admin'', dr_permissions = SUPER_ADMIN\<rparr>,
     \<lparr>dr_slug = ''team-owner'', dr_name = ''Team Owner'', dr_permissions = TEAM_OWNER\<rparr>,
     \<lparr>dr_slug = ''operator'', dr_name = ''Operator'', dr_permissions = OPERATOR\<rparr>,
     \<lparr>dr_slug = ''zone-editor'', dr_name = ''Zone Editor'', dr_permissions = ZONE_EDITOR\<rparr>,
     \<lparr>dr_slug = ''read-only'', dr_name = ''Read Only'', dr_permissions = READ_ONLY\<rparr>]"

text \<open>\<open>/^(a|b|...)\./.test(p)\<close>: the text before the first dot is one of the alternatives.\<close>

definition resource_in :: "string list \<Rightarrow> string \<Rightarrow> bool" where
  "resource_in rs p \<longleftrightarrow> list_ex (\<lambda>r. starts_with p (r @ ''.'')) rs"

definition ZONE_GRANT_PERMISSIONS :: "string list" where
  "ZONE_GRANT_PERMISSIONS =
     filter (resource_in [''zone'', ''record'', ''soa'', ''dnssec'', ''metadata'', ''tsig'']) PERMISSIONS"

lemma permissions_distinct: "distinct PERMISSIONS"
  by code_simp

lemma permission_nonempty: "p \<in> set PERMISSIONS \<Longrightarrow> p \<noteq> []"
  by (auto simp: PERMISSIONS_def)

lemma append_psubset: "distinct (xs @ y # ys) \<Longrightarrow> set xs \<subset> set (xs @ y # ys)"
  by auto

lemma super_admin_distinct: "distinct SUPER_ADMIN"
  by code_simp

lemma roles_distinct:
  "distinct TEAM_OWNER" "distinct OPERATOR" "distinct ZONE_EDITOR" "distinct READ_ONLY"
  using super_admin_distinct
  unfolding SUPER_ADMIN_def TEAM_OWNER_def OPERATOR_def ZONE_EDITOR_def distinct_append by blast+

lemma roles_psubset:
  "set READ_ONLY \<subset> set ZONE_EDITOR" "set ZONE_EDITOR \<subset> set OPERATOR"
  "set OPERATOR \<subset> set TEAM_OWNER" "set TEAM_OWNER \<subset> set SUPER_ADMIN"
  using append_psubset [OF roles_distinct(3) [unfolded ZONE_EDITOR_def]]
    append_psubset [OF roles_distinct(2) [unfolded OPERATOR_def]]
    append_psubset [OF roles_distinct(1) [unfolded TEAM_OWNER_def]]
    append_psubset [OF super_admin_distinct [unfolded SUPER_ADMIN_def]]
  unfolding ZONE_EDITOR_def [symmetric] OPERATOR_def [symmetric] TEAM_OWNER_def [symmetric]
    SUPER_ADMIN_def [symmetric] .

lemma super_admin_all: "set SUPER_ADMIN = set PERMISSIONS"
  by code_simp

text \<open>
  The seeded roles form a chain, each one holding what the one below holds; the lists name
  known permissions only and none twice, and Super Admin holds exactly the permissions that exist.
\<close>

theorem default_roles_chain:
  "set READ_ONLY \<subset> set ZONE_EDITOR \<and> set ZONE_EDITOR \<subset> set OPERATOR
   \<and> set OPERATOR \<subset> set TEAM_OWNER \<and> set TEAM_OWNER \<subset> set SUPER_ADMIN
   \<and> set SUPER_ADMIN = set PERMISSIONS
   \<and> list_all (\<lambda>r. distinct (dr_permissions r)) DEFAULT_ROLES"
  using roles_psubset super_admin_all roles_distinct super_admin_distinct
  by (simp add: DEFAULT_ROLES_def)

end
