(* ===== verification/AuthPolicy.thy ===== *)
theory AuthPolicy
  imports RrNames Permissions Errors
begin

section \<open>Sign-in policies\<close>

text \<open>
  The decisions of \<open>lib/auth\<close> that need no state: \<open>mfa-compliance.ts\<close>, \<open>session-compliance.ts\<close>,
  \<open>pre-auth-guard.ts\<close>, \<open>settings-lock.ts\<close>, \<open>bootstrap-admin.ts\<close>, \<open>signup-policy.ts\<close>,
  \<open>login-auto-bounce.ts\<close>, the comparison of \<open>csrf.ts\<close> and the check of stored hash parameters of
  \<open>password.ts\<close>.
\<close>

subsection \<open>mfa-compliance.ts and session-compliance.ts\<close>

record role_slice =
  rs_requiresMfa :: bool
  rs_slug :: "string option"

record mfa_state =
  mf_totpEnrolled :: bool
  mf_webauthnEnrolled :: bool
  mf_ssoOnly :: bool
  mf_mfaOverride :: "bool option"

text \<open>\<open>sort\<close> without a comparator, on strings: the parameter \<open>jsSort\<close>, used for a message only.\<close>

datatype mfa_result = MfaCompliant | NoMfaEnrolled "string list"

definition checkMfaCompliance :: "(string list \<Rightarrow> string list) \<Rightarrow> mfa_state \<Rightarrow> role_slice list \<Rightarrow> mfa_result" where
  "checkMfaCompliance jsSort user roles =
     (if mf_mfaOverride user = Some False then MfaCompliant
      else if mf_ssoOnly user then MfaCompliant
      else
        let requiringRoles = filter rs_requiresMfa roles in
        if mf_mfaOverride user \<noteq> Some True \<and> length requiringRoles = 0 then MfaCompliant
        else
          let slugs = (if mf_mfaOverride user = Some True then [''(per-user override)'']
                       else jsSort (map (\<lambda>r. case rs_slug r of Some s \<Rightarrow> s | None \<Rightarrow> ''(unnamed role)'') requiringRoles))
          in if mf_totpEnrolled user \<or> mf_webauthnEnrolled user then MfaCompliant else NoMfaEnrolled slugs)"

datatype compliance_result = Compliant | NotCompliantMfa | NotCompliantPassword

definition evaluateSessionCompliance ::
  "(string list \<Rightarrow> string list) \<Rightarrow> mfa_state \<Rightarrow> bool \<Rightarrow> role_slice list \<Rightarrow> compliance_result" where
  "evaluateSessionCompliance jsSort user mustChangePassword roles =
     (if checkMfaCompliance jsSort user roles \<noteq> MfaCompliant then NotCompliantMfa
      else if mustChangePassword then NotCompliantPassword
      else Compliant)"

text \<open>Who must enrol: a local account that is asked to, by its own flag or by a role, and has no factor.\<close>

definition must_enrol :: "mfa_state \<Rightarrow> role_slice list \<Rightarrow> bool" where
  "must_enrol user roles \<longleftrightarrow>
     \<not> mf_ssoOnly user \<and> \<not> mf_totpEnrolled user \<and> \<not> mf_webauthnEnrolled user
     \<and> (mf_mfaOverride user = Some True \<or> mf_mfaOverride user = None \<and> list_ex rs_requiresMfa roles)"

lemma mfa_compliance_iff: "checkMfaCompliance jsSort user roles = MfaCompliant \<longleftrightarrow> \<not> must_enrol user roles"
proof -
  have r: "length (filter rs_requiresMfa roles) = 0 \<longleftrightarrow> \<not> list_ex rs_requiresMfa roles"
    by (simp add: list_ex_iff filter_empty_conv)
  show ?thesis
    unfolding checkMfaCompliance_def must_enrol_def Let_def r by (cases "mf_mfaOverride user") auto
qed

lemma session_compliance_iff:
  "evaluateSessionCompliance jsSort user mcp roles = Compliant \<longleftrightarrow> \<not> must_enrol user roles \<and> \<not> mcp"
  by (simp add: evaluateSessionCompliance_def mfa_compliance_iff)

subsection \<open>pre-auth-guard.ts\<close>

definition rejectCrossSiteJson ::
  "string \<Rightarrow> string option \<Rightarrow> string option \<Rightarrow> string option \<Rightarrow> (nat \<times> string) option" where
  "rejectCrossSiteJson appOrigin contentType origin site =
     (if \<not> starts_with (js_lower (case contentType of Some c \<Rightarrow> c | None \<Rightarrow> [])) ''application/json''
      then Some (415, ''Expected an application/json body.'')
      else if origin \<noteq> None \<and> origin \<noteq> Some ''null'' \<and> origin \<noteq> Some appOrigin
      then Some (403, ''Cross-site request refused.'')
      else if site \<noteq> None \<and> site \<noteq> Some ''same-origin'' \<and> site \<noteq> Some ''none''
      then Some (403, ''Cross-site request refused.'')
      else None)"

text \<open>
  A browser marks what a foreign page sends: by its own origin, by a cross-site mark, or by one of the
  content types a form can have.  None of these passes.
\<close>

lemma cross_site_refused:
  assumes "rejectCrossSiteJson appOrigin contentType origin site = None"
  shows "contentType \<notin> {None, Some ''text/plain'', Some ''application/x-www-form-urlencoded'', Some ''multipart/form-data''}
    \<and> origin \<in> {None, Some ''null'', Some appOrigin} \<and> site \<notin> {Some ''cross-site'', Some ''same-site''}"
  using assms
  by (cases contentType) (auto simp: rejectCrossSiteJson_def starts_with_def js_lower_def lower_char_def is_upper_def split: if_splits)

text \<open>The opaque origin \<open>null\<close>, which a sandboxed frame or a data URL sends, passes when the browser adds no site mark.\<close>

lemma null_origin_passes: "rejectCrossSiteJson appOrigin (Some ''application/json'') (Some ''null'') None = None"
  by (simp add: rejectCrossSiteJson_def starts_with_def js_lower_def lower_char_def is_upper_def)

subsection \<open>csrf.ts: the comparison\<close>

text \<open>
  \<open>Buffer.from\<close> is UTF-8; the padding of unequal lengths only equalizes the time.  \<open>utf8\<close> stands for the
  encoding.
\<close>

definition verifyCsrf :: "(string \<Rightarrow> string) \<Rightarrow> string option \<Rightarrow> string \<Rightarrow> bool" where
  "verifyCsrf utf8 headerValue sessionSecret =
     (case headerValue of
        None \<Rightarrow> False
      | Some h \<Rightarrow>
          if h = [] then False
          else let a = utf8 h; b = utf8 sessionSecret in
            if length a \<noteq> length b then False else a = b)"

definition SAFE_METHODS :: "string list" where
  "SAFE_METHODS = [''GET'', ''HEAD'', ''OPTIONS'']"

subsection \<open>settings-lock.ts and bootstrap-admin.ts\<close>

definition assertSettingsMutable :: "bool \<Rightarrow> thrown + unit" where
  "assertSettingsMutable settingsRo =
     (if settingsRo then Inl (AppThrown (ForbiddenError ''Settings are read-only on this deployment and cannot be modified.''))
      else Inr ())"

definition assertSettingsBackupAllowed :: "bool \<Rightarrow> thrown + unit" where
  "assertSettingsBackupAllowed settingsRo =
     (if settingsRo then Inl (AppThrown (ForbiddenError ''Settings backup and restore are disabled on this deployment.''))
      else Inr ())"

definition isBootstrapAdminLocked :: "bool \<Rightarrow> string option \<Rightarrow> string option \<Rightarrow> bool" where
  "isBootstrapAdminLocked bootstrapRo bootstrapEmail email =
     (bootstrapRo
      \<and> (case (bootstrapEmail, email) of
           (Some b, Some e) \<Rightarrow> b \<noteq> [] \<and> e \<noteq> [] \<and> js_lower e = js_lower b
         | _ \<Rightarrow> False))"

definition assertBootstrapAdminMutable :: "bool \<Rightarrow> string option \<Rightarrow> string option \<Rightarrow> thrown + unit" where
  "assertBootstrapAdminMutable bootstrapRo bootstrapEmail email =
     (if isBootstrapAdminLocked bootstrapRo bootstrapEmail email
      then Inl (AppThrown (ForbiddenError ''This demo account is read-only and cannot be modified.''))
      else Inr ())"

subsection \<open>signup-policy.ts\<close>

definition ADMIN_EQUIVALENT_PERMISSIONS :: "string list" where
  "ADMIN_EQUIVALENT_PERMISSIONS =
     [''user.create'', ''user.update'', ''user.delete'', ''user.disable'', ''user.reset-password'',
      ''role.create'', ''role.update'', ''role.delete'', ''role.assign'', ''settings.write'', ''auth.manage'', ''audit.read'',
      ''server.create'', ''server.update'', ''server.delete'', ''team.create'', ''team.delete'',
      ''token.read.all'', ''token.delete.all'']"

definition isAdminEquivalentRole :: "string \<Rightarrow> string list \<Rightarrow> bool" where
  "isAdminEquivalentRole slug permissions =
     (slug = SUPER_ADMIN_SLUG \<or> list_ex (\<lambda>p. p \<in> set permissions) ADMIN_EQUIVALENT_PERMISSIONS)"

datatype signup_check = SignupOk | SignupRoleMissing | SignupRoleAdmin

definition checkSignupDefaultRole :: "(string \<times> string list) option \<Rightarrow> signup_check" where
  "checkSignupDefaultRole role =
     (case role of
        None \<Rightarrow> SignupRoleMissing
      | Some (slug, permissions) \<Rightarrow> if isAdminEquivalentRole slug permissions then SignupRoleAdmin else SignupOk)"

subsection \<open>login-auto-bounce.ts\<close>

record bounce_input =
  bi_error :: "string option"
  bi_flash :: "string option"
  bi_signedOut :: bool
  bi_forceLocal :: bool
  bi_justLoggedOut :: bool

definition shouldAutoBounceToDefault :: "bounce_input \<Rightarrow> bool" where
  "shouldAutoBounceToDefault b =
     (if bi_forceLocal b \<or> bi_signedOut b \<or> bi_justLoggedOut b then False
      else if bi_error b \<noteq> None \<and> bi_error b \<noteq> Some ''session-expired'' then False
      else if bi_flash b \<noteq> None \<and> bi_flash b \<noteq> Some ''session-required'' then False
      else True)"

subsection \<open>password.ts: the parameters of a stored hash\<close>

text \<open>
  \<open>jsInt\<close> stands for \<open>Number(s)\<close> where it gives an integer on text that is not a run of digits a double
  holds exactly.
\<close>

definition phc_number :: "(string \<Rightarrow> int option) \<Rightarrow> string \<Rightarrow> int option" where
  "phc_number jsInt s = (if all_digits s \<and> nat_of_dec s \<le> 2 ^ 53 then Some (int (nat_of_dec s)) else jsInt s)"

record parsed_phc =
  ph_algorithm :: string
  ph_version :: int
  ph_memoryCost :: int
  ph_timeCost :: int
  ph_parallelism :: int

fun phc_params :: "(string \<Rightarrow> int option) \<Rightarrow> string list \<Rightarrow> (string \<times> int) list \<Rightarrow> (string \<times> int) list option" where
  "phc_params jsInt [] acc = Some acc"
| "phc_params jsInt (pair # pairs) acc =
     (case split_on (CHR ''='') pair of
        k # v # _ \<Rightarrow>
          (if k = [] then None
           else case phc_number jsInt v of
             None \<Rightarrow> None
           | Some n \<Rightarrow> phc_params jsInt pairs (AList.update k n acc))
      | _ \<Rightarrow> None)"

definition parsePhc :: "(string \<Rightarrow> int option) \<Rightarrow> string \<Rightarrow> parsed_phc option" where
  "parsePhc jsInt s =
     (let parts = split_on (CHR ''$'') s in
      if length parts < 6 then None
      else
        let algorithm = parts ! 1; versionField = parts ! 2; paramField = parts ! 3 in
        if algorithm = [] \<or> versionField = [] \<or> paramField = [] then None
        else if \<not> starts_with versionField ''v='' then None
        else case phc_number jsInt (drop 2 versionField) of
          None \<Rightarrow> None
        | Some version \<Rightarrow>
            (case phc_params jsInt (split_on (CHR '','') paramField) [] of
               None \<Rightarrow> None
             | Some params \<Rightarrow>
                 (case (map_of params ''m'', map_of params ''t'', map_of params ''p'') of
                    (Some m, Some t, Some p) \<Rightarrow>
                      Some \<lparr>ph_algorithm = algorithm, ph_version = version, ph_memoryCost = m, ph_timeCost = t, ph_parallelism = p\<rparr>
                  | _ \<Rightarrow> None)))"

definition needsRehash :: "(string \<Rightarrow> int option) \<Rightarrow> string \<Rightarrow> bool" where
  "needsRehash jsInt storedHash =
     (case parsePhc jsInt storedHash of
        None \<Rightarrow> True
      | Some p \<Rightarrow> ph_algorithm p \<noteq> ''argon2id'' \<or> ph_version p \<noteq> 19 \<or> ph_memoryCost p < 19456 \<or> ph_timeCost p < 2
          \<or> ph_parallelism p \<noteq> 1)"

text \<open>The text of a hash with the parameters the program asks for.\<close>

definition phc_text :: "nat \<Rightarrow> nat \<Rightarrow> nat \<Rightarrow> string \<Rightarrow> string \<Rightarrow> string" where
  "phc_text m t p salt h =
     join ''$'' [[], ''argon2id'', ''v=19'', ''m='' @ dec_of_nat m @ '',t='' @ dec_of_nat t @ '',p='' @ dec_of_nat p, salt, h]"

lemma dec_no_sep: "\<not> is_digit c \<Longrightarrow> c \<notin> set (dec_of_nat n)"
  using dec_of_nat_digits by blast

lemma phc_number_dec: "n \<le> 2 ^ 53 \<Longrightarrow> phc_number jsInt (dec_of_nat n) = Some (int n)"
proof -
  have "all_digits (dec_of_nat n)" using dec_of_nat_digits [of _ n] by (auto simp: all_digits_def list_all_iff)
  then show "n \<le> 2 ^ 53 \<Longrightarrow> phc_number jsInt (dec_of_nat n) = Some (int n)" by (simp add: phc_number_def)
qed

lemma parse_phc_text:
  assumes "CHR ''$'' \<notin> set salt" "CHR ''$'' \<notin> set h" "m \<le> 2 ^ 53" "t \<le> 2 ^ 53" "p \<le> 2 ^ 53"
  shows "parsePhc jsInt (phc_text m t p salt h) =
    Some \<lparr>ph_algorithm = ''argon2id'', ph_version = 19, ph_memoryCost = int m, ph_timeCost = int t, ph_parallelism = int p\<rparr>"
proof -
  let ?f = "''m='' @ dec_of_nat m @ '',t='' @ dec_of_nat t @ '',p='' @ dec_of_nat p"
  have nd: "CHR ''$'' \<notin> set (dec_of_nat n)" "CHR '','' \<notin> set (dec_of_nat n)" "CHR ''='' \<notin> set (dec_of_nat n)" for n
    by (simp_all add: dec_no_sep is_digit_def)
  have s: "split_on (CHR ''$'') (phc_text m t p salt h) = [[], ''argon2id'', ''v=19'', ?f, salt, h]"
    unfolding phc_text_def using assms(1,2) nd by (intro split_join) auto
  have f: "?f = join '','' [''m='' @ dec_of_nat m, ''t='' @ dec_of_nat t, ''p='' @ dec_of_nat p]" by simp
  have c: "split_on (CHR '','') ?f = [''m='' @ dec_of_nat m, ''t='' @ dec_of_nat t, ''p='' @ dec_of_nat p]"
    unfolding f using nd by (intro split_join) auto
  have v: "phc_number jsInt ''19'' = Some 19"
    by (simp add: phc_number_def all_digits_def is_digit_def nat_of_dec_def digit_val_def)
  have "phc_params jsInt (split_on (CHR '','') ?f) [] = Some [(''m'', int m), (''t'', int t), (''p'', int p)]"
    unfolding c using assms(3-5) by (simp add: split_on_no_sep nd phc_number_dec)
  then show ?thesis unfolding parsePhc_def s by (simp add: Let_def starts_with_def v)
qed

text \<open>A hash is made again exactly when it was made with less than what is asked for now, or another lane count.\<close>

lemma needs_rehash_iff:
  assumes "CHR ''$'' \<notin> set salt" "CHR ''$'' \<notin> set h" "m \<le> 2 ^ 53" "t \<le> 2 ^ 53" "p \<le> 2 ^ 53"
  shows "needsRehash jsInt (phc_text m t p salt h) \<longleftrightarrow> m < 19456 \<or> t < 2 \<or> p \<noteq> 1"
  by (simp add: needsRehash_def parse_phc_text [OF assms])

end
