(* ===== verification/RevealStore.thy ===== *)
theory RevealStore
  imports Prelude
begin

text \<open>
  The single-use store for secrets of \<open>lib/auth/temp-reveal-store.ts\<close>: minting and redeeming, the
  in-process map with its caps and evictions, the Redis backend and the fallback from it.  Redis is
  modelled by what \<open>SET .. PX\<close> and \<open>GETDEL\<close> document: a map with expiry.  A command may fail
  before or after Redis applied it; both are steps of the model.
\<close>

section \<open>The in-process map\<close>

record entry =
  en_plaintext :: string
  en_allowedActorId :: string
  en_expiresAtMs :: int

type_synonym store = "(string \<times> entry) list"

definition DEFAULT_TTL_SEC :: int where "DEFAULT_TTL_SEC = 300"
definition MAX_ENTRIES :: nat where "MAX_ENTRIES = 1024"
definition MAX_ANONYMOUS_ENTRIES :: nat where "MAX_ANONYMOUS_ENTRIES = 256"

definition pruneExpired :: "int \<Rightarrow> store \<Rightarrow> store" where
  "pruneExpired now st = filter (\<lambda>(k, v). \<not> en_expiresAtMs v \<le> now) st"

definition isAnonymousActor :: "string \<Rightarrow> bool" where
  "isAnonymousActor actorId = starts_with actorId ''_''"

text \<open>The first entry that satisfies the predicate is deleted; \<open>None\<close> is the answer false.\<close>

fun evictOldestWhere :: "(entry \<Rightarrow> bool) \<Rightarrow> store \<Rightarrow> store option" where
  "evictOldestWhere pred [] = None"
| "evictOldestWhere pred ((key, entry) # rest) =
     (if pred entry then Some rest
      else map_option (\<lambda>st. (key, entry) # st) (evictOldestWhere pred rest))"

lemma evictOldestWhere_length:
  "evictOldestWhere P st = Some st' \<Longrightarrow> length st = Suc (length st')"
  by (induction P st arbitrary: st' rule: evictOldestWhere.induct) (auto split: if_splits)

text \<open>The two loops of \<open>enforceCap\<close>; each turn of either deletes an entry.\<close>

function evict_class :: "string \<Rightarrow> nat \<Rightarrow> store \<Rightarrow> store" where
  "evict_class actor sameClass st =
     (if sameClass \<ge> MAX_ANONYMOUS_ENTRIES then
        (case evictOldestWhere (\<lambda>e. en_allowedActorId e = actor) st of
           None \<Rightarrow> st
         | Some st' \<Rightarrow> evict_class actor (sameClass - 1) st')
      else st)"
  by pat_completeness auto
termination by (relation "measure (\<lambda>(a, n, st). length st)") (auto dest: evictOldestWhere_length)

function evict_any :: "store \<Rightarrow> store" where
  "evict_any st =
     (if length st \<ge> MAX_ENTRIES then
        (case evictOldestWhere (\<lambda>e. isAnonymousActor (en_allowedActorId e)) st of
           Some st' \<Rightarrow> evict_any st'
         | None \<Rightarrow>
             (case evictOldestWhere (\<lambda>e. True) st of
                None \<Rightarrow> st
              | Some st' \<Rightarrow> evict_any st'))
      else st)"
  by pat_completeness auto
termination by (relation "measure length") (auto dest: evictOldestWhere_length)

declare evict_class.simps [simp del] evict_any.simps [simp del]

definition class_size :: "string \<Rightarrow> store \<Rightarrow> nat" where
  "class_size actor st = length (filter (\<lambda>(k, e). en_allowedActorId e = actor) st)"

definition enforceCap :: "string \<Rightarrow> store \<Rightarrow> store" where
  "enforceCap allowedActorId st =
     evict_any (if isAnonymousActor allowedActorId
                then evict_class allowedActorId (class_size allowedActorId st) st else st)"

definition mintLocal :: "int \<Rightarrow> string \<Rightarrow> string \<Rightarrow> string \<Rightarrow> int \<Rightarrow> store \<Rightarrow> store" where
  "mintLocal now token plaintext allowedActorId ttlSec st =
     AList.update token
       \<lparr>en_plaintext = plaintext, en_allowedActorId = allowedActorId, en_expiresAtMs = now + ttlSec * 1000\<rparr>
       (enforceCap allowedActorId (pruneExpired now st))"

definition redeemLocal :: "int \<Rightarrow> string \<Rightarrow> string \<Rightarrow> store \<Rightarrow> string option \<times> store" where
  "redeemLocal now token actorId st =
     (case map_of st token of
        None \<Rightarrow> (None, st)
      | Some entry \<Rightarrow>
          (if en_expiresAtMs entry \<le> now then None
           else if en_allowedActorId entry \<noteq> actorId then None
           else Some (en_plaintext entry), AList.delete token st))"

section \<open>The two backends\<close>

text \<open>
  How Redis takes a command: it is not configured, it answers, or the command throws, before or
  after Redis applied it.
\<close>

datatype redis_reply = Unset | Answered | Threw bool

record reveal_state =
  rv_local :: store
  rv_redis :: store

definition redis_set :: "int \<Rightarrow> string \<Rightarrow> string \<Rightarrow> string \<Rightarrow> int \<Rightarrow> reveal_state \<Rightarrow> reveal_state" where
  "redis_set now token plaintext actor ttl s =
     s\<lparr>rv_redis := AList.update token
         \<lparr>en_plaintext = plaintext, en_allowedActorId = actor, en_expiresAtMs = now + ttl * 1000\<rparr> (rv_redis s)\<rparr>"

definition redis_get :: "int \<Rightarrow> string \<Rightarrow> reveal_state \<Rightarrow> entry option" where
  "redis_get now token s =
     (case map_of (rv_redis s) token of
        Some e \<Rightarrow> if en_expiresAtMs e \<le> now then None else Some e
      | None \<Rightarrow> None)"

definition redis_del :: "string \<Rightarrow> reveal_state \<Rightarrow> reveal_state" where
  "redis_del token s = s\<lparr>rv_redis := AList.delete token (rv_redis s)\<rparr>"

definition mint :: "redis_reply \<Rightarrow> int \<Rightarrow> string \<Rightarrow> string \<Rightarrow> string \<Rightarrow> int option \<Rightarrow> reveal_state \<Rightarrow> reveal_state" where
  "mint reply now token plaintext actor ttlSec s =
     (let ttl = (case ttlSec of Some t \<Rightarrow> t | None \<Rightarrow> DEFAULT_TTL_SEC);
          local = (\<lambda>s. s\<lparr>rv_local := mintLocal now token plaintext actor ttl (rv_local s)\<rparr>)
      in case reply of
           Unset \<Rightarrow> local s
         | Answered \<Rightarrow> redis_set now token plaintext actor ttl s
         | Threw applied \<Rightarrow> local (if applied then redis_set now token plaintext actor ttl s else s))"

definition redeem :: "redis_reply \<Rightarrow> int \<Rightarrow> string \<Rightarrow> string \<Rightarrow> reveal_state \<Rightarrow> string option \<times> reveal_state" where
  "redeem reply now token actorId s =
     (let local = (\<lambda>s. let (r, st) = redeemLocal now token actorId (rv_local s) in (r, s\<lparr>rv_local := st\<rparr>))
      in case reply of
           Unset \<Rightarrow> local s
         | Answered \<Rightarrow>
             (case redis_get now token s of
                Some entry \<Rightarrow>
                  (if en_allowedActorId entry \<noteq> actorId then None else Some (en_plaintext entry),
                   redis_del token s)
              | None \<Rightarrow> local s)
         | Threw applied \<Rightarrow> local (if applied then redis_del token s else s))"

section \<open>Eviction\<close>

definition user_entries :: "store \<Rightarrow> store" where
  "user_entries st = filter (\<lambda>(k, e). \<not> isAnonymousActor (en_allowedActorId e)) st"

lemma evictOldestWhere_Some:
  "evictOldestWhere P st = Some st' \<Longrightarrow> \<exists>xs k e ys. st = xs @ (k, e) # ys \<and> st' = xs @ ys \<and> P e"
proof (induction P st arbitrary: st' rule: evictOldestWhere.induct)
  case (2 P k e rest)
  show ?case
  proof (cases "P e")
    case True
    with 2(2) have "(k, e) # rest = [] @ (k, e) # rest \<and> st' = [] @ rest \<and> P e" by simp
    then show ?thesis by blast
  next
    case False
    with 2(2) obtain t where t: "evictOldestWhere P rest = Some t" "st' = (k, e) # t" by auto
    from 2(1) [OF False t(1)] obtain xs k' e' ys where "rest = xs @ (k', e') # ys" "t = xs @ ys" "P e'" by blast
    with t(2) have "(k, e) # rest = ((k, e) # xs) @ (k', e') # ys \<and> st' = ((k, e) # xs) @ ys \<and> P e'" by simp
    then show ?thesis by blast
  qed
qed simp

lemma evictOldestWhere_None: "evictOldestWhere P st = None \<Longrightarrow> (k, e) \<in> set st \<Longrightarrow> \<not> P e"
  by (induction P st rule: evictOldestWhere.induct) (auto split: if_splits)

text \<open>What an eviction leaves: a part of the map, in which every class is at most as large.\<close>

definition part_of :: "store \<Rightarrow> store \<Rightarrow> bool" where
  "part_of st' st \<longleftrightarrow> set st' \<subseteq> set st \<and> (distinct (map fst st) \<longrightarrow> distinct (map fst st'))
     \<and> length st' \<le> length st \<and> (\<forall>a. class_size a st' \<le> class_size a st)"

lemma part_of_refl: "part_of st st"
  by (simp add: part_of_def)

lemma part_of_trans: "part_of a b \<Longrightarrow> part_of b c \<Longrightarrow> part_of a c"
  unfolding part_of_def by (meson order_trans)

lemma part_of_remove: "part_of (xs @ ys) (xs @ (k, e) # ys)"
  by (auto simp: part_of_def class_size_def)

lemma part_of_filter: "part_of (filter P st) st"
proof -
  have "length (filter Q (filter P st)) \<le> length (filter Q st)" for Q by (induction st) auto
  then show ?thesis by (simp add: part_of_def class_size_def distinct_map_filter)
qed

lemma evict_one: "evictOldestWhere P st = Some st' \<Longrightarrow> part_of st' st"
  using evictOldestWhere_Some part_of_remove by metis

lemma evict_any_spec:
  "part_of (evict_any st) st \<and> length (evict_any st) < MAX_ENTRIES
    \<and> (length (user_entries st) < MAX_ENTRIES \<longrightarrow> user_entries (evict_any st) = user_entries st)"
proof (induction st rule: evict_any.induct)
  case (1 st)
  show ?case
  proof (cases "length st \<ge> MAX_ENTRIES")
    case False
    then show ?thesis by (simp add: evict_any.simps [of st] part_of_refl)
  next
    case full: True
    show ?thesis
    proof (cases "evictOldestWhere (\<lambda>e. isAnonymousActor (en_allowedActorId e)) st")
      case (Some st')
      then obtain xs k e ys where "st = xs @ (k, e) # ys" "st' = xs @ ys" "isAnonymousActor (en_allowedActorId e)"
        using evictOldestWhere_Some by blast
      then have u: "user_entries st' = user_entries st" by (simp add: user_entries_def)
      from Some full have "evict_any st = evict_any st'" by (simp add: evict_any.simps [of st])
      with 1(2) [OF full Some] evict_one [OF Some] u show ?thesis by (auto intro: part_of_trans)
    next
      case None
      have "filter (\<lambda>(k, e). \<not> isAnonymousActor (en_allowedActorId e)) st = st"
        by (rule filter_True) (use evictOldestWhere_None [OF None] in auto)
      with full have u: "\<not> length (user_entries st) < MAX_ENTRIES" by (simp add: user_entries_def)
      from full obtain p rest where st: "st = p # rest" by (cases st) (auto simp: MAX_ENTRIES_def)
      then have o: "evictOldestWhere (\<lambda>e. True) st = Some rest" by (cases p) simp
      with None full have "evict_any st = evict_any rest" by (simp add: evict_any.simps [of st])
      with 1(1) [OF full None o] evict_one [OF o] u show ?thesis by (auto intro: part_of_trans)
    qed
  qed
qed

lemma class_size_pos: "0 < class_size a st \<Longrightarrow> \<exists>k e. (k, e) \<in> set st \<and> en_allowedActorId e = a"
  by (auto simp: class_size_def filter_empty_conv)

lemma evict_class_spec:
  "isAnonymousActor a \<Longrightarrow> n = class_size a st \<Longrightarrow> part_of (evict_class a n st) st
     \<and> class_size a (evict_class a n st) < MAX_ANONYMOUS_ENTRIES
     \<and> user_entries (evict_class a n st) = user_entries st"
proof (induction a n st rule: evict_class.induct)
  case (1 a n st)
  show ?case
  proof (cases "n \<ge> MAX_ANONYMOUS_ENTRIES")
    case False
    then have "evict_class a n st = st" by (simp add: evict_class.simps [of a n st])
    with False 1(3) show ?thesis by (simp add: part_of_refl)
  next
    case full: True
    then have "0 < class_size a st" using 1(3) by (simp add: MAX_ANONYMOUS_ENTRIES_def)
    then obtain k e where "(k, e) \<in> set st" "en_allowedActorId e = a" using class_size_pos by blast
    with evictOldestWhere_None obtain st' where o: "evictOldestWhere (\<lambda>e. en_allowedActorId e = a) st = Some st'"
      by (metis (mono_tags, lifting) option.exhaust)
    then obtain xs k e ys where st: "st = xs @ (k, e) # ys" "st' = xs @ ys" "en_allowedActorId e = a"
      using evictOldestWhere_Some by blast
    then have "n - 1 = class_size a st'" "user_entries st' = user_entries st"
      using 1(2,3) by (simp_all add: class_size_def user_entries_def)
    with 1(1) [OF full o 1(2)] evict_one [OF o] full o show ?thesis
      by (auto simp: evict_class.simps [of a n st] intro: part_of_trans)
  qed
qed

lemma enforceCap_spec:
  "part_of (enforceCap a st) st \<and> length (enforceCap a st) < MAX_ENTRIES
    \<and> (isAnonymousActor a \<longrightarrow> class_size a (enforceCap a st) < MAX_ANONYMOUS_ENTRIES)
    \<and> (length (user_entries st) < MAX_ENTRIES \<longrightarrow> user_entries (enforceCap a st) = user_entries st)"
proof (cases "isAnonymousActor a")
  case True
  define c where "c = evict_class a (class_size a st) st"
  have e: "enforceCap a st = evict_any c" using True by (simp add: enforceCap_def c_def)
  have "class_size a (evict_any c) \<le> class_size a c" using evict_any_spec [of c] by (simp add: part_of_def)
  with evict_class_spec [OF True refl, of st, folded c_def] evict_any_spec [of c] show ?thesis
    unfolding e by (auto intro: part_of_trans)
next
  case False
  with evict_any_spec [of st] show ?thesis by (simp add: enforceCap_def)
qed

section \<open>Runs of the store\<close>

datatype reveal_event =
    Mint redis_reply int string string string "int option"
  | Redeem redis_reply int string string

record redemption =
  rd_token :: string
  rd_plaintext :: string
  rd_actor :: string
  rd_now :: int

text \<open>
  A run: the events so far, what was revealed by them, and the state of the two maps.  A mint always
  steps; a redeem steps and reveals something or nothing.
\<close>

inductive reveal_run :: "reveal_event list \<Rightarrow> redemption list \<Rightarrow> reveal_state \<Rightarrow> bool" where
  start: "reveal_run [] [] \<lparr>rv_local = [], rv_redis = []\<rparr>"
| minted: "reveal_run es rs s \<Longrightarrow>
     reveal_run (es @ [Mint reply now token pt actor ttl]) rs (mint reply now token pt actor ttl s)"
| refused: "reveal_run es rs s \<Longrightarrow> redeem reply now token actor s = (None, s') \<Longrightarrow>
     reveal_run (es @ [Redeem reply now token actor]) rs s'"
| revealed: "reveal_run es rs s \<Longrightarrow> redeem reply now token actor s = (Some pt, s') \<Longrightarrow>
     reveal_run (es @ [Redeem reply now token actor])
       (rs @ [\<lparr>rd_token = token, rd_plaintext = pt, rd_actor = actor, rd_now = now\<rparr>]) s'"

fun mint_entry :: "reveal_event \<Rightarrow> (string \<times> entry) list" where
  "mint_entry (Mint reply now token pt actor ttl) =
     [(token, \<lparr>en_plaintext = pt, en_allowedActorId = actor,
        en_expiresAtMs = now + (case ttl of Some t \<Rightarrow> t | None \<Rightarrow> DEFAULT_TTL_SEC) * 1000\<rparr>)]"
| "mint_entry (Redeem reply now token actor) = []"

definition minted_entries :: "reveal_event list \<Rightarrow> (string \<times> entry) list" where
  "minted_entries es = concat (map mint_entry es)"

text \<open>A mint whose command threw although Redis had stored the entry: the secret is in both maps.\<close>

fun half_applied :: "reveal_event \<Rightarrow> bool" where
  "half_applied (Mint reply now token pt actor ttl) \<longleftrightarrow> reply = Threw True"
| "half_applied (Redeem reply now token actor) \<longleftrightarrow> False"

lemma minted_entries_simps [simp]:
  "minted_entries [] = []" "minted_entries (es @ [e]) = minted_entries es @ mint_entry e"
  by (simp_all add: minted_entries_def)

abbreviation keys :: "store \<Rightarrow> string set" where "keys st \<equiv> fst ` set st"

text \<open>
  The state after a run: every entry is one that was minted, no entry is in both maps, and none
  is left of a token that was revealed.
\<close>

definition run_inv :: "reveal_event list \<Rightarrow> redemption list \<Rightarrow> reveal_state \<Rightarrow> bool" where
  "run_inv es rs s \<longleftrightarrow>
     set (rv_local s) \<union> set (rv_redis s) \<subseteq> set (minted_entries es)
     \<and> distinct (map fst (rv_local s)) \<and> distinct (map fst (rv_redis s))
     \<and> keys (rv_local s) \<inter> keys (rv_redis s) = {}
     \<and> (keys (rv_local s) \<union> keys (rv_redis s)) \<inter> rd_token ` set rs = {}
     \<and> distinct (map rd_token rs)
     \<and> (\<forall>r \<in> set rs. \<exists>e. (rd_token r, e) \<in> set (minted_entries es) \<and> en_plaintext e = rd_plaintext r
           \<and> en_allowedActorId e = rd_actor r \<and> rd_now r < en_expiresAtMs e)"

lemma mintLocal_part:
  "\<exists>st'. part_of st' st \<and> mintLocal now token pt actor ttl st = AList.update token
     \<lparr>en_plaintext = pt, en_allowedActorId = actor, en_expiresAtMs = now + ttl * 1000\<rparr> st'"
proof -
  have "part_of (enforceCap actor (pruneExpired now st)) st"
    using enforceCap_spec part_of_trans part_of_filter unfolding pruneExpired_def by blast
  then show ?thesis unfolding mintLocal_def by blast
qed

lemma mintLocal_set:
  assumes "distinct (map fst st)"
  shows "set (mintLocal now token pt actor ttl st) \<subseteq> insert (token,
       \<lparr>en_plaintext = pt, en_allowedActorId = actor, en_expiresAtMs = now + ttl * 1000\<rparr>) (set st)
     \<and> distinct (map fst (mintLocal now token pt actor ttl st))"
proof -
  obtain st' where p: "part_of st' st" and m: "mintLocal now token pt actor ttl st = AList.update token
     \<lparr>en_plaintext = pt, en_allowedActorId = actor, en_expiresAtMs = now + ttl * 1000\<rparr> st'"
    using mintLocal_part by blast
  from p assms have "set st' \<subseteq> set st" "distinct (map fst st')" by (auto simp: part_of_def)
  then show ?thesis unfolding m using set_update_subset [of token _ st'] by (fastforce simp: distinct_update)
qed

lemma redeemLocal_set:
  assumes "redeemLocal now token actor st = (r, st')" "distinct (map fst st)"
  shows "set st' \<subseteq> set st \<and> distinct (map fst st')
    \<and> (r \<noteq> None \<longrightarrow> token \<notin> keys st' \<and> (\<exists>e. (token, e) \<in> set st \<and> Some (en_plaintext e) = r
          \<and> en_allowedActorId e = actor \<and> now < en_expiresAtMs e))"
proof (cases "map_of st token")
  case None
  with assms show ?thesis by (simp add: redeemLocal_def)
next
  case (Some e)
  then have "(token, e) \<in> set st" by (rule map_of_SomeD)
  moreover have "st' = AList.delete token st" using assms(1) Some by (simp add: redeemLocal_def)
  moreover have "r = (if en_expiresAtMs e \<le> now then None else if en_allowedActorId e \<noteq> actor then None
      else Some (en_plaintext e))" using assms(1) Some by (simp add: redeemLocal_def)
  ultimately show ?thesis using assms(2)
    by (auto simp: AList.delete_eq distinct_map_filter split: if_splits)
qed

lemma redis_get_Some: "redis_get now token s = Some e \<Longrightarrow> (token, e) \<in> set (rv_redis s) \<and> now < en_expiresAtMs e"
  by (auto simp: redis_get_def map_of_SomeD split: option.splits if_splits)

lemma redis_del_sel: "set (rv_redis (redis_del token s)) = {p \<in> set (rv_redis s). fst p \<noteq> token}"
  "distinct (map fst (rv_redis s)) \<Longrightarrow> distinct (map fst (rv_redis (redis_del token s)))"
  "rv_local (redis_del token s) = rv_local s"
  by (auto simp: redis_del_def AList.delete_eq distinct_map_filter)

definition shrinks :: "reveal_state \<Rightarrow> reveal_state \<Rightarrow> bool" where
  "shrinks s' s \<longleftrightarrow> set (rv_local s') \<subseteq> set (rv_local s) \<and> set (rv_redis s') \<subseteq> set (rv_redis s)
     \<and> distinct (map fst (rv_local s')) \<and> distinct (map fst (rv_redis s'))"

definition revealed_of :: "int \<Rightarrow> string \<Rightarrow> string \<Rightarrow> string option \<Rightarrow> reveal_state \<Rightarrow> reveal_state \<Rightarrow> bool" where
  "revealed_of now token actor r s' s \<longleftrightarrow> token \<notin> keys (rv_local s') \<union> keys (rv_redis s')
     \<and> (\<exists>e. (token, e) \<in> set (rv_local s) \<union> set (rv_redis s) \<and> Some (en_plaintext e) = r
          \<and> en_allowedActorId e = actor \<and> now < en_expiresAtMs e)"

lemma local_redeem:
  assumes "redeemLocal now token actor (rv_local s) = (r, st)"
    and "distinct (map fst (rv_local s))" "distinct (map fst (rv_redis s))" "keys (rv_local s) \<inter> keys (rv_redis s) = {}"
  shows "shrinks (s\<lparr>rv_local := st\<rparr>) s \<and> (r \<noteq> None \<longrightarrow> revealed_of now token actor r (s\<lparr>rv_local := st\<rparr>) s)"
proof -
  note l = redeemLocal_set [OF assms(1,2)]
  have "r \<noteq> None \<Longrightarrow> token \<notin> keys (rv_redis s)"
  proof -
    assume "r \<noteq> None"
    with l obtain e where "(token, e) \<in> set (rv_local s)" by blast
    then have "token \<in> keys (rv_local s)" by force
    with assms(4) show ?thesis by blast
  qed
  with l assms(3) show ?thesis by (auto simp: shrinks_def revealed_of_def)
qed

lemma redeem_spec:
  assumes "redeem reply now token actor s = (r, s')"
    and "distinct (map fst (rv_local s))" "distinct (map fst (rv_redis s))" "keys (rv_local s) \<inter> keys (rv_redis s) = {}"
  shows "shrinks s' s \<and> (r \<noteq> None \<longrightarrow> revealed_of now token actor r s' s)"
proof (cases "\<exists>e. reply = Answered \<and> redis_get now token s = Some e")
  case True
  then obtain e where e: "reply = Answered" "redis_get now token s = Some e" by blast
  from redis_get_Some [OF e(2)] have in_r: "(token, e) \<in> set (rv_redis s)" "now < en_expiresAtMs e" by auto
  then have "token \<in> keys (rv_redis s)" by force
  with assms(4) have "token \<notin> keys (rv_local s)" by blast
  moreover have "s' = redis_del token s" "r = (if en_allowedActorId e \<noteq> actor then None else Some (en_plaintext e))"
    using assms(1) e by (simp_all add: redeem_def Let_def)
  ultimately show ?thesis
    using in_r assms(2,3) by (auto simp: shrinks_def revealed_of_def redis_del_sel split: if_splits)
next
  case False
  define u where "u = (if reply = Threw True then redis_del token s else s)"
  obtain st where st: "redeemLocal now token actor (rv_local u) = (r, st)" and s': "s' = u\<lparr>rv_local := st\<rparr>"
    using assms(1) False by (auto simp: u_def redeem_def Let_def case_prod_beta prod_eq_iff
      split: redis_reply.splits option.splits if_splits)
  have sh: "shrinks u s" using assms(2,3) by (auto simp: u_def shrinks_def redis_del_sel)
  then have "keys (rv_local u) \<inter> keys (rv_redis u) = {}" using assms(4) unfolding shrinks_def by blast
  from local_redeem [OF st _ _ this] sh have
    "shrinks s' u \<and> (r \<noteq> None \<longrightarrow> revealed_of now token actor r s' u)" unfolding s' shrinks_def by blast
  with sh show ?thesis unfolding shrinks_def revealed_of_def by blast
qed

lemma run_inv_shrink:
  assumes "run_inv es rs s" "shrinks s' s"
  shows "run_inv (es @ [Redeem reply now token actor]) rs s'"
proof -
  have "keys (rv_local s') \<subseteq> keys (rv_local s)" "keys (rv_redis s') \<subseteq> keys (rv_redis s)"
    using assms(2) unfolding shrinks_def by (blast intro: image_mono)+
  with assms show ?thesis unfolding run_inv_def shrinks_def by (simp; blast)
qed

lemma run_inv_reveal:
  assumes "run_inv es rs s" "shrinks s' s" "revealed_of now token actor (Some pt) s' s"
  shows "run_inv (es @ [Redeem reply now token actor])
    (rs @ [\<lparr>rd_token = token, rd_plaintext = pt, rd_actor = actor, rd_now = now\<rparr>]) s'"
proof -
  from assms(3) obtain e where e: "(token, e) \<in> set (rv_local s) \<union> set (rv_redis s)" "en_plaintext e = pt"
    "en_allowedActorId e = actor" "now < en_expiresAtMs e" and gone: "token \<notin> keys (rv_local s') \<union> keys (rv_redis s')"
    by (auto simp: revealed_of_def)
  from e(1) have "token \<in> keys (rv_local s) \<union> keys (rv_redis s)" by force
  moreover have "(token, e) \<in> set (minted_entries es)" using assms(1) e(1) unfolding run_inv_def by blast
  moreover note run_inv_shrink [OF assms(1,2), of reply now token actor]
  ultimately show ?thesis using assms(1) e(2-4) gone unfolding run_inv_def
    by (simp; blast)
qed

lemma keys_insert: "set st' \<subseteq> insert (token, e) (set st) \<Longrightarrow> keys st' \<subseteq> insert token (keys st)"
  by (drule image_mono [of _ _ fst]) simp

lemma run_inv_mint:
  assumes "run_inv es rs s" "token \<notin> keys (minted_entries es)" "reply \<noteq> Threw True"
  shows "run_inv (es @ [Mint reply now token pt actor ttl]) rs (mint reply now token pt actor ttl s)"
proof -
  define e where "e = \<lparr>en_plaintext = pt, en_allowedActorId = actor,
      en_expiresAtMs = now + (case ttl of Some t \<Rightarrow> t | None \<Rightarrow> DEFAULT_TTL_SEC) * 1000\<rparr>"
  define s' where "s' = mint reply now token pt actor ttl s"
  have ev: "mint_entry (Mint reply now token pt actor ttl) = [(token, e)]" by (simp add: e_def)
  have d: "distinct (map fst (rv_local s))" "distinct (map fst (rv_redis s))"
    using assms(1) by (auto simp: run_inv_def)
  have one: "set (rv_local s') \<subseteq> insert (token, e) (set (rv_local s)) \<and> rv_redis s' = rv_redis s
        \<and> distinct (map fst (rv_local s'))
      \<or> set (rv_redis s') \<subseteq> insert (token, e) (set (rv_redis s)) \<and> rv_local s' = rv_local s
        \<and> distinct (map fst (rv_redis s'))"
  proof (cases "reply = Answered")
    case True
    then have "rv_redis s' = AList.update token e (rv_redis s)" "rv_local s' = rv_local s"
      by (simp_all add: s'_def mint_def redis_set_def e_def)
    then show ?thesis using set_update_subset [of token e "rv_redis s"] d(2) by (simp add: distinct_update)
  next
    case False
    define ttl' where "ttl' = (case ttl of Some t \<Rightarrow> t | None \<Rightarrow> DEFAULT_TTL_SEC)"
    have "rv_local s' = mintLocal now token pt actor ttl' (rv_local s)" "rv_redis s' = rv_redis s"
      using False assms(3) by (cases reply; simp add: s'_def mint_def ttl'_def Let_def)+
    then show ?thesis using mintLocal_set [OF d(1), of now token pt actor ttl']
      unfolding e_def ttl'_def [symmetric] by simp
  qed
  have me: "set (rv_local s) \<union> set (rv_redis s) \<subseteq> set (minted_entries es)"
    "\<forall>r \<in> set rs. \<exists>e. (rd_token r, e) \<in> set (minted_entries es)"
    using assms(1) unfolding run_inv_def by blast+
  have old1: "token \<notin> keys (rv_local s) \<union> keys (rv_redis s)"
    using image_mono [OF me(1), of fst] assms(2) by auto
  have old2: "token \<notin> rd_token ` set rs"
  proof
    assume "token \<in> rd_token ` set rs"
    with me(2) obtain e' where "(token, e') \<in> set (minted_entries es)" by blast
    with assms(2) show False by force
  qed
  note old = old1 old2
  have k: "keys (rv_local s') \<subseteq> insert token (keys (rv_local s)) \<and> rv_redis s' = rv_redis s
      \<or> keys (rv_redis s') \<subseteq> insert token (keys (rv_redis s)) \<and> rv_local s' = rv_local s"
    using one keys_insert by blast
  have sub: "set (rv_local s') \<union> set (rv_redis s') \<subseteq> insert (token, e) (set (rv_local s) \<union> set (rv_redis s))"
    using one by (elim disjE conjE) (simp; blast)+
  have "distinct (map fst (rv_local s'))" "distinct (map fst (rv_redis s'))" using one d by auto
  moreover have "set (rv_local s') \<union> set (rv_redis s') \<subseteq> set (minted_entries es @ [(token, e)])"
    using sub assms(1) unfolding run_inv_def by auto
  moreover have "keys (rv_local s') \<inter> keys (rv_redis s') = {}"
  proof -
    have "keys (rv_local s) \<inter> keys (rv_redis s) = {}" using assms(1) unfolding run_inv_def by blast
    with k old(1) show ?thesis by (elim disjE conjE) (simp only:; blast)+
  qed
  moreover have "(keys (rv_local s') \<union> keys (rv_redis s')) \<inter> rd_token ` set rs = {}"
  proof -
    have "keys (rv_local s') \<union> keys (rv_redis s') \<subseteq> insert token (keys (rv_local s) \<union> keys (rv_redis s))"
      using k by (elim disjE conjE) (simp only:; blast)+
    moreover have "(keys (rv_local s) \<union> keys (rv_redis s)) \<inter> rd_token ` set rs = {}"
      using assms(1) unfolding run_inv_def by blast
    ultimately show ?thesis using old(2) by blast
  qed
  moreover have "distinct (map rd_token rs)" using assms(1) by (simp add: run_inv_def)
  moreover have "\<forall>r \<in> set rs. \<exists>e'. (rd_token r, e') \<in> set (minted_entries es @ [(token, e)])
      \<and> en_plaintext e' = rd_plaintext r \<and> en_allowedActorId e' = rd_actor r \<and> rd_now r < en_expiresAtMs e'"
    using assms(1) unfolding run_inv_def set_append by blast
  ultimately show ?thesis unfolding run_inv_def s'_def [symmetric] minted_entries_simps ev by blast
qed

lemma reveal_run_inv:
  "reveal_run es rs s \<Longrightarrow> distinct (map fst (minted_entries es)) \<Longrightarrow> \<forall>ev \<in> set es. \<not> half_applied ev \<Longrightarrow>
     run_inv es rs s"
proof (induction rule: reveal_run.induct)
  case start
  show ?case by (simp add: run_inv_def)
next
  case (minted es rs s reply now token pt actor ttl)
  then have "run_inv es rs s" "token \<notin> keys (minted_entries es)" "reply \<noteq> Threw True" by auto
  then show ?case by (rule run_inv_mint)
next
  case (refused es rs s reply now token actor s')
  then have inv: "run_inv es rs s" by auto
  then have "shrinks s' s" using redeem_spec [OF refused.hyps(2)] by (simp add: run_inv_def)
  with inv show ?case by (rule run_inv_shrink)
next
  case (revealed es rs s reply now token actor pt s')
  then have inv: "run_inv es rs s" by auto
  then have "shrinks s' s" "revealed_of now token actor (Some pt) s' s"
    using redeem_spec [OF revealed.hyps(2)] by (simp_all add: run_inv_def)
  with inv show ?case by (rule run_inv_reveal)
qed

section \<open>Properties\<close>

text \<open>
  C28. In any run of mints and redeems, over either backend and with commands that fail on the way, each
  token reveals its secret at most once; what it reveals is what was minted under it, to the actor
  it was minted for, and before it expired.  Tokens are random and assumed distinct; and no
  \<open>SET\<close> may throw after Redis applied it (see the next property).
\<close>

theorem reveal_single_use:
  assumes "reveal_run es rs s" "distinct (map fst (minted_entries es))" "\<forall>ev \<in> set es. \<not> half_applied ev"
  shows "distinct (map rd_token rs) \<and>
    (\<forall>r \<in> set rs. \<exists>e. (rd_token r, e) \<in> set (minted_entries es) \<and> en_plaintext e = rd_plaintext r
       \<and> en_allowedActorId e = rd_actor r \<and> rd_now r < en_expiresAtMs e)"
  using reveal_run_inv [OF assms] unfolding run_inv_def by blast

definition demo_mint :: "redis_reply \<Rightarrow> reveal_event" where
  "demo_mint reply = Mint reply 0 ''tok'' ''secret'' ''u1'' None"

definition demo_redeem :: reveal_event where
  "demo_redeem = Redeem Answered 1000 ''tok'' ''u1''"

definition demo_reveal :: redemption where
  "demo_reveal = \<lparr>rd_token = ''tok'', rd_plaintext = ''secret'', rd_actor = ''u1'', rd_now = 1000\<rparr>"

lemma demo_minted: "reveal_run [demo_mint reply] [] (mint reply 0 ''tok'' ''secret'' ''u1'' None \<lparr>rv_local = [], rv_redis = []\<rparr>)"
  using reveal_run.minted [OF reveal_run.start, of reply 0 "''tok''" "''secret''" "''u1''" None]
  by (simp add: demo_mint_def)

lemmas store_eval = mint_def redeem_def redis_set_def redis_get_def redis_del_def mintLocal_def redeemLocal_def
  enforceCap_def pruneExpired_def isAnonymousActor_def starts_with_iff evict_any.simps [of "[]"]
  MAX_ENTRIES_def DEFAULT_TTL_SEC_def

lemma demo_once:
  "reveal_run [demo_mint Answered, demo_redeem] [demo_reveal] \<lparr>rv_local = [], rv_redis = []\<rparr>"
  using reveal_run.revealed [OF demo_minted [of Answered], of Answered 1000 "''tok''" "''u1''" "''secret''"]
  by (simp add: store_eval demo_redeem_def demo_reveal_def)

theorem reveal_single_use_witness:
  "distinct (map rd_token [demo_reveal]) \<and> (\<exists>e. (''tok'', e) \<in> set (minted_entries [demo_mint Answered, demo_redeem])
     \<and> en_plaintext e = ''secret'')"
proof -
  have "distinct (map fst (minted_entries [demo_mint Answered, demo_redeem]))"
    "\<forall>ev \<in> set [demo_mint Answered, demo_redeem]. \<not> half_applied ev"
    by (simp_all add: minted_entries_def demo_mint_def demo_redeem_def)
  from reveal_single_use [OF demo_once this] show ?thesis by (auto simp: demo_reveal_def)
qed

text \<open>
  The exception: when \<open>SET\<close> throws after Redis stored the entry (a reply lost on the way), the
  fallback stores it a second time in the process, and the same token reveals the secret twice.
\<close>

theorem half_applied_mint_reveals_twice:
  "reveal_run [demo_mint (Threw True), demo_redeem, demo_redeem] [demo_reveal, demo_reveal]
     \<lparr>rv_local = [], rv_redis = []\<rparr>"
proof -
  have one: "reveal_run [demo_mint (Threw True), demo_redeem] [demo_reveal]
      \<lparr>rv_local = [(''tok'', \<lparr>en_plaintext = ''secret'', en_allowedActorId = ''u1'', en_expiresAtMs = 300000\<rparr>)],
       rv_redis = []\<rparr>"
    using reveal_run.revealed [OF demo_minted [of "Threw True"], of Answered 1000 "''tok''" "''u1''" "''secret''"]
    by (simp add: store_eval demo_redeem_def demo_reveal_def)
  show ?thesis
    using reveal_run.revealed [OF one, of Answered 1000 "''tok''" "''u1''" "''secret''"]
    by (simp add: store_eval demo_redeem_def demo_reveal_def)
qed

subsection \<open>Bounds\<close>

definition capped :: "store \<Rightarrow> bool" where
  "capped st \<longleftrightarrow> length st \<le> MAX_ENTRIES
     \<and> (\<forall>a. isAnonymousActor a \<longrightarrow> class_size a st \<le> MAX_ANONYMOUS_ENTRIES)"

lemma length_update_le: "length (AList.update k v st) \<le> Suc (length st)"
  by (induction st) auto

lemma class_size_update:
  "class_size a (AList.update k v st) \<le> class_size a st + (if en_allowedActorId v = a then 1 else 0)"
  by (induction st) (auto simp: class_size_def)

lemma capped_part: "capped st \<Longrightarrow> part_of st' st \<Longrightarrow> capped st'"
  unfolding capped_def part_of_def by (meson order_trans)

lemma mintLocal_capped:
  assumes "capped st"
  shows "capped (mintLocal now token pt actor ttl st)"
proof -
  define c where "c = enforceCap actor (pruneExpired now st)"
  define e where "e = \<lparr>en_plaintext = pt, en_allowedActorId = actor, en_expiresAtMs = now + ttl * 1000\<rparr>"
  have m: "mintLocal now token pt actor ttl st = AList.update token e c"
    by (simp add: mintLocal_def c_def e_def)
  note spec = enforceCap_spec [of actor "pruneExpired now st", folded c_def]
  from spec have "part_of c st" using part_of_trans part_of_filter unfolding pruneExpired_def by blast
  with assms have c: "capped c" by (rule capped_part)
  have "length (AList.update token e c) \<le> MAX_ENTRIES" using length_update_le [of token e c] spec by simp
  moreover have "class_size a (AList.update token e c) \<le> MAX_ANONYMOUS_ENTRIES" if "isAnonymousActor a" for a
    using class_size_update [of a token e c] spec c that
    by (cases "actor = a") (auto simp: e_def capped_def)
  ultimately show ?thesis unfolding m by (simp add: capped_def)
qed

lemma redeemLocal_part: "part_of (snd (redeemLocal now token actor st)) st"
  unfolding redeemLocal_def using part_of_refl part_of_filter by (simp add: AList.delete_eq split: option.splits)

lemma redeem_local: "part_of (rv_local (snd (redeem reply now token actor s))) (rv_local s)"
  by (cases reply)
    (auto simp: redeem_def Let_def case_prod_beta redis_del_sel redeemLocal_part part_of_refl split: option.splits)

lemma mint_local: "capped (rv_local s) \<Longrightarrow> capped (rv_local (mint reply now token pt actor ttl s))"
  by (cases reply) (simp_all add: mint_def Let_def redis_set_def mintLocal_capped)

text \<open>
  The in-process map is bounded in every reachable state: at most 1024 entries, and at most 256 for
  any one anonymous actor id.
\<close>

theorem reveal_store_bounded:
  "reveal_run es rs s \<Longrightarrow> length (rv_local s) \<le> MAX_ENTRIES
     \<and> (\<forall>a. isAnonymousActor a \<longrightarrow> class_size a (rv_local s) \<le> MAX_ANONYMOUS_ENTRIES)"
  unfolding capped_def [symmetric]
proof (induction rule: reveal_run.induct)
  case start
  show ?case by (simp add: capped_def class_size_def)
next
  case (minted es rs s reply now token pt actor ttl)
  then show ?case by (blast intro: mint_local)
next
  case (refused es rs s reply now token actor s')
  with redeem_local [of reply now token actor s] capped_part show ?case by auto
next
  case (revealed es rs s reply now token actor pt s')
  with redeem_local [of reply now token actor s] capped_part show ?case by auto
qed

theorem reveal_store_bounded_witness:
  "length (rv_local (mint Unset 0 ''tok'' ''secret'' ''u1'' None \<lparr>rv_local = [], rv_redis = []\<rparr>)) \<le> MAX_ENTRIES"
  using reveal_store_bounded [OF demo_minted] by blast

text \<open>
  Minting in the process never drops a secret that waits for a signed-in user, except when 1024
  such secrets are waiting: whoever mints, and however many anonymous entries there are, every
  unexpired entry of a user stays.
\<close>

theorem user_secrets_survive_mint:
  assumes "(k, e) \<in> set st" "\<not> isAnonymousActor (en_allowedActorId e)" "now < en_expiresAtMs e" "k \<noteq> token"
    and "length (user_entries st) < MAX_ENTRIES"
  shows "(k, e) \<in> set (mintLocal now token pt actor ttl st)"
proof -
  define p where "p = pruneExpired now st"
  have in_p: "(k, e) \<in> set (user_entries p)"
    using assms(1-3) by (simp add: p_def pruneExpired_def user_entries_def)
  have "length (user_entries p) \<le> length (user_entries st)"
    unfolding p_def pruneExpired_def user_entries_def by (induction st) auto
  with assms(5) have "user_entries (enforceCap actor p) = user_entries p" using enforceCap_spec by auto
  with in_p have "(k, e) \<in> set (user_entries (enforceCap actor p))" by simp
  then have "(k, e) \<in> set (enforceCap actor p)" by (simp add: user_entries_def)
  moreover have "(k, e) \<in> set (AList.update token v l)" if "(k, e) \<in> set l" for v l
    using that assms(4) by (induction l) auto
  ultimately show ?thesis by (simp add: mintLocal_def p_def)
qed

theorem user_secrets_survive_mint_witness:
  "(''tok'', \<lparr>en_plaintext = ''s'', en_allowedActorId = ''u1'', en_expiresAtMs = 9\<rparr>)
     \<in> set (mintLocal 5 ''t2'' ''x'' ''_webauthn'' 300
          [(''tok'', \<lparr>en_plaintext = ''s'', en_allowedActorId = ''u1'', en_expiresAtMs = 9\<rparr>)])"
  by (rule user_secrets_survive_mint) (simp_all add: isAnonymousActor_def starts_with_def user_entries_def MAX_ENTRIES_def)

end
