(* ===== verification/Totp.thy ===== *)
theory Totp
  imports Prelude "HOL-Library.Word"
begin

unbundle bit_operations_syntax

section \<open>Time-based one-time passwords\<close>

text \<open>
  \<open>lib/auth/totp.ts\<close>: base 32, the HOTP construction over an HMAC that is a parameter, and the check of a
  presented code against the steps of a window.  The shift registers of the base 32 routines are 32-bit
  words, as the shift operators of JavaScript make them; they are never cleared, so their upper bits hold
  what is left of earlier bytes.
\<close>

subsection \<open>Base 32\<close>

definition B32_ALPHABET :: string where
  "B32_ALPHABET = ''ABCDEFGHIJKLMNOPQRSTUVWXYZ234567''"

text \<open>The inner loop: \<open>while (bits >= 5)\<close>.\<close>

fun emit32 :: "nat \<Rightarrow> 32 word \<Rightarrow> string \<times> nat" where
  "emit32 bits value =
     (if bits \<ge> 5 then
        (let r = emit32 (bits - 5) value in
         (B32_ALPHABET ! unat (drop_bit (bits - 5) value AND 31) # fst r, snd r))
      else ([], bits))"

fun encode32 :: "nat \<Rightarrow> 32 word \<Rightarrow> nat list \<Rightarrow> string" where
  "encode32 bits value [] = (if bits > 0 then [B32_ALPHABET ! unat (push_bit (5 - bits) value AND 31)] else [])"
| "encode32 bits value (byte # rest) =
     (let v = push_bit 8 value OR of_nat byte; e = emit32 (bits + 8) v in fst e @ encode32 (snd e) v rest)"

definition base32Encode :: "nat list \<Rightarrow> string" where
  "base32Encode buf = encode32 0 0 buf"

fun index_of :: "char \<Rightarrow> string \<Rightarrow> nat option" where
  "index_of c [] = None"
| "index_of c (d # ds) = (if c = d then Some 0 else map_option Suc (index_of c ds))"

text \<open>\<open>None\<close> is the error for a character outside the alphabet.\<close>

fun decode32 :: "nat \<Rightarrow> 32 word \<Rightarrow> string \<Rightarrow> nat list option" where
  "decode32 bits value [] = Some []"
| "decode32 bits value (ch # rest) =
     (case index_of ch B32_ALPHABET of
        None \<Rightarrow> None
      | Some idx \<Rightarrow>
          let v = push_bit 5 value OR of_nat idx; bits' = bits + 5 in
          if bits' \<ge> 8 then map_option (Cons (unat (drop_bit (bits' - 8) v AND 0xff))) (decode32 (bits' - 8) v rest)
          else decode32 bits' v rest)"

definition base32Decode :: "string \<Rightarrow> nat list option" where
  "base32Decode s = decode32 0 0 (js_upper (filter (\<lambda>c. \<not> is_ws c \<and> c \<noteq> CHR ''='') s))"

declare emit32.simps [simp del]

text \<open>The secret of an enrolment: twenty random bytes, which are an input of the model.\<close>

definition generateSecret :: "nat list \<Rightarrow> string" where
  "generateSecret randomBytes = base32Encode randomBytes"

subsection \<open>HOTP and TOTP\<close>

text \<open>The counter as eight bytes, big-endian; a negative counter makes \<open>writeUInt32BE\<close> throw.\<close>

definition word_bytes :: "nat \<Rightarrow> nat list" where
  "word_bytes n = [n div 2 ^ 24 mod 256, n div 2 ^ 16 mod 256, n div 2 ^ 8 mod 256, n mod 256]"

definition counter_bytes :: "int \<Rightarrow> nat list option" where
  "counter_bytes counter =
     (if counter < 0 \<or> counter \<ge> 2 ^ 64 then None
      else Some (word_bytes (nat (counter div 2 ^ 32)) @ word_bytes (nat (counter mod 2 ^ 32))))"

definition truncated :: "nat list \<Rightarrow> 32 word" where
  "truncated hmac =
     (let offset = unat ((of_nat (last hmac) :: 32 word) AND 0x0f); at = (\<lambda>i. of_nat (hmac ! (offset + i)) :: 32 word)
      in push_bit 24 (at 0 AND 0x7f) OR push_bit 16 (at 1 AND 0xff) OR push_bit 8 (at 2 AND 0xff) OR (at 3 AND 0xff))"

definition padStart0 :: "nat \<Rightarrow> string \<Rightarrow> string" where
  "padStart0 n s = replicate (n - length s) (CHR ''0'') @ s"

definition hotp :: "(nat list \<Rightarrow> nat list \<Rightarrow> nat list) \<Rightarrow> string \<Rightarrow> int \<Rightarrow> nat \<Rightarrow> string option" where
  "hotp hmac secret counter digits =
     (case base32Decode secret of
        None \<Rightarrow> None
      | Some key \<Rightarrow>
          (case counter_bytes counter of
             None \<Rightarrow> None
           | Some counterBuf \<Rightarrow>
               Some (padStart0 digits (dec_of_nat (unat (truncated (hmac key counterBuf)) mod 10 ^ digits)))))"

record totp_options =
  to_digits :: nat
  to_stepSec :: int
  to_window :: nat

definition totp_defaults :: totp_options where
  "totp_defaults = \<lparr>to_digits = 6, to_stepSec = 30, to_window = 1\<rparr>"

definition totp_counter :: "totp_options \<Rightarrow> int \<Rightarrow> int" where
  "totp_counter opts now = now div (1000 * to_stepSec opts)"

definition currentTotp :: "(nat list \<Rightarrow> nat list \<Rightarrow> nat list) \<Rightarrow> totp_options \<Rightarrow> int \<Rightarrow> string \<Rightarrow> string option" where
  "currentTotp hmac opts now secret = hotp hmac secret (totp_counter opts now) (to_digits opts)"

text \<open>The loop over the window; \<open>None\<close> is a thrown error.\<close>

fun verify_steps :: "(int \<Rightarrow> string option) \<Rightarrow> string \<Rightarrow> int list \<Rightarrow> bool option" where
  "verify_steps candidate presented [] = Some False"
| "verify_steps candidate presented (c # cs) =
     (case candidate c of
        None \<Rightarrow> None
      | Some cand \<Rightarrow> if cand = presented then Some True else verify_steps candidate presented cs)"

definition verifyTotp :: "(nat list \<Rightarrow> nat list \<Rightarrow> nat list) \<Rightarrow> totp_options \<Rightarrow> int \<Rightarrow> string \<Rightarrow> string \<Rightarrow> bool option" where
  "verifyTotp hmac opts now secret presented =
     (if presented = [] \<or> \<not> list_all is_digit presented \<or> length presented \<noteq> to_digits opts then Some False
      else
        let counter = totp_counter opts now; w = int (to_window opts) in
        verify_steps (\<lambda>c. hotp hmac secret c (to_digits opts)) presented (map (\<lambda>i. counter + i) [-w..w]))"

subsection \<open>The registers hold what they should\<close>

definition low :: "nat \<Rightarrow> 32 word \<Rightarrow> nat" where
  "low n v = unat v mod 2 ^ n"

lemma low_less [simp]: "low n v < 2 ^ n"
  by (simp add: low_def)

lemma unat_and_mask: "unat (v AND mask n) = unat v mod 2 ^ n" for v :: "32 word"
proof -
  have "unat (v AND mask n) = unat (take_bit n v)" by (simp add: take_bit_eq_mask)
  also have "\<dots> = take_bit n (unat v)" by (rule unsigned_take_bit_eq)
  finally show ?thesis by (simp add: take_bit_eq_mod)
qed

lemma read_char: "unat (drop_bit k v AND mask n) = low (k + n) v div 2 ^ k" for v :: "32 word"
proof -
  have "unat (drop_bit k v) = drop_bit k (unat v)" by (rule unat_drop_bit_eq)
  then have "unat (drop_bit k v) = unat v div 2 ^ k" by (simp only: drop_bit_eq_div)
  then show ?thesis unfolding unat_and_mask low_def by (simp add: power_add mod_mult2_eq)
qed

lemma low_low: "m \<le> n \<Longrightarrow> low n v mod 2 ^ m = low m v"
  by (simp add: low_def mod_mod_cancel le_imp_power_dvd)

text \<open>Shifting in \<open>k\<close> bits: below the old contents, which keep their value.\<close>

lemma low_shift:
  assumes "n + k \<le> 32" "b < 2 ^ k" "b < 2 ^ 32"
  shows "low (n + k) (push_bit k v OR of_nat b) = low n v * 2 ^ k + b"
proof -
  have ub: "unat (of_nat b :: 32 word) = b" using assms(3) by (simp add: unsigned_of_nat take_bit_nat_eq_self)
  have "b < 2 ^ (n + k)" using assms(2) by (rule less_le_trans) simp
  then have b: "take_bit (n + k) b = b" by (rule take_bit_nat_eq_self)
  have "low (n + k) (push_bit k v OR of_nat b) = take_bit (n + k) (unat (push_bit k v OR of_nat b))"
    by (simp add: low_def take_bit_eq_mod)
  also have "unat (push_bit k v OR of_nat b) = take_bit 32 (push_bit k (unat v)) OR b"
    by (simp add: unsigned_or_eq unsigned_push_bit_eq ub)
  also have "take_bit (n + k) (take_bit 32 (push_bit k (unat v)) OR b) = push_bit k (take_bit n (unat v)) OR b"
  proof -
    have "n \<le> 32 - k" using assms(1) by simp
    then show ?thesis using assms(1) by (simp add: take_bit_or b take_bit_take_bit min_def take_bit_push_bit)
  qed
  also have "\<dots> = push_bit k (take_bit n (unat v)) + b"
  proof -
    have "m < k" if "bit b m" for m
    proof -
      have "take_bit k b = b" by (rule take_bit_nat_eq_self [OF assms(2)])
      with that have "bit (take_bit k b) m" by simp
      then show ?thesis by (simp add: bit_take_bit_iff)
    qed
    then have "\<not> bit (push_bit k (take_bit n (unat v))) m \<or> \<not> bit b m" for m
      by (cases "bit b m") (simp_all add: bit_push_bit_iff not_le)
    from disjunctive_add [OF this] show ?thesis by simp
  qed
  finally show ?thesis by (simp add: low_def take_bit_eq_mod push_bit_eq_mult)
qed

subsection \<open>The same routines on numbers\<close>

text \<open>Only the low bits of the registers are read, so the routines compute with numbers below a power of two.\<close>

fun emit_n :: "nat \<Rightarrow> nat \<Rightarrow> nat list \<times> nat \<times> nat" where
  "emit_n bits x =
     (if bits \<ge> 5 then
        (let r = emit_n (bits - 5) (x mod 2 ^ (bits - 5)) in (x div 2 ^ (bits - 5) # fst r, snd r))
      else ([], bits, x))"

declare emit_n.simps [simp del]

fun enc_n :: "nat \<Rightarrow> nat \<Rightarrow> nat list \<Rightarrow> nat list" where
  "enc_n bits x [] = (if bits > 0 then [x * 2 ^ (5 - bits)] else [])"
| "enc_n bits x (b # bs) = (let e = emit_n (bits + 8) (x * 256 + b) in fst e @ enc_n (fst (snd e)) (snd (snd e)) bs)"

fun dec_n :: "nat \<Rightarrow> nat \<Rightarrow> nat list \<Rightarrow> nat list" where
  "dec_n bits x [] = []"
| "dec_n bits x (i # is) =
     (let y = x * 32 + i in
      if bits + 5 \<ge> 8 then y div 2 ^ (bits + 5 - 8) # dec_n (bits + 5 - 8) (y mod 2 ^ (bits + 5 - 8)) is
      else dec_n (bits + 5) y is)"

lemma mask_31: "(31 :: 32 word) = mask 5" and mask_255: "(255 :: 32 word) = mask 8"
  by (simp_all add: mask_eq_exp_minus_1)

lemma emit32_n:
  "bits \<le> 32 \<Longrightarrow> fst (emit32 bits v) = map ((!) B32_ALPHABET) (fst (emit_n bits (low bits v)))
    \<and> snd (emit32 bits v) = fst (snd (emit_n bits (low bits v)))
    \<and> snd (snd (emit_n bits (low bits v))) = low (fst (snd (emit_n bits (low bits v)))) v"
proof (induction bits v rule: emit32.induct)
  case (1 bits v)
  show ?case
  proof (cases "bits \<ge> 5")
    case True
    have c: "unat (drop_bit (bits - 5) v AND 31) = low bits v div 2 ^ (bits - 5)"
      using read_char [of "bits - 5" v 5] True by (simp add: mask_31)
    have l: "low bits v mod 2 ^ (bits - 5) = low (bits - 5) v" by (rule low_low) simp
    show ?thesis using 1 True by (simp add: emit32.simps [of bits v] emit_n.simps [of bits "low bits v"] Let_def c l)
  qed (simp add: emit32.simps [of bits v] emit_n.simps [of bits "low bits v"])
qed

lemma emit_n_bits: "fst (snd (emit_n bits x)) < 5"
proof (induction bits x rule: emit_n.induct)
  case (1 bits x)
  show ?case
  proof (cases "bits \<ge> 5")
    case True
    with 1 show ?thesis by (simp add: emit_n.simps [of bits x] Let_def)
  qed (simp add: emit_n.simps [of bits x])
qed

lemma encode32_n:
  "bits < 5 \<Longrightarrow> list_all (\<lambda>b. b < 256) bs \<Longrightarrow> encode32 bits v bs = map ((!) B32_ALPHABET) (enc_n bits (low bits v) bs)"
proof (induction bs arbitrary: bits v)
  case Nil
  have "unat (push_bit (5 - bits) v AND 31) = low bits v * 2 ^ (5 - bits)" if "bits > 0"
  proof -
    have "low (bits + (5 - bits)) (push_bit (5 - bits) v OR of_nat 0) = low bits v * 2 ^ (5 - bits) + 0"
      using Nil(1) by (intro low_shift) simp_all
    then show ?thesis using Nil(1) by (simp only: mask_31 unat_and_mask) (simp add: low_def)
  qed
  then show ?case by simp
next
  case (Cons b bs)
  let ?v = "push_bit 8 v OR of_nat b"
  have "low (bits + 8) ?v = low bits v * 2 ^ 8 + b" using Cons.prems by (intro low_shift) simp_all
  then have l: "low (bits + 8) ?v = low bits v * 256 + b" by simp
  have "bits + 8 \<le> 32" using Cons.prems(1) by simp
  from emit32_n [OF this, of ?v] emit_n_bits [of "bits + 8" "low bits v * 256 + b"] Cons.IH Cons.prems(2)
  show ?case by (simp add: Let_def l)
qed

lemma index_of_alphabet: "i < 32 \<Longrightarrow> index_of (B32_ALPHABET ! i) B32_ALPHABET = Some i"
proof -
  have "list_all (\<lambda>i. index_of (B32_ALPHABET ! i) B32_ALPHABET = Some i) [0..<32]" by code_simp
  then show "i < 32 \<Longrightarrow> index_of (B32_ALPHABET ! i) B32_ALPHABET = Some i" by (simp add: list_all_iff)
qed

lemma decode32_n:
  "bits < 8 \<Longrightarrow> list_all (\<lambda>i. i < 32) is \<Longrightarrow> decode32 bits v (map ((!) B32_ALPHABET) is) = Some (dec_n bits (low bits v) is)"
proof (induction "is" arbitrary: bits v)
  case (Cons i "is")
  let ?v = "push_bit 5 v OR of_nat i"
  have "low (bits + 5) ?v = low bits v * 2 ^ 5 + i" using Cons.prems by (intro low_shift) simp_all
  then have l: "low (bits + 5) ?v = low bits v * 32 + i" by simp
  have i: "index_of (B32_ALPHABET ! i) B32_ALPHABET = Some i" using Cons.prems by (simp add: index_of_alphabet)
  show ?case
  proof (cases "bits + 5 \<ge> 8")
    case True
    have r: "unat (drop_bit (bits + 5 - 8) ?v AND 255) = low (bits + 5) ?v div 2 ^ (bits + 5 - 8)"
    proof -
      have e: "bits + 5 - 8 + 8 = bits + 5" using True by simp
      show ?thesis unfolding mask_255 read_char e ..
    qed
    have m: "low (bits + 5) ?v mod 2 ^ (bits + 5 - 8) = low (bits + 5 - 8) ?v" by (rule low_low) simp
    have "decode32 (bits + 5 - 8) ?v (map ((!) B32_ALPHABET) is) = Some (dec_n (bits + 5 - 8) (low (bits + 5 - 8) ?v) is)"
      using Cons.prems True by (intro Cons.IH) simp_all
    with True show ?thesis by (simp only: list.map decode32.simps i option.case Let_def if_True r dec_n.simps l m [unfolded l] simp_thms) simp
  next
    case False
    have "decode32 (bits + 5) ?v (map ((!) B32_ALPHABET) is) = Some (dec_n (bits + 5) (low (bits + 5) ?v) is)"
      using Cons.prems False by (intro Cons.IH) simp_all
    with False i l show ?thesis by (simp add: Let_def)
  qed
qed simp

subsection \<open>Round trip\<close>

text \<open>The five positions of a decoder behind an encoder: what is pending is the rest of one byte.\<close>

definition in_step :: "nat \<Rightarrow> nat \<Rightarrow> nat \<Rightarrow> nat \<Rightarrow> nat list \<Rightarrow> bool" where
  "in_step eb x db y pending \<longleftrightarrow>
     x < 2 ^ eb \<and> y < 2 ^ db
     \<and> (eb = 0 \<and> db = 0 \<and> pending = [] \<or> eb \<in> {1, 2, 3, 4} \<and> db = 8 - eb \<and> pending = [y * 2 ^ eb + x])"

lemma emit_steps:
  "emit_n 8 X = ([X div 8], 3, X mod 8)" "emit_n 9 X = ([X div 16], 4, X mod 16)"
  "emit_n 10 X = ([X div 32, X mod 32], 0, 0)" "emit_n 11 X = ([X div 64, X mod 64 div 2], 1, X mod 64 mod 2)"
  "emit_n 12 X = ([X div 128, X mod 128 div 4], 2, X mod 128 mod 4)"
  by (simp_all add: emit_n.simps)

lemma enc_steps:
  "enc_n 0 0 (b # bs) = b div 8 # enc_n 3 (b mod 8) bs"
  "enc_n 1 x (b # bs) = (x * 256 + b) div 16 # enc_n 4 ((x * 256 + b) mod 16) bs"
  "enc_n 2 x (b # bs) = (x * 256 + b) div 32 # (x * 256 + b) mod 32 # enc_n 0 0 bs"
  "enc_n 3 x (b # bs) = (x * 256 + b) div 64 # (x * 256 + b) mod 64 div 2 # enc_n 1 ((x * 256 + b) mod 64 mod 2) bs"
  "enc_n 4 x (b # bs) = (x * 256 + b) div 128 # (x * 256 + b) mod 128 div 4 # enc_n 2 ((x * 256 + b) mod 128 mod 4) bs"
  using emit_steps [of b] emit_steps [of "x * 256 + b"] by (simp_all add: Let_def)

lemma dec_steps:
  "dec_n 0 0 (i # is) = dec_n 5 i is"
  "dec_n 7 y (i # is) = (y * 32 + i) div 16 # dec_n 4 ((y * 32 + i) mod 16) is"
  "dec_n 6 y (i # j # is) = (y * 32 + i) div 8 # ((y * 32 + i) mod 8 * 32 + j) # dec_n 0 0 is"
  "dec_n 5 y (i # j # is) = (y * 32 + i) div 4 # dec_n 7 ((y * 32 + i) mod 4 * 32 + j) is"
  "dec_n 4 y (i # j # is) = (y * 32 + i) div 2 # dec_n 6 ((y * 32 + i) mod 2 * 32 + j) is"
  by (simp_all add: Let_def)

text \<open>The characters of one byte, and what the decoder makes of them.\<close>

lemma div_block: "k > 0 \<Longrightarrow> (k * z + q) div k = z + q div k" and mod_block: "(k * z + q) mod k = q mod k" for k :: nat
  by simp_all

lemma byte_split:
  assumes "k * m = (256 :: nat)"
  shows "(x * 256 + b) div k = x * m + b div k" "(x * 256 + b) mod k = b mod k"
proof -
  have k: "k > 0" "x * 256 + b = k * (x * m) + b" using assms by (auto simp: ac_simps intro: gr0I)
  show "(x * 256 + b) div k = x * m + b div k" "(x * 256 + b) mod k = b mod k"
    unfolding k(2) using div_block [OF k(1)] mod_block by simp_all
qed

lemma char_split:
  assumes "32 = m * r" "b < 256" "k * m = (256 :: nat)"
  shows "(y * 32 + (x * m + b div k)) div m = y * r + x" "(y * 32 + (x * m + b div k)) mod m = b div k"
proof -
  have q: "b div k < m" using assms(2,3) by (metis less_mult_imp_div_less mult.commute)
  have "y * 32 = m * (y * r)" using assms(1) by (metis mult.assoc mult.commute)
  then have e: "y * 32 + (x * m + b div k) = m * (y * r + x) + b div k" by (simp add: algebra_simps)
  show "(y * 32 + (x * m + b div k)) div m = y * r + x" "(y * 32 + (x * m + b div k)) mod m = b div k"
    unfolding e using q by (simp_all add: div_block mod_block del: div_mult_self1 div_mult_self2 div_mult_self3 div_mult_self4)
qed

lemmas byte_chars =
  byte_split [of 16 16] byte_split [of 32 8] byte_split [of 64 4] byte_split [of 128 2]

lemmas char_bytes =
  char_split [of 16 2 _ 16] char_split [of 8 4 _ 32] char_split [of 4 8 _ 64] char_split [of 2 16 _ 128]

lemma byte_join:
  "b div 32 * 32 + b mod 32 = b" "b div 64 * 32 + b mod 64 div 2 = b div 2" "b mod 64 mod 2 = b mod 2"
  "b div 128 * 32 + b mod 128 div 4 = b div 4" "b mod 128 mod 4 = b mod 4" for b :: nat
proof -
  have h: "(q * (k * m) + r) div k = q * m + r div k" if "k > 0" for q k m r :: nat
    using div_block [OF that, of "q * m" r] by (simp add: ac_simps)
  show "b div 64 * 32 + b mod 64 div 2 = b div 2"
    using h [of 2 "b div 64" 32 "b mod 64"] by simp
  show "b div 128 * 32 + b mod 128 div 4 = b div 4"
    using h [of 4 "b div 128" 32 "b mod 128"] by simp
qed (simp_all add: mod_mod_cancel)

lemma enc_dec: "in_step eb x db y pending \<Longrightarrow> list_all (\<lambda>b. b < 256) bs \<Longrightarrow>
   dec_n db y (enc_n eb x bs) = pending @ bs \<and> list_all (\<lambda>i. i < 32) (enc_n eb x bs)"
proof (induction bs arbitrary: eb x db y pending)
  case Nil
  then show ?case by (auto simp: in_step_def)
next
  case (Cons b bs)
  then have b: "b < 256" "list_all (\<lambda>b. b < 256) bs" by simp_all
  note IH = Cons.IH [OF _ b(2)] and byte = byte_chars [simplified] char_bytes [OF _ b(1), simplified] byte_join
  have d: "b div 16 < 16" "b div 32 < 8" "b div 64 < 4" "b div 128 < 2" using b(1) by simp_all
  note st = Cons.prems(1) [unfolded in_step_def]
  then consider "eb = 0" "db = 0" "pending = []" "x = 0" "y = 0"
    | "eb = 1" "db = 7" "pending = [y * 2 + x]" | "eb = 2" "db = 6" "pending = [y * 4 + x]"
    | "eb = 3" "db = 5" "pending = [y * 8 + x]" | "eb = 4" "db = 4" "pending = [y * 16 + x]"
    by (elim conjE disjE insertE emptyE) simp_all
  then show ?case
  proof cases
    case 1
    have "in_step 3 (b mod 8) 5 (b div 8) [b]" using b(1) by (simp add: in_step_def)
    from IH [OF this] b(1) show ?thesis unfolding 1 enc_steps dec_steps by simp
  next
    case 2
    have "in_step 4 (b mod 16) 4 (b div 16) [b]" using b(1) by (simp add: in_step_def)
    from IH [OF this] b(1) d st show ?thesis unfolding 2 enc_steps dec_steps byte by simp
  next
    case 3
    have "in_step 0 0 0 0 []" by (simp add: in_step_def)
    from IH [OF this] b(1) d st show ?thesis unfolding 3 enc_steps dec_steps byte by simp
  next
    case 4
    have "in_step 1 (b mod 2) 7 (b div 2) [b]" using b(1) by (simp add: in_step_def)
    from IH [OF this] b(1) d st show ?thesis unfolding 4 enc_steps dec_steps byte by simp
  next
    case 5
    have "in_step 2 (b mod 4) 6 (b div 4) [b]" using b(1) by (simp add: in_step_def)
    from IH [OF this] b(1) d st show ?thesis unfolding 5 enc_steps dec_steps byte by simp
  qed
qed

lemma alphabet_chars: "list_all (\<lambda>c. upper_char c = [c] \<and> \<not> is_ws c \<and> c \<noteq> CHR ''='') B32_ALPHABET"
  by code_simp

lemma alphabet_clean:
  assumes "\<And>c. c \<in> set s \<Longrightarrow> c \<in> set B32_ALPHABET"
  shows "js_upper (filter (\<lambda>c. \<not> is_ws c \<and> c \<noteq> CHR ''='') s) = s"
proof -
  have c: "upper_char c = [c] \<and> \<not> is_ws c \<and> c \<noteq> CHR ''=''" if "c \<in> set s" for c
    using alphabet_chars assms [OF that] by (simp add: list_all_iff)
  then have "filter (\<lambda>c. \<not> is_ws c \<and> c \<noteq> CHR ''='') s = s" by (simp add: filter_id_conv)
  moreover have "js_upper s = s" using c by (induction s) (simp_all add: js_upper_def)
  ultimately show ?thesis by simp
qed

lemma base32_roundtrip_lemma:
  assumes "list_all (\<lambda>b. b < 256) bs"
  shows "base32Decode (base32Encode bs) = Some bs"
proof -
  have "in_step 0 0 0 0 []" by (simp add: in_step_def)
  note rt = enc_dec [OF this assms]
  have l: "low 0 0 = 0" by (simp add: low_def)
  have e: "base32Encode bs = map ((!) B32_ALPHABET) (enc_n 0 0 bs)"
    using encode32_n [of 0 bs 0] assms by (simp add: base32Encode_def l)
  have "set (base32Encode bs) \<subseteq> set B32_ALPHABET"
  proof -
    have "length B32_ALPHABET = 32" by (simp add: B32_ALPHABET_def)
    then show ?thesis using rt by (auto simp: e list_all_iff intro!: nth_mem)
  qed
  then have c: "js_upper (filter (\<lambda>c. \<not> is_ws c \<and> c \<noteq> CHR ''='') (base32Encode bs)) = base32Encode bs"
    by (intro alphabet_clean) auto
  show ?thesis unfolding base32Decode_def c unfolding e using decode32_n [of 0 "enc_n 0 0 bs" 0] rt by (simp add: l)
qed

text \<open>
  C40. A secret survives its text: decoding what was encoded gives back every byte, although the registers of
  both routines overflow on anything longer than a few bytes.
\<close>

theorem base32_roundtrip:
  assumes "list_all (\<lambda>b. b < 256) bs"
  shows "base32Decode (base32Encode bs) = Some bs"
  using assms by (rule base32_roundtrip_lemma)

theorem base32_roundtrip_witness: "base32Decode (base32Encode [255, 0, 16, 1, 7, 200, 3]) = Some [255, 0, 16, 1, 7, 200, 3]"
  by (rule base32_roundtrip) simp

subsection \<open>Codes\<close>

lemma dec_of_nat_length: "n < 10 ^ k \<Longrightarrow> 0 < k \<Longrightarrow> length (dec_of_nat n) \<le> k"
proof (induction n arbitrary: k rule: dec_of_nat.induct)
  case (1 n)
  show ?case
  proof (cases "n < 10")
    case False
    then have k: "k = Suc (k - 1)" "k - 1 > 0" using "1.prems" by (cases k; cases "k - 1"; simp)+
    have "n div 10 < 10 ^ (k - 1)" using "1.prems"(1) k(1) by (metis less_mult_imp_div_less mult.commute power_Suc)
    from "1.IH" [OF False this k(2)] k(1) False show ?thesis by (simp add: dec_of_nat.simps [of n])
  qed (use "1.prems" in \<open>simp add: dec_of_nat.simps [of n]\<close>)
qed

lemma hotp_shape:
  assumes "hotp hmac secret c digits = Some cand" "0 < digits"
  shows "length cand = digits \<and> list_all is_digit cand \<and> cand \<noteq> []"
proof -
  obtain n where c: "cand = padStart0 digits (dec_of_nat (n mod 10 ^ digits))"
    using assms(1) by (auto simp: hotp_def split: option.splits)
  have "length (dec_of_nat (n mod 10 ^ digits)) \<le> digits" by (rule dec_of_nat_length) (use assms(2) in simp_all)
  then have "length cand = digits" by (simp add: c padStart0_def)
  moreover have "list_all is_digit cand"
    using dec_of_nat_digits by (auto simp: c padStart0_def list_all_iff is_digit_def)
  ultimately show ?thesis using assms(2) by auto
qed

lemma hotp_defined: "base32Decode secret \<noteq> None \<Longrightarrow> 0 \<le> c \<Longrightarrow> c < 2 ^ 64 \<Longrightarrow> hotp hmac secret c digits \<noteq> None"
  by (auto simp: hotp_def counter_bytes_def)

lemma verify_steps_found:
  "(\<forall>c \<in> set cs. candidate c \<noteq> None) \<Longrightarrow>
    verify_steps candidate presented cs = Some (\<exists>c \<in> set cs. candidate c = Some presented)"
  by (induction cs) auto

lemma verifyTotp_iff:
  assumes "base32Decode secret \<noteq> None" "0 < to_digits opts"
    "int (to_window opts) \<le> totp_counter opts now" "totp_counter opts now + int (to_window opts) < 2 ^ 64"
  shows "verifyTotp hmac opts now secret presented =
    Some (\<exists>i. - int (to_window opts) \<le> i \<and> i \<le> int (to_window opts)
      \<and> hotp hmac secret (totp_counter opts now + i) (to_digits opts) = Some presented)"
proof -
  let ?c = "totp_counter opts now" and ?w = "int (to_window opts)"
  have v: "verify_steps (\<lambda>c. hotp hmac secret c (to_digits opts)) presented (map (\<lambda>i. ?c + i) [-?w..?w])
      = Some (\<exists>c \<in> set (map (\<lambda>i. ?c + i) [-?w..?w]). hotp hmac secret c (to_digits opts) = Some presented)"
  proof (rule verify_steps_found, rule ballI)
    fix c assume "c \<in> set (map (\<lambda>i. ?c + i) [-?w..?w])"
    then have "0 \<le> c" "c < 2 ^ 64" using assms(3,4) by auto
    then show "hotp hmac secret c (to_digits opts) \<noteq> None" by (rule hotp_defined [OF assms(1)])
  qed
  have s: "hotp hmac secret c (to_digits opts) = Some presented \<Longrightarrow>
      presented \<noteq> [] \<and> list_all is_digit presented \<and> length presented = to_digits opts" for c
    using hotp_shape assms(2) by blast
  show ?thesis
  proof (cases "presented = [] \<or> \<not> list_all is_digit presented \<or> length presented \<noteq> to_digits opts")
    case True
    then show ?thesis using s by (auto simp: verifyTotp_def)
  next
    case False
    have "(\<exists>c \<in> set (map (\<lambda>i. ?c + i) [-?w..?w]). P c) \<longleftrightarrow> (\<exists>i. - ?w \<le> i \<and> i \<le> ?w \<and> P (?c + i))" for P
      by (simp only: set_map bex_simps set_upto) (simp add: Bex_def conj_assoc)
    with v False show ?thesis by (simp only: verifyTotp_def Let_def if_False)
  qed
qed

text \<open>
  C39. An authenticator whose clock differs from the server's by no more than the window is accepted: the code
  it shows verifies.
\<close>

theorem totp_tolerates_skew:
  assumes "base32Decode secret \<noteq> None" "0 < to_digits opts" "0 < to_stepSec opts"
    and "int (to_window opts) \<le> totp_counter opts now" "totp_counter opts now + int (to_window opts) < 2 ^ 64"
    and "\<bar>client - now\<bar> \<le> 1000 * to_stepSec opts * int (to_window opts)"
    and "currentTotp hmac opts client secret = Some presented"
  shows "verifyTotp hmac opts now secret presented = Some True"
proof -
  let ?s = "1000 * to_stepSec opts" and ?w = "int (to_window opts)"
  have s: "?s > 0" using assms(3) by simp
  have "now div ?s - ?w \<le> client div ?s"
  proof -
    have "now + ?s * (- ?w) \<le> client" using assms(6) by (simp add: abs_le_iff)
    then have "(now + ?s * (- ?w)) div ?s \<le> client div ?s" using s by (rule zdiv_mono1)
    moreover have "(now + ?s * (- ?w)) div ?s = - ?w + now div ?s" using s by (intro div_mult_self2) simp
    ultimately show ?thesis by simp
  qed
  moreover have "client div ?s \<le> now div ?s + ?w"
  proof -
    have "client \<le> now + ?s * ?w" using assms(6) by linarith
    then have "client div ?s \<le> (now + ?s * ?w) div ?s" using s by (rule zdiv_mono1)
    then show ?thesis using s by simp
  qed
  ultimately have "\<exists>i. - ?w \<le> i \<and> i \<le> ?w \<and> hotp hmac secret (totp_counter opts now + i) (to_digits opts) = Some presented"
    using assms(7) by (intro exI [of _ "client div ?s - now div ?s"]) (simp add: totp_counter_def currentTotp_def)
  with verifyTotp_iff [OF assms(1,2,4,5), of hmac presented] show ?thesis by simp
qed

lemma truncated_fives: "truncated (replicate 20 5) = 84215045"
proof -
  have o: "unat ((of_nat (last (replicate 20 (5 :: nat))) :: 32 word) AND 0x0f) = 5" by simp
  have "truncated (replicate 20 5) = push_bit 24 ((5 :: 32 word) AND 0x7f) OR push_bit 16 (5 AND 0xff) OR push_bit 8 (5 AND 0xff) OR (5 AND 0xff)"
    unfolding truncated_def o Let_def by simp
  also have "\<dots> = 84215045" by (simp add: push_bit_eq_mult)
  finally show ?thesis .
qed

theorem totp_tolerates_skew_witness:
  "verifyTotp (\<lambda>k c. replicate 20 5) totp_defaults 1700000000000 (base32Encode [1, 2, 3, 4, 5]) ''215045'' = Some True"
proof -
  have d: "base32Decode (base32Encode [1, 2, 3, 4, 5]) = Some [1, 2, 3, 4, 5]" by (rule base32_roundtrip_lemma) simp
  have "unat (84215045 :: 32 word) mod 10 ^ 6 = 215045" by simp
  moreover have "dec_of_nat 215045 = ''215045''" by (simp add: dec_of_nat.simps char_of_def bit_0)
  ultimately have "hotp (\<lambda>k c. replicate 20 5) (base32Encode [1, 2, 3, 4, 5]) 56666667 6 = Some ''215045''"
    unfolding hotp_def d option.case truncated_fives by (simp add: counter_bytes_def padStart0_def del: One_nat_def)
  then have c: "currentTotp (\<lambda>k c. replicate 20 5) totp_defaults 1700000025000 (base32Encode [1, 2, 3, 4, 5]) = Some ''215045''"
    by (simp add: currentTotp_def totp_counter_def totp_defaults_def)
  show ?thesis
    by (rule totp_tolerates_skew [OF _ _ _ _ _ _ c]) (simp_all add: d totp_defaults_def totp_counter_def del: One_nat_def)
qed

end
