(* ===== verification/SignedToken.thy ===== *)
theory SignedToken
  imports Errors
begin

section \<open>Signed links\<close>

text \<open>
  \<open>lib/auth/password-reset-token.ts\<close> and \<open>email-verification-token.ts\<close>: a payload and its signature in
  one string.  The record \<open>token_codec\<close> holds what comes from the platform: \<open>tk_encode\<close> is
  \<open>JSON.stringify\<close> and base64url, \<open>tk_decode\<close> its reading back (\<open>None\<close> where it throws, an object with
  each property once), and \<open>tk_sign label secret text\<close> the HMAC under the key derived for a label.
\<close>

record token_codec =
  tk_encode :: "json \<Rightarrow> string"
  tk_decode :: "string \<Rightarrow> json option"
  tk_sign :: "string \<Rightarrow> string \<Rightarrow> string \<Rightarrow> string"

datatype token_failure = ShapeFailure | SignatureFailure | ExpiredFailure | JsonFailure

text \<open>\<open>lastIndexOf(".")\<close> and the two slices.\<close>

definition split_last_dot :: "string \<Rightarrow> (string \<times> string) option" where
  "split_last_dot body =
     (if CHR ''.'' \<notin> set body then None
      else let sig = rev (takeWhile (\<lambda>c. c \<noteq> CHR ''.'') (rev body)) in
        Some (take (length body - length sig - 1) body, sig))"

definition signed_text :: "token_codec \<Rightarrow> string \<Rightarrow> string \<Rightarrow> string \<Rightarrow> json \<Rightarrow> string" where
  "signed_text codec pre label secret payload =
     (let payloadB64 = tk_encode codec payload in pre @ payloadB64 @ ''.'' @ tk_sign codec label secret payloadB64)"

text \<open>The part the two verifiers share: shape, signature, and the payload as JSON.\<close>

definition open_signed :: "token_codec \<Rightarrow> string \<Rightarrow> string \<Rightarrow> string \<Rightarrow> string \<Rightarrow> token_failure + json" where
  "open_signed codec pre label secret tok =
     (if \<not> starts_with tok pre then Inl ShapeFailure
      else case split_last_dot (drop (length pre) tok) of
        None \<Rightarrow> Inl ShapeFailure
      | Some (payloadB64, sig) \<Rightarrow>
          if length payloadB64 = 0 \<or> length sig = 0 then Inl ShapeFailure
          else if tk_sign codec label secret payloadB64 \<noteq> sig then Inl SignatureFailure
          else (case tk_decode codec payloadB64 of None \<Rightarrow> Inl JsonFailure | Some parsed \<Rightarrow> Inr parsed))"

definition json_field :: "json \<Rightarrow> string \<Rightarrow> json option" where
  "json_field v key = (case v of JObj fs \<Rightarrow> map_of fs key | _ \<Rightarrow> None)"

definition json_string :: "json \<Rightarrow> string \<Rightarrow> string option" where
  "json_string v key = (case json_field v key of Some (JStr s) \<Rightarrow> Some s | _ \<Rightarrow> None)"

definition json_number :: "json \<Rightarrow> string \<Rightarrow> int option" where
  "json_number v key = (case json_field v key of Some (JNum n) \<Rightarrow> Some n | _ \<Rightarrow> None)"

subsection \<open>password-reset-token.ts\<close>

record reset_payload =
  rt_userId :: string
  rt_nonce :: string
  rt_issuedAt :: int
  rt_expiresAt :: int

definition RESET_PREFIX :: string where "RESET_PREFIX = ''pdr_''"
definition RESET_LABEL :: string where "RESET_LABEL = ''password-reset-v1''"
definition RESET_TTL_MS :: int where "RESET_TTL_MS = 30 * 60 * 1000"

definition reset_json :: "reset_payload \<Rightarrow> json" where
  "reset_json p = JObj [(''userId'', JStr (rt_userId p)), (''nonce'', JStr (rt_nonce p)),
     (''issuedAt'', JNum (rt_issuedAt p)), (''expiresAt'', JNum (rt_expiresAt p))]"

definition isResetPayload :: "json \<Rightarrow> reset_payload option" where
  "isResetPayload v =
     (case (json_string v ''userId'', json_string v ''nonce'', json_number v ''issuedAt'', json_number v ''expiresAt'') of
        (Some u, Some n, Some i, Some e) \<Rightarrow> Some \<lparr>rt_userId = u, rt_nonce = n, rt_issuedAt = i, rt_expiresAt = e\<rparr>
      | _ \<Rightarrow> None)"

definition mintResetToken :: "token_codec \<Rightarrow> string \<Rightarrow> string \<Rightarrow> string \<Rightarrow> int option \<Rightarrow> int \<Rightarrow> string \<times> reset_payload" where
  "mintResetToken codec secret nonce userId ttlMs now =
     (let ttl = (case ttlMs of Some t \<Rightarrow> t | None \<Rightarrow> RESET_TTL_MS);
          payload = \<lparr>rt_userId = userId, rt_nonce = nonce, rt_issuedAt = now, rt_expiresAt = now + ttl\<rparr>
      in (signed_text codec RESET_PREFIX RESET_LABEL secret (reset_json payload), payload))"

definition verifyResetToken :: "token_codec \<Rightarrow> string \<Rightarrow> string \<Rightarrow> int \<Rightarrow> token_failure + reset_payload" where
  "verifyResetToken codec secret tok now =
     (case open_signed codec RESET_PREFIX RESET_LABEL secret tok of
        Inl e \<Rightarrow> Inl e
      | Inr parsed \<Rightarrow>
          (case isResetPayload parsed of
             None \<Rightarrow> Inl JsonFailure
           | Some payload \<Rightarrow> if rt_expiresAt payload \<le> now then Inl ExpiredFailure else Inr payload))"

subsection \<open>email-verification-token.ts\<close>

record verify_payload =
  vt_userId :: string
  vt_email :: string
  vt_nonce :: string
  vt_issuedAt :: int
  vt_expiresAt :: int

definition VERIFY_PREFIX :: string where "VERIFY_PREFIX = ''pde_''"
definition VERIFY_LABEL :: string where "VERIFY_LABEL = ''email-verify-v1''"
definition VERIFY_TTL_MS :: int where "VERIFY_TTL_MS = 24 * 60 * 60 * 1000"

definition verify_json :: "verify_payload \<Rightarrow> json" where
  "verify_json p = JObj [(''userId'', JStr (vt_userId p)), (''email'', JStr (vt_email p)), (''nonce'', JStr (vt_nonce p)),
     (''issuedAt'', JNum (vt_issuedAt p)), (''expiresAt'', JNum (vt_expiresAt p))]"

definition isVerifyPayload :: "json \<Rightarrow> verify_payload option" where
  "isVerifyPayload v =
     (case (json_string v ''userId'', json_string v ''email'', json_string v ''nonce'', json_number v ''issuedAt'',
            json_number v ''expiresAt'') of
        (Some u, Some m, Some n, Some i, Some e) \<Rightarrow>
          Some \<lparr>vt_userId = u, vt_email = m, vt_nonce = n, vt_issuedAt = i, vt_expiresAt = e\<rparr>
      | _ \<Rightarrow> None)"

definition mintVerifyToken ::
  "token_codec \<Rightarrow> string \<Rightarrow> string \<Rightarrow> string \<Rightarrow> string \<Rightarrow> int option \<Rightarrow> int \<Rightarrow> string \<times> verify_payload" where
  "mintVerifyToken codec secret nonce userId email ttlMs now =
     (let ttl = (case ttlMs of Some t \<Rightarrow> t | None \<Rightarrow> VERIFY_TTL_MS);
          payload = \<lparr>vt_userId = userId, vt_email = email, vt_nonce = nonce, vt_issuedAt = now, vt_expiresAt = now + ttl\<rparr>
      in (signed_text codec VERIFY_PREFIX VERIFY_LABEL secret (verify_json payload), payload))"

definition verifyVerifyToken :: "token_codec \<Rightarrow> string \<Rightarrow> string \<Rightarrow> int \<Rightarrow> token_failure + verify_payload" where
  "verifyVerifyToken codec secret tok now =
     (case open_signed codec VERIFY_PREFIX VERIFY_LABEL secret tok of
        Inl e \<Rightarrow> Inl e
      | Inr parsed \<Rightarrow>
          (case isVerifyPayload parsed of
             None \<Rightarrow> Inl JsonFailure
           | Some payload \<Rightarrow> if vt_expiresAt payload \<le> now then Inl ExpiredFailure else Inr payload))"

subsection \<open>What is minted verifies, what verifies was signed\<close>

text \<open>What the platform documents: base64url has no dot, is not empty for a text that is not, and reads back.\<close>

definition codec_ok :: "token_codec \<Rightarrow> bool" where
  "codec_ok codec \<longleftrightarrow>
     (\<forall>p. tk_decode codec (tk_encode codec p) = Some p \<and> tk_encode codec p \<noteq> [])
     \<and> (\<forall>l s t. tk_sign codec l s t \<noteq> [] \<and> CHR ''.'' \<notin> set (tk_sign codec l s t))"

lemma split_last_dot_join: "CHR ''.'' \<notin> set b \<Longrightarrow> split_last_dot (a @ CHR ''.'' # b) = Some (a, b)"
proof -
  assume b: "CHR ''.'' \<notin> set b"
  have r: "rev (a @ CHR ''.'' # b) = rev b @ (CHR ''.'' # rev a)" by simp
  have "takeWhile (\<lambda>c. c \<noteq> CHR ''.'') (rev b @ (CHR ''.'' # rev a)) = rev b @ takeWhile (\<lambda>c. c \<noteq> CHR ''.'') (CHR ''.'' # rev a)"
    by (rule takeWhile_append2) (use b in auto)
  then have "takeWhile (\<lambda>c. c \<noteq> CHR ''.'') (rev (a @ CHR ''.'' # b)) = rev b" unfolding r by simp
  then show ?thesis unfolding split_last_dot_def Let_def by simp
qed

lemma split_last_dot_sound: "split_last_dot s = Some (a, b) \<Longrightarrow> s = a @ CHR ''.'' # b \<and> CHR ''.'' \<notin> set b"
proof -
  assume e: "split_last_dot s = Some (a, b)"
  then have d: "CHR ''.'' \<in> set s" by (auto simp: split_last_dot_def split: if_splits)
  let ?d = "dropWhile (\<lambda>c. c \<noteq> CHR ''.'') (rev s)"
  have b: "b = rev (takeWhile (\<lambda>c. c \<noteq> CHR ''.'') (rev s))" "a = take (length s - length b - 1) s"
    using e d by (auto simp: split_last_dot_def Let_def)
  obtain r where r: "?d = CHR ''.'' # r"
    using d hd_dropWhile [of "\<lambda>c. c \<noteq> CHR ''.''" "rev s"] by (cases ?d) (auto simp: dropWhile_eq_Nil_conv)
  have "rev s = rev b @ CHR ''.'' # r" using takeWhile_dropWhile_id [of "\<lambda>c. c \<noteq> CHR ''.''" "rev s"] r b(1) by simp
  then have s: "s = rev r @ CHR ''.'' # b" by (metis rev.simps(2) rev_append rev_rev_ident append.assoc append_Cons append_Nil)
  then have "a = rev r" using b(2) by simp
  moreover have "CHR ''.'' \<notin> set b" using b(1) by (auto dest: set_takeWhileD)
  ultimately show ?thesis using s by simp
qed

lemma open_signed_text: "codec_ok codec \<Longrightarrow> open_signed codec pre label secret (signed_text codec pre label secret p) = Inr p"
  by (simp add: open_signed_def signed_text_def Let_def starts_with_def codec_ok_def split_last_dot_join)

lemma open_signed_sound:
  assumes "open_signed codec pre label secret tok = Inr parsed"
  shows "\<exists>b. tok = pre @ b @ ''.'' @ tk_sign codec label secret b \<and> tk_decode codec b = Some parsed"
proof -
  obtain b sig where s: "starts_with tok pre" "split_last_dot (drop (length pre) tok) = Some (b, sig)"
    "tk_sign codec label secret b = sig" "tk_decode codec b = Some parsed"
    using assms by (auto simp: open_signed_def split: if_splits option.splits)
  have "tok = pre @ drop (length pre) tok" using s(1) by (auto simp: starts_with_def) (metis append_take_drop_id)
  with split_last_dot_sound [OF s(2)] s(3,4) show ?thesis by (metis append_Cons append_Nil)
qed

lemma reset_json_payload: "isResetPayload (reset_json p) = Some p"
  by (simp add: isResetPayload_def reset_json_def json_string_def json_number_def json_field_def)

lemma verify_json_payload: "isVerifyPayload (verify_json p) = Some p"
  by (simp add: isVerifyPayload_def verify_json_def json_string_def json_number_def json_field_def)

lemma reset_token_verifies:
  "codec_ok codec \<Longrightarrow> mintResetToken codec secret nonce u ttl t = (tok, p) \<Longrightarrow>
    verifyResetToken codec secret tok now = (if rt_expiresAt p \<le> now then Inl ExpiredFailure else Inr p)"
  by (auto simp: mintResetToken_def verifyResetToken_def Let_def open_signed_text reset_json_payload)

lemma verify_token_verifies:
  "codec_ok codec \<Longrightarrow> mintVerifyToken codec secret nonce u e ttl t = (tok, p) \<Longrightarrow>
    verifyVerifyToken codec secret tok now = (if vt_expiresAt p \<le> now then Inl ExpiredFailure else Inr p)"
  by (auto simp: mintVerifyToken_def verifyVerifyToken_def Let_def open_signed_text verify_json_payload)

lemma reset_token_signed:
  assumes "verifyResetToken codec secret tok now = Inr p"
  shows "\<exists>b. tok = RESET_PREFIX @ b @ ''.'' @ tk_sign codec RESET_LABEL secret b
    \<and> Option.bind (tk_decode codec b) isResetPayload = Some p \<and> now < rt_expiresAt p"
proof -
  obtain parsed where o: "open_signed codec RESET_PREFIX RESET_LABEL secret tok = Inr parsed" "isResetPayload parsed = Some p"
    "now < rt_expiresAt p"
    using assms by (auto simp: verifyResetToken_def split: sum.splits option.splits if_splits)
  from open_signed_sound [OF o(1)] o(2,3) show ?thesis by auto
qed

text \<open>
  Neither kind of link passes for the other, and a reset link that is accepted carries the signature, under
  the label of its kind, of exactly the payload that is acted on, and has not expired.
\<close>

theorem links_not_interchangeable:
  assumes "verifyResetToken codec secret tok now = Inr p"
  shows "verifyVerifyToken codec secret tok later = Inl ShapeFailure
    \<and> (\<exists>b. tok = RESET_PREFIX @ b @ ''.'' @ tk_sign codec RESET_LABEL secret b
         \<and> Option.bind (tk_decode codec b) isResetPayload = Some p \<and> now < rt_expiresAt p)"
proof -
  obtain b where b: "tok = RESET_PREFIX @ b @ ''.'' @ tk_sign codec RESET_LABEL secret b"
    using reset_token_signed [OF assms] by blast
  then have "\<not> starts_with tok VERIFY_PREFIX" by (simp add: RESET_PREFIX_def VERIFY_PREFIX_def starts_with_def)
  then have "verifyVerifyToken codec secret tok later = Inl ShapeFailure"
    by (simp add: verifyVerifyToken_def open_signed_def)
  with reset_token_signed [OF assms] show ?thesis by blast
qed

subsection \<open>A codec\<close>

text \<open>A codec that keeps the law, for the examples: one payload per byte, which is enough for them.\<close>

definition demo_payload :: reset_payload where
  "demo_payload = \<lparr>rt_userId = ''u1'', rt_nonce = ''n'', rt_issuedAt = 1000, rt_expiresAt = 1801000\<rparr>"

definition demo_codec :: token_codec where
  "demo_codec = \<lparr>tk_encode = (\<lambda>p. ''E''), tk_decode = (\<lambda>s. if s = ''E'' then Some (reset_json demo_payload) else None),
     tk_sign = (\<lambda>l s t. ''S'' @ filter (\<lambda>c. c \<noteq> CHR ''.'') (l @ s @ t))\<rparr>"

definition demo_link :: string where
  "demo_link = signed_text demo_codec RESET_PREFIX RESET_LABEL ''key'' (reset_json demo_payload)"

lemma demo_link_opens: "verifyResetToken demo_codec ''key'' demo_link 5000 = Inr demo_payload"
proof -
  have "open_signed demo_codec RESET_PREFIX RESET_LABEL ''key'' demo_link = Inr (reset_json demo_payload)" by code_simp
  then show ?thesis by (simp add: verifyResetToken_def reset_json_payload) (simp add: demo_payload_def)
qed

theorem links_not_interchangeable_witness:
  "verifyVerifyToken demo_codec ''key'' demo_link 5000 = Inl ShapeFailure"
  using links_not_interchangeable [OF demo_link_opens, of 5000] by blast

end
