(* ===== verification/Ability.thy ===== *)
theory Ability
  imports Permissions Json
begin

section \<open>Abilities, global permissions and the privilege ceilings\<close>

text \<open>
  Models \<open>lib/rbac/ability.ts\<close>, \<open>lib/rbac/policy.ts\<close>, \<open>lib/rbac/target-ceiling.ts\<close> and
  \<open>lib/rbac/oidc-mapping-ceiling.ts\<close>.  The library CASL is not part of the repository: an
  ability is the list of rules the builder hands to it, and its \<open>can\<close> is a parameter, with its
  documented behaviour as the hypothesis \<open>casl_documented\<close>.  The two repository functions that
  read the database are parameters as well.
\<close>

subsection \<open>Rules\<close>

datatype scope_type = GlobalScope | TeamScope | ZoneScope | ServerScope

record ability_source =
  as_permissions :: "string list"
  as_scope :: scope_type
  as_scopeId :: "string option"

datatype subject =
    SubjectType string
  | ZoneSubject (zs_id: string) (zs_team: string)
  | RecordSubject (rs_zone: string) (rs_team: string)
  | TeamSubject string
  | UserSubject string
  | TokenSubject string

record casl_rule =
  ru_action :: string
  ru_subject :: string
  ru_condition :: "(string \<times> string) option"

text \<open>
  A permission is a member of \<open>PERMISSIONS\<close>, so its resource is not empty; on an empty resource
  the source would throw.
\<close>

definition splitPermission :: "string \<Rightarrow> string \<times> string" where
  "splitPermission p =
     (let parts = split_on (CHR ''.'') p; resource = hd parts in
      (join ''.'' (tl parts), js_upper (take 1 resource) @ drop 1 resource))"

definition source_rules :: "ability_source \<Rightarrow> string \<Rightarrow> casl_rule list" where
  "source_rules src perm =
     (let action = fst (splitPermission perm); subjectType = snd (splitPermission perm);
          rule = (\<lambda>c. [\<lparr>ru_action = action, ru_subject = subjectType, ru_condition = c\<rparr>])
      in case as_scope src of
        GlobalScope \<Rightarrow> rule None
      | TeamScope \<Rightarrow>
          (case as_scopeId src of
             None \<Rightarrow> []
           | Some i \<Rightarrow>
               if subjectType = ''Zone'' \<or> subjectType = ''Record'' then rule (Some (''teamId'', i))
               else if subjectType = ''Team'' then rule (Some (''id'', i))
               else [])
      | ZoneScope \<Rightarrow>
          (case as_scopeId src of
             None \<Rightarrow> []
           | Some i \<Rightarrow>
               if subjectType = ''Zone'' then rule (Some (''id'', i))
               else if subjectType = ''Record'' then rule (Some (''zoneId'', i))
               else [])
      | ServerScope \<Rightarrow>
          (case as_scopeId src of
             None \<Rightarrow> []
           | Some i \<Rightarrow> if subjectType = ''Server'' then rule (Some (''id'', i)) else []))"

definition buildAbility :: "ability_source list \<Rightarrow> casl_rule list" where
  "buildAbility sources =
     concat (map (\<lambda>src. concat (map (source_rules src) (as_permissions src))) sources)"

fun detectSubjectType :: "subject \<Rightarrow> string" where
  "detectSubjectType (SubjectType t) = t"
| "detectSubjectType (ZoneSubject i t) = ''Zone''"
| "detectSubjectType (RecordSubject z t) = ''Record''"
| "detectSubjectType (TeamSubject i) = ''Team''"
| "detectSubjectType (UserSubject i) = ''User''"
| "detectSubjectType (TokenSubject u) = ''Token''"

fun subject_fields :: "subject \<Rightarrow> (string \<times> string) list" where
  "subject_fields (SubjectType t) = []"
| "subject_fields (ZoneSubject i t) = [(''id'', i), (''teamId'', t)]"
| "subject_fields (RecordSubject z t) = [(''zoneId'', z), (''teamId'', t)]"
| "subject_fields (TeamSubject i) = [(''id'', i)]"
| "subject_fields (UserSubject i) = [(''id'', i)]"
| "subject_fields (TokenSubject u) = [(''userId'', u)]"

text \<open>
  What CASL documents of \<open>can\<close> for rules that only allow: some rule has the action, or the
  action \<open>manage\<close> that stands for any, its subject type is the detected one, and its condition
  holds of the instance; a check on a bare type name asks for some instance and ignores it.
\<close>

definition rule_allows :: "casl_rule \<Rightarrow> string \<Rightarrow> subject \<Rightarrow> bool" where
  "rule_allows r action s \<longleftrightarrow>
     (ru_action r = action \<or> ru_action r = ''manage'') \<and> ru_subject r = detectSubjectType s
     \<and> (case ru_condition r of
          None \<Rightarrow> True
        | Some fv \<Rightarrow> (case s of SubjectType t \<Rightarrow> True | _ \<Rightarrow> fv \<in> set (subject_fields s)))"

definition casl_documented :: "(casl_rule list \<Rightarrow> string \<Rightarrow> subject \<Rightarrow> bool) \<Rightarrow> bool" where
  "casl_documented can \<longleftrightarrow> (\<forall>rules a s. can rules a s = (\<exists>r \<in> set rules. rule_allows r a s))"

text \<open>policy.ts\<close>

definition requirePermission :: "(casl_rule list \<Rightarrow> string \<Rightarrow> subject \<Rightarrow> bool) \<Rightarrow> casl_rule list \<Rightarrow>
    string \<Rightarrow> subject \<Rightarrow> app_error + unit" where
  "requirePermission can ability action s =
     (if \<not> can ability action s
      then Inl (ForbiddenError (''Missing permission: '' @ action @ '' on '' @ detectSubjectType s))
      else Inr ())"

subsection \<open>Global permissions and ceilings\<close>

definition globalPermissionsOf :: "ability_source list \<Rightarrow> string list" where
  "globalPermissionsOf sources =
     foldl (\<lambda>out src. if as_scope src = GlobalScope
              then foldl (\<lambda>s p. jset_add p s) out (as_permissions src) else out) [] sources"

definition permissionsExceedingGrant :: "string list \<Rightarrow> string list \<Rightarrow> string list" where
  "permissionsExceedingGrant actor role = filter (\<lambda>p. p \<notin> set actor) role"

definition permissionsTargetHoldsBeyondActor :: "string list \<Rightarrow> string list \<Rightarrow> string list" where
  "permissionsTargetHoldsBeyondActor actor target = filter (\<lambda>p. p \<notin> set actor) target"

record resolved_mapping =
  rm_group :: string
  rm_roleSlug :: string
  rm_permissions :: "string list"

record mapping_violation =
  mv_group :: string
  mv_roleSlug :: string
  mv_exceeding :: "string list"

definition groupMappingsExceedingGrant :: "string list \<Rightarrow> resolved_mapping list \<Rightarrow>
    mapping_violation list" where
  "groupMappingsExceedingGrant actor mappings =
     concat (map (\<lambda>m. let exceeding = permissionsExceedingGrant actor (rm_permissions m) in
                if length exceeding > 0
                then [\<lparr>mv_group = rm_group m, mv_roleSlug = rm_roleSlug m, mv_exceeding = exceeding\<rparr>]
                else []) mappings)"

record group_mapping =
  gm_group :: string
  gm_roleSlug :: string

record role_row =
  role_slug :: string
  role_permissions :: "string list"

definition perms_by_slug :: "role_row list \<Rightarrow> (string \<times> string list) list" where
  "perms_by_slug roles = foldl (\<lambda>m r. AList.update (role_slug r) (role_permissions r) m) [] roles"

definition violation_text :: "mapping_violation \<Rightarrow> string" where
  "violation_text v = mv_roleSlug v @ '' (group '' @ [quote] @ mv_group v @ [quote] @ '') grants ''
     @ join '', '' (mv_exceeding v)"

definition resolve_mapping :: "(string \<times> string list) list \<Rightarrow> group_mapping \<Rightarrow> resolved_mapping" where
  "resolve_mapping permsBySlug m =
     \<lparr>rm_group = gm_group m, rm_roleSlug = gm_roleSlug m,
      rm_permissions = (case map_of permsBySlug (gm_roleSlug m) of Some ps \<Rightarrow> ps | None \<Rightarrow> [])\<rparr>"

definition assertGroupMappingsWithinCeiling :: "(string list \<Rightarrow> role_row list) \<Rightarrow> ability_source list \<Rightarrow>
    group_mapping list option \<Rightarrow> app_error + unit" where
  "assertGroupMappingsWithinCeiling findRolesBySlugs actorSources mappings =
     (case mappings of
        None \<Rightarrow> Inr ()
      | Some ms \<Rightarrow>
          if length ms = 0 then Inr ()
          else
            (let slugs = jset_of (map gm_roleSlug ms);
                 permsBySlug = perms_by_slug (findRolesBySlugs slugs);
                 missing = filter (\<lambda>s. map_of permsBySlug s = None) slugs
             in if length missing > 0 then
                  Inl (ValidationError (''Group mapping references unknown role(s): ''
                    @ join '', '' missing @ ''.'') None)
                else
                  (let violations = groupMappingsExceedingGrant (globalPermissionsOf actorSources)
                                      (map (resolve_mapping permsBySlug) ms)
                   in if length violations > 0 then
                        Inl (ValidationError (''You can't create an OIDC group mapping to a role that grants permissions you don't hold globally: ''
                          @ join ''; '' (map violation_text violations) @ ''.'') None)
                      else Inr ())))"

subsection \<open>What a set of assignments allows\<close>

lemma set_globalPermissionsOf:
  "set (globalPermissionsOf sources) =
     \<Union> (set ` as_permissions ` {src \<in> set sources. as_scope src = GlobalScope})"
proof -
  have "set (foldl (\<lambda>out src. if as_scope src = GlobalScope
              then foldl (\<lambda>s p. jset_add p s) out (as_permissions src) else out) out sources) =
     set out \<union> \<Union> (set ` as_permissions ` {src \<in> set sources. as_scope src = GlobalScope})" for out
    by (induction sources arbitrary: out) (auto simp: set_foldl_jset_add)
  then show ?thesis by (simp add: globalPermissionsOf_def)
qed

text \<open>The subjects a scope reaches, apart from the rules that express it.\<close>

definition in_scope :: "ability_source \<Rightarrow> subject \<Rightarrow> bool" where
  "in_scope src s \<longleftrightarrow>
     as_scope src = GlobalScope \<or>
     (case as_scopeId src of
        None \<Rightarrow> False
      | Some i \<Rightarrow>
          (case s of
             SubjectType t \<Rightarrow>
               as_scope src = TeamScope \<and> t \<in> {''Zone'', ''Record'', ''Team''}
               \<or> as_scope src = ZoneScope \<and> t \<in> {''Zone'', ''Record''}
               \<or> as_scope src = ServerScope \<and> t = ''Server''
           | ZoneSubject z t \<Rightarrow> as_scope src = TeamScope \<and> i = t \<or> as_scope src = ZoneScope \<and> i = z
           | RecordSubject z t \<Rightarrow> as_scope src = TeamScope \<and> i = t \<or> as_scope src = ZoneScope \<and> i = z
           | TeamSubject t \<Rightarrow> as_scope src = TeamScope \<and> i = t
           | UserSubject _ \<Rightarrow> False
           | TokenSubject _ \<Rightarrow> False))"

definition permits :: "string \<Rightarrow> string \<Rightarrow> subject \<Rightarrow> bool" where
  "permits p action s \<longleftrightarrow> snd (splitPermission p) = detectSubjectType s
     \<and> (fst (splitPermission p) = action \<or> fst (splitPermission p) = ''manage'')"

lemma source_rules_allow:
  "(\<exists>r \<in> set (source_rules src p). rule_allows r action s) \<longleftrightarrow> permits p action s \<and> in_scope src s"
  by (cases "as_scope src"; cases "as_scopeId src"; cases s)
    (auto simp: source_rules_def Let_def rule_allows_def permits_def in_scope_def)

lemma ability_allows:
  assumes "casl_documented can"
  shows "can (buildAbility sources) action s \<longleftrightarrow>
    (\<exists>src \<in> set sources. \<exists>p \<in> set (as_permissions src). permits p action s \<and> in_scope src s)"
proof -
  have "can (buildAbility sources) action s \<longleftrightarrow>
      (\<exists>src \<in> set sources. \<exists>p \<in> set (as_permissions src). \<exists>r \<in> set (source_rules src p). rule_allows r action s)"
    using assms by (auto simp: casl_documented_def buildAbility_def)
  then show ?thesis by (simp add: source_rules_allow)
qed

text \<open>
  C11. The ability built from a user's assignments allows an action on a subject exactly when one
  assignment carries the permission for it (or the \<open>manage\<close> permission of that subject) and
  its scope reaches the subject: a team scope only the zones, records and team of that team, a
  zone scope only that zone and its records, and nothing but a global scope reaches users or
  tokens.
\<close>

theorem buildAbility_scoped:
  assumes "casl_documented can"
  shows "can (buildAbility sources) action s \<longleftrightarrow>
    (\<exists>src \<in> set sources. \<exists>p \<in> set (as_permissions src).
        snd (splitPermission p) = detectSubjectType s
        \<and> (fst (splitPermission p) = action \<or> fst (splitPermission p) = ''manage'')
        \<and> in_scope src s)"
  unfolding ability_allows [OF assms] by (auto simp: permits_def)

definition first_match_can :: "casl_rule list \<Rightarrow> string \<Rightarrow> subject \<Rightarrow> bool" where
  "first_match_can rules action s = list_ex (\<lambda>r. rule_allows r action s) rules"

theorem buildAbility_scoped_witness:
  "first_match_can (buildAbility [\<lparr>as_permissions = [''zone.read''], as_scope = TeamScope,
      as_scopeId = Some ''t1''\<rparr>]) ''read'' (ZoneSubject ''z'' ''t1'')
   \<and> \<not> first_match_can (buildAbility [\<lparr>as_permissions = [''zone.read''], as_scope = TeamScope,
      as_scopeId = Some ''t1''\<rparr>]) ''read'' (ZoneSubject ''z'' ''t2'')"
proof -
  have c: "casl_documented first_match_can"
    by (simp add: casl_documented_def first_match_can_def list_ex_iff)
  have s: "splitPermission ''zone.read'' = (''read'', ''Zone'')" by code_simp
  show ?thesis
    unfolding buildAbility_scoped [OF c] by (simp add: s in_scope_def)
qed

subsection \<open>The ceilings\<close>

lemma groupMappings_empty:
  "groupMappingsExceedingGrant actor ms = [] \<longleftrightarrow>
     (\<forall>m \<in> set ms. set (rm_permissions m) \<subseteq> set actor)"
  by (auto simp: groupMappingsExceedingGrant_def permissionsExceedingGrant_def Let_def
      filter_empty_conv split: if_splits)

lemma ceiling_ok:
  "assertGroupMappingsWithinCeiling roles actor (Some ms) = Inr () \<longleftrightarrow>
     (\<forall>m \<in> set ms. \<exists>ps. map_of (perms_by_slug (roles (jset_of (map gm_roleSlug ms)))) (gm_roleSlug m) = Some ps
        \<and> set ps \<subseteq> set (globalPermissionsOf actor))"
proof (cases "ms = []")
  case True
  then show ?thesis by (simp add: assertGroupMappingsWithinCeiling_def)
next
  case False
  let ?by = "perms_by_slug (roles (jset_of (map gm_roleSlug ms)))"
  let ?missing = "filter (\<lambda>s. map_of ?by s = None) (jset_of (map gm_roleSlug ms))"
  have miss: "?missing = [] \<longleftrightarrow> (\<forall>m \<in> set ms. \<exists>ps. map_of ?by (gm_roleSlug m) = Some ps)"
    by (auto simp: filter_empty_conv)
  have viol: "groupMappingsExceedingGrant (globalPermissionsOf actor) (map (resolve_mapping ?by) ms) = []
      \<longleftrightarrow> (\<forall>m \<in> set ms. \<forall>ps. map_of ?by (gm_roleSlug m) = Some ps \<longrightarrow>
             set ps \<subseteq> set (globalPermissionsOf actor))" if "?missing = []"
    using that unfolding miss groupMappings_empty by (fastforce simp: resolve_mapping_def)
  have "assertGroupMappingsWithinCeiling roles actor (Some ms) = Inr () \<longleftrightarrow>
      ?missing = [] \<and> groupMappingsExceedingGrant (globalPermissionsOf actor)
        (map (resolve_mapping ?by) ms) = []"
    using False by (simp add: assertGroupMappingsWithinCeiling_def Let_def)
  then show ?thesis using viol miss by (metis option.inject)
qed


definition demo_roles :: "string list \<Rightarrow> role_row list" where
  "demo_roles slugs = [\<lparr>role_slug = ''read-only'', role_permissions = READ_ONLY\<rparr>]"

definition demo_actor :: "ability_source list" where
  "demo_actor = [\<lparr>as_permissions = OPERATOR, as_scope = GlobalScope, as_scopeId = None\<rparr>]"


end
