(* ===== verification/AuthState.thy ===== *)
theory AuthState
  imports AuthPolicy RevealStore Totp SignedToken Ability
begin

section \<open>Users, sessions and local authentication\<close>

text \<open>
  \<open>lib/db/repositories/users.ts\<close>, \<open>sessions.ts\<close> and \<open>webauthn.ts\<close> as functions on two tables (lists of rows in
  the order the database answers them), \<open>lib/auth/session.ts\<close> (the cookie and the row behind it),
  \<open>requireCsrf\<close> of \<open>csrf.ts\<close>, and \<open>lib/auth/providers/local.ts\<close>.  What is not under \<open>src/\<close> is in the record
  \<open>auth_env\<close>: Argon2, the cipher of \<open>lib/crypto\<close>, HMAC, the WebAuthn verifier, the settings.  A request has
  one clock reading; what it draws at random is part of the request.
\<close>

record credential =
  cr_id :: string
  cr_publicKey :: string
  cr_counter :: nat
  cr_lastUsedAt :: "int option"
  cr_nickname :: string

record user_row =
  us_id :: string
  us_email :: string
  us_name :: "string option"
  us_passwordHash :: "string option"
  us_passwordHashUpdatedAt :: int
  us_totpSecretEncrypted :: "string option"
  us_mfaRequired :: "bool option"
  us_webauthnCredentials :: "credential list"
  us_emailVerifiedAt :: "int option"
  us_lockedUntil :: "int option"
  us_failedLoginCount :: nat
  us_disabledAt :: "int option"
  us_lastLoginAt :: "int option"
  us_lastLoginIp :: "string option"
  us_mustChangePassword :: bool

datatype idp_type = IdpOidc | IdpSaml | IdpLdap

record session_row =
  se_id :: string
  se_userId :: string
  se_expiresAt :: int
  se_lastSeenAt :: int
  se_ip :: "string option"
  se_userAgent :: "string option"
  se_csrfSecret :: string
  se_oidcEndSessionUrl :: "string option"
  se_oidcIdToken :: "string option"
  se_oidcClientId :: "string option"
  se_oidcRefreshTokenEncrypted :: "string option"
  se_derivedPermissions :: "ability_source list"
  se_idpProviderType :: "idp_type option"
  se_idpProviderSlug :: "string option"

text \<open>Of an audit row: who, what, on what, and the details.\<close>

record audit_row =
  au_actor :: "string option"
  au_action :: string
  au_resource :: "string \<times> string option"
  au_after :: "(string \<times> json) list"

record auth_state =
  as_users :: "user_row list"
  as_sessions :: "session_row list"
  as_reveal :: reveal_state
  as_audit :: "audit_row list"

record auth_env =
  ae_verifyPassword :: "string \<Rightarrow> string \<Rightarrow> bool"
  ae_hashPassword :: "string \<Rightarrow> string \<Rightarrow> string"
  ae_jsInt :: "string \<Rightarrow> int option"
  ae_encrypt :: "string \<Rightarrow> string \<Rightarrow> string \<Rightarrow> string"
  ae_decrypt :: "string \<Rightarrow> string \<Rightarrow> string option"
  ae_utf8 :: "string \<Rightarrow> string"
  ae_codec :: token_codec
  ae_hmac :: "nat list \<Rightarrow> nat list \<Rightarrow> nat list"
  ae_verifyAssertion :: "json \<Rightarrow> string \<Rightarrow> credential \<Rightarrow> string + (nat \<times> bool)"
  ae_iso :: "int \<Rightarrow> string"
  ae_appOrigin :: string
  ae_appUrl :: string
  ae_urlWithParams :: "string \<Rightarrow> (string \<times> string) list \<Rightarrow> string option"
  ae_secretKey :: string
  ae_sessionTtlSeconds :: int
  ae_localAuthEnabled :: bool
  ae_signupEnabled :: bool
  ae_webauthnEnabled :: bool
  ae_turnstile :: bool
  ae_allowPasswordReset :: bool
  ae_lockoutThreshold :: nat
  ae_lockoutSeconds :: int
  ae_bootstrapRo :: bool
  ae_bootstrapEmail :: "string option"

record auth_request =
  rq_now :: int
  rq_method :: string
  rq_contentType :: "string option"
  rq_origin :: "string option"
  rq_site :: "string option"
  rq_cookie :: "string option"
  rq_csrf :: "string option"
  rq_ip :: "string option"
  rq_userAgent :: "string option"
  rq_limited :: "int option"
  rq_captcha :: "string list option"
  rq_sessionId :: string
  rq_csrfSecret :: string
  rq_iv :: string
  rq_token :: string
  rq_salt :: string
  rq_nonce :: string
  rq_redis :: redis_reply
  rq_redis2 :: redis_reply

text \<open>What a response does to the cookies of the browser.\<close>

datatype cookie_change = SetCookie string string int | DeleteCookie string

definition appendAudit ::
  "string option \<Rightarrow> string \<Rightarrow> string \<times> string option \<Rightarrow> (string \<times> json) list \<Rightarrow> auth_state \<Rightarrow> auth_state" where
  "appendAudit actor action res after st =
     st\<lparr>as_audit := as_audit st @ [\<lparr>au_actor = actor, au_action = action, au_resource = res, au_after = after\<rparr>]\<rparr>"

subsection \<open>repositories/users.ts\<close>

definition findUserByEmail :: "string \<Rightarrow> auth_state \<Rightarrow> user_row option" where
  "findUserByEmail email st = find (\<lambda>u. js_lower (us_email u) = js_lower email) (as_users st)"

definition findUserById :: "string \<Rightarrow> auth_state \<Rightarrow> user_row option" where
  "findUserById i st = find (\<lambda>u. us_id u = i) (as_users st)"

definition set_user :: "string \<Rightarrow> (user_row \<Rightarrow> user_row) \<Rightarrow> auth_state \<Rightarrow> auth_state" where
  "set_user i f st = st\<lparr>as_users := map (\<lambda>u. if us_id u = i then f u else u) (as_users st)\<rparr>"

text \<open>The unique index on \<open>lower(email)\<close> and the primary key make the insert throw.\<close>

definition insertUser :: "user_row \<Rightarrow> auth_state \<Rightarrow> (user_row \<times> auth_state) option" where
  "insertUser u st =
     (if findUserByEmail (us_email u) st \<noteq> None \<or> findUserById (us_id u) st \<noteq> None then None
      else Some (u, st\<lparr>as_users := as_users st @ [u]\<rparr>))"

text \<open>
  \<open>passwordHash\<close> is the field of that name of the patch, \<open>None\<close> when the patch has none; \<open>patch\<close> sets the others.
\<close>

definition updateUser ::
  "int \<Rightarrow> string \<Rightarrow> string option option \<Rightarrow> (user_row \<Rightarrow> user_row) \<Rightarrow> auth_state \<Rightarrow> user_row option \<times> auth_state" where
  "updateUser now i passwordHash patch st =
     (let bump = (\<lambda>u. case passwordHash of
                    Some h \<Rightarrow> u\<lparr>us_passwordHash := h, us_passwordHashUpdatedAt := now\<rparr> | None \<Rightarrow> u);
          st' = set_user i (\<lambda>u. bump (patch u)) st
      in (findUserById i st', st'))"

definition recordSuccessfulLogin :: "int \<Rightarrow> string \<Rightarrow> string option \<Rightarrow> auth_state \<Rightarrow> auth_state" where
  "recordSuccessfulLogin now i ip =
     set_user i (\<lambda>u. u\<lparr>us_lastLoginAt := Some now, us_lastLoginIp := ip, us_failedLoginCount := 0, us_lockedUntil := None\<rparr>)"

definition computeLockoutUntil :: "nat \<Rightarrow> nat \<Rightarrow> int \<Rightarrow> int \<Rightarrow> int option" where
  "computeLockoutUntil failedCount threshold lockoutSeconds now =
     (if failedCount \<ge> threshold then Some (now + lockoutSeconds * 1000) else None)"

definition recordFailedLogin ::
  "int \<Rightarrow> string \<Rightarrow> nat \<Rightarrow> int \<Rightarrow> auth_state \<Rightarrow> (nat \<times> int option) \<times> auth_state" where
  "recordFailedLogin now i threshold lockoutSeconds st =
     (let st1 = set_user i (\<lambda>u. u\<lparr>us_failedLoginCount := us_failedLoginCount u + 1\<rparr>) st in
      case findUserById i st1 of
        None \<Rightarrow> ((0, None), st1)
      | Some row \<Rightarrow>
          let lockedUntil = computeLockoutUntil (us_failedLoginCount row) threshold lockoutSeconds now;
              st2 = (if lockedUntil \<noteq> None then set_user i (\<lambda>u. u\<lparr>us_lockedUntil := lockedUntil\<rparr>) st1 else st1)
          in ((us_failedLoginCount row, lockedUntil), st2))"

definition isLockedOut :: "user_row \<Rightarrow> int \<Rightarrow> bool" where
  "isLockedOut user now = (case us_lockedUntil user of Some t \<Rightarrow> t > now | None \<Rightarrow> False)"

definition isDisabled :: "user_row \<Rightarrow> bool" where
  "isDisabled user = (us_disabledAt user \<noteq> None)"

text \<open>The rows of the sessions go with the user: the foreign key cascades.\<close>

definition deleteUserById :: "string \<Rightarrow> auth_state \<Rightarrow> auth_state" where
  "deleteUserById i st =
     st\<lparr>as_users := filter (\<lambda>u. us_id u \<noteq> i) (as_users st), as_sessions := filter (\<lambda>s. se_userId s \<noteq> i) (as_sessions st)\<rparr>"

subsection \<open>repositories/sessions.ts\<close>

definition createSession :: "session_row \<Rightarrow> auth_state \<Rightarrow> auth_state" where
  "createSession s st = st\<lparr>as_sessions := as_sessions st @ [s]\<rparr>"

definition findValidSessionById :: "int \<Rightarrow> string \<Rightarrow> auth_state \<Rightarrow> session_row option" where
  "findValidSessionById now i st = find (\<lambda>s. se_id s = i \<and> se_expiresAt s > now) (as_sessions st)"

definition touchSession :: "int \<Rightarrow> string \<Rightarrow> auth_state \<Rightarrow> auth_state" where
  "touchSession now i st =
     st\<lparr>as_sessions := map (\<lambda>s. if se_id s = i then s\<lparr>se_lastSeenAt := now\<rparr> else s) (as_sessions st)\<rparr>"

definition revokeSession :: "string \<Rightarrow> auth_state \<Rightarrow> auth_state" where
  "revokeSession i st = st\<lparr>as_sessions := filter (\<lambda>s. se_id s \<noteq> i) (as_sessions st)\<rparr>"

definition revokeSessionsForUser :: "string \<Rightarrow> auth_state \<Rightarrow> nat \<times> auth_state" where
  "revokeSessionsForUser userId st =
     (length (filter (\<lambda>s. se_userId s = userId) (as_sessions st)),
      st\<lparr>as_sessions := filter (\<lambda>s. se_userId s \<noteq> userId) (as_sessions st)\<rparr>)"

definition countActiveSessions :: "int \<Rightarrow> auth_state \<Rightarrow> nat" where
  "countActiveSessions now st = length (filter (\<lambda>s. se_expiresAt s > now) (as_sessions st))"

definition listSessionsForUser :: "int \<Rightarrow> string \<Rightarrow> auth_state \<Rightarrow> session_row list" where
  "listSessionsForUser now userId st = filter (\<lambda>s. se_userId s = userId \<and> se_expiresAt s > now) (as_sessions st)"

text \<open>Ordered by \<open>lastSeenAt\<close>, the first; of equal ones the database picks, here the earlier row.\<close>

definition latestSessionForUser :: "string \<Rightarrow> auth_state \<Rightarrow> session_row option" where
  "latestSessionForUser userId st =
     foldl (\<lambda>best s. case best of None \<Rightarrow> Some s | Some b \<Rightarrow> Some (if se_lastSeenAt s > se_lastSeenAt b then s else b)) None
       (filter (\<lambda>s. se_userId s = userId) (as_sessions st))"

definition revokeAllSessions :: "string option \<Rightarrow> auth_state \<Rightarrow> nat \<times> auth_state" where
  "revokeAllSessions exceptSessionId st =
     (let keep = (\<lambda>s. case exceptSessionId of Some e \<Rightarrow> e \<noteq> [] \<and> se_id s = e | None \<Rightarrow> False)
      in (length (filter (\<lambda>s. \<not> keep s) (as_sessions st)), st\<lparr>as_sessions := filter keep (as_sessions st)\<rparr>))"

subsection \<open>repositories/webauthn.ts\<close>

definition listCredentials :: "string \<Rightarrow> auth_state \<Rightarrow> credential list" where
  "listCredentials userId st = (case findUserById userId st of Some u \<Rightarrow> us_webauthnCredentials u | None \<Rightarrow> [])"

definition findCredentialById :: "string \<Rightarrow> string \<Rightarrow> auth_state \<Rightarrow> credential option" where
  "findCredentialById userId credentialId st = find (\<lambda>c. cr_id c = credentialId) (listCredentials userId st)"

fun user_with_credential :: "string \<Rightarrow> user_row list \<Rightarrow> (user_row \<times> credential) option" where
  "user_with_credential credentialId [] = None"
| "user_with_credential credentialId (u # rows) =
     (case find (\<lambda>c. cr_id c = credentialId) (us_webauthnCredentials u) of
        Some cred \<Rightarrow> Some (u, cred)
      | None \<Rightarrow> user_with_credential credentialId rows)"

definition findUserByCredentialId :: "string \<Rightarrow> auth_state \<Rightarrow> (user_row \<times> credential) option" where
  "findUserByCredentialId credentialId st = user_with_credential credentialId (as_users st)"

definition addCredential :: "string \<Rightarrow> credential \<Rightarrow> auth_state \<Rightarrow> (thrown + credential list) \<times> auth_state" where
  "addCredential userId cred st =
     (let old = listCredentials userId st in
      if list_ex (\<lambda>c. cr_id c = cr_id cred) old
      then (Inl (ErrorThrown (''WebAuthn credential '' @ cr_id cred @ '' already registered.'')), st)
      else let new = old @ [cred] in (Inr new, set_user userId (\<lambda>u. u\<lparr>us_webauthnCredentials := new\<rparr>) st))"

definition removeCredential :: "string \<Rightarrow> string \<Rightarrow> auth_state \<Rightarrow> credential list \<times> auth_state" where
  "removeCredential userId credentialId st =
     (let old = listCredentials userId st; new = filter (\<lambda>c. cr_id c \<noteq> credentialId) old in
      if length new = length old then (old, st)
      else (new, set_user userId (\<lambda>u. u\<lparr>us_webauthnCredentials := new\<rparr>) st))"

definition touchCredential :: "int \<Rightarrow> string \<Rightarrow> string \<Rightarrow> nat \<Rightarrow> auth_state \<Rightarrow> auth_state" where
  "touchCredential now userId credentialId counter st =
     (let new = map (\<lambda>c. if cr_id c = credentialId then c\<lparr>cr_counter := counter, cr_lastUsedAt := Some now\<rparr> else c)
                  (listCredentials userId st)
      in set_user userId (\<lambda>u. u\<lparr>us_webauthnCredentials := new\<rparr>) st)"

definition renameCredential :: "string \<Rightarrow> string \<Rightarrow> string \<Rightarrow> auth_state \<Rightarrow> auth_state" where
  "renameCredential userId credentialId nickname st =
     (let new = map (\<lambda>c. if cr_id c = credentialId then c\<lparr>cr_nickname := nickname\<rparr> else c) (listCredentials userId st)
      in set_user userId (\<lambda>u. u\<lparr>us_webauthnCredentials := new\<rparr>) st)"

subsection \<open>session.ts\<close>

definition SESSION_COOKIE :: string where "SESSION_COOKIE = ''pda_session''"
definition CSRF_COOKIE :: string where "CSRF_COOKIE = ''pda_csrf''"

record oidc_logout =
  ol_endSessionUrl :: "string option"
  ol_idToken :: "string option"
  ol_clientId :: "string option"
  ol_refreshTokenEncrypted :: "string option"

definition cookie_session_id :: "auth_env \<Rightarrow> auth_request \<Rightarrow> string option" where
  "cookie_session_id env rq =
     (case rq_cookie rq of
        None \<Rightarrow> None
      | Some c \<Rightarrow> if c = [] then None else ae_decrypt env ''session-cookie'' c)"

definition startSession ::
  "auth_env \<Rightarrow> auth_request \<Rightarrow> string \<Rightarrow> oidc_logout option \<Rightarrow> ability_source list \<Rightarrow> (idp_type \<times> string) option \<Rightarrow> auth_state \<Rightarrow>
    session_row \<times> cookie_change list \<times> auth_state" where
  "startSession env rq userId oidc derived idp st =
     (let st1 = (case cookie_session_id env rq of Some existingId \<Rightarrow> revokeSession existingId st | None \<Rightarrow> st);
          expiresAt = rq_now rq + ae_sessionTtlSeconds env * 1000;
          session = \<lparr>se_id = rq_sessionId rq, se_userId = userId, se_expiresAt = expiresAt, se_lastSeenAt = rq_now rq,
            se_ip = rq_ip rq, se_userAgent = rq_userAgent rq, se_csrfSecret = rq_csrfSecret rq,
            se_oidcEndSessionUrl = Option.bind oidc ol_endSessionUrl, se_oidcIdToken = Option.bind oidc ol_idToken,
            se_oidcClientId = Option.bind oidc ol_clientId,
            se_oidcRefreshTokenEncrypted = Option.bind oidc ol_refreshTokenEncrypted,
            se_derivedPermissions = derived, se_idpProviderType = map_option fst idp, se_idpProviderSlug = map_option snd idp\<rparr>
      in (session,
          [SetCookie SESSION_COOKIE (ae_encrypt env (rq_iv rq) (rq_sessionId rq) ''session-cookie'') expiresAt,
           SetCookie CSRF_COOKIE (rq_csrfSecret rq) expiresAt],
          createSession session st1))"

definition readSession :: "auth_env \<Rightarrow> auth_request \<Rightarrow> auth_state \<Rightarrow> session_row option \<times> auth_state" where
  "readSession env rq st =
     (case cookie_session_id env rq of
        None \<Rightarrow> (None, st)
      | Some i \<Rightarrow>
          (case findValidSessionById (rq_now rq) i st of
             None \<Rightarrow> (None, st)
           | Some session \<Rightarrow> (Some session, touchSession (rq_now rq) (se_id session) st)))"

definition endSession :: "auth_env \<Rightarrow> auth_request \<Rightarrow> auth_state \<Rightarrow> cookie_change list \<times> auth_state" where
  "endSession env rq st =
     ([DeleteCookie SESSION_COOKIE, DeleteCookie CSRF_COOKIE],
      case cookie_session_id env rq of Some i \<Rightarrow> revokeSession i st | None \<Rightarrow> st)"

subsection \<open>csrf.ts\<close>

definition requireCsrf :: "auth_env \<Rightarrow> auth_request \<Rightarrow> auth_state \<Rightarrow> (thrown + unit) \<times> auth_state" where
  "requireCsrf env rq st =
     (if js_upper (rq_method rq) \<in> set SAFE_METHODS then (Inr (), st)
      else if rq_cookie rq = None \<or> rq_cookie rq = Some [] then (Inr (), st)
      else case readSession env rq st of
        (None, st') \<Rightarrow> (Inr (), st')
      | (Some session, st') \<Rightarrow>
          (if verifyCsrf (ae_utf8 env) (rq_csrf rq) (se_csrfSecret session) then Inr ()
           else Inl (AppThrown (ForbiddenError ''CSRF token invalid or missing.'')), st'))"

subsection \<open>providers/local.ts\<close>

datatype local_outcome = LocalOk user_row | InvalidCredentials | LockedOut int | DisabledAccount

text \<open>Without a row the code verifies against a padding hash for the time it takes; the answer is the same.\<close>

definition authenticateLocal ::
  "auth_env \<Rightarrow> auth_request \<Rightarrow> string \<Rightarrow> string \<Rightarrow> auth_state \<Rightarrow> local_outcome \<times> auth_state" where
  "authenticateLocal env rq email password st =
     (case findUserByEmail email st of
        None \<Rightarrow> (InvalidCredentials, st)
      | Some user \<Rightarrow>
          if isDisabled user then (DisabledAccount, st)
          else if isLockedOut user (rq_now rq) then (LockedOut (the (us_lockedUntil user)), st)
          else case us_passwordHash user of
            None \<Rightarrow> (InvalidCredentials, st)
          | Some hash \<Rightarrow>
              if hash = [] then (InvalidCredentials, st)
              else if \<not> ae_verifyPassword env hash password then
                (case recordFailedLogin (rq_now rq) (us_id user) (ae_lockoutThreshold env) (ae_lockoutSeconds env) st of
                   ((_, Some lockedUntil), st') \<Rightarrow> (LockedOut lockedUntil, st')
                 | ((_, None), st') \<Rightarrow> (InvalidCredentials, st'))
              else
                let st1 = recordSuccessfulLogin (rq_now rq) (us_id user) (rq_ip rq) st;
                    st2 = (if needsRehash (ae_jsInt env) hash
                           then snd (updateUser (rq_now rq) (us_id user)
                             (Some (Some (ae_hashPassword env (rq_salt rq) password))) (\<lambda>u. u) st1) else st1)
                in (LocalOk user, st2))"

section \<open>Properties\<close>

lemma set_user_sel [simp]:
  "as_reveal (set_user i f st) = as_reveal st" "as_sessions (set_user i f st) = as_sessions st"
  "as_audit (set_user i f st) = as_audit st"
  "as_users (set_user i f st) = map (\<lambda>u. if us_id u = i then f u else u) (as_users st)"
  by (simp_all add: set_user_def)

lemma find_map: "(\<And>x. P (f x) = P x) \<Longrightarrow> find P (map f xs) = map_option f (find P xs)"
  by (induction xs) auto

lemma find_Some_in: "find P xs = Some x \<Longrightarrow> x \<in> set xs \<and> P x"
  by (auto simp: find_Some_iff in_set_conv_nth)

lemma find_eq_unique: "distinct (map g xs) \<Longrightarrow> x \<in> set xs \<Longrightarrow> find (\<lambda>y. g y = g x) xs = Some x"
  by (induction xs) (auto simp: image_iff)

lemma find_id_unique: "distinct (map us_id us) \<Longrightarrow> u \<in> set us \<Longrightarrow> find (\<lambda>v. us_id v = us_id u) us = Some u"
  by (rule find_eq_unique)

text \<open>A change of a row that keeps its id and its e-mail, as the database shows it afterwards.\<close>

lemma find_set_user:
  assumes "\<And>u. us_id (f u) = us_id u" "\<And>u. us_email (f u) = us_email u"
  shows "findUserById j (set_user i f st) = map_option (\<lambda>u. if us_id u = i then f u else u) (findUserById j st)"
    and "findUserByEmail e (set_user i f st) = map_option (\<lambda>u. if us_id u = i then f u else u) (findUserByEmail e st)"
  unfolding findUserById_def findUserByEmail_def set_user_sel by (rule find_map; simp add: assms)+

lemma find_row:
  assumes "distinct (map us_id (as_users st))" "findUserByEmail e st = Some u"
  shows "findUserById (us_id u) st = Some u"
  using find_Some_in [of _ "as_users st" u] assms find_id_unique unfolding findUserByEmail_def findUserById_def by blast

subsection \<open>Wrong passwords\<close>

text \<open>
  What a wrong password does to the two columns: whether it was compared at all, the count, and the lock.
\<close>

definition guess_step :: "nat \<Rightarrow> int \<Rightarrow> int \<Rightarrow> nat \<times> int option \<Rightarrow> bool \<times> nat \<times> int option" where
  "guess_step T L t g =
     (let (c, l) = g in
      if (case l of Some u \<Rightarrow> u > t | None \<Rightarrow> False) then (False, c, l)
      else (True, c + 1, if c + 1 \<ge> T then Some (t + L) else l))"

fun guess_run :: "nat \<Rightarrow> int \<Rightarrow> int list \<Rightarrow> nat \<times> int option \<Rightarrow> nat" where
  "guess_run T L [] g = 0"
| "guess_run T L (t # ts) g =
     (let (tested, g') = guess_step T L t g in (if tested then 1 else 0) + guess_run T L ts g')"

declare guess_run.simps(2) [simp del]

lemma guess_run_bound:
  assumes "0 < L" "sorted ts" "\<forall>t \<in> set ts. t0 \<le> t \<and> t \<le> t1" "T - 1 - c < guess_run T L ts (c, l)"
  shows "int (guess_run T L ts (c, l) - (T - 1 - c) - 1) * L \<le> t1 - t0
    \<and> (\<forall>u. l = Some u \<longrightarrow> int (guess_run T L ts (c, l) - (T - 1 - c) - 1) * L \<le> t1 - u)"
  using assms(2-)
proof (induction ts arbitrary: t0 c l)
  case Nil
  then show ?case by simp
next
  case (Cons t ts)
  have s: "sorted ts" "\<forall>t' \<in> set ts. t0 \<le> t' \<and> t' \<le> t1" "t0 \<le> t" "t \<le> t1" "\<forall>t' \<in> set ts. t \<le> t' \<and> t' \<le> t1"
    using Cons.prems(1,2) by auto
  show ?case
  proof (cases "case l of Some u \<Rightarrow> u > t | None \<Rightarrow> False")
    case True
    then have r: "guess_run T L (t # ts) (c, l) = guess_run T L ts (c, l)" by (simp add: guess_run.simps guess_step_def Let_def)
    show ?thesis unfolding r by (rule Cons.IH [OF s(1,2) Cons.prems(3) [unfolded r]])
  next
    case False
    then have lt: "l = Some u \<Longrightarrow> u \<le> t" for u by (auto split: option.splits)
    define l' where "l' = (if c + 1 \<ge> T then Some (t + L) else l)"
    have r: "guess_run T L (t # ts) (c, l) = 1 + guess_run T L ts (c + 1, l')"
      using False by (simp add: guess_run.simps guess_step_def Let_def l'_def)
    show ?thesis
    proof (cases "c + 1 \<ge> T")
      case False
      then have f: "T - 1 - c = Suc (T - 1 - (c + 1))" and l: "l' = l" by (auto simp: l'_def)
      from Cons.prems(3) have "T - 1 - (c + 1) < guess_run T L ts (c + 1, l)" unfolding r f l by simp
      from Cons.IH [OF s(1,2) this] show ?thesis unfolding r f l by simp
    next
      case True
      then have f: "T - 1 - c = 0" "T - 1 - (c + 1) = 0" and l: "l' = Some (t + L)" by (auto simp: l'_def)
      show ?thesis
      proof (cases "guess_run T L ts (c + 1, l') = 0")
        case True
        then show ?thesis using s(3,4) lt unfolding r f by fastforce
      next
        case False
        then obtain m where m: "guess_run T L ts (c + 1, Some (t + L)) = Suc m" unfolding l by (cases "guess_run T L ts (c + 1, Some (t + L))") simp_all
        then have "T - 1 - (c + 1) < guess_run T L ts (c + 1, Some (t + L))" unfolding f by simp
        from Cons.IH [OF s(1,5) this] have "int m * L \<le> t1 - (t + L)" unfolding f m by simp
        then have b: "int (guess_run T L ts (c + 1, l')) * L \<le> t1 - t" unfolding l m by (simp add: distrib_right)
        then have "int (guess_run T L ts (c + 1, l')) * L \<le> t1 - u" if "u \<le> t" for u using that by linarith
        then show ?thesis using s(3) lt unfolding r f by simp
      qed
    qed
  qed
qed

text \<open>The handler on one account, as that machine.\<close>

definition guess_tested :: "auth_request \<Rightarrow> string \<Rightarrow> auth_state \<Rightarrow> bool" where
  "guess_tested rq email st =
     (case findUserByEmail email st of
        Some u \<Rightarrow> \<not> isDisabled u \<and> \<not> isLockedOut u (rq_now rq) \<and> us_passwordHash u \<noteq> None \<and> us_passwordHash u \<noteq> Some []
      | None \<Rightarrow> False)"

fun tested_guesses :: "auth_env \<Rightarrow> string \<Rightarrow> (auth_request \<times> string) list \<Rightarrow> auth_state \<Rightarrow> nat" where
  "tested_guesses env email [] st = 0"
| "tested_guesses env email ((rq, pw) # attempts) st =
     (if guess_tested rq email st then 1 else 0)
     + tested_guesses env email attempts (snd (authenticateLocal env rq email pw st))"

definition columns :: "user_row \<Rightarrow> nat \<times> int option" where
  "columns u = (us_failedLoginCount u, us_lockedUntil u)"

lemma wrong_guess_step:
  assumes d: "distinct (map us_id (as_users st))" and u: "findUserByEmail email st = Some u"
    and h: "\<not> isDisabled u" "us_passwordHash u = Some h" "h \<noteq> []" "\<not> ae_verifyPassword env h pw"
    and st': "st' = snd (authenticateLocal env rq email pw st)"
  shows "map us_id (as_users st') = map us_id (as_users st) \<and>
    (\<exists>u'. findUserByEmail email st' = Some u' \<and> isDisabled u' = isDisabled u \<and> us_passwordHash u' = us_passwordHash u
      \<and> guess_step (ae_lockoutThreshold env) (ae_lockoutSeconds env * 1000) (rq_now rq) (columns u)
        = (guess_tested rq email st, columns u'))"
proof (cases "isLockedOut u (rq_now rq)")
  case True
  then have "st' = st" using st' u h by (simp add: authenticateLocal_def)
  with True u show ?thesis
    by (auto simp: guess_step_def columns_def guess_tested_def isLockedOut_def)
next
  case False
  define T L t where "T = ae_lockoutThreshold env" and "L = ae_lockoutSeconds env * 1000" and "t = rq_now rq"
  define n where "n = us_failedLoginCount u + 1"
  define f where "f = (\<lambda>v :: user_row. v\<lparr>us_failedLoginCount := us_failedLoginCount v + 1\<rparr>)"
  define g where "g = (\<lambda>v :: user_row. v\<lparr>us_lockedUntil := Some (t + L)\<rparr>)"
  define st1 where "st1 = set_user (us_id u) f st"
  have e1: "findUserByEmail email st1 = Some (f u)"
    unfolding st1_def by (subst find_set_user(2)) (simp_all add: f_def u)
  have i1: "findUserById (us_id u) st1 = Some (f u)"
    unfolding st1_def by (subst find_set_user(1)) (simp_all add: f_def find_row [OF d u])
  have r: "recordFailedLogin t (us_id u) T (ae_lockoutSeconds env) st =
      ((n, if n \<ge> T then Some (t + L) else None), if n \<ge> T then set_user (us_id u) g st1 else st1)"
    unfolding recordFailedLogin_def f_def [symmetric] st1_def [symmetric] Let_def i1
    by (simp add: f_def n_def computeLockoutUntil_def L_def g_def)
  have s: "st' = (if n \<ge> T then set_user (us_id u) g st1 else st1)"
    using r False u h unfolding st' T_def t_def by (simp add: authenticateLocal_def)
  have e2: "findUserByEmail email (set_user (us_id u) g st1) = Some (g (f u))"
    by (subst find_set_user(2)) (simp_all add: g_def e1 f_def)
  define u' where "u' = (if n \<ge> T then g (f u) else f u)"
  have "findUserByEmail email st' = Some u'" using e1 e2 unfolding s u'_def by simp
  moreover have "isDisabled u' = isDisabled u \<and> us_passwordHash u' = us_passwordHash u"
    by (simp add: u'_def g_def f_def isDisabled_def)
  moreover have "guess_tested rq email st" using False u h by (simp add: guess_tested_def)
  moreover have "guess_step T L t (columns u) = (True, columns u')"
    using False by (simp add: guess_step_def columns_def isLockedOut_def u'_def n_def f_def g_def t_def)
  moreover have "map us_id (as_users st') = map us_id (as_users st)"
    unfolding s st1_def by (simp add: f_def g_def comp_def)
  ultimately show ?thesis unfolding T_def L_def t_def by metis
qed

lemma tested_guesses_run:
  assumes "distinct (map us_id (as_users st))" "findUserByEmail email st = Some u" "\<not> isDisabled u"
    "us_passwordHash u = Some h" "h \<noteq> []" "\<forall>(rq, pw) \<in> set attempts. \<not> ae_verifyPassword env h pw"
  shows "tested_guesses env email attempts st =
    guess_run (ae_lockoutThreshold env) (ae_lockoutSeconds env * 1000) (map (\<lambda>(rq, pw). rq_now rq) attempts) (columns u)"
  using assms
proof (induction attempts arbitrary: st u)
  case Nil
  then show ?case by simp
next
  case (Cons a attempts)
  obtain rq pw where a: "a = (rq, pw)" by (cases a)
  define st' where "st' = snd (authenticateLocal env rq email pw st)"
  from Cons.prems(6) a have "\<not> ae_verifyPassword env h pw" by auto
  from wrong_guess_step [OF Cons.prems(1-5) this st'_def]
  obtain u' where u': "findUserByEmail email st' = Some u'" "isDisabled u' = isDisabled u" "us_passwordHash u' = us_passwordHash u"
    "guess_step (ae_lockoutThreshold env) (ae_lockoutSeconds env * 1000) (rq_now rq) (columns u)
      = (guess_tested rq email st, columns u')" "map us_id (as_users st') = map us_id (as_users st)" by blast
  have "tested_guesses env email attempts st' = guess_run (ae_lockoutThreshold env) (ae_lockoutSeconds env * 1000)
      (map (\<lambda>(rq, pw). rq_now rq) attempts) (columns u')"
    using Cons.IH [of st' u'] Cons.prems u' by simp
  then show ?case using u'(4) by (simp add: a st'_def guess_run.simps Let_def)
qed


definition demo_auth :: auth_env where
  "demo_auth = \<lparr>ae_verifyPassword = (=), ae_hashPassword = (\<lambda>salt p. p), ae_jsInt = (\<lambda>s. None),
     ae_encrypt = (\<lambda>iv p l. p), ae_decrypt = (\<lambda>l c. Some c), ae_utf8 = (\<lambda>s. s), ae_codec = demo_codec,
     ae_hmac = (\<lambda>k m. replicate 20 5), ae_verifyAssertion = (\<lambda>r ch c. Inr (cr_counter c + 1, True)), ae_iso = (\<lambda>t. []),
     ae_appOrigin = ''https://dns.example'', ae_appUrl = ''https://dns.example'', ae_urlWithParams = (\<lambda>u ps. None),
     ae_secretKey = ''key'', ae_sessionTtlSeconds = 3600, ae_localAuthEnabled = True, ae_signupEnabled = False,
     ae_webauthnEnabled = True, ae_turnstile = False, ae_allowPasswordReset = True, ae_lockoutThreshold = 2,
     ae_lockoutSeconds = 60, ae_bootstrapRo = False, ae_bootstrapEmail = None\<rparr>"

definition demo_account :: user_row where
  "demo_account = \<lparr>us_id = ''u1'', us_email = ''a@b'', us_name = None, us_passwordHash = Some ''pw'', us_passwordHashUpdatedAt = 0,
     us_totpSecretEncrypted = None, us_mfaRequired = None, us_webauthnCredentials = [], us_emailVerifiedAt = None,
     us_lockedUntil = None, us_failedLoginCount = 0, us_disabledAt = None, us_lastLoginAt = None, us_lastLoginIp = None,
     us_mustChangePassword = False\<rparr>"

definition demo_auth_state :: "user_row \<Rightarrow> auth_state" where
  "demo_auth_state u = \<lparr>as_users = [u], as_sessions = [], as_reveal = \<lparr>rv_local = [], rv_redis = []\<rparr>, as_audit = []\<rparr>"

definition demo_request :: "int \<Rightarrow> string \<Rightarrow> auth_request" where
  "demo_request now tok = \<lparr>rq_now = now, rq_method = ''POST'', rq_contentType = Some ''application/json'', rq_origin = None,
     rq_site = None, rq_cookie = None, rq_csrf = None, rq_ip = None, rq_userAgent = None, rq_limited = None, rq_captcha = None,
     rq_sessionId = ''s'' @ tok, rq_csrfSecret = ''c'' @ tok, rq_iv = ''iv'', rq_token = tok, rq_salt = ''salt'', rq_nonce = ''n'' @ tok,
     rq_redis = Answered, rq_redis2 = Answered\<rparr>"


subsection \<open>Cross-site requests\<close>

text \<open>
  C27. A request that changes something and rides on a live session passes only when its header repeats the secret
  of that very session, and all that passing does is to note that the session was seen.
\<close>

theorem requireCsrf_sound:
  assumes "inj (ae_utf8 env)" "js_upper (rq_method rq) \<notin> {''GET'', ''HEAD'', ''OPTIONS''}"
    and "rq_cookie rq = Some c" "c \<noteq> []" "ae_decrypt env ''session-cookie'' c = Some i"
    and "findValidSessionById (rq_now rq) i st = Some session"
  shows "(fst (requireCsrf env rq st) = Inr ()
      \<longleftrightarrow> rq_csrf rq = Some (se_csrfSecret session) \<and> se_csrfSecret session \<noteq> [])
    \<and> snd (requireCsrf env rq st) = touchSession (rq_now rq) i st"
proof -
  have id: "se_id session = i" using assms(6) find_Some_in by (fastforce simp: findValidSessionById_def)
  have r: "readSession env rq st = (Some session, touchSession (rq_now rq) i st)"
    using assms(3-6) by (simp add: readSession_def cookie_session_id_def id)
  have "requireCsrf env rq st =
      (if verifyCsrf (ae_utf8 env) (rq_csrf rq) (se_csrfSecret session) then Inr ()
       else Inl (AppThrown (ForbiddenError ''CSRF token invalid or missing.'')), touchSession (rq_now rq) i st)"
    using assms(2-4) by (simp add: requireCsrf_def r SAFE_METHODS_def)
  moreover have "verifyCsrf (ae_utf8 env) (rq_csrf rq) s \<longleftrightarrow> rq_csrf rq = Some s \<and> s \<noteq> []" for s
    using assms(1) by (auto simp: verifyCsrf_def Let_def inj_eq split: option.splits)
  ultimately show ?thesis by simp
qed

definition demo_session :: session_row where
  "demo_session = fst (startSession demo_auth (demo_request 0 ''1'') ''u1'' None [] None (demo_auth_state demo_account))"

theorem requireCsrf_sound_witness:
  "fst (requireCsrf demo_auth (demo_request 7 ''2''\<lparr>rq_cookie := Some ''s1'', rq_csrf := Some ''c1''\<rparr>)
      (createSession demo_session (demo_auth_state demo_account))) = Inr ()
   \<and> fst (requireCsrf demo_auth (demo_request 7 ''2''\<lparr>rq_cookie := Some ''s1''\<rparr>)
      (createSession demo_session (demo_auth_state demo_account))) \<noteq> Inr ()"
proof -
  let ?st = "createSession demo_session (demo_auth_state demo_account)"
  have f: "findValidSessionById 7 ''s1'' ?st = Some demo_session" and s: "se_csrfSecret demo_session = ''c1''"
    by (simp_all add: findValidSessionById_def createSession_def demo_session_def startSession_def cookie_session_id_def
        demo_request_def demo_auth_def demo_auth_state_def Let_def)
  have i: "inj (ae_utf8 demo_auth)" by (simp add: demo_auth_def)
  have d: "ae_decrypt demo_auth ''session-cookie'' ''s1'' = Some ''s1''" by (simp add: demo_auth_def)
  have m: "js_upper ''POST'' \<notin> {''GET'', ''HEAD'', ''OPTIONS''}" by code_simp
  show ?thesis
    using requireCsrf_sound [OF i _ _ _ d, of "demo_request 7 ''2''\<lparr>rq_cookie := Some ''s1'', rq_csrf := Some ''c1''\<rparr>" ?st demo_session]
      requireCsrf_sound [OF i _ _ _ d, of "demo_request 7 ''2''\<lparr>rq_cookie := Some ''s1''\<rparr>" ?st demo_session] f s m
    by (simp add: demo_request_def)
qed

end
