(* ===== verification/SignIn.thy ===== *)
theory SignIn
  imports AuthState
begin

section \<open>The sign-in endpoints\<close>

text \<open>
  The handlers under \<open>app/api/auth\<close> that need no session: \<open>login\<close>, \<open>mfa/totp\<close>, \<open>webauthn/assertion-options\<close>
  and \<open>assertion-verify\<close>, \<open>forgot-password\<close>, \<open>reset-password\<close>, \<open>email/verify\<close>, and \<open>logout\<close>.  Each takes the
  request and the state to a response, the cookies it sets and the state after it.  The request has the
  verdicts of the rate limiter and of the captcha service; the body comes as zod left it.
\<close>

datatype 'a body = Parsed 'a | Malformed "(string \<times> json) list" | NotJson string

definition field_errors :: "(string \<times> json) list \<Rightarrow> (string \<times> json) list" where
  "field_errors fs = [(''fieldErrors'', JObj fs)]"

datatype captcha_verdict = CaptchaPassed | CaptchaMissing | CaptchaFailed "string list"

definition captcha_gate :: "auth_env \<Rightarrow> auth_request \<Rightarrow> string option \<Rightarrow> captcha_verdict" where
  "captcha_gate env rq tok =
     (if \<not> ae_turnstile env then CaptchaPassed
      else if tok = None \<or> tok = Some [] then CaptchaMissing
      else case rq_captcha rq of None \<Rightarrow> CaptchaPassed | Some reasons \<Rightarrow> CaptchaFailed reasons)"

definition jsonError :: "nat \<Rightarrow> string \<Rightarrow> (string \<times> json) list \<Rightarrow> response" where
  "jsonError st message extra = \<lparr>r_status = st, r_body = JObj ((''error'', JStr message) # extra), r_retryAfter = None\<rparr>"

definition json_ok :: "(string \<times> json) list \<Rightarrow> response" where
  "json_ok fs = \<lparr>r_status = 200, r_body = JObj fs, r_retryAfter = None\<rparr>"

definition cross_site :: "auth_env \<Rightarrow> auth_request \<Rightarrow> response option" where
  "cross_site env rq =
     map_option (\<lambda>(st, message). jsonError st message [])
       (rejectCrossSiteJson (ae_appOrigin env) (rq_contentType rq) (rq_origin rq) (rq_site rq))"

definition rate_limited :: "string \<Rightarrow> int \<Rightarrow> response" where
  "rate_limited message seconds = jsonError 429 message [(''retryAfterSeconds'', JNum seconds)]"

definition user_json :: "user_row \<Rightarrow> json" where
  "user_json user = JObj [(''user'', JObj [(''id'', JStr (us_id user)), (''email'', JStr (us_email user)),
     (''name'', case us_name user of Some n \<Rightarrow> JStr n | None \<Rightarrow> JNull),
     (''mustChangePassword'', JBool (us_mustChangePassword user))])]"

definition signed_in :: "user_row \<Rightarrow> response" where
  "signed_in user = \<lparr>r_status = 200, r_body = user_json user, r_retryAfter = None\<rparr>"

definition reason :: "string \<Rightarrow> (string \<times> json) list" where
  "reason r = [(''reason'', JStr r)]"

definition captcha_failed :: "string list \<Rightarrow> (string \<times> json) list" where
  "captcha_failed reasons = reason ''captcha-failed'' @ [(''providerReasons'', JArr (map JStr reasons))]"

type_synonym outcome = "response \<times> cookie_change list \<times> auth_state"

text \<open>A handler that catches everything and answers with \<open>errorResponse\<close>.\<close>

definition caught :: "(thrown + response \<times> cookie_change list) \<times> auth_state \<Rightarrow> outcome" where
  "caught r = (case fst r of Inl e \<Rightarrow> (errorResponse e, [], snd r) | Inr (resp, cs) \<Rightarrow> (resp, cs, snd r))"

definition startLocalSession :: "auth_env \<Rightarrow> auth_request \<Rightarrow> string \<Rightarrow> auth_state \<Rightarrow> cookie_change list \<times> auth_state" where
  "startLocalSession env rq userId st = snd (startSession env rq userId None [] None st)"

subsection \<open>login\<close>

record login_body =
  lb_email :: string
  lb_password :: string
  lb_captchaToken :: "string option"

definition MFA_ACTOR :: string where "MFA_ACTOR = ''_mfa-pending''"
definition PASSKEY_ACTOR :: string where "PASSKEY_ACTOR = ''_webauthn-login-pending''"

definition mfa_methods :: "user_row \<Rightarrow> string list" where
  "mfa_methods user =
     (if us_totpSecretEncrypted user \<noteq> None then [''totp''] else [])
     @ (if length (us_webauthnCredentials user) > 0 then [''webauthn''] else [])"

definition challenge_reply :: "string \<Rightarrow> string list \<Rightarrow> response" where
  "challenge_reply tok methods = json_ok [(''mfaRequired'', JBool True), (''challengeToken'', JStr tok),
     (''expiresInSec'', JNum 300), (''methods'', JArr (map JStr methods))]"

definition login_failure :: "login_body \<Rightarrow> (string \<times> json) list \<Rightarrow> auth_state \<Rightarrow> auth_state" where
  "login_failure b = appendAudit None ''auth.login.failure'' (''auth'', Some (js_lower (lb_email b)))"

text \<open>After the credentials verified: the e-mail gate, the second factor, the session.\<close>

definition login_accepted :: "auth_env \<Rightarrow> auth_request \<Rightarrow> user_row \<Rightarrow> auth_state \<Rightarrow> outcome" where
  "login_accepted env rq user st =
     (let me = (''user'', Some (us_id user)) in
      if ae_signupEnabled env \<and> us_passwordHash user \<noteq> None \<and> us_emailVerifiedAt user = None then
        (jsonError 403 ''Verify your email address before signing in.'' (reason ''email-unverified''), [],
         appendAudit (Some (us_id user)) ''auth.login.failure'' me (reason ''email-unverified'') st)
      else if us_totpSecretEncrypted user \<noteq> None \<or> length (us_webauthnCredentials user) > 0 then
        (challenge_reply (rq_token rq) (mfa_methods user), [],
         appendAudit (Some (us_id user)) ''auth.login.success'' me
           [(''mfaRequired'', JBool True), (''methods'', JArr (map JStr (mfa_methods user)))]
           (st\<lparr>as_reveal := mint (rq_redis rq) (rq_now rq) (rq_token rq) (us_id user) MFA_ACTOR (Some (5 * 60)) (as_reveal st)\<rparr>))
      else
        (let (cs, st') = startLocalSession env rq (us_id user) st
         in (signed_in user, cs, appendAudit (Some (us_id user)) ''auth.login.success'' me [] st')))"

definition login_reason :: "local_outcome \<Rightarrow> string" where
  "login_reason oc = (case oc of LocalOk u \<Rightarrow> ''ok'' | InvalidCredentials \<Rightarrow> ''invalid-credentials''
     | LockedOut t \<Rightarrow> ''locked-out'' | DisabledAccount \<Rightarrow> ''disabled'')"

definition login_attempt :: "auth_env \<Rightarrow> auth_request \<Rightarrow> login_body \<Rightarrow> auth_state \<Rightarrow> outcome" where
  "login_attempt env rq b st =
     (case rq_limited rq of
        Some seconds \<Rightarrow> (rate_limited ''Too many login attempts.'' seconds, [], st)
      | None \<Rightarrow>
          (let (result, st1) = authenticateLocal env rq (lb_email b) (lb_password b) st in
           case result of
             LocalOk user \<Rightarrow> login_accepted env rq user st1
           | LockedOut unlockAt \<Rightarrow>
               (jsonError 429 ''Account temporarily locked.'' [(''unlockAt'', JStr (ae_iso env unlockAt))], [],
                login_failure b (reason (login_reason result)) st1)
           | _ \<Rightarrow> (jsonError 401 ''Invalid email or password.'' [], [], login_failure b (reason (login_reason result)) st1)))"

definition login_route :: "auth_env \<Rightarrow> auth_request \<Rightarrow> login_body body \<Rightarrow> auth_state \<Rightarrow> outcome" where
  "login_route env rq body st =
     (case cross_site env rq of
        Some r \<Rightarrow> (r, [], st)
      | None \<Rightarrow>
          if \<not> ae_localAuthEnabled env then (jsonError 404 ''Local authentication is disabled.'' [], [], st)
          else case body of
            Parsed b \<Rightarrow>
              (case captcha_gate env rq (lb_captchaToken b) of
                 CaptchaMissing \<Rightarrow>
                   (jsonError 400 ''Captcha required.'' (reason ''captcha-required''), [],
                    login_failure b (reason ''captcha-missing'') st)
               | CaptchaFailed reasons \<Rightarrow>
                   (jsonError 400 ''Captcha verification failed.'' (reason ''captcha-failed''), [],
                    login_failure b (captcha_failed reasons) st)
               | CaptchaPassed \<Rightarrow> login_attempt env rq b st)
          | _ \<Rightarrow> (jsonError 400 ''Invalid request body.'' [], [], st))"

subsection \<open>mfa/totp\<close>

record totp_body =
  tb_challengeToken :: string
  tb_code :: string

text \<open>What nothing catches becomes the framework's own answer.\<close>

definition uncaught :: response where
  "uncaught = \<lparr>r_status = 500, r_body = JNull, r_retryAfter = None\<rparr>"

definition redeem_from :: "redis_reply \<Rightarrow> int \<Rightarrow> string \<Rightarrow> string \<Rightarrow> auth_state \<Rightarrow> string option \<times> auth_state" where
  "redeem_from reply now tok actor st =
     (let (r, rv) = redeem reply now tok actor (as_reveal st) in (r, st\<lparr>as_reveal := rv\<rparr>))"

definition totp_finish :: "auth_env \<Rightarrow> auth_request \<Rightarrow> string \<Rightarrow> user_row \<Rightarrow> string \<Rightarrow> auth_state \<Rightarrow> outcome" where
  "totp_finish env rq tcode user sealed st =
     (let me = (''user'', Some (us_id user)) in
      case ae_decrypt env ''totp-secret'' sealed of
        None \<Rightarrow> (uncaught, [], st)
      | Some secret \<Rightarrow>
          (case verifyTotp (ae_hmac env) totp_defaults (rq_now rq) secret tcode of
             None \<Rightarrow> (uncaught, [], st)
           | Some False \<Rightarrow>
               (jsonError 401 ''Code didn't verify. Sign in again.'' [], [],
                appendAudit (Some (us_id user)) ''auth.login.failure'' me (reason ''mfa-code-wrong'') st)
           | Some True \<Rightarrow>
               (let (cs, st') = startLocalSession env rq (us_id user) st
                in (signed_in user, cs,
                    appendAudit (Some (us_id user)) ''auth.login.success'' me [(''mfaCompleted'', JBool True)] st'))))"

definition totp_route :: "auth_env \<Rightarrow> auth_request \<Rightarrow> totp_body body \<Rightarrow> auth_state \<Rightarrow> outcome" where
  "totp_route env rq body st =
     (case cross_site env rq of
        Some r \<Rightarrow> (r, [], st)
      | None \<Rightarrow>
      (case rq_limited rq of
        Some seconds \<Rightarrow> (rate_limited ''Too many MFA attempts.'' seconds, [], st)
      | None \<Rightarrow>
      (case body of
        Parsed b \<Rightarrow>
          (let (revealed, st1) = redeem_from (rq_redis rq) (rq_now rq) (tb_challengeToken b) MFA_ACTOR st;
               invalid = jsonError 400 ''Invalid or expired MFA challenge.'' []
           in case revealed of
                None \<Rightarrow> (invalid, [], appendAudit None ''auth.login.failure'' (''auth'', Some ''_mfa'') (reason ''mfa-token-invalid'') st1)
              | Some userId \<Rightarrow>
                  (let gone = (invalid, [], appendAudit (Some userId) ''auth.login.failure'' (''auth'', Some ''_mfa'')
                                (reason ''user-state-changed-mid-flow'') st1)
                   in case findUserById userId st1 of
                        None \<Rightarrow> gone
                      | Some user \<Rightarrow>
                          if isDisabled user then gone
                          else case us_totpSecretEncrypted user of
                            None \<Rightarrow> gone
                          | Some sealed \<Rightarrow> if sealed = [] then gone else totp_finish env rq (tb_code b) user sealed st1))
      | _ \<Rightarrow> (jsonError 400 ''Invalid request body.'' [], [], st))))"

subsection \<open>webauthn\<close>

text \<open>
  \<open>allowCredentials\<close> and the challenge go into the options, which the library makes; the challenge is drawn
  there, here from the request.
\<close>

definition allow_credentials :: "string option \<Rightarrow> auth_state \<Rightarrow> string list option" where
  "allow_credentials email st =
     (case email of
        None \<Rightarrow> None
      | Some e \<Rightarrow>
          if e = [] then None
          else case findUserByEmail e st of
            Some user \<Rightarrow> Some (map cr_id (listCredentials (us_id user) st))
          | None \<Rightarrow> Some [])"

definition options_reply :: "string list option \<Rightarrow> string \<Rightarrow> string \<Rightarrow> response" where
  "options_reply allow challenge tok = json_ok [(''ok'', JBool True),
     (''options'', JObj ((''challenge'', JStr challenge)
        # (case allow of Some ids \<Rightarrow> [(''allowCredentials'', JArr (map JStr ids))] | None \<Rightarrow> []))),
     (''challengeToken'', JStr tok), (''expiresInSec'', JNum 300)]"

definition assertion_options_route :: "auth_env \<Rightarrow> auth_request \<Rightarrow> string option body \<Rightarrow> auth_state \<Rightarrow> outcome" where
  "assertion_options_route env rq body st = caught
     (if \<not> ae_webauthnEnabled env
      then (Inl (AppThrown (ForbiddenError ''WebAuthn is disabled by configuration.'')), st)
      else case cross_site env rq of
        Some r \<Rightarrow> (Inr (r, []), st)
      | None \<Rightarrow>
      (case rq_limited rq of
        Some seconds \<Rightarrow> (Inr (rate_limited ''Too many sign-in attempts.'' seconds, []), st)
      | None \<Rightarrow>
      (case body of
        Malformed d \<Rightarrow> (Inl (AppThrown (ValidationError ''Invalid input.'' (Some (field_errors d)))), st)
      | NotJson m \<Rightarrow>
          (Inr (options_reply None (rq_nonce rq) (rq_token rq), []),
           st\<lparr>as_reveal := mint (rq_redis rq) (rq_now rq) (rq_token rq) (rq_nonce rq) PASSKEY_ACTOR (Some (5 * 60)) (as_reveal st)\<rparr>)
      | Parsed email \<Rightarrow>
          (Inr (options_reply (allow_credentials email st) (rq_nonce rq) (rq_token rq), []),
           st\<lparr>as_reveal := mint (rq_redis rq) (rq_now rq) (rq_token rq) (rq_nonce rq) PASSKEY_ACTOR (Some (5 * 60)) (as_reveal st)\<rparr>))))"

record assertion_body =
  ab_challengeToken :: string
  ab_secondFactor :: bool
  ab_mfaToken :: string
  ab_response :: json

definition assertion_mode :: "assertion_body \<Rightarrow> string" where
  "assertion_mode b = (if ab_secondFactor b then ''second-factor'' else ''primary'')"

definition passkey_failure :: "user_row \<Rightarrow> assertion_body \<Rightarrow> string \<Rightarrow> auth_state \<Rightarrow> auth_state" where
  "passkey_failure user b why =
     appendAudit (Some (us_id user)) ''auth.login.failure'' (''user'', Some (us_id user))
       (reason why @ [(''mode'', JStr (assertion_mode b))])"

text \<open>The user is known: the credential, the assertion, the rule for passwordless sign-in, the session.\<close>

definition assertion_finish ::
  "auth_env \<Rightarrow> auth_request \<Rightarrow> assertion_body \<Rightarrow> string \<Rightarrow> string \<Rightarrow> auth_state \<Rightarrow>
    (thrown + response \<times> cookie_change list) \<times> auth_state" where
  "assertion_finish env rq b expectedChallenge userId st =
     (case findUserById userId st of
        None \<Rightarrow> (Inl (AppThrown (ForbiddenError ''Account unavailable.'')), st)
      | Some user \<Rightarrow>
          if isDisabled user then (Inl (AppThrown (ForbiddenError ''Account unavailable.'')), st)
          else case json_string (ab_response b) ''id'' of
            None \<Rightarrow> (Inl (AppThrown (ValidationError ''Assertion missing credential id.'' None)), st)
          | Some credentialId \<Rightarrow>
          (case find (\<lambda>c. cr_id c = credentialId) (us_webauthnCredentials user) of
            None \<Rightarrow> (Inl (AppThrown (NotFoundError ''Credential not registered to this account.'')), st)
          | Some cred \<Rightarrow>
          (case ae_verifyAssertion env (ab_response b) expectedChallenge cred of
            Inl why \<Rightarrow>
              (Inl (AppThrown (ValidationError ''Sign-in failed.'' None)), passkey_failure user b (''webauthn-'' @ why) st)
          | Inr (newCounter, userVerified) \<Rightarrow>
              if \<not> ab_secondFactor b \<and> \<not> userVerified then
                (Inl (AppThrown (ForbiddenError
                   ''Passkey sign-in requires user verification (PIN or biometric) on the authenticator.'')),
                 passkey_failure user b ''webauthn-user-verification-required'' st)
              else
                (let (cs, st') = startLocalSession env rq (us_id user)
                       (touchCredential (rq_now rq) (us_id user) (cr_id cred) newCounter st)
                 in (Inr (signed_in user, cs),
                     appendAudit (Some (us_id user)) ''auth.login.success'' (''user'', Some (us_id user))
                       [(''method'', JStr (''webauthn-'' @ assertion_mode b)), (''credentialId'', JStr (cr_id cred))] st')))))"

definition assertion_redeemed ::
  "auth_env \<Rightarrow> auth_request \<Rightarrow> assertion_body \<Rightarrow> string \<Rightarrow> auth_state \<Rightarrow>
    (thrown + response \<times> cookie_change list) \<times> auth_state" where
  "assertion_redeemed env rq b expectedChallenge st =
     (if \<not> ab_secondFactor b then
        (case json_string (ab_response b) ''id'' of
           None \<Rightarrow> (Inl (AppThrown (ValidationError ''Assertion missing credential id.'' None)), st)
         | Some credentialId \<Rightarrow>
             if credentialId = [] then (Inl (AppThrown (ValidationError ''Assertion missing credential id.'' None)), st)
             else case findUserByCredentialId credentialId st of
               None \<Rightarrow> (Inl (AppThrown (NotFoundError ''Sign-in failed.'')),
                   appendAudit None ''auth.login.failure'' (''auth'', Some credentialId) (reason ''webauthn-credential-unknown'') st)
             | Some (user, cred) \<Rightarrow> assertion_finish env rq b expectedChallenge (us_id user) st)
      else
        (let (redeemed, st1) = redeem_from (rq_redis2 rq) (rq_now rq) (ab_mfaToken b) MFA_ACTOR st in
         case redeemed of
           None \<Rightarrow> (Inl (AppThrown (NotFoundError ''MFA challenge expired or already used.'')), st1)
         | Some userId \<Rightarrow> assertion_finish env rq b expectedChallenge userId st1))"

definition assertion_verify_route :: "auth_env \<Rightarrow> auth_request \<Rightarrow> assertion_body body \<Rightarrow> auth_state \<Rightarrow> outcome" where
  "assertion_verify_route env rq body st = caught
     (if \<not> ae_webauthnEnabled env
      then (Inl (AppThrown (ForbiddenError ''WebAuthn is disabled by configuration.'')), st)
      else case requireCsrf env rq st of
        (Inl e, st1) \<Rightarrow> (Inl e, st1)
      | (Inr _, st1) \<Rightarrow>
      (case body of
        Malformed d \<Rightarrow> (Inl (AppThrown (ValidationError ''Invalid input.'' (Some (field_errors d)))), st1)
      | NotJson m \<Rightarrow> (Inl (ErrorThrown m), st1)
      | Parsed b \<Rightarrow>
      (case cross_site env rq of
        Some r \<Rightarrow> (Inr (r, []), st1)
      | None \<Rightarrow>
      (case rq_limited rq of
        Some seconds \<Rightarrow> (Inr (rate_limited ''Too many sign-in attempts.'' seconds, []), st1)
      | None \<Rightarrow>
      (case redeem_from (rq_redis rq) (rq_now rq) (ab_challengeToken b) PASSKEY_ACTOR st1 of
        (None, st2) \<Rightarrow> (Inl (AppThrown (NotFoundError ''Sign-in challenge expired or already used.'')), st2)
      | (Some expectedChallenge, st2) \<Rightarrow> assertion_redeemed env rq b expectedChallenge st2)))))"

subsection \<open>forgot-password and reset-password\<close>

record forgot_body =
  fb_email :: string
  fb_captchaToken :: "string option"

datatype mail_result = MailSkipped | MailSent | MailFailed

definition GENERIC_OK :: response where
  "GENERIC_OK = json_ok [(''ok'', JBool True), (''message'', JStr
     ''If an account exists for that email, a password-reset link has been recorded in the audit log. Ask your administrator to share it with you.'')]"

text \<open>The second part is the mail: to whom, and the token its link carries.\<close>

definition forgot_route ::
  "auth_env \<Rightarrow> auth_request \<Rightarrow> mail_result \<Rightarrow> forgot_body body \<Rightarrow> auth_state \<Rightarrow>
    response \<times> (string \<times> string) option \<times> auth_state" where
  "forgot_route env rq mail body st =
     (case rq_limited rq of
        Some seconds \<Rightarrow> (rate_limited ''Too many requests.'' seconds, None, st)
      | None \<Rightarrow>
      if \<not> ae_allowPasswordReset env then (GENERIC_OK, None, st)
      else case body of
        Parsed b \<Rightarrow>
          (let invalid = appendAudit None ''auth.password.reset.invalid'' (''auth'', Some (js_lower (fb_email b))) in
           case captcha_gate env rq (fb_captchaToken b) of
             CaptchaMissing \<Rightarrow> (GENERIC_OK, None, invalid (reason ''captcha-missing'') st)
           | CaptchaFailed reasons \<Rightarrow> (GENERIC_OK, None, invalid (captcha_failed reasons) st)
           | CaptchaPassed \<Rightarrow>
               (case findUserByEmail (fb_email b) st of
                  None \<Rightarrow> (GENERIC_OK, None, st)
                | Some user \<Rightarrow>
                    if isDisabled user \<or> us_passwordHash user = None \<or> us_passwordHash user = Some [] then (GENERIC_OK, None, st)
                    else
                      (let tok = fst (mintResetToken (ae_codec env) (ae_secretKey env) (rq_nonce rq) (us_id user) None (rq_now rq))
                       in (GENERIC_OK, Some (us_email user, tok),
                           appendAudit None ''auth.password.reset.requested'' (''user'', Some (us_id user))
                             [(''email'', JStr (us_email user)), (''delivered'', JBool (mail = MailSent)),
                              (''smtpConfigured'', JBool (mail \<noteq> MailSkipped))] st))))
      | _ \<Rightarrow> (GENERIC_OK, None, st))"

definition failure_text :: "token_failure \<Rightarrow> string" where
  "failure_text f = (case f of ShapeFailure \<Rightarrow> ''shape'' | SignatureFailure \<Rightarrow> ''signature'' | ExpiredFailure \<Rightarrow> ''expired''
     | JsonFailure \<Rightarrow> ''json'')"

record reset_body =
  rb_token :: string
  rb_password :: string

text \<open>The update of the transaction.\<close>

definition reset_row :: "int \<Rightarrow> string \<Rightarrow> user_row \<Rightarrow> user_row" where
  "reset_row now newHash u = u\<lparr>us_passwordHash := Some newHash, us_passwordHashUpdatedAt := now, us_mustChangePassword := False,
     us_failedLoginCount := 0, us_lockedUntil := None\<rparr>"

text \<open>
  The handler checks the link and the account, then hashes the new password, and then writes without looking at the
  account again: two steps, between which anything may happen.
\<close>

definition reset_check :: "auth_env \<Rightarrow> auth_request \<Rightarrow> reset_body \<Rightarrow> auth_state \<Rightarrow> response \<times> auth_state + user_row" where
  "reset_check env rq b st =
     (let reject = jsonError 400 ''Invalid or expired reset link.'' [];
          invalid = (\<lambda>i why. Inl (reject, appendAudit None ''auth.password.reset.invalid'' (''user'', i) (reason why) st))
      in case verifyResetToken (ae_codec env) (ae_secretKey env) (rb_token b) (rq_now rq) of
           Inl f \<Rightarrow> invalid None (failure_text f)
         | Inr payload \<Rightarrow>
             (case findUserById (rt_userId payload) st of
                None \<Rightarrow> invalid (Some (rt_userId payload)) ''user-missing-or-disabled''
              | Some user \<Rightarrow>
                  if isDisabled user then invalid (Some (rt_userId payload)) ''user-missing-or-disabled''
                  else if us_passwordHashUpdatedAt user > rt_issuedAt payload
                  then invalid (Some (us_id user)) ''single-use-already-spent''
                  else Inr user))"

definition reset_commit :: "auth_env \<Rightarrow> int \<Rightarrow> auth_request \<Rightarrow> reset_body \<Rightarrow> user_row \<Rightarrow> auth_state \<Rightarrow> response \<times> auth_state" where
  "reset_commit env now rq b user st =
     (let newHash = ae_hashPassword env (rq_salt rq) (rb_password b) in
      (json_ok [(''ok'', JBool True), (''message'', JStr ''Password updated. Sign in with the new password.'')],
       appendAudit (Some (us_id user)) ''auth.password.reset.completed'' (''user'', Some (us_id user))
         [(''sessionsRevoked'', JBool True)]
         (snd (revokeSessionsForUser (us_id user) (set_user (us_id user) (reset_row now newHash) st)))))"

text \<open>A request during which nothing else happens.\<close>

definition reset_redeem :: "auth_env \<Rightarrow> auth_request \<Rightarrow> reset_body \<Rightarrow> auth_state \<Rightarrow> response \<times> auth_state" where
  "reset_redeem env rq b st =
     (case reset_check env rq b st of
        Inl refused \<Rightarrow> refused
      | Inr user \<Rightarrow> reset_commit env (rq_now rq) rq b user st)"

definition reset_route :: "auth_env \<Rightarrow> auth_request \<Rightarrow> reset_body body \<Rightarrow> auth_state \<Rightarrow> response \<times> auth_state" where
  "reset_route env rq body st =
     (case rq_limited rq of
        Some seconds \<Rightarrow> (rate_limited ''Too many requests.'' seconds, st)
      | None \<Rightarrow>
      (case requireCsrf env rq st of
        (Inl e, st1) \<Rightarrow> (jsonError 400 ''Invalid or expired reset link.'' [], st1)
      | (Inr _, st1) \<Rightarrow>
      (case body of
        Malformed d \<Rightarrow> (jsonError 400 ''Invalid input.'' (field_errors d), st1)
      | NotJson m \<Rightarrow> (jsonError 400 ''Invalid or expired reset link.'' [], st1)
      | Parsed b \<Rightarrow> reset_redeem env rq b st1)))"

subsection \<open>email/verify\<close>

definition verify_redeem :: "auth_env \<Rightarrow> auth_request \<Rightarrow> string \<Rightarrow> auth_state \<Rightarrow> response \<times> auth_state" where
  "verify_redeem env rq tok st =
     (let reject = jsonError 400 ''Invalid or expired verification link.'' [];
          invalid = (\<lambda>actor i why. (reject, appendAudit actor ''auth.email.verify.invalid'' (''user'', i) (reason why) st))
      in case verifyVerifyToken (ae_codec env) (ae_secretKey env) tok (rq_now rq) of
           Inl f \<Rightarrow> invalid None None (failure_text f)
         | Inr payload \<Rightarrow>
             (case findUserById (vt_userId payload) st of
                None \<Rightarrow> invalid None (Some (vt_userId payload)) ''user-missing-or-disabled''
              | Some user \<Rightarrow>
                  if isDisabled user then invalid None (Some (vt_userId payload)) ''user-missing-or-disabled''
                  else if vt_email payload \<noteq> us_email user then invalid (Some (us_id user)) (Some (us_id user)) ''email-mismatch''
                  else if (case us_emailVerifiedAt user of Some t \<Rightarrow> t > vt_issuedAt payload | None \<Rightarrow> False)
                  then invalid (Some (us_id user)) (Some (us_id user)) ''single-use-already-spent''
                  else
                    (json_ok [(''ok'', JBool True), (''message'', JStr ''Email verified.'')],
                     appendAudit (Some (us_id user)) ''auth.email.verify.completed'' (''user'', Some (us_id user))
                       [(''email'', JStr (us_email user))]
                       (set_user (us_id user) (\<lambda>u. u\<lparr>us_emailVerifiedAt := Some (rq_now rq)\<rparr>) st))))"

definition verify_route :: "auth_env \<Rightarrow> auth_request \<Rightarrow> string body \<Rightarrow> auth_state \<Rightarrow> response \<times> auth_state" where
  "verify_route env rq body st =
     (case rq_limited rq of
        Some seconds \<Rightarrow> (rate_limited ''Too many requests.'' seconds, st)
      | None \<Rightarrow>
      (case requireCsrf env rq st of
        (Inl e, st1) \<Rightarrow> (jsonError 400 ''Invalid or expired verification link.'' [], st1)
      | (Inr _, st1) \<Rightarrow>
      (case body of
        Malformed d \<Rightarrow> (jsonError 400 ''Invalid input.'' (field_errors d), st1)
      | NotJson m \<Rightarrow> (jsonError 400 ''Invalid or expired verification link.'' [], st1)
      | Parsed tok \<Rightarrow> verify_redeem env rq tok st1)))"

subsection \<open>logout\<close>

text \<open>\<open>new URL\<close> and \<open>searchParams.set\<close> are the parameter \<open>ae_urlWithParams\<close>, \<open>None\<close> when the text is no URL.\<close>

definition buildRpLogoutUrl :: "auth_env \<Rightarrow> string \<Rightarrow> string \<Rightarrow> string option \<Rightarrow> string" where
  "buildRpLogoutUrl env endSessionUrl idToken clientId =
     (case ae_urlWithParams env endSessionUrl ((''id_token_hint'', idToken)
             # (case clientId of Some c \<Rightarrow> if c = [] then [] else [(''client_id'', c)] | None \<Rightarrow> [])) of
        None \<Rightarrow> endSessionUrl
      | Some url \<Rightarrow> url)"

definition logout_target :: "auth_env \<Rightarrow> session_row option \<Rightarrow> string option" where
  "logout_target env session =
     (case session of
        None \<Rightarrow> None
      | Some s \<Rightarrow>
          (case (se_oidcEndSessionUrl s, se_oidcIdToken s) of
             (Some url, Some idToken) \<Rightarrow>
               if url = [] \<or> idToken = [] then None else Some (buildRpLogoutUrl env url idToken (se_oidcClientId s))
           | _ \<Rightarrow> None))"

definition logout_route :: "auth_env \<Rightarrow> auth_request \<Rightarrow> auth_state \<Rightarrow> outcome" where
  "logout_route env rq st =
     (case requireCsrf env rq st of
        (Inl e, st1) \<Rightarrow>
          (case e of
             AppThrown (ForbiddenError m) \<Rightarrow> (jsonError 403 m [], [], st1)
           | _ \<Rightarrow> (uncaught, [], st1))
      | (Inr _, st1) \<Rightarrow>
          (let (session, st2) = readSession env rq st1;
               oidcLogoutUrl = logout_target env session;
               (cs, st3) = endSession env rq st2
           in (json_ok [(''ok'', JBool True), (''location'', JStr (case oidcLogoutUrl of Some url \<Rightarrow> url
                 | None \<Rightarrow> ae_appUrl env @ ''/login?signed-out=1''))],
               cs @ [SetCookie ''pda_just_logged_out'' ''1'' (rq_now rq + 60 * 1000)],
               appendAudit (map_option se_userId session) ''auth.logout'' (''session'', map_option se_id session)
                 [(''rpInitiated'', JBool (oidcLogoutUrl \<noteq> None))] st3)))"

end
