(* ===== verification/SignInRun.thy ===== *)
theory SignInRun
  imports SignIn
begin

section \<open>Runs of the sign-in endpoints\<close>

text \<open>
  Requests to the sign-in endpoints in any order, with anything else happening to the tables in between, as
  traces; and what must have come before a session is started.
\<close>

subsection \<open>What each handler does to the pending secrets, and when it starts a session\<close>

definition password_verified :: "auth_env \<Rightarrow> auth_request \<Rightarrow> login_body \<Rightarrow> auth_state \<Rightarrow> user_row \<Rightarrow> bool" where
  "password_verified env rq b st u \<longleftrightarrow>
     findUserByEmail (lb_email b) st = Some u \<and> \<not> isDisabled u \<and> \<not> isLockedOut u (rq_now rq)
     \<and> (\<exists>h. us_passwordHash u = Some h \<and> h \<noteq> [] \<and> ae_verifyPassword env h (lb_password b))"

definition code_verified :: "auth_env \<Rightarrow> auth_request \<Rightarrow> totp_body \<Rightarrow> auth_state \<Rightarrow> user_row \<Rightarrow> bool" where
  "code_verified env rq b st u \<longleftrightarrow>
     findUserById (us_id u) st = Some u \<and> \<not> isDisabled u
     \<and> (\<exists>sealed secret. us_totpSecretEncrypted u = Some sealed \<and> ae_decrypt env ''totp-secret'' sealed = Some secret
          \<and> verifyTotp (ae_hmac env) totp_defaults (rq_now rq) secret (tb_code b) = Some True)"

definition assertion_verified :: "auth_env \<Rightarrow> assertion_body \<Rightarrow> string \<Rightarrow> auth_state \<Rightarrow> user_row \<Rightarrow> bool" where
  "assertion_verified env b challenge st u \<longleftrightarrow>
     findUserById (us_id u) st = Some u \<and> \<not> isDisabled u
     \<and> (\<exists>c n uv. c \<in> set (us_webauthnCredentials u) \<and> json_string (ab_response b) ''id'' = Some (cr_id c)
          \<and> ae_verifyAssertion env (ab_response b) challenge c = Inr (n, uv) \<and> (ab_secondFactor b \<or> uv))"

definition session_for :: "user_row \<Rightarrow> auth_state \<Rightarrow> bool" where
  "session_for u st \<longleftrightarrow> as_sessions st \<noteq> [] \<and> se_userId (last (as_sessions st)) = us_id u"

lemma audit_sel [simp]:
  "as_users (appendAudit a b c d st) = as_users st" "as_sessions (appendAudit a b c d st) = as_sessions st"
  "as_reveal (appendAudit a b c d st) = as_reveal st"
  by (simp_all add: appendAudit_def)

lemma session_for_audit [simp]: "session_for u (appendAudit a b c d st) = session_for u st"
  by (simp add: session_for_def)

lemma find_of_audit [simp]:
  "findUserById i (appendAudit a b c d st) = findUserById i st" "findUserByEmail e (appendAudit a b c d st) = findUserByEmail e st"
  by (simp_all add: findUserById_def findUserByEmail_def)

lemma startLocalSession_effect:
  assumes "startLocalSession env rq i st = (cs, st')"
  shows "cs \<noteq> [] \<and> as_reveal st' = as_reveal st \<and> as_users st' = as_users st
    \<and> as_sessions st' \<noteq> [] \<and> se_userId (last (as_sessions st')) = i"
  using assms
  by (auto simp: startLocalSession_def startSession_def createSession_def revokeSession_def Let_def split: option.splits)

lemma recordFailedLogin_reveal: "as_reveal (snd (recordFailedLogin now i T L st)) = as_reveal st"
  by (simp add: recordFailedLogin_def Let_def split: option.splits)

lemma authenticateLocal_reveal: "as_reveal (snd (authenticateLocal env rq e p st)) = as_reveal st"
  using recordFailedLogin_reveal
  by (auto simp: authenticateLocal_def recordSuccessfulLogin_def updateUser_def Let_def
      split: option.splits prod.splits) (metis snd_conv)+

lemma authenticateLocal_ok:
  assumes "authenticateLocal env rq (lb_email b) (lb_password b) st = (LocalOk u, st')"
  shows "password_verified env rq b st u"
  using assms by (auto simp: authenticateLocal_def password_verified_def Let_def split: option.splits prod.splits if_splits)

text \<open>No cookies and no change of the pending secrets: the answer of most branches.\<close>

definition quiet :: "auth_state \<Rightarrow> outcome \<Rightarrow> bool" where
  "quiet st oc \<longleftrightarrow> fst (snd oc) = [] \<and> as_reveal (snd (snd oc)) = as_reveal st"

lemma quiet_simp [simp]: "quiet st (r, cs, st') \<longleftrightarrow> cs = [] \<and> as_reveal st' = as_reveal st"
  by (simp add: quiet_def)

definition login_ok :: "auth_env \<Rightarrow> auth_request \<Rightarrow> login_body \<Rightarrow> auth_state \<Rightarrow> outcome \<Rightarrow> bool" where
  "login_ok env rq b st oc \<longleftrightarrow> (\<exists>u. password_verified env rq b st u \<and>
     (if mfa_methods u = [] then as_reveal (snd (snd oc)) = as_reveal st \<and> session_for u (snd (snd oc))
      else fst (snd oc) = [] \<and> as_reveal (snd (snd oc)) =
        mint (rq_redis rq) (rq_now rq) (rq_token rq) (us_id u) MFA_ACTOR (Some (5 * 60)) (as_reveal st)))"

lemma login_accepted_effect:
  assumes "password_verified env rq b st u" "as_reveal st1 = as_reveal st"
  shows "quiet st (login_accepted env rq u st1) \<or> login_ok env rq b st (login_accepted env rq u st1)"
proof (cases "ae_signupEnabled env \<and> us_passwordHash u \<noteq> None \<and> us_emailVerifiedAt u = None")
  case True
  then show ?thesis using assms(2) by (simp add: login_accepted_def Let_def)
next
  case False
  show ?thesis
  proof (cases "mfa_methods u = []")
    case True
    then have no: "\<not> (us_totpSecretEncrypted u \<noteq> None \<or> length (us_webauthnCredentials u) > 0)"
      by (auto simp: mfa_methods_def split: if_splits)
    obtain cs st2 where s: "startLocalSession env rq (us_id u) st1 = (cs, st2)" by fastforce
    have "login_accepted env rq u st1 =
        (signed_in u, cs, appendAudit (Some (us_id u)) ''auth.login.success'' (''user'', Some (us_id u)) [] st2)"
      unfolding login_accepted_def Let_def if_not_P [OF False] if_not_P [OF no] s by simp
    then show ?thesis using startLocalSession_effect [OF s] assms True
      by (auto simp: login_ok_def session_for_def)
  next
    case some: False
    then have yes: "us_totpSecretEncrypted u \<noteq> None \<or> length (us_webauthnCredentials u) > 0"
      by (auto simp: mfa_methods_def)
    have "fst (snd (login_accepted env rq u st1)) = []"
      "as_reveal (snd (snd (login_accepted env rq u st1))) =
        mint (rq_redis rq) (rq_now rq) (rq_token rq) (us_id u) MFA_ACTOR (Some (5 * 60)) (as_reveal st1)"
      unfolding login_accepted_def Let_def if_not_P [OF False] if_P [OF yes] by simp_all
    then show ?thesis using assms some by (auto simp: login_ok_def)
  qed
qed

lemma login_effect:
  "quiet st (login_route env rq body st)
    \<or> (\<exists>b. body = Parsed b \<and> login_ok env rq b st (login_route env rq body st))"
proof (cases "\<exists>b. body = Parsed b \<and> login_route env rq body st = login_attempt env rq b st \<and> rq_limited rq = None")
  case False
  then show ?thesis
    by (auto simp: login_route_def login_attempt_def login_failure_def Let_def split: option.splits body.splits captcha_verdict.splits)
next
  case True
  then obtain b where b: "body = Parsed b" "login_route env rq body st = login_attempt env rq b st" "rq_limited rq = None" by blast
  obtain oc st1 where a: "authenticateLocal env rq (lb_email b) (lb_password b) st = (oc, st1)" by fastforce
  have r: "as_reveal st1 = as_reveal st" using authenticateLocal_reveal [of env rq "lb_email b" "lb_password b" st] a by simp
  show ?thesis
  proof (cases oc)
    case (LocalOk u)
    with a authenticateLocal_ok have "password_verified env rq b st u" by blast
    from login_accepted_effect [OF this r] show ?thesis using b a LocalOk by (auto simp: login_attempt_def)
  qed (use b a r in \<open>auto simp: login_attempt_def login_failure_def Let_def\<close>)
qed

definition totp_ok :: "auth_env \<Rightarrow> auth_request \<Rightarrow> totp_body \<Rightarrow> auth_state \<Rightarrow> outcome \<Rightarrow> bool" where
  "totp_ok env rq b st oc \<longleftrightarrow>
     (let (x, rv) = redeem (rq_redis rq) (rq_now rq) (tb_challengeToken b) MFA_ACTOR (as_reveal st)
      in as_reveal (snd (snd oc)) = rv
         \<and> (fst (snd oc) \<noteq> [] \<longrightarrow>
              (\<exists>u. x = Some (us_id u) \<and> code_verified env rq b st u \<and> session_for u (snd (snd oc)))))"

lemma totp_finish_effect:
  assumes "findUserById (us_id u) st = Some u" "\<not> isDisabled u" "us_totpSecretEncrypted u = Some sealed" "as_users st1 = as_users st"
  shows "as_reveal (snd (snd (totp_finish env rq (tb_code b) u sealed st1))) = as_reveal st1
    \<and> (fst (snd (totp_finish env rq (tb_code b) u sealed st1)) \<noteq> [] \<longrightarrow>
        code_verified env rq b st u \<and> session_for u (snd (snd (totp_finish env rq (tb_code b) u sealed st1))))"
proof -
  obtain cs st2 where s: "startLocalSession env rq (us_id u) st1 = (cs, st2)" by fastforce
  note e = startLocalSession_effect [OF s]
  show ?thesis
    using assms e by (auto simp: totp_finish_def Let_def s code_verified_def session_for_def split: option.splits bool.splits)
qed

lemma redeem_from_reveal:
  "redeem_from reply now tok actor st =
    (fst (redeem reply now tok actor (as_reveal st)), st\<lparr>as_reveal := snd (redeem reply now tok actor (as_reveal st))\<rparr>)"
  by (simp add: redeem_from_def case_prod_beta)

lemma find_of_reveal [simp]:
  "findUserById i (st\<lparr>as_reveal := rv\<rparr>) = findUserById i st"
  "findUserByCredentialId i (st\<lparr>as_reveal := rv\<rparr>) = findUserByCredentialId i st"
  by (simp_all add: findUserById_def findUserByCredentialId_def)

lemma findUserById_id: "findUserById i st = Some u \<Longrightarrow> us_id u = i"
  using find_Some_in by (fastforce simp: findUserById_def)

lemma totp_effect:
  "quiet st (totp_route env rq body st) \<or> (\<exists>b. body = Parsed b \<and> totp_ok env rq b st (totp_route env rq body st))"
proof (cases "\<exists>b. body = Parsed b \<and> cross_site env rq = None \<and> rq_limited rq = None")
  case False
  then show ?thesis by (auto simp: totp_route_def split: option.splits body.splits)
next
  case True
  then obtain b where b: "body = Parsed b" "cross_site env rq = None" "rq_limited rq = None" by blast
  define x where "x = fst (redeem (rq_redis rq) (rq_now rq) (tb_challengeToken b) MFA_ACTOR (as_reveal st))"
  define st1 where "st1 = st\<lparr>as_reveal := snd (redeem (rq_redis rq) (rq_now rq) (tb_challengeToken b) MFA_ACTOR (as_reveal st))\<rparr>"
  have rf: "redeem_from (rq_redis rq) (rq_now rq) (tb_challengeToken b) MFA_ACTOR st = (x, st1)"
    by (simp add: redeem_from_reveal x_def st1_def)
  have ok: "totp_ok env rq b st oc" if "as_reveal (snd (snd oc)) = as_reveal st1"
    "fst (snd oc) \<noteq> [] \<longrightarrow> (\<exists>u. x = Some (us_id u) \<and> code_verified env rq b st u \<and> session_for u (snd (snd oc)))" for oc
    using that unfolding totp_ok_def x_def st1_def by (simp add: case_prod_beta)
  have "totp_ok env rq b st (totp_route env rq body st)"
  proof (cases "\<exists>i u sealed. x = Some i \<and> findUserById i st = Some u \<and> \<not> isDisabled u \<and> us_totpSecretEncrypted u = Some sealed \<and> sealed \<noteq> []")
    case True
    then obtain i u sealed where u: "x = Some i" "findUserById i st = Some u" "\<not> isDisabled u"
      "us_totpSecretEncrypted u = Some sealed" "sealed \<noteq> []" by blast
    note [simp] = findUserById_id [OF u(2)]
    have "totp_route env rq body st = totp_finish env rq (tb_code b) u sealed st1"
      using b u by (simp add: totp_route_def rf Let_def) (simp add: st1_def)
    moreover have "as_users st1 = as_users st" by (simp add: st1_def)
    then have "as_reveal (snd (snd (totp_finish env rq (tb_code b) u sealed st1))) = as_reveal st1"
      "fst (snd (totp_finish env rq (tb_code b) u sealed st1)) \<noteq> [] \<longrightarrow>
        code_verified env rq b st u \<and> session_for u (snd (snd (totp_finish env rq (tb_code b) u sealed st1)))"
      using totp_finish_effect [of u st sealed st1 env rq b] u by simp_all
    moreover have "x = Some (us_id u)" using u(1) by simp
    ultimately show ?thesis using ok by metis
  next
    case False
    show ?thesis
      by (intro ok; insert b False; auto simp: totp_route_def rf Let_def st1_def split: option.splits)
  qed
  with b(1) show ?thesis by blast
qed

definition options_ok :: "auth_request \<Rightarrow> auth_state \<Rightarrow> outcome \<Rightarrow> bool" where
  "options_ok rq st oc \<longleftrightarrow> fst (snd oc) = [] \<and> as_reveal (snd (snd oc)) =
     mint (rq_redis rq) (rq_now rq) (rq_token rq) (rq_nonce rq) PASSKEY_ACTOR (Some (5 * 60)) (as_reveal st)"

lemma options_effect:
  "quiet st (assertion_options_route env rq body st) \<or> options_ok rq st (assertion_options_route env rq body st)"
  by (auto simp: assertion_options_route_def caught_def options_ok_def split: option.splits body.splits)

lemma requireCsrf_effect:
  assumes "requireCsrf env rq st = (r, st1)"
  shows "as_users st1 = as_users st \<and> as_reveal st1 = as_reveal st"
  using assms by (auto simp: requireCsrf_def readSession_def touchSession_def split: if_splits option.splits prod.splits)

text \<open>What the inner part of the handler gives: a result and a state.\<close>

definition finish_ok :: "auth_env \<Rightarrow> assertion_body \<Rightarrow> string \<Rightarrow> string \<Rightarrow> auth_state \<Rightarrow>
    (thrown + response \<times> cookie_change list) \<times> auth_state \<Rightarrow> bool" where
  "finish_ok env b challenge i st res \<longleftrightarrow> as_reveal (snd res) = as_reveal st
     \<and> (\<forall>resp cs. fst res = Inr (resp, cs) \<and> cs \<noteq> [] \<longrightarrow>
          (\<exists>u. i = us_id u \<and> assertion_verified env b challenge st u \<and> session_for u (snd res)))"

lemma finish_refused: "finish_ok env b challenge i st (Inl e, st') \<longleftrightarrow> as_reveal st' = as_reveal st"
  by (simp add: finish_ok_def)

lemma assertion_finish_effect: "finish_ok env b challenge i st (assertion_finish env rq b challenge i st)"
proof (cases "\<exists>u cid c n uv. findUserById i st = Some u \<and> \<not> isDisabled u \<and> json_string (ab_response b) ''id'' = Some cid
    \<and> find (\<lambda>c. cr_id c = cid) (us_webauthnCredentials u) = Some c \<and> ae_verifyAssertion env (ab_response b) challenge c = Inr (n, uv)
    \<and> (ab_secondFactor b \<or> uv)")
  case False
  then show ?thesis
    by (auto simp: assertion_finish_def finish_refused passkey_failure_def split: option.splits sum.splits)
next
  case True
  then obtain u cid c n uv where u: "findUserById i st = Some u" "\<not> isDisabled u" "json_string (ab_response b) ''id'' = Some cid"
    "find (\<lambda>c. cr_id c = cid) (us_webauthnCredentials u) = Some c"
    "ae_verifyAssertion env (ab_response b) challenge c = Inr (n, uv)" "ab_secondFactor b \<or> uv" by blast
  note i = findUserById_id [OF u(1)]
  define st1 where "st1 = touchCredential (rq_now rq) (us_id u) (cr_id c) n st"
  obtain cs st2 where s: "startLocalSession env rq (us_id u) st1 = (cs, st2)" by fastforce
  note e = startLocalSession_effect [OF s]
  have r: "as_reveal st1 = as_reveal st" by (simp add: st1_def touchCredential_def Let_def)
  have no: "\<not> (\<not> ab_secondFactor b \<and> \<not> uv)" using u(6) by blast
  obtain after where a: "assertion_finish env rq b challenge i st = (Inr (signed_in u, cs),
      appendAudit (Some (us_id u)) ''auth.login.success'' (''user'', Some (us_id u)) after st2)"
    unfolding assertion_finish_def Let_def u option.case sum.case prod.case if_not_P [OF u(2)] if_not_P [OF no]
      st1_def [symmetric] s by simp
  have "assertion_verified env b challenge st u"
    using u i find_Some_in [OF u(4)] unfolding assertion_verified_def by blast
  then show ?thesis unfolding finish_ok_def a using e r i by (auto simp: session_for_def)
qed

text \<open>The two redemptions of the handler: the challenge, then in the second mode the pending login.\<close>

definition passkey_ok :: "auth_env \<Rightarrow> auth_request \<Rightarrow> assertion_body \<Rightarrow> auth_state \<Rightarrow> outcome \<Rightarrow> bool" where
  "passkey_ok env rq b st oc \<longleftrightarrow>
     (let (x, rv1) = redeem (rq_redis rq) (rq_now rq) (ab_challengeToken b) PASSKEY_ACTOR (as_reveal st);
          (y, rv2) = redeem (rq_redis2 rq) (rq_now rq) (ab_mfaToken b) MFA_ACTOR rv1
      in (case x of
            None \<Rightarrow> fst (snd oc) = [] \<and> as_reveal (snd (snd oc)) = rv1
          | Some ch \<Rightarrow>
              (if ab_secondFactor b then as_reveal (snd (snd oc)) = rv2 else as_reveal (snd (snd oc)) = rv1)
              \<and> (fst (snd oc) \<noteq> [] \<longrightarrow> (\<exists>u. (ab_secondFactor b \<longrightarrow> y = Some (us_id u)) \<and> assertion_verified env b ch st u
                     \<and> session_for u (snd (snd oc))))))"

lemma caught_result:
  "fst (snd (caught res)) \<noteq> [] \<Longrightarrow> \<exists>resp cs. fst res = Inr (resp, cs) \<and> cs \<noteq> []" "snd (snd (caught res)) = snd res"
  by (auto simp: caught_def split: sum.splits)

lemma caught_refused: "fst res = Inl e \<Longrightarrow> fst (snd (caught res)) = []"
  by (simp add: caught_def)

lemma assertion_verified_users:
  "as_users st1 = as_users st \<Longrightarrow> assertion_verified env b ch st1 u = assertion_verified env b ch st u"
  by (simp add: assertion_verified_def findUserById_def)

lemma assertion_redeemed_effect:
  fixes env rq b ch st st0
  assumes "as_users st = as_users st0"
  defines "res \<equiv> assertion_redeemed env rq b ch st"
  defines "y \<equiv> redeem (rq_redis2 rq) (rq_now rq) (ab_mfaToken b) MFA_ACTOR (as_reveal st)"
  shows "as_reveal (snd res) = (if ab_secondFactor b then snd y else as_reveal st)
    \<and> (fst (snd (caught res)) \<noteq> [] \<longrightarrow>
         (\<exists>u. (ab_secondFactor b \<longrightarrow> fst y = Some (us_id u)) \<and> assertion_verified env b ch st0 u \<and> session_for u (snd res)))"
proof (cases "ab_secondFactor b")
  case True
  define st1 where "st1 = st\<lparr>as_reveal := snd y\<rparr>"
  have rf: "redeem_from (rq_redis2 rq) (rq_now rq) (ab_mfaToken b) MFA_ACTOR st = (fst y, st1)"
    by (simp add: redeem_from_reveal y_def st1_def)
  show ?thesis
  proof (cases "fst y")
    case None
    then have "res = (Inl (AppThrown (NotFoundError ''MFA challenge expired or already used.'')), st1)"
      using True rf by (simp add: res_def assertion_redeemed_def)
    then show ?thesis using True by (simp add: st1_def caught_def)
  next
    case (Some i)
    then have res: "res = assertion_finish env rq b ch i st1"
      using True rf by (simp add: res_def assertion_redeemed_def)
    have u: "as_users st1 = as_users st0" by (simp add: st1_def assms(1))
    show ?thesis
      using assertion_finish_effect [of env b ch i st1 rq] True Some caught_result(1) [of res] assertion_verified_users [OF u]
      unfolding finish_ok_def res [symmetric] by (fastforce simp: st1_def)
  qed
next
  case False
  show ?thesis
  proof (cases "\<exists>cid u c. json_string (ab_response b) ''id'' = Some cid \<and> cid \<noteq> [] \<and> findUserByCredentialId cid st = Some (u, c)")
    case True
    then obtain cid u c where f: "json_string (ab_response b) ''id'' = Some cid" "cid \<noteq> []"
      "findUserByCredentialId cid st = Some (u, c)" by blast
    then have res: "res = assertion_finish env rq b ch (us_id u) st"
      using False by (simp add: res_def assertion_redeemed_def)
    show ?thesis
      using assertion_finish_effect [of env b ch "us_id u" st rq] False caught_result(1) [of res] assertion_verified_users [OF assms(1)]
      unfolding finish_ok_def res [symmetric] by fastforce
  next
    case none: False
    then obtain e where "fst res = Inl e" "as_reveal (snd res) = as_reveal st"
      using False unfolding res_def assertion_redeemed_def by (fastforce split: option.splits)
    then show ?thesis using False caught_refused by simp
  qed
qed

lemma passkey_effect:
  "quiet st (assertion_verify_route env rq body st)
    \<or> (\<exists>b. body = Parsed b \<and> passkey_ok env rq b st (assertion_verify_route env rq body st))"
proof -
  obtain r st1 where c: "requireCsrf env rq st = (r, st1)" by fastforce
  note c' = requireCsrf_effect [OF c]
  show ?thesis
  proof (cases "\<exists>b. ae_webauthnEnabled env \<and> r = Inr () \<and> body = Parsed b \<and> cross_site env rq = None \<and> rq_limited rq = None")
    case False
    then show ?thesis using c c'
      by (auto simp: assertion_verify_route_def caught_def split: option.splits body.splits sum.splits)
  next
    case True
    then obtain b where b: "ae_webauthnEnabled env" "r = Inr ()" "body = Parsed b" "cross_site env rq = None" "rq_limited rq = None"
      by blast
    define x where "x = redeem (rq_redis rq) (rq_now rq) (ab_challengeToken b) PASSKEY_ACTOR (as_reveal st)"
    define st2 where "st2 = st1\<lparr>as_reveal := snd x\<rparr>"
    have rf: "redeem_from (rq_redis rq) (rq_now rq) (ab_challengeToken b) PASSKEY_ACTOR st1 = (fst x, st2)"
      using c' by (simp add: redeem_from_reveal x_def st2_def)
    have "passkey_ok env rq b st (assertion_verify_route env rq body st)"
    proof (cases "fst x")
      case None
      then show ?thesis using b c rf
        by (simp add: assertion_verify_route_def caught_def passkey_ok_def x_def [symmetric] case_prod_beta st2_def)
    next
      case (Some ch)
      then have res: "assertion_verify_route env rq body st = caught (assertion_redeemed env rq b ch st2)"
        using b c rf by (simp add: assertion_verify_route_def)
      have u: "as_users st2 = as_users st" using c' by (simp add: st2_def)
      have rv: "as_reveal st2 = snd x" by (simp add: st2_def)
      show ?thesis
        using assertion_redeemed_effect [OF u, of env rq b ch] Some
        unfolding passkey_ok_def res x_def [symmetric] rv by (simp add: case_prod_beta caught_result(2))
    qed
    with b(3) show ?thesis by blast
  qed
qed

subsection \<open>Runs\<close>

datatype sign_event =
    Login "login_body body"
  | TotpCode "totp_body body"
  | PasskeyOptions "string option body"
  | Passkey "assertion_body body"

type_synonym sign_step = "auth_request \<times> sign_event \<times> auth_state"

primrec handle :: "auth_env \<Rightarrow> auth_request \<Rightarrow> sign_event \<Rightarrow> auth_state \<Rightarrow> outcome" where
  "handle env rq (Login body) st = login_route env rq body st"
| "handle env rq (TotpCode body) st = totp_route env rq body st"
| "handle env rq (PasskeyOptions body) st = assertion_options_route env rq body st"
| "handle env rq (Passkey body) st = assertion_verify_route env rq body st"

primrec mints :: "sign_event \<Rightarrow> bool" where
  "mints (Login body) = True"
| "mints (TotpCode body) = False"
| "mints (PasskeyOptions body) = True"
| "mints (Passkey body) = False"

text \<open>
  A run: the requests handled so far, each with the state it met; the tokens drawn so far by a mint, each with
  whether its mint was half applied (Redis stored the secret and the command threw all the same); and the state
  now.  Between two requests the rest of the program may change the tables in any way, mint secrets for other
  actors and redeem whatever it likes.  Nothing is assumed of the tokens or of Redis.
\<close>

definition drawn_by :: "auth_request \<Rightarrow> sign_event \<Rightarrow> (string \<times> bool) list" where
  "drawn_by rq ev = (if mints ev then [(rq_token rq, rq_redis rq = Threw True)] else [])"

inductive sign_run :: "auth_env \<Rightarrow> sign_step list \<Rightarrow> (string \<times> bool) list \<Rightarrow> auth_state \<Rightarrow> bool" for env where
  begins: "as_reveal st = \<lparr>rv_local = [], rv_redis = []\<rparr> \<Longrightarrow> sign_run env [] [] st"
| handled: "sign_run env tr drawn st \<Longrightarrow>
    sign_run env (tr @ [(rq, ev, st)]) (drawn @ drawn_by rq ev) (snd (snd (handle env rq ev st)))"
| elsewhere: "sign_run env tr drawn st \<Longrightarrow> as_reveal st' = as_reveal st \<Longrightarrow> sign_run env tr drawn st'"
| minted: "sign_run env tr drawn st \<Longrightarrow> actor \<notin> {MFA_ACTOR, PASSKEY_ACTOR} \<Longrightarrow>
    sign_run env tr (drawn @ [(tok, reply = Threw True)])
      (st\<lparr>as_reveal := mint reply now tok pt actor ttl (as_reveal st)\<rparr>)"
| redeemed: "sign_run env tr drawn st \<Longrightarrow>
    sign_run env tr drawn (st\<lparr>as_reveal := snd (redeem reply now tok actor (as_reveal st))\<rparr>)"

definition well_drawn :: "(string \<times> bool) list \<Rightarrow> bool" where
  "well_drawn drawn \<longleftrightarrow> distinct (map fst drawn) \<and> list_all (\<lambda>d. \<not> snd d) drawn"

text \<open>What must have come before: a password login of the same user that drew the token, a passkey challenge.\<close>

definition password_first :: "auth_env \<Rightarrow> sign_step list \<Rightarrow> int \<Rightarrow> string \<Rightarrow> string \<Rightarrow> bool" where
  "password_first env earlier now tok i \<longleftrightarrow>
     (\<exists>rq b s u. (rq, Login (Parsed b), s) \<in> set earlier \<and> rq_token rq = tok \<and> us_id u = i
        \<and> password_verified env rq b s u \<and> mfa_methods u \<noteq> [] \<and> now < rq_now rq + 5 * 60 * 1000)"

definition challenge_first :: "sign_step list \<Rightarrow> int \<Rightarrow> string \<Rightarrow> string \<Rightarrow> bool" where
  "challenge_first earlier now tok ch \<longleftrightarrow>
     (\<exists>rq body s. (rq, PasskeyOptions body, s) \<in> set earlier \<and> rq_token rq = tok \<and> rq_nonce rq = ch
        \<and> now < rq_now rq + 5 * 60 * 1000)"

definition justified :: "auth_env \<Rightarrow> sign_step list \<Rightarrow> sign_step \<Rightarrow> bool" where
  "justified env earlier st = (case st of (rq, ev, s) \<Rightarrow>
     fst (snd (handle env rq ev s)) = []
     \<or> (\<exists>u. session_for u (snd (snd (handle env rq ev s)))
          \<and> (case ev of
               Login (Parsed b) \<Rightarrow> password_verified env rq b s u \<and> mfa_methods u = []
             | TotpCode (Parsed b) \<Rightarrow>
                 code_verified env rq b s u \<and> password_first env earlier (rq_now rq) (tb_challengeToken b) (us_id u)
             | Passkey (Parsed b) \<Rightarrow>
                 (\<exists>ch. assertion_verified env b ch s u \<and> challenge_first earlier (rq_now rq) (ab_challengeToken b) ch)
                 \<and> (ab_secondFactor b \<longrightarrow> password_first env earlier (rq_now rq) (ab_mfaToken b) (us_id u))
             | _ \<Rightarrow> False)))"

text \<open>The tokens a request that started a session was let in by.\<close>

definition spent :: "auth_env \<Rightarrow> sign_step \<Rightarrow> string list" where
  "spent env st = (case st of (rq, ev, s) \<Rightarrow>
     if fst (snd (handle env rq ev s)) = [] then []
     else (case ev of
        TotpCode (Parsed b) \<Rightarrow> [tb_challengeToken b]
      | Passkey (Parsed b) \<Rightarrow> ab_challengeToken b # (if ab_secondFactor b then [ab_mfaToken b] else [])
      | _ \<Rightarrow> []))"

definition spent_tokens :: "auth_env \<Rightarrow> sign_step list \<Rightarrow> string list" where
  "spent_tokens env tr = concat (map (spent env) tr)"

subsection \<open>Where the pending secrets come from\<close>

text \<open>An invariant that needs nothing of the tokens: every secret in either map was put there by a handler.\<close>

definition from_login :: "auth_env \<Rightarrow> sign_step list \<Rightarrow> string \<Rightarrow> entry \<Rightarrow> bool" where
  "from_login env tr k e \<longleftrightarrow>
     (\<exists>rq b s u. (rq, Login (Parsed b), s) \<in> set tr \<and> rq_token rq = k \<and> en_plaintext e = us_id u
        \<and> password_verified env rq b s u \<and> mfa_methods u \<noteq> [] \<and> en_expiresAtMs e = rq_now rq + 5 * 60 * 1000)"

definition from_options :: "sign_step list \<Rightarrow> string \<Rightarrow> entry \<Rightarrow> bool" where
  "from_options tr k e \<longleftrightarrow>
     (\<exists>rq body s. (rq, PasskeyOptions body, s) \<in> set tr \<and> rq_token rq = k \<and> en_plaintext e = rq_nonce rq
        \<and> en_expiresAtMs e = rq_now rq + 5 * 60 * 1000)"

definition entries :: "reveal_state \<Rightarrow> (string \<times> entry) set" where
  "entries rv = set (rv_local rv) \<union> set (rv_redis rv)"

definition entry_from :: "auth_env \<Rightarrow> sign_step list \<Rightarrow> string \<Rightarrow> entry \<Rightarrow> bool" where
  "entry_from env tr k e \<longleftrightarrow> (en_allowedActorId e = MFA_ACTOR \<longrightarrow> from_login env tr k e)
     \<and> (en_allowedActorId e = PASSKEY_ACTOR \<longrightarrow> from_options tr k e)"

definition provenance :: "auth_env \<Rightarrow> sign_step list \<Rightarrow> reveal_state \<Rightarrow> bool" where
  "provenance env tr rv \<longleftrightarrow> (\<forall>(k, e) \<in> entries rv. entry_from env tr k e)"

lemma entry_from_snoc: "entry_from env tr k e \<Longrightarrow> entry_from env (tr @ [x]) k e"
  unfolding entry_from_def from_login_def from_options_def by fastforce

lemma provenance_snoc: "provenance env tr rv \<Longrightarrow> provenance env (tr @ [x]) rv"
  using entry_from_snoc unfolding provenance_def by blast

lemma provenance_subset: "provenance env tr rv \<Longrightarrow> entries rv' \<subseteq> entries rv \<Longrightarrow> provenance env tr rv'"
  unfolding provenance_def by blast

lemma set_delete_entries: "set (AList.delete k xs) \<subseteq> set xs"
  by (auto simp: AList.delete_eq)

lemma mintLocal_entries: "set (mintLocal now tok pt actor ttl st) \<subseteq>
    insert (tok, \<lparr>en_plaintext = pt, en_allowedActorId = actor, en_expiresAtMs = now + ttl * 1000\<rparr>) (set st)"
proof -
  have "set (enforceCap actor (pruneExpired now st)) \<subseteq> set (pruneExpired now st)"
    using enforceCap_spec [of actor "pruneExpired now st"] by (simp add: part_of_def)
  also have "\<dots> \<subseteq> set st" by (auto simp: pruneExpired_def)
  finally show ?thesis
    using set_update_subset [of tok "\<lparr>en_plaintext = pt, en_allowedActorId = actor, en_expiresAtMs = now + ttl * 1000\<rparr>"]
    unfolding mintLocal_def by blast
qed

lemma mint_entries: "entries (mint reply now tok pt actor ttl rv) \<subseteq>
    insert (tok, \<lparr>en_plaintext = pt, en_allowedActorId = actor,
      en_expiresAtMs = now + (case ttl of Some t \<Rightarrow> t | None \<Rightarrow> DEFAULT_TTL_SEC) * 1000\<rparr>) (entries rv)"
proof -
  define t where "t = (case ttl of Some t \<Rightarrow> t | None \<Rightarrow> DEFAULT_TTL_SEC)"
  have r: "set (rv_redis (redis_set now tok pt actor t rv)) \<subseteq>
      insert (tok, \<lparr>en_plaintext = pt, en_allowedActorId = actor, en_expiresAtMs = now + t * 1000\<rparr>) (set (rv_redis rv))"
    unfolding redis_set_def using set_update_subset [of tok] by simp
  have l: "rv_local (redis_set now tok pt actor t rv) = rv_local rv" by (simp add: redis_set_def)
  show ?thesis
    using mintLocal_entries [of now tok pt actor t "rv_local rv"] r
    unfolding mint_def Let_def t_def [symmetric] entries_def by (cases reply) (auto simp: l)
qed

lemma redeemLocal_entries:
  assumes "redeemLocal now tok actor st = (x, st')"
  shows "set st' \<subseteq> set st \<and> (\<forall>pt. x = Some pt \<longrightarrow> (\<exists>e. (tok, e) \<in> set st \<and> en_plaintext e = pt
    \<and> en_allowedActorId e = actor \<and> now < en_expiresAtMs e))"
proof (cases "map_of st tok")
  case (Some e)
  then have "(tok, e) \<in> set st" by (rule map_of_SomeD)
  then show ?thesis using assms Some set_delete_entries [of tok st]
    by (auto simp: redeemLocal_def split: if_splits)
qed (use assms in \<open>auto simp: redeemLocal_def\<close>)

lemma redeem_entries:
  assumes "redeem reply now tok actor rv = (x, rv')"
  shows "entries rv' \<subseteq> entries rv \<and> (\<forall>pt. x = Some pt \<longrightarrow> (\<exists>e. (tok, e) \<in> entries rv \<and> en_plaintext e = pt
    \<and> en_allowedActorId e = actor \<and> now < en_expiresAtMs e))"
proof -
  obtain y l where l: "redeemLocal now tok actor (rv_local rv) = (y, l)" by fastforce
  note loc = redeemLocal_entries [OF l]
  have d: "set (rv_redis (redis_del tok rv)) \<subseteq> set (rv_redis rv)" "rv_local (redis_del tok rv) = rv_local rv"
    using set_delete_entries [of tok "rv_redis rv"] by (simp_all add: redis_del_def)
  have g: "(tok, e) \<in> set (rv_redis rv) \<and> now < en_expiresAtMs e" if "redis_get now tok rv = Some e" for e
    using that map_of_SomeD [of "rv_redis rv" tok e] by (auto simp: redis_get_def split: option.splits if_splits)
  show ?thesis
  proof (cases reply)
    case Unset
    then show ?thesis using assms l loc by (auto simp: redeem_def entries_def)
  next
    case Answered
    then show ?thesis using assms l loc d g
      by (cases "redis_get now tok rv") (auto simp: redeem_def entries_def split: if_splits)
  next
    case (Threw applied)
    then show ?thesis using assms l loc d by (cases applied) (auto simp: redeem_def entries_def)
  qed
qed

lemma provenance_mint:
  assumes "provenance env tr rv"
    and "entry_from env tr tok \<lparr>en_plaintext = pt, en_allowedActorId = actor,
      en_expiresAtMs = now + (case ttl of Some t \<Rightarrow> t | None \<Rightarrow> DEFAULT_TTL_SEC) * 1000\<rparr>"
  shows "provenance env tr (mint reply now tok pt actor ttl rv)"
  using assms mint_entries [of reply now tok pt actor ttl rv] unfolding provenance_def by blast

lemma provenance_redeem:
  assumes "provenance env tr rv" "redeem reply now tok actor rv = (x, rv')"
  shows "provenance env tr rv'"
    and "x = Some pt \<Longrightarrow> actor = MFA_ACTOR \<Longrightarrow> password_first env tr now tok pt"
    and "x = Some pt \<Longrightarrow> actor = PASSKEY_ACTOR \<Longrightarrow> challenge_first tr now tok pt"
proof -
  note r = redeem_entries [OF assms(2)]
  show "provenance env tr rv'" using provenance_subset [OF assms(1)] r by blast
  have e: "\<exists>e. entry_from env tr tok e \<and> en_plaintext e = pt \<and> en_allowedActorId e = actor \<and> now < en_expiresAtMs e"
    if "x = Some pt" using r that assms(1) unfolding provenance_def by blast
  show "password_first env tr now tok pt" if "x = Some pt" "actor = MFA_ACTOR"
    using e [OF that(1)] that(2) unfolding entry_from_def from_login_def password_first_def by fastforce
  show "challenge_first tr now tok pt" if "x = Some pt" "actor = PASSKEY_ACTOR"
    using e [OF that(1)] that(2) unfolding entry_from_def from_options_def challenge_first_def by fastforce
qed

lemma justified_no_cookies: "fst (snd (handle env rq ev s)) = [] \<Longrightarrow> justified env tr (rq, ev, s)"
  and spent_no_cookies: "fst (snd (handle env rq ev s)) = [] \<Longrightarrow> spent env (rq, ev, s) = []"
  by (simp_all add: justified_def spent_def)

definition step_fine :: "auth_env \<Rightarrow> sign_step list \<Rightarrow> sign_step \<Rightarrow> bool" where
  "step_fine env tr x = (case x of (rq, ev, st) \<Rightarrow>
     provenance env (tr @ [x]) (as_reveal (snd (snd (handle env rq ev st)))) \<and> justified env tr x)"

lemma actors_differ [simp]: "MFA_ACTOR \<noteq> PASSKEY_ACTOR" "PASSKEY_ACTOR \<noteq> MFA_ACTOR"
  by (simp_all add: MFA_ACTOR_def PASSKEY_ACTOR_def)

lemma fine_quiet:
  "provenance env tr (as_reveal st) \<Longrightarrow> quiet st (handle env rq ev st) \<Longrightarrow> step_fine env tr (rq, ev, st)"
  unfolding step_fine_def quiet_def using provenance_snoc justified_no_cookies by fastforce

lemma fine_login:
  assumes "provenance env tr (as_reveal st)" "login_ok env rq b st (login_route env rq (Parsed b) st)"
  shows "step_fine env tr (rq, Login (Parsed b), st)"
proof -
  let ?x = "(rq, Login (Parsed b), st)" and ?r = "login_route env rq (Parsed b) st"
  obtain u where u: "password_verified env rq b st u"
    "if mfa_methods u = [] then as_reveal (snd (snd ?r)) = as_reveal st \<and> session_for u (snd (snd ?r))
     else fst (snd ?r) = [] \<and> as_reveal (snd (snd ?r)) =
        mint (rq_redis rq) (rq_now rq) (rq_token rq) (us_id u) MFA_ACTOR (Some (5 * 60)) (as_reveal st)"
    using assms(2) by (auto simp: login_ok_def)
  note p = provenance_snoc [OF assms(1), of ?x]
  show ?thesis
  proof (cases "mfa_methods u = []")
    case True
    with u p show ?thesis by (auto simp: step_fine_def justified_def)
  next
    case False
    have "entry_from env (tr @ [?x]) (rq_token rq) \<lparr>en_plaintext = us_id u, en_allowedActorId = MFA_ACTOR,
        en_expiresAtMs = rq_now rq + (case Some (5 * 60) of Some t \<Rightarrow> t | None \<Rightarrow> DEFAULT_TTL_SEC) * 1000\<rparr>"
      unfolding entry_from_def from_login_def using u(1) False by auto
    from provenance_mint [OF p this] show ?thesis using u(2) False justified_no_cookies by (simp add: step_fine_def)
  qed
qed

lemma fine_options:
  assumes "provenance env tr (as_reveal st)" "options_ok rq st (assertion_options_route env rq body st)"
  shows "step_fine env tr (rq, PasskeyOptions body, st)"
proof -
  let ?x = "(rq, PasskeyOptions body, st)"
  note p = provenance_snoc [OF assms(1), of ?x]
  have "entry_from env (tr @ [?x]) (rq_token rq) \<lparr>en_plaintext = rq_nonce rq, en_allowedActorId = PASSKEY_ACTOR,
      en_expiresAtMs = rq_now rq + (case Some (5 * 60) of Some t \<Rightarrow> t | None \<Rightarrow> DEFAULT_TTL_SEC) * 1000\<rparr>"
    unfolding entry_from_def from_options_def by auto
  from provenance_mint [OF p this] show ?thesis
    using assms(2) justified_no_cookies by (simp add: step_fine_def options_ok_def)
qed

lemma fine_totp:
  assumes "provenance env tr (as_reveal st)" "totp_ok env rq b st (totp_route env rq (Parsed b) st)"
  shows "step_fine env tr (rq, TotpCode (Parsed b), st)"
proof -
  obtain y rv where y: "redeem (rq_redis rq) (rq_now rq) (tb_challengeToken b) MFA_ACTOR (as_reveal st) = (y, rv)" by fastforce
  note p = provenance_redeem [OF assms(1) y]
  show ?thesis
    using assms(2) p(2) provenance_snoc [OF p(1)] by (auto simp: step_fine_def justified_def totp_ok_def y)
qed

lemma fine_passkey:
  assumes "provenance env tr (as_reveal st)" "passkey_ok env rq b st (assertion_verify_route env rq (Parsed b) st)"
  shows "step_fine env tr (rq, Passkey (Parsed b), st)"
proof -
  let ?x = "(rq, Passkey (Parsed b), st)" and ?r = "assertion_verify_route env rq (Parsed b) st"
  obtain x rv1 where x: "redeem (rq_redis rq) (rq_now rq) (ab_challengeToken b) PASSKEY_ACTOR (as_reveal st) = (x, rv1)" by fastforce
  obtain y rv2 where y: "redeem (rq_redis2 rq) (rq_now rq) (ab_mfaToken b) MFA_ACTOR rv1 = (y, rv2)" by fastforce
  note p1 = provenance_redeem [OF assms(1) x]
  note p2 = provenance_redeem [OF p1(1) y]
  have "as_reveal (snd (snd ?r)) \<in> {rv1, rv2}"
    using assms(2) by (auto simp: passkey_ok_def x y split: option.splits if_splits)
  then have p: "provenance env (tr @ [?x]) (as_reveal (snd (snd ?r)))"
    using provenance_snoc [OF p1(1)] provenance_snoc [OF p2(1)] by auto
  have "justified env tr ?x"
  proof (cases "fst (snd ?r) = []")
    case False
    with assms(2) obtain ch u where u: "x = Some ch" "ab_secondFactor b \<longrightarrow> y = Some (us_id u)"
      "assertion_verified env b ch st u" "session_for u (snd (snd ?r))"
      by (auto simp: passkey_ok_def x y split: option.splits)
    then show ?thesis using p1(3) p2(2) unfolding justified_def by auto
  qed (simp add: justified_no_cookies)
  with p show ?thesis by (simp add: step_fine_def)
qed

lemma handle_cases:
  obtains (quiet) "quiet st (handle env rq ev st)"
  | (login) b where "ev = Login (Parsed b)" "login_ok env rq b st (login_route env rq (Parsed b) st)"
  | (totp) b where "ev = TotpCode (Parsed b)" "totp_ok env rq b st (totp_route env rq (Parsed b) st)"
  | (options) body where "ev = PasskeyOptions body" "options_ok rq st (assertion_options_route env rq body st)"
  | (passkey) b where "ev = Passkey (Parsed b)" "passkey_ok env rq b st (assertion_verify_route env rq (Parsed b) st)"
proof (cases ev)
  case (Login body)
  then show ?thesis using that(1,2) login_effect [of st env rq body] by auto
next
  case (TotpCode body)
  then show ?thesis using that(1,3) totp_effect [of st env rq body] by auto
next
  case (PasskeyOptions body)
  then show ?thesis using that(1,4) options_effect [of st env rq body] by auto
next
  case (Passkey body)
  then show ?thesis using that(1,5) passkey_effect [of st env rq body] by auto
qed

lemma step_fine_handled: "provenance env tr (as_reveal st) \<Longrightarrow> step_fine env tr (rq, ev, st)"
  by (cases rule: handle_cases [of st env rq ev])
    (simp_all add: fine_quiet fine_login fine_totp fine_options fine_passkey)

definition all_justified :: "auth_env \<Rightarrow> sign_step list \<Rightarrow> bool" where
  "all_justified env tr \<longleftrightarrow> (\<forall>i < length tr. justified env (take i tr) (tr ! i))"

lemma all_justified_snoc: "all_justified env (tr @ [x]) \<longleftrightarrow> all_justified env tr \<and> justified env tr x"
  by (auto simp: all_justified_def nth_append less_Suc_eq)

lemma sign_run_justified:
  "sign_run env tr drawn st \<Longrightarrow> provenance env tr (as_reveal st) \<and> all_justified env tr"
proof (induction rule: sign_run.induct)
  case (begins st)
  then show ?case by (simp add: provenance_def entries_def all_justified_def)
next
  case (handled tr drawn st rq ev)
  then show ?case using step_fine_handled [of env tr st rq ev] by (simp add: step_fine_def all_justified_snoc)
next
  case (elsewhere tr drawn st st')
  then show ?case by simp
next
  case (minted tr drawn st actor tok reply now pt ttl)
  then show ?case by (auto simp: entry_from_def intro!: provenance_mint)
next
  case (redeemed tr drawn st reply now tok actor)
  obtain y rv where y: "redeem reply now tok actor (as_reveal st) = (y, rv)" by fastforce
  with redeemed provenance_redeem(1) [OF _ y] show ?case by simp
qed

subsection \<open>What is redeemed once\<close>

text \<open>While the tokens drawn differ and no mint was half applied, no secret is redeemed twice.\<close>

definition sign_inv :: "auth_env \<Rightarrow> sign_step list \<Rightarrow> string set \<Rightarrow> reveal_state \<Rightarrow> reveal_event list \<Rightarrow> redemption list \<Rightarrow> bool" where
  "sign_inv env tr used rv es rs \<longleftrightarrow> run_inv es rs rv \<and> keys (minted_entries es) \<subseteq> used
     \<and> set (spent_tokens env tr) \<subseteq> rd_token ` set rs \<and> distinct (spent_tokens env tr)"

lemma spent_tokens_snoc: "spent_tokens env (tr @ [x]) = spent_tokens env tr @ spent env x"
  by (simp add: spent_tokens_def)

lemma minted_redeem [simp]: "minted_entries (es @ [Redeem reply now tok actor]) = minted_entries es"
  by simp

lemma run_redeem:
  assumes "run_inv es rs s" "redeem reply now tok actor s = (x, s')"
  shows "\<exists>rs'. run_inv (es @ [Redeem reply now tok actor]) rs' s' \<and> rd_token ` set rs \<subseteq> rd_token ` set rs'
    \<and> (x \<noteq> None \<longrightarrow> tok \<in> rd_token ` set rs' - rd_token ` set rs)"
proof -
  have d: "distinct (map fst (rv_local s))" "distinct (map fst (rv_redis s))" "keys (rv_local s) \<inter> keys (rv_redis s) = {}"
    using assms(1) by (auto simp: run_inv_def)
  note spec = redeem_spec [OF assms(2) d]
  show ?thesis
  proof (cases x)
    case None
    with run_inv_shrink [OF assms(1)] spec show ?thesis by blast
  next
    case (Some pt)
    with spec have sh: "shrinks s' s" and rv: "revealed_of now tok actor (Some pt) s' s" by simp_all
    from rv obtain e where e: "(tok, e) \<in> set (rv_local s) \<union> set (rv_redis s)" by (auto simp: revealed_of_def)
    then have "tok \<in> keys (rv_local s) \<union> keys (rv_redis s)" by force
    then have "tok \<notin> rd_token ` set rs" using assms(1) unfolding run_inv_def by blast
    then show ?thesis using run_inv_reveal [OF assms(1) sh rv, of reply] Some by fastforce
  qed
qed

lemma sign_inv_redeem:
  assumes "sign_inv env tr used s es rs" "redeem reply now tok actor s = (x, s')"
  obtains es' rs' where "sign_inv env tr used s' es' rs'" "rd_token ` set rs \<subseteq> rd_token ` set rs'"
    "x \<noteq> None \<longrightarrow> tok \<in> rd_token ` set rs' - rd_token ` set rs"
proof -
  have i: "run_inv es rs s" "keys (minted_entries es) \<subseteq> used" "set (spent_tokens env tr) \<subseteq> rd_token ` set rs"
    "distinct (spent_tokens env tr)" using assms(1) by (simp_all add: sign_inv_def)
  obtain rs' where "run_inv (es @ [Redeem reply now tok actor]) rs' s' \<and> rd_token ` set rs \<subseteq> rd_token ` set rs'
    \<and> (x \<noteq> None \<longrightarrow> tok \<in> rd_token ` set rs' - rd_token ` set rs)"
    using run_redeem [OF i(1) assms(2)] by (rule exE)
  then have r: "run_inv (es @ [Redeem reply now tok actor]) rs' s'" "rd_token ` set rs \<subseteq> rd_token ` set rs'"
    "x \<noteq> None \<longrightarrow> tok \<in> rd_token ` set rs' - rd_token ` set rs" by simp_all
  have "sign_inv env tr used s' (es @ [Redeem reply now tok actor]) rs'"
    unfolding sign_inv_def minted_redeem using r(1) i(2,4) subset_trans [OF i(3) r(2)] by simp
  from that [OF this r(2,3)] show ?thesis .
qed

lemma sign_inv_step:
  assumes "sign_inv env tr used s es rs" "distinct (spent env x)"
    "set (spent env x) \<subseteq> rd_token ` set rs - set (spent_tokens env tr)"
  shows "sign_inv env (tr @ [x]) used s es rs"
  using assms unfolding sign_inv_def spent_tokens_snoc by (simp add: Int_commute) blast

lemma sign_inv_mint:
  assumes "sign_inv env tr used s es rs" "tok \<notin> used" "reply \<noteq> Threw True"
  shows "sign_inv env tr (insert tok used) (mint reply now tok pt actor ttl s) (es @ [Mint reply now tok pt actor ttl]) rs"
proof -
  have "tok \<notin> keys (minted_entries es)" using assms by (auto simp: sign_inv_def)
  from run_inv_mint [OF _ this assms(3)] assms(1) show ?thesis unfolding sign_inv_def by auto
qed

definition sign_ok :: "auth_env \<Rightarrow> sign_step list \<Rightarrow> string set \<Rightarrow> reveal_state \<Rightarrow> bool" where
  "sign_ok env tr used rv \<longleftrightarrow> (\<exists>es rs. sign_inv env tr used rv es rs)"

lemma sign_ok_mono: "sign_ok env tr used rv \<Longrightarrow> used \<subseteq> used' \<Longrightarrow> sign_ok env tr used' rv"
  unfolding sign_ok_def sign_inv_def by blast

lemma sign_ok_mint:
  "sign_ok env tr used rv \<Longrightarrow> tok \<notin> used \<Longrightarrow> reply \<noteq> Threw True \<Longrightarrow>
    sign_ok env tr (insert tok used) (mint reply now tok pt actor ttl rv)"
  unfolding sign_ok_def using sign_inv_mint by blast

lemma sign_ok_no_cookies:
  "sign_ok env tr used rv \<Longrightarrow> fst (snd (handle env rq ev s)) = [] \<Longrightarrow> sign_ok env (tr @ [(rq, ev, s)]) used rv"
  unfolding sign_ok_def using sign_inv_step spent_no_cookies by (metis distinct.simps(1) empty_set empty_subsetI)

lemma step_login:
  assumes "sign_ok env tr used (as_reveal st)" "login_ok env rq b st (login_route env rq (Parsed b) st)"
    "rq_token rq \<notin> used" "rq_redis rq \<noteq> Threw True"
  shows "sign_ok env (tr @ [(rq, Login (Parsed b), st)]) (insert (rq_token rq) used)
    (as_reveal (snd (snd (login_route env rq (Parsed b) st))))"
proof -
  let ?x = "(rq, Login (Parsed b), st)"
  have "spent env ?x = []" by (simp add: spent_def)
  then have s: "sign_ok env (tr @ [?x]) used (as_reveal st)"
    using assms(1) sign_inv_step unfolding sign_ok_def by (metis distinct.simps(1) empty_set empty_subsetI)
  show ?thesis
    using assms(2) sign_ok_mono [OF s subset_insertI [of used "rq_token rq"]] sign_ok_mint [OF s assms(3,4)]
    by (auto simp: login_ok_def split: if_splits)
qed

lemma step_options:
  assumes "sign_ok env tr used (as_reveal st)" "options_ok rq st (assertion_options_route env rq body st)"
    "rq_token rq \<notin> used" "rq_redis rq \<noteq> Threw True"
  shows "sign_ok env (tr @ [(rq, PasskeyOptions body, st)]) (insert (rq_token rq) used)
    (as_reveal (snd (snd (assertion_options_route env rq body st))))"
proof -
  have "fst (snd (handle env rq (PasskeyOptions body) st)) = []" using assms(2) by (simp add: options_ok_def)
  from sign_ok_mint [OF sign_ok_no_cookies [OF assms(1) this] assms(3,4)] show ?thesis
    using assms(2) by (simp add: options_ok_def)
qed

lemma step_totp:
  assumes "sign_ok env tr used (as_reveal st)" "totp_ok env rq b st (totp_route env rq (Parsed b) st)"
  shows "sign_ok env (tr @ [(rq, TotpCode (Parsed b), st)]) used
    (as_reveal (snd (snd (totp_route env rq (Parsed b) st))))"
proof -
  let ?x = "(rq, TotpCode (Parsed b), st)" and ?r = "totp_route env rq (Parsed b) st"
  obtain es rs where i: "sign_inv env tr used (as_reveal st) es rs" using assms(1) by (auto simp: sign_ok_def)
  obtain y rv where y: "redeem (rq_redis rq) (rq_now rq) (tb_challengeToken b) MFA_ACTOR (as_reveal st) = (y, rv)" by fastforce
  obtain es' rs' where i': "sign_inv env tr used rv es' rs'"
    "y \<noteq> None \<longrightarrow> tb_challengeToken b \<in> rd_token ` set rs' - rd_token ` set rs"
    using sign_inv_redeem [OF i y] .
  have rv: "as_reveal (snd (snd ?r)) = rv" using assms(2) by (simp add: totp_ok_def y)
  show ?thesis
  proof (cases "fst (snd ?r) = []")
    case True
    with i'(1) show ?thesis unfolding rv by (intro sign_ok_no_cookies) (auto simp: sign_ok_def)
  next
    case False
    with assms(2) have "y \<noteq> None" by (auto simp: totp_ok_def y)
    moreover have "spent env ?x = [tb_challengeToken b]" using False by (simp add: spent_def)
    moreover have "set (spent_tokens env tr) \<subseteq> rd_token ` set rs" using i by (simp add: sign_inv_def)
    ultimately have "sign_inv env (tr @ [?x]) used rv es' rs'"
      using i'(2) by (intro sign_inv_step [OF i'(1)]) auto
    then show ?thesis unfolding sign_ok_def rv by blast
  qed
qed

lemma step_passkey:
  assumes "sign_ok env tr used (as_reveal st)" "passkey_ok env rq b st (assertion_verify_route env rq (Parsed b) st)"
  shows "sign_ok env (tr @ [(rq, Passkey (Parsed b), st)]) used
    (as_reveal (snd (snd (assertion_verify_route env rq (Parsed b) st))))"
proof -
  let ?x = "(rq, Passkey (Parsed b), st)" and ?r = "assertion_verify_route env rq (Parsed b) st"
  obtain es rs where i: "sign_inv env tr used (as_reveal st) es rs" using assms(1) by (auto simp: sign_ok_def)
  obtain x rv1 where x: "redeem (rq_redis rq) (rq_now rq) (ab_challengeToken b) PASSKEY_ACTOR (as_reveal st) = (x, rv1)" by fastforce
  obtain y rv2 where y: "redeem (rq_redis2 rq) (rq_now rq) (ab_mfaToken b) MFA_ACTOR rv1 = (y, rv2)" by fastforce
  obtain es1 rs1 where i1: "sign_inv env tr used rv1 es1 rs1" "rd_token ` set rs \<subseteq> rd_token ` set rs1"
    "x \<noteq> None \<longrightarrow> ab_challengeToken b \<in> rd_token ` set rs1 - rd_token ` set rs"
    using sign_inv_redeem [OF i x] .
  obtain es2 rs2 where i2: "sign_inv env tr used rv2 es2 rs2" "rd_token ` set rs1 \<subseteq> rd_token ` set rs2"
    "y \<noteq> None \<longrightarrow> ab_mfaToken b \<in> rd_token ` set rs2 - rd_token ` set rs1"
    using sign_inv_redeem [OF i1(1) y] .
  have old: "set (spent_tokens env tr) \<subseteq> rd_token ` set rs" using i by (simp add: sign_inv_def)
  have old1: "set (spent_tokens env tr) \<subseteq> rd_token ` set rs1" using i1(1) by (simp add: sign_inv_def)
  define second where "second \<longleftrightarrow> ab_secondFactor b \<and> x \<noteq> None"
  define rv where "rv = (if second then rv2 else rv1)"
  have rv: "as_reveal (snd (snd ?r)) = rv"
    using assms(2) by (auto simp: passkey_ok_def x y rv_def second_def split: option.splits if_splits)
  define es3 rs3 where "es3 = (if second then es2 else es1)" and "rs3 = (if second then rs2 else rs1)"
  have i3: "sign_inv env tr used rv es3 rs3" using i1(1) i2(1) by (simp add: rv_def es3_def rs3_def)
  show ?thesis
  proof (cases "fst (snd ?r) = []")
    case True
    with i3 show ?thesis unfolding rv by (intro sign_ok_no_cookies) (auto simp: sign_ok_def)
  next
    case False
    with assms(2) have u: "x \<noteq> None" "ab_secondFactor b \<longrightarrow> y \<noteq> None"
      by (auto simp: passkey_ok_def x y split: option.splits)
    have s: "spent env ?x = ab_challengeToken b # (if ab_secondFactor b then [ab_mfaToken b] else [])"
      using False by (simp add: spent_def)
    have "distinct (spent env ?x)" using i1(3) i2(3) u by (auto simp: s)
    moreover have "set (spent env ?x) \<subseteq> rd_token ` set rs3 - set (spent_tokens env tr)"
      using i1(2,3) i2(2,3) old old1 u by (auto simp: s rs3_def second_def)
    ultimately have "sign_inv env (tr @ [?x]) used rv es3 rs3" by (rule sign_inv_step [OF i3])
    then show ?thesis unfolding sign_ok_def rv by blast
  qed
qed

lemma step_handled:
  assumes "sign_ok env tr (fst ` set drawn) (as_reveal st)" "well_drawn (drawn @ drawn_by rq ev)"
  shows "sign_ok env (tr @ [(rq, ev, st)]) (fst ` set (drawn @ drawn_by rq ev)) (as_reveal (snd (snd (handle env rq ev st))))"
proof (cases rule: handle_cases [of st env rq ev])
  case quiet
  then have "sign_ok env (tr @ [(rq, ev, st)]) (fst ` set drawn) (as_reveal (snd (snd (handle env rq ev st))))"
    using sign_ok_no_cookies [OF assms(1)] by (simp add: quiet_def)
  then show ?thesis by (rule sign_ok_mono) auto
next
  case (login b)
  then show ?thesis using step_login [OF assms(1) login(2)] assms(2) by (auto simp: well_drawn_def drawn_by_def)
next
  case (totp b)
  then show ?thesis using step_totp [OF assms(1) totp(2)] by (simp add: drawn_by_def)
next
  case (options body)
  then show ?thesis using step_options [OF assms(1) options(2)] assms(2) by (auto simp: well_drawn_def drawn_by_def)
next
  case (passkey b)
  then show ?thesis using step_passkey [OF assms(1) passkey(2)] by (simp add: drawn_by_def)
qed

lemma sign_run_ok: "sign_run env tr drawn st \<Longrightarrow> well_drawn drawn \<Longrightarrow> sign_ok env tr (fst ` set drawn) (as_reveal st)"
proof (induction rule: sign_run.induct)
  case (begins st)
  have "sign_inv env [] {} (as_reveal st) [] []"
    by (simp add: sign_inv_def run_inv_def spent_tokens_def begins)
  then show ?case unfolding sign_ok_def by auto
next
  case (handled tr drawn st rq ev)
  then show ?case by (intro step_handled) (auto simp: well_drawn_def)
next
  case (elsewhere tr drawn st st')
  then show ?case by simp
next
  case (minted tr drawn st actor tok reply now pt ttl)
  then have "sign_ok env tr (fst ` set drawn) (as_reveal st)" "tok \<notin> fst ` set drawn" "reply \<noteq> Threw True"
    by (auto simp: well_drawn_def)
  from sign_ok_mint [OF this] show ?case by simp
next
  case (redeemed tr drawn st reply now tok actor)
  then obtain es rs where i: "sign_inv env tr (fst ` set drawn) (as_reveal st) es rs" by (auto simp: sign_ok_def)
  obtain y rv where y: "redeem reply now tok actor (as_reveal st) = (y, rv)" by fastforce
  obtain es' rs' where "sign_inv env tr (fst ` set drawn) rv es' rs'" using sign_inv_redeem [OF i y] .
  with y show ?case unfolding sign_ok_def by auto
qed

text \<open>
  C3. Whatever requests reach the sign-in endpoints, in whatever order, and whatever the rest of the program does
  to the accounts and the pending secrets meanwhile: a session is started only for a user whose password was
  verified while no second factor was enrolled, or whose password was verified less than five minutes before and
  whose one-time code or passkey now is, or whose passkey verified its holder against a challenge of ours.  This
  needs nothing of the tokens or of Redis; a request is one step, in which it meets the tables as they are.  Moreover no pending login and no challenge lets anyone in twice, provided
  that the tokens drawn differ and that no mint was half applied: when Redis stores a secret and the
  command throws all the same, the code stores it a second time and it can be redeemed twice.
\<close>

theorem sign_in_needs_all_factors:
  assumes "sign_run env tr drawn st"
  shows "(\<forall>i < length tr. justified env (take i tr) (tr ! i))
    \<and> (distinct (map fst drawn) \<and> (\<forall>d \<in> set drawn. \<not> snd d) \<longrightarrow> distinct (spent_tokens env tr))"
  using sign_run_justified [OF assms] sign_run_ok [OF assms]
  unfolding sign_ok_def sign_inv_def all_justified_def well_drawn_def list_all_iff by blast

text \<open>A run that gets in: the password, then the code, one minute later.\<close>

definition demo_totp_user :: user_row where
  "demo_totp_user = demo_account\<lparr>us_totpSecretEncrypted := Some ''AEBAGBAF''\<rparr>"

definition demo_login_step :: sign_step where
  "demo_login_step = (demo_request 0 ''tok1'',
     Login (Parsed \<lparr>lb_email = ''a@b'', lb_password = ''pw'', lb_captchaToken = None\<rparr>), demo_auth_state demo_totp_user)"

definition after_step :: "auth_env \<Rightarrow> sign_step \<Rightarrow> auth_state" where
  "after_step env st = (case st of (rq, ev, s) \<Rightarrow> snd (snd (handle env rq ev s)))"

definition demo_totp_step :: sign_step where
  "demo_totp_step = (demo_request 60000 ''tok2'',
     TotpCode (Parsed \<lparr>tb_challengeToken = ''tok1'', tb_code = ''215045''\<rparr>), after_step demo_auth demo_login_step)"

lemma demo_secret: "base32Decode ''AEBAGBAF'' = Some [1, 2, 3, 4, 5]"
proof -
  have "base32Encode [1, 2, 3, 4, 5] = ''AEBAGBAF''" by code_simp
  then show ?thesis using base32_roundtrip_lemma [of "[1, 2, 3, 4, 5]"] by simp
qed

lemma demo_code: "verifyTotp (ae_hmac demo_auth) totp_defaults 60000 ''AEBAGBAF'' ''215045'' = Some True"
proof -
  have "unat (84215045 :: 32 word) mod 10 ^ 6 = 215045" by simp
  moreover have "dec_of_nat 215045 = ''215045''" by (simp add: dec_of_nat.simps char_of_def bit_0)
  ultimately have "hotp (ae_hmac demo_auth) ''AEBAGBAF'' 2 6 = Some ''215045''"
    unfolding hotp_def demo_secret option.case
    by (simp add: demo_auth_def truncated_fives counter_bytes_def padStart0_def del: One_nat_def)
  moreover have "totp_counter totp_defaults 60000 = 2" by (simp add: totp_counter_def totp_defaults_def)
  ultimately show ?thesis
    by (subst verifyTotp_iff) (simp_all add: demo_secret totp_defaults_def exI [of _ "0 :: int"] del: One_nat_def)
qed

lemma demo_redeem_step: "redeem_from Answered 60000 ''tok1'' MFA_ACTOR (after_step demo_auth demo_login_step) =
    (Some ''u1'', snd (redeem_from Answered 60000 ''tok1'' MFA_ACTOR (after_step demo_auth demo_login_step)))"
  by code_simp

lemma demo_signed_in: "fst (snd (totp_route demo_auth (demo_request 60000 ''tok2'')
    (Parsed \<lparr>tb_challengeToken = ''tok1'', tb_code = ''215045''\<rparr>) (after_step demo_auth demo_login_step))) \<noteq> []"
proof -
  define st where "st = snd (redeem_from Answered 60000 ''tok1'' MFA_ACTOR (after_step demo_auth demo_login_step))"
  have u: "map_option (\<lambda>u. (isDisabled u, us_totpSecretEncrypted u)) (findUserById ''u1'' st) = Some (False, Some ''AEBAGBAF'')"
    unfolding st_def by code_simp
  have r: "redeem_from Answered 60000 ''tok1'' MFA_ACTOR (after_step demo_auth demo_login_step) = (Some ''u1'', st)"
    using demo_redeem_step by (simp add: st_def)
  have c: "cross_site demo_auth (demo_request 60000 ''tok2'') = None" by code_simp
  have d: "ae_decrypt demo_auth ''totp-secret'' ''AEBAGBAF'' = Some ''AEBAGBAF''" by (simp add: demo_auth_def)
  obtain w where w: "findUserById ''u1'' st = Some w" "\<not> isDisabled w" "us_totpSecretEncrypted w = Some ''AEBAGBAF''"
    using u by auto
  obtain cs st' where s: "startLocalSession demo_auth (demo_request 60000 ''tok2'') (us_id w) st = (cs, st')" by fastforce
  have f: "rq_redis (demo_request 60000 ''tok2'') = Answered" "rq_now (demo_request 60000 ''tok2'') = 60000"
    "rq_limited (demo_request 60000 ''tok2'') = None" by (simp_all add: demo_request_def)
  have "fst (snd (totp_finish demo_auth (demo_request 60000 ''tok2'') ''215045'' w ''AEBAGBAF'' st)) = cs"
    by (simp add: totp_finish_def Let_def f d demo_code s)
  then show ?thesis using startLocalSession_effect [OF s] by (simp add: totp_route_def c f r w Let_def)
qed

lemma demo_spent: "spent_tokens demo_auth [demo_login_step, demo_totp_step] = [''tok1'']"
proof -
  have "fst (snd (login_route demo_auth (demo_request 0 ''tok1'')
      (Parsed \<lparr>lb_email = ''a@b'', lb_password = ''pw'', lb_captchaToken = None\<rparr>) (demo_auth_state demo_totp_user))) = []" by code_simp
  then show ?thesis using demo_signed_in by (simp add: spent_tokens_def spent_def demo_login_step_def demo_totp_step_def)
qed

lemma demo_sign_run: "sign_run demo_auth [demo_login_step, demo_totp_step] [(''tok1'', False)] (after_step demo_auth demo_totp_step)"
proof -
  have "sign_run demo_auth [] [] (demo_auth_state demo_totp_user)" by (rule sign_run.begins) (simp add: demo_auth_state_def)
  from sign_run.handled [OF this, of "demo_request 0 ''tok1''" "fst (snd demo_login_step)"]
  have "sign_run demo_auth [demo_login_step] [(''tok1'', False)] (after_step demo_auth demo_login_step)"
    by (simp add: demo_login_step_def after_step_def demo_request_def drawn_by_def)
  from sign_run.handled [OF this, of "demo_request 60000 ''tok2''" "fst (snd demo_totp_step)"]
  show ?thesis by (simp add: demo_totp_step_def after_step_def demo_request_def drawn_by_def)
qed

theorem sign_in_needs_all_factors_witness:
  "justified demo_auth [demo_login_step] demo_totp_step \<and> spent_tokens demo_auth [demo_login_step, demo_totp_step] = [''tok1'']
    \<and> distinct (spent_tokens demo_auth [demo_login_step, demo_totp_step])"
proof -
  have w: "distinct (map fst [(''tok1'', False)]) \<and> (\<forall>d \<in> set [(''tok1'', False)]. \<not> snd d)" by simp
  have a: "\<forall>i < length [demo_login_step, demo_totp_step].
      justified demo_auth (take i [demo_login_step, demo_totp_step]) ([demo_login_step, demo_totp_step] ! i)"
    and d: "distinct (spent_tokens demo_auth [demo_login_step, demo_totp_step])"
    using conjunct1 [OF sign_in_needs_all_factors [OF demo_sign_run]]
      mp [OF conjunct2 [OF sign_in_needs_all_factors [OF demo_sign_run]] w] .
  from spec [OF a, of 1] d demo_spent show ?thesis by simp
qed

end
