(* ===== verification/AccountLinks.thy ===== *)
theory AccountLinks
  imports SignInRun
begin

section \<open>Links sent by mail\<close>

text \<open>What redeeming a reset link does, and when a link can be redeemed again.\<close>

text \<open>A refusal changes neither table.\<close>

definition refused :: "auth_state \<Rightarrow> response \<times> auth_state \<Rightarrow> bool" where
  "refused st res \<longleftrightarrow> r_status (fst res) = 400 \<and> as_users (snd res) = as_users st \<and> as_sessions (snd res) = as_sessions st"

lemma refused_error [simp]:
  "refused st (jsonError 400 m extra, st') \<longleftrightarrow> as_users st' = as_users st \<and> as_sessions st' = as_sessions st"
  by (simp add: refused_def jsonError_def)

text \<open>The link is accepted for an account as it is.\<close>

definition reset_accepts :: "auth_env \<Rightarrow> auth_request \<Rightarrow> reset_body \<Rightarrow> auth_state \<Rightarrow> reset_payload \<Rightarrow> user_row \<Rightarrow> bool" where
  "reset_accepts env rq b st p u \<longleftrightarrow>
     verifyResetToken (ae_codec env) (ae_secretKey env) (rb_token b) (rq_now rq) = Inr p
     \<and> findUserById (rt_userId p) st = Some u \<and> \<not> isDisabled u \<and> us_passwordHashUpdatedAt u \<le> rt_issuedAt p"

lemma reset_check_Inr:
  "reset_check env rq b st = Inr u \<longleftrightarrow> (\<exists>p. reset_accepts env rq b st p u)"
  by (auto simp: reset_check_def reset_accepts_def Let_def split: sum.splits option.splits)

lemma reset_check_Inl: "reset_check env rq b st = Inl res \<Longrightarrow> refused st res"
  by (auto simp: reset_check_def Let_def split: sum.splits option.splits if_splits)

lemma reset_commit_users:
  "findUserById i (snd (reset_commit env now rq b u st)) =
    (if i = us_id u
     then map_option (reset_row now (ae_hashPassword env (rq_salt rq) (rb_password b))) (findUserById i st)
     else findUserById i st)"
proof -
  let ?f = "reset_row now (ae_hashPassword env (rq_salt rq) (rb_password b))"
  have f: "us_id (?f v) = us_id v" for v by (simp add: reset_row_def)
  have "findUserById i (snd (reset_commit env now rq b u st)) = findUserById i (set_user (us_id u) ?f st)"
    by (simp add: reset_commit_def Let_def revokeSessionsForUser_def findUserById_def)
  also have "\<dots> = map_option (\<lambda>v. if us_id v = us_id u then ?f v else v) (findUserById i st)"
    unfolding findUserById_def set_user_sel by (rule find_map) (simp add: f)
  finally show ?thesis using findUserById_id by (cases "findUserById i st") auto
qed

lemma reset_commit_sessions:
  "as_sessions (snd (reset_commit env now rq b u st)) = filter (\<lambda>s. se_userId s \<noteq> us_id u) (as_sessions st)"
  by (simp add: reset_commit_def Let_def revokeSessionsForUser_def)

lemma reset_commit_ok: "r_status (fst (reset_commit env now rq b u st)) = 200"
  by (simp add: reset_commit_def json_ok_def Let_def)

subsection \<open>Reset requests, interleaved\<close>

text \<open>
  A run of the endpoint: requests are checked and committed in any order, each commit after its check, and between
  any two steps the rest of the program may do anything that does not move the date of a password back; a
  row that appears has the date of its insertion or a later one.  The clock does not go back.
\<close>

datatype reset_event =
    Passed auth_request reset_body user_row auth_state
  | Committed auth_request reset_body user_row int auth_state auth_state

definition dates_kept :: "int \<Rightarrow> auth_state \<Rightarrow> auth_state \<Rightarrow> bool" where
  "dates_kept now st st' \<longleftrightarrow> (\<forall>i v'. findUserById i st' = Some v' \<longrightarrow>
     (case findUserById i st of
        Some v \<Rightarrow> us_passwordHashUpdatedAt v \<le> us_passwordHashUpdatedAt v'
      | None \<Rightarrow> now \<le> us_passwordHashUpdatedAt v'))"

inductive reset_run :: "auth_env \<Rightarrow> reset_event list \<Rightarrow> int \<Rightarrow> auth_state \<Rightarrow> bool" for env where
  begins: "reset_run env [] now st"
| passed: "reset_run env es now st \<Longrightarrow> now \<le> rq_now rq \<Longrightarrow> reset_check env rq b st = Inr u \<Longrightarrow>
    reset_run env (es @ [Passed rq b u st]) (rq_now rq) st"
| refused: "reset_run env es now st \<Longrightarrow> now \<le> rq_now rq \<Longrightarrow> reset_check env rq b st = Inl (r, st') \<Longrightarrow>
    reset_run env es (rq_now rq) st'"
| committed: "reset_run env es now st \<Longrightarrow> now \<le> t \<Longrightarrow> Passed rq b u s0 \<in> set es \<Longrightarrow>
    reset_commit env t rq b u st = (r, st') \<Longrightarrow>
    reset_run env (es @ [Committed rq b u t st st']) t st'"
| elsewhere: "reset_run env es now st \<Longrightarrow> now \<le> t \<Longrightarrow> dates_kept now st st' \<Longrightarrow> reset_run env es t st'"

text \<open>What a commit does: the new password, no lock, no session left, and every other account and session as before.\<close>

definition reset_effect :: "auth_env \<Rightarrow> auth_request \<Rightarrow> reset_body \<Rightarrow> user_row \<Rightarrow> int \<Rightarrow> auth_state \<Rightarrow> auth_state \<Rightarrow> bool" where
  "reset_effect env rq b u t s s' \<longleftrightarrow>
     findUserById (us_id u) s' =
       map_option (\<lambda>v. v\<lparr>us_passwordHash := Some (ae_hashPassword env (rq_salt rq) (rb_password b)), us_passwordHashUpdatedAt := t,
         us_mustChangePassword := False, us_failedLoginCount := 0, us_lockedUntil := None\<rparr>) (findUserById (us_id u) s)
     \<and> (\<forall>i. i \<noteq> us_id u \<longrightarrow> findUserById i s' = findUserById i s)
     \<and> as_sessions s' = filter (\<lambda>x. se_userId x \<noteq> us_id u) (as_sessions s)"

lemma commit_effect: "reset_commit env t rq b u s = (r, s') \<Longrightarrow> reset_effect env rq b u t s s'"
  using reset_commit_users [of _ env t rq b u s] reset_commit_sessions [of env t rq b u s]
  by (simp add: reset_effect_def reset_row_def [abs_def])

definition dated :: "reset_event list \<Rightarrow> int \<Rightarrow> auth_state \<Rightarrow> bool" where
  "dated es now st \<longleftrightarrow> (\<forall>rq b u t s s'. Committed rq b u t s s' \<in> set es \<longrightarrow>
     t \<le> now \<and> (\<forall>v. findUserById (us_id u) st = Some v \<longrightarrow> t \<le> us_passwordHashUpdatedAt v))"

definition check_sound :: "auth_env \<Rightarrow> reset_event list \<Rightarrow> nat \<Rightarrow> bool" where
  "check_sound env es i \<longleftrightarrow> (\<forall>rq b u s. es ! i = Passed rq b u s \<longrightarrow>
     (\<exists>p. reset_accepts env rq b s p u
        \<and> (\<forall>j < i. \<forall>rq1 b1 u1 t1 x x'. es ! j = Committed rq1 b1 u1 t1 x x' \<and> us_id u1 = us_id u \<longrightarrow> t1 \<le> rt_issuedAt p)))"

definition commit_sound :: "auth_env \<Rightarrow> reset_event list \<Rightarrow> nat \<Rightarrow> bool" where
  "commit_sound env es k \<longleftrightarrow> (\<forall>rq b u t s s'. es ! k = Committed rq b u t s s' \<longrightarrow>
     reset_effect env rq b u t s s' \<and> (\<exists>i < k. \<exists>s0. es ! i = Passed rq b u s0))"

lemma sound_snoc:
  assumes "k < length es"
  shows "check_sound env (es @ [e]) k = check_sound env es k" "commit_sound env (es @ [e]) k = commit_sound env es k"
proof -
  have n: "(es @ [e]) ! j = es ! j" if "j \<le> k" for j using that assms by (simp add: nth_append)
  show "check_sound env (es @ [e]) k = check_sound env es k" by (simp add: check_sound_def n)
  show "commit_sound env (es @ [e]) k = commit_sound env es k" by (simp add: commit_sound_def n cong: conj_cong)
qed

lemma dated_mono: "dated es now st \<Longrightarrow> now \<le> t \<Longrightarrow> dated es t st"
  unfolding dated_def by (meson order_trans)

lemma dated_users: "dated es now st \<Longrightarrow> as_users st' = as_users st \<Longrightarrow> dated es now st'"
  by (simp add: dated_def findUserById_def)

lemma dated_elsewhere:
  assumes "dated es now st" "dates_kept now st st'" "now \<le> t"
  shows "dated es t st'"
  unfolding dated_def
proof (intro allI impI conjI)
  fix rq b u t1 s s' assume c: "Committed rq b u t1 s s' \<in> set es"
  then have le: "t1 \<le> now" using assms(1) unfolding dated_def by blast
  then show "t1 \<le> t" using assms(3) by simp
  fix v' assume v': "findUserById (us_id u) st' = Some v'"
  show "t1 \<le> us_passwordHashUpdatedAt v'"
  proof (cases "findUserById (us_id u) st")
    case None
    with assms(2) v' have "now \<le> us_passwordHashUpdatedAt v'" by (force simp: dates_kept_def)
    with le show ?thesis by simp
  next
    case (Some v)
    with assms(1) c have "t1 \<le> us_passwordHashUpdatedAt v" unfolding dated_def by blast
    also have "\<dots> \<le> us_passwordHashUpdatedAt v'" using assms(2) v' Some by (force simp: dates_kept_def)
    finally show ?thesis .
  qed
qed

lemma dated_commit:
  assumes "dated es now st" "now \<le> t" "reset_effect env rq b u t st st'"
  shows "dated (es @ [Committed rq b u t st st']) t st'"
  unfolding dated_def
proof (intro allI impI conjI)
  fix rq1 b1 u1 t1 s s' assume c: "Committed rq1 b1 u1 t1 s s' \<in> set (es @ [Committed rq b u t st st'])"
  then show le: "t1 \<le> t" using assms(1,2) unfolding dated_def by fastforce
  fix v' assume v': "findUserById (us_id u1) st' = Some v'"
  show "t1 \<le> us_passwordHashUpdatedAt v'"
  proof (cases "us_id u1 = us_id u")
    case True
    with v' assms(3) have "us_passwordHashUpdatedAt v' = t"
      by (cases "findUserById (us_id u) st") (auto simp: reset_effect_def)
    with le show ?thesis by simp
  next
    case False
    with c have "Committed rq1 b1 u1 t1 s s' \<in> set es" by auto
    moreover have "findUserById (us_id u1) st = Some v'" using v' False assms(3) by (auto simp: reset_effect_def)
    ultimately show ?thesis using assms(1) unfolding dated_def by blast
  qed
qed

lemma reset_run_sound:
  "reset_run env es now st \<Longrightarrow> dated es now st \<and> (\<forall>k < length es. check_sound env es k \<and> commit_sound env es k)"
proof (induction rule: reset_run.induct)
  case (begins now st)
  then show ?case by (simp add: dated_def)
next
  case (passed es now st rq b u)
  have d: "dated (es @ [Passed rq b u st]) (rq_now rq) st"
    using dated_mono [of es now st "rq_now rq"] passed by (auto simp: dated_def)
  obtain p where p: "reset_accepts env rq b st p u" using passed.hyps(3) unfolding reset_check_Inr by blast
  then have u: "findUserById (us_id u) st = Some u" "us_passwordHashUpdatedAt u \<le> rt_issuedAt p"
    using findUserById_id by (auto simp: reset_accepts_def)
  have "t1 \<le> rt_issuedAt p" if "j < length es" "es ! j = Committed rq1 b1 u1 t1 x x'" "us_id u1 = us_id u" for j rq1 b1 u1 t1 x x'
  proof -
    have "Committed rq1 b1 u1 t1 x x' \<in> set es" using that(1,2) by (metis nth_mem)
    with passed.IH have "\<forall>v. findUserById (us_id u1) st = Some v \<longrightarrow> t1 \<le> us_passwordHashUpdatedAt v"
      unfolding dated_def by blast
    with that(3) u show ?thesis by simp
  qed
  then have "check_sound env (es @ [Passed rq b u st]) (length es)"
    using p unfolding check_sound_def by (auto simp: nth_append)
  moreover have "commit_sound env (es @ [Passed rq b u st]) (length es)" by (simp add: commit_sound_def)
  ultimately show ?case using d passed.IH by (auto simp: sound_snoc less_Suc_eq)
next
  case (refused es now st rq b r st')
  from reset_check_Inl [OF refused.hyps(3)] have "as_users st' = as_users st" by (simp add: refused_def)
  with refused dated_mono dated_users show ?case by blast
next
  case (committed es now st t rq b u s0 r st')
  note e = commit_effect [OF committed.hyps(4)]
  let ?c = "Committed rq b u t st st'"
  obtain i where "i < length es" "es ! i = Passed rq b u s0" using committed.hyps(3) by (metis in_set_conv_nth)
  then have "commit_sound env (es @ [?c]) (length es)" using e by (auto simp: commit_sound_def nth_append)
  moreover have "check_sound env (es @ [?c]) (length es)" by (simp add: check_sound_def)
  ultimately show ?case using dated_commit [OF _ committed.hyps(2) e] committed.IH by (auto simp: sound_snoc less_Suc_eq)
next
  case (elsewhere es now st t st')
  then show ?case using dated_elsewhere by blast
qed

text \<open>
  C5. A reset link is worth one redemption at a time.  In every run of the reset endpoint, with its requests interleaved in
  any way, in which neither the clock nor the date of a password goes back otherwise: a password is changed only by a request that was checked before; the link it carried was signed here
  for that account, not expired, the account enabled and the link no older than its password; the account
  gets the new password and loses its lock and its sessions, and every other account and session is as
  before.  And a link is never accepted for an account whose password a link changed after it was issued: every change
  made before the check was made no later than the link's issue.  So a link opens twice only for requests that
  overlap, the second checked before the first has written; that this happens is shown below.
\<close>

theorem reset_link_single_use:
  assumes "reset_run env es now st" "k < length es" "es ! k = Committed rq b u t s s'"
  shows "reset_effect env rq b u t s s'
    \<and> (\<exists>i p s0. i < k \<and> es ! i = Passed rq b u s0
        \<and> verifyResetToken (ae_codec env) (ae_secretKey env) (rb_token b) (rq_now rq) = Inr p
        \<and> findUserById (rt_userId p) s0 = Some u \<and> us_disabledAt u = None \<and> us_passwordHashUpdatedAt u \<le> rt_issuedAt p
        \<and> (\<forall>j < i. \<forall>rq1 b1 u1 t1 x x'. es ! j = Committed rq1 b1 u1 t1 x x' \<and> us_id u1 = us_id u \<longrightarrow> t1 \<le> rt_issuedAt p))"
proof -
  note r = conjunct2 [OF reset_run_sound [OF assms(1)]]
  with assms(2,3) obtain i s0 where c: "reset_effect env rq b u t s s'" "i < k" "es ! i = Passed rq b u s0"
    unfolding commit_sound_def by blast
  with r assms(2) have "check_sound env es i" by simp
  with c(3) obtain p where "reset_accepts env rq b s0 p u"
    "\<forall>j < i. \<forall>rq1 b1 u1 t1 x x'. es ! j = Committed rq1 b1 u1 t1 x x' \<and> us_id u1 = us_id u \<longrightarrow> t1 \<le> rt_issuedAt p"
    unfolding check_sound_def by blast
  with c show ?thesis unfolding reset_accepts_def isDisabled_def not_not
    by (intro conjI exI [of _ i] exI [of _ p] exI [of _ s0]) simp_all
qed

text \<open>Two requests with one link, both checked before either writes: both are answered 200 and the second password stands.\<close>

lemma overlapping_redemptions_both_succeed:
  assumes "reset_check env rq1 b1 st = Inr u" "reset_check env rq2 b2 st = Inr u"
    and "reset_commit env t1 rq1 b1 u st = (r1, st1)" "reset_commit env t2 rq2 b2 u st1 = (r2, st2)"
  shows "r_status r1 = 200 \<and> r_status r2 = 200
    \<and> map_option us_passwordHash (findUserById (us_id u) st2) = Some (Some (ae_hashPassword env (rq_salt rq2) (rb_password b2)))"
proof -
  obtain p :: reset_payload where "findUserById (rt_userId p) st = Some u"
    using assms(1) unfolding reset_check_Inr reset_accepts_def by auto
  with findUserById_id have "findUserById (us_id u) st = Some u" by metis
  then show ?thesis
    using reset_commit_ok [of env t1 rq1 b1 u st] reset_commit_ok [of env t2 rq2 b2 u st1]
      reset_commit_users [of "us_id u" env t1 rq1 b1 u st] reset_commit_users [of "us_id u" env t2 rq2 b2 u st1] assms(3,4)
    by (simp add: reset_row_def)
qed

definition demo_reset :: reset_body where "demo_reset = \<lparr>rb_token = demo_link, rb_password = ''a new password''\<rparr>"

definition demo_before :: auth_state where "demo_before = createSession demo_session (demo_auth_state demo_account)"

definition demo_after :: auth_state where
  "demo_after = snd (reset_commit demo_auth 6000 (demo_request 5000 ''t'') demo_reset demo_account demo_before)"

lemma demo_now [simp]: "rq_now (demo_request t tok) = t"
  by (simp add: demo_request_def)

lemma demo_reset_accepted: "reset_accepts demo_auth (demo_request 5000 ''t'') demo_reset demo_before demo_payload demo_account"
  using demo_link_opens
  by (simp add: reset_accepts_def demo_auth_def demo_request_def demo_reset_def demo_before_def createSession_def demo_auth_state_def
      findUserById_def demo_payload_def demo_account_def isDisabled_def)

lemma demo_reset_run: "reset_run demo_auth
    [Passed (demo_request 5000 ''t'') demo_reset demo_account demo_before,
     Committed (demo_request 5000 ''t'') demo_reset demo_account 6000 demo_before demo_after] 6000 demo_after"
proof -
  have "reset_check demo_auth (demo_request 5000 ''t'') demo_reset demo_before = Inr demo_account"
    using demo_reset_accepted unfolding reset_check_Inr by blast
  from reset_run.passed [OF reset_run.begins [of demo_auth 0] _ this]
  have p: "reset_run demo_auth [Passed (demo_request 5000 ''t'') demo_reset demo_account demo_before] 5000 demo_before" by simp
  obtain r where c: "reset_commit demo_auth 6000 (demo_request 5000 ''t'') demo_reset demo_account demo_before = (r, demo_after)"
    by (cases "reset_commit demo_auth 6000 (demo_request 5000 ''t'') demo_reset demo_account demo_before") (simp add: demo_after_def)
  from reset_run.committed [OF p _ _ c] show ?thesis by simp
qed

theorem reset_link_single_use_witness:
  "map_option us_passwordHashUpdatedAt (findUserById ''u1'' demo_after) = Some 6000 \<and> as_sessions demo_after = []"
proof -
  have "reset_effect demo_auth (demo_request 5000 ''t'') demo_reset demo_account 6000 demo_before demo_after"
    using reset_link_single_use [OF demo_reset_run, of 1] by simp
  moreover have "findUserById ''u1'' demo_before = Some demo_account" "us_id demo_account = ''u1''"
    "as_sessions demo_before = [demo_session]"
    by (simp_all add: demo_before_def createSession_def demo_auth_state_def findUserById_def demo_account_def)
  moreover have "se_userId demo_session = ''u1''" by code_simp
  ultimately show ?thesis by (simp add: reset_effect_def)
qed

text \<open>The link is refused afterwards.\<close>

lemma demo_link_spent: "refused demo_after (reset_redeem demo_auth (demo_request 9000 ''t2'') demo_reset demo_after)"
proof -
  have l: "verifyResetToken (ae_codec demo_auth) (ae_secretKey demo_auth) (rb_token demo_reset) 5000 = Inr demo_payload"
    using demo_reset_accepted by (simp add: reset_accepts_def)
  have "us_passwordHashUpdatedAt v = 6000" if "findUserById ''u1'' demo_after = Some v" for v
    using that reset_commit_users [of "''u1''" demo_auth 6000 "demo_request 5000 ''t''" demo_reset demo_account demo_before]
    by (cases "findUserById ''u1'' demo_before") (auto simp: demo_after_def demo_account_def reset_row_def)
  then have "\<not> reset_accepts demo_auth (demo_request 9000 ''t2'') demo_reset demo_after p u" for p u
    using l by (auto simp: reset_accepts_def verifyResetToken_def demo_payload_def split: sum.splits option.splits if_splits)
  then show ?thesis
    using reset_check_Inl unfolding reset_redeem_def
    by (cases "reset_check demo_auth (demo_request 9000 ''t2'') demo_reset demo_after") (auto simp: reset_check_Inr)
qed

end
