(* ===== verification/RrsetHash.thy ===== *)
theory RrsetHash
  imports JsSort ZoneDiff Errors
begin

section \<open>RRset hashes, conflicts and patches\<close>

text \<open>
  Models \<open>lib/pdns/rrset-hash.ts\<close> and \<open>lib/pdns/rrsets.ts\<close>.  \<open>localeCompare\<close> is the
  parameter \<open>lc\<close> and the hex digest of SHA-256 the parameter \<open>sha\<close>.
\<close>

subsection \<open>rrset-hash.ts\<close>

record rr_record =
  rr_content :: string
  rr_disabled :: "bool option"

record rrset =
  rs_name :: string
  rs_type :: string
  rs_ttl :: nat
  rs_records :: "rr_record list"

type_synonym hashed_record = "string \<times> bool"

definition hashed :: "rr_record \<Rightarrow> hashed_record" where
  "hashed r = (rr_content r, rr_disabled r = Some True)"

definition hashed_compare :: "(string \<Rightarrow> string \<Rightarrow> int) \<Rightarrow> hashed_record \<Rightarrow> hashed_record \<Rightarrow> int" where
  "hashed_compare lc a b =
     (if fst a \<noteq> fst b then lc (fst a) (fst b)
      else if snd a = snd b then 0 else if snd a then 1 else - 1)"

definition hashed_json :: "hashed_record \<Rightarrow> string" where
  "hashed_json r = ''{\"content\":'' @ json_string (fst r) @ '',\"disabled\":'' @ json_bool (snd r) @ ''}''"

definition canonical_rrset :: "(string \<Rightarrow> string \<Rightarrow> int) \<Rightarrow> 'a rrset_scheme \<Rightarrow> string" where
  "canonical_rrset lc rr =
     ''{\"name\":'' @ json_string (js_lower (rs_name rr))
     @ '',\"type\":'' @ json_string (js_upper (rs_type rr))
     @ '',\"ttl\":'' @ dec_of_nat (rs_ttl rr)
     @ '',\"records\":['' @ join '','' (map hashed_json (js_sort (hashed_compare lc) (map hashed (rs_records rr))))
     @ '']}''"

definition rrsetHash :: "(string \<Rightarrow> string \<Rightarrow> int) \<Rightarrow> (string \<Rightarrow> string) \<Rightarrow> 'a rrset_scheme \<Rightarrow> string" where
  "rrsetHash lc sha rr = take 16 (sha (canonical_rrset lc rr))"

datatype conflict_reason = Modified | Deleted

record rrset_conflict =
  rc_name :: string
  rc_type :: string
  rc_reason :: conflict_reason
  rc_currentHash :: "string option"

record conflict_candidate =
  cc_name :: string
  cc_type :: string
  cc_expected :: "string option"

definition rrset_key :: "string \<Rightarrow> string \<Rightarrow> string" where
  "rrset_key name type = name @ ''|'' @ type"

definition detect_one :: "(string \<Rightarrow> string \<Rightarrow> int) \<Rightarrow> (string \<Rightarrow> string) \<Rightarrow>
    (string \<times> 'a rrset_scheme) list \<Rightarrow> conflict_candidate \<Rightarrow> rrset_conflict list" where
  "detect_one lc sha beforeMap change =
     (case cc_expected change of
        None \<Rightarrow> []
      | Some hash \<Rightarrow>
          (case map_of beforeMap (rrset_key (cc_name change) (cc_type change)) of
             None \<Rightarrow> [\<lparr>rc_name = cc_name change, rc_type = cc_type change, rc_reason = Deleted,
                       rc_currentHash = None\<rparr>]
           | Some live \<Rightarrow>
               (let liveHash = rrsetHash lc sha live in
                if liveHash \<noteq> hash
                then [\<lparr>rc_name = cc_name change, rc_type = cc_type change, rc_reason = Modified,
                       rc_currentHash = Some liveHash\<rparr>]
                else [])))"

definition detectRRsetConflicts :: "(string \<Rightarrow> string \<Rightarrow> int) \<Rightarrow> (string \<Rightarrow> string) \<Rightarrow>
    conflict_candidate list \<Rightarrow> (string \<times> 'a rrset_scheme) list \<Rightarrow> rrset_conflict list" where
  "detectRRsetConflicts lc sha changes beforeMap = concat (map (detect_one lc sha beforeMap) changes)"

subsection \<open>rrsets.ts\<close>

datatype changetype = REPLACE | DELETE | EXTEND | PRUNE

record rrset_patch =
  pt_name :: string
  pt_type :: string
  pt_ttl :: "nat option"
  pt_changetype :: changetype
  pt_records :: "rr_record list option"
  pt_comments :: "json list option"

definition ensureTrailingDot :: "string \<Rightarrow> thrown + string" where
  "ensureTrailingDot name =
     (let trimmed = js_trim name in
      if trimmed = [] then Inl (ErrorThrown ''RRset name cannot be empty.'')
      else Inr (if ends_with trimmed ''.'' then trimmed else trimmed @ ''.''))"

definition sbind :: "'e + 'a \<Rightarrow> ('a \<Rightarrow> 'e + 'b) \<Rightarrow> 'e + 'b" where
  "sbind x f = (case x of Inl e \<Rightarrow> Inl e | Inr a \<Rightarrow> f a)"

definition replaceRRset :: "string \<Rightarrow> string \<Rightarrow> nat \<Rightarrow> rr_record list \<Rightarrow> json list option \<Rightarrow>
    thrown + rrset_patch" where
  "replaceRRset name type ttl records comments =
     (if length records = 0
      then Inl (ErrorThrown ''replaceRRset requires at least one record. Use deleteRRset instead.'')
      else sbind (ensureTrailingDot name) (\<lambda>n.
        Inr \<lparr>pt_name = n, pt_type = js_upper type, pt_ttl = Some ttl, pt_changetype = REPLACE,
             pt_records = Some records,
             pt_comments = Some (case comments of Some cs \<Rightarrow> cs | None \<Rightarrow> [])\<rparr>))"

definition deleteRRset :: "string \<Rightarrow> string \<Rightarrow> thrown + rrset_patch" where
  "deleteRRset name type =
     sbind (ensureTrailingDot name) (\<lambda>n.
       Inr \<lparr>pt_name = n, pt_type = js_upper type, pt_ttl = None, pt_changetype = DELETE,
            pt_records = None, pt_comments = None\<rparr>)"

definition extendRRset :: "string \<Rightarrow> string \<Rightarrow> nat \<Rightarrow> rr_record list \<Rightarrow> thrown + rrset_patch" where
  "extendRRset name type ttl records =
     (if length records = 0
      then Inl (ErrorThrown ''extendRRset requires at least one record.'')
      else sbind (ensureTrailingDot name) (\<lambda>n.
        Inr \<lparr>pt_name = n, pt_type = js_upper type, pt_ttl = Some ttl, pt_changetype = EXTEND,
             pt_records = Some records, pt_comments = None\<rparr>))"

definition pruneRRset :: "string \<Rightarrow> string \<Rightarrow> nat \<Rightarrow> rr_record list \<Rightarrow> thrown + rrset_patch" where
  "pruneRRset name type ttl records =
     (if length records = 0
      then Inl (ErrorThrown ''pruneRRset requires at least one record to remove.'')
      else sbind (ensureTrailingDot name) (\<lambda>n.
        Inr \<lparr>pt_name = n, pt_type = js_upper type, pt_ttl = Some ttl, pt_changetype = PRUNE,
             pt_records = Some records, pt_comments = None\<rparr>))"

definition zonePatchBody :: "rrset_patch list \<Rightarrow> thrown + rrset_patch list" where
  "zonePatchBody patches =
     (if length patches = 0
      then Inl (ErrorThrown ''zonePatchBody requires at least one RRset patch.'') else Inr patches)"

subsection \<open>The canonical text determines the RRset\<close>

lemma hashed_json_inject: "hashed_json a @ x = hashed_json b @ y \<Longrightarrow> a = b \<and> x = y"
proof -
  assume "hashed_json a @ x = hashed_json b @ y"
  then have "json_string (fst a) @ ('',\"disabled\":'' @ json_bool (snd a) @ ''}'' @ x)
      = json_string (fst b) @ ('',\"disabled\":'' @ json_bool (snd b) @ ''}'' @ y)"
    by (simp add: hashed_json_def)
  from json_string_append_inject [OF this] have f: "fst a = fst b"
    and "json_bool (snd a) @ (''}'' @ x) = json_bool (snd b) @ (''}'' @ y)" by simp_all
  from json_bool_inject [OF this(2)] f show ?thesis by (simp add: prod_eq_iff)
qed

lemma hashed_json_hd: "\<exists>t. hashed_json a = CHR ''{'' # t"
  by (simp add: hashed_json_def)

lemma records_text_inject:
  "join '','' (map hashed_json xs) @ '']'' @ r = join '','' (map hashed_json ys) @ '']'' @ s \<Longrightarrow> xs = ys \<and> r = s"
proof (induction xs arbitrary: ys)
  case Nil
  show ?case
  proof (cases ys)
    case (Cons y ys')
    obtain t where "hashed_json y = CHR ''{'' # t" using hashed_json_hd by blast
    with Nil Cons show ?thesis by (cases ys') simp_all
  qed (use Nil in simp)
next
  case (Cons x xs)
  obtain t where t: "hashed_json x = CHR ''{'' # t" using hashed_json_hd by blast
  show ?case
  proof (cases ys)
    case Nil
    with Cons.prems t show ?thesis by (cases xs) simp_all
  next
    case y: (Cons y ys')
    let ?rest = "\<lambda>zs r. (if zs = [] then [] else '','' @ join '','' (map hashed_json zs)) @ '']'' @ r"
    have split: "join '','' (map hashed_json (z # zs)) @ '']'' @ r = hashed_json z @ ?rest zs r" for z zs r
      by (cases zs) simp_all
    from Cons.prems have "hashed_json x @ ?rest xs r = hashed_json y @ ?rest ys' s"
      unfolding y split .
    from hashed_json_inject [OF this] have xy: "x = y" and rest: "?rest xs r = ?rest ys' s" by auto
    show ?thesis
    proof (cases "xs = []"; cases "ys' = []")
      assume "xs \<noteq> []" "ys' \<noteq> []"
      with rest have "join '','' (map hashed_json xs) @ '']'' @ r = join '','' (map hashed_json ys') @ '']'' @ s"
        by simp
      from Cons.IH [OF this] xy y show ?thesis by simp
    qed (use rest xy y in auto)
  qed
qed

lemma canonical_text_eq:
  "canonical_rrset lc a = canonical_rrset lc b \<longleftrightarrow>
     js_lower (rs_name a) = js_lower (rs_name b) \<and> js_upper (rs_type a) = js_upper (rs_type b)
     \<and> rs_ttl a = rs_ttl b
     \<and> js_sort (hashed_compare lc) (map hashed (rs_records a)) = js_sort (hashed_compare lc) (map hashed (rs_records b))"
proof
  let ?recs = "\<lambda>a. js_sort (hashed_compare lc) (map hashed (rs_records a))"
  assume "canonical_rrset lc a = canonical_rrset lc b"
  then have "json_string (js_lower (rs_name a)) @ ('',\"type\":'' @ json_string (js_upper (rs_type a))
      @ '',\"ttl\":'' @ dec_of_nat (rs_ttl a) @ '',\"records\":['' @ join '','' (map hashed_json (?recs a)) @ '']}'')
    = json_string (js_lower (rs_name b)) @ ('',\"type\":'' @ json_string (js_upper (rs_type b))
      @ '',\"ttl\":'' @ dec_of_nat (rs_ttl b) @ '',\"records\":['' @ join '','' (map hashed_json (?recs b)) @ '']}'')"
    by (simp add: canonical_rrset_def)
  from json_string_append_inject [OF this] have n: "js_lower (rs_name a) = js_lower (rs_name b)"
    and "json_string (js_upper (rs_type a)) @ ('',\"ttl\":'' @ dec_of_nat (rs_ttl a) @ '',\"records\":['' @ join '','' (map hashed_json (?recs a)) @ '']}'')
    = json_string (js_upper (rs_type b)) @ ('',\"ttl\":'' @ dec_of_nat (rs_ttl b) @ '',\"records\":['' @ join '','' (map hashed_json (?recs b)) @ '']}'')"
    by simp_all
  from json_string_append_inject [OF this(2)] have t: "js_upper (rs_type a) = js_upper (rs_type b)"
    and d: "dec_of_nat (rs_ttl a) @ CHR '','' # (''\"records\":['' @ join '','' (map hashed_json (?recs a)) @ '']}'')
    = dec_of_nat (rs_ttl b) @ CHR '','' # (''\"records\":['' @ join '','' (map hashed_json (?recs b)) @ '']}'')"
    by simp_all
  have "CHR '','' \<notin> set (dec_of_nat n)" for n by (rule dec_no_char) (simp add: is_digit_def)
  with d have e: "dec_of_nat (rs_ttl a) = dec_of_nat (rs_ttl b)"
    and r: "join '','' (map hashed_json (?recs a)) @ '']'' @ ''}'' = join '','' (map hashed_json (?recs b)) @ '']'' @ ''}''"
    by (auto simp: append_sep_eq)
  from records_text_inject [OF r] dec_of_nat_inject [OF e] n t
  show "js_lower (rs_name a) = js_lower (rs_name b) \<and> js_upper (rs_type a) = js_upper (rs_type b)
     \<and> rs_ttl a = rs_ttl b \<and> ?recs a = ?recs b" by simp
qed (simp add: canonical_rrset_def)

subsection \<open>Collations\<close>

text \<open>
  What the canonical form needs of \<open>localeCompare\<close>: that it is a linear order of the contents.
\<close>

locale collation = comparison lc
  for lc :: "string \<Rightarrow> string \<Rightarrow> int"
begin

lemma lc_strict: "a \<noteq> b \<Longrightarrow> lc a b \<le> 0 \<longleftrightarrow> \<not> lc b a \<le> 0"
  using cmp_total cmp_antisym by blast

lemma hashed_total: "hashed_compare lc x y \<le> 0 \<or> hashed_compare lc y x \<le> 0"
  using cmp_total [of "fst x" "fst y"] by (cases "fst x = fst y") (simp_all add: hashed_compare_def)

lemma hashed_antisym:
  assumes "hashed_compare lc x y \<le> 0" "hashed_compare lc y x \<le> 0"
  shows "x = y"
proof (cases "fst x = fst y")
  case True
  with assms show ?thesis by (auto simp: hashed_compare_def prod_eq_iff split: if_splits)
next
  case False
  with assms have "lc (fst x) (fst y) \<le> 0" "lc (fst y) (fst x) \<le> 0"
    by (simp_all add: hashed_compare_def)
  with False cmp_antisym show ?thesis by blast
qed

lemma hashed_trans:
  "hashed_compare lc x y \<le> 0 \<Longrightarrow> hashed_compare lc y z \<le> 0 \<Longrightarrow> hashed_compare lc x z \<le> 0"
proof -
  assume xy: "hashed_compare lc x y \<le> 0" and yz: "hashed_compare lc y z \<le> 0"
  show ?thesis
  proof (cases "fst x = fst z")
    case True
    show ?thesis
    proof (cases "fst x = fst y")
      case same: True
      with xy yz True show ?thesis by (auto simp: hashed_compare_def split: if_splits)
    next
      case False
      with xy yz True lc_strict [of "fst x" "fst y"] show ?thesis by (simp add: hashed_compare_def)
    qed
  next
    case False
    have "lc (fst x) (fst z) \<le> 0"
    proof (cases "fst x = fst y \<or> fst y = fst z")
      case True
      with xy yz False show ?thesis by (auto simp: hashed_compare_def)
    next
      case ne: False
      with xy yz have "lc (fst x) (fst y) \<le> 0" "lc (fst y) (fst z) \<le> 0"
        by (simp_all add: hashed_compare_def)
      then show ?thesis by (rule cmp_trans)
    qed
    with False show ?thesis by (simp add: hashed_compare_def)
  qed
qed

end

sublocale collation \<subseteq> hashed: comparison "hashed_compare lc"
  by unfold_locales (use hashed_total hashed_trans hashed_antisym in blast)+

text \<open>Two RRsets that say the same thing.\<close>

definition same_rrset :: "'a rrset_scheme \<Rightarrow> 'b rrset_scheme \<Rightarrow> bool" where
  "same_rrset a b \<longleftrightarrow> js_lower (rs_name a) = js_lower (rs_name b)
     \<and> js_upper (rs_type a) = js_upper (rs_type b) \<and> rs_ttl a = rs_ttl b
     \<and> mset (map (\<lambda>r. (rr_content r, rr_disabled r = Some True)) (rs_records a))
         = mset (map (\<lambda>r. (rr_content r, rr_disabled r = Some True)) (rs_records b))"

lemma same_rrset_hashed:
  "same_rrset a b \<longleftrightarrow> js_lower (rs_name a) = js_lower (rs_name b)
     \<and> js_upper (rs_type a) = js_upper (rs_type b) \<and> rs_ttl a = rs_ttl b
     \<and> mset (map hashed (rs_records a)) = mset (map hashed (rs_records b))"
proof -
  have "hashed = (\<lambda>r. (rr_content r, rr_disabled r = Some True))" by (rule ext) (rule hashed_def)
  then show ?thesis by (simp add: same_rrset_def)
qed

context collation
begin

lemma canonical_same: "canonical_rrset lc a = canonical_rrset lc b \<longleftrightarrow> same_rrset a b"
  unfolding canonical_text_eq same_rrset_hashed hashed.js_sort_unique by (rule refl)

lemma hash_same: "same_rrset a b \<Longrightarrow> rrsetHash lc sha a = rrsetHash lc sha b"
  by (simp add: rrsetHash_def flip: canonical_same)

end

text \<open>The order of code units is a collation; it is the comparison of the default \<open>sort\<close>.\<close>

interpretation unit_order: collation unit_compare
  by unfold_locales


definition demo_rrset :: "string list \<Rightarrow> bool option \<Rightarrow> rrset" where
  "demo_rrset contents dis = \<lparr>rs_name = ''www.Example.'', rs_type = ''a'', rs_ttl = 300,
     rs_records = map (\<lambda>c. \<lparr>rr_content = c, rr_disabled = dis\<rparr>) contents\<rparr>"


text \<open>
  The hash depends on the linearity of \<open>localeCompare\<close>: where it calls two distinct contents
  equal (as the default collation does for contents that differ in ignorable characters), the
  canonical text of an RRset holding both depends on the order its records come in.
\<close>

theorem rrsetHash_tie_order:
  assumes "lc a b = 0" "lc b a = 0" "a \<noteq> b"
    and "rs_records rr = [\<lparr>rr_content = a, rr_disabled = d\<rparr>, \<lparr>rr_content = b, rr_disabled = d\<rparr>]"
  shows "same_rrset rr (rr\<lparr>rs_records := rev (rs_records rr)\<rparr>)
    \<and> canonical_rrset lc rr \<noteq> canonical_rrset lc (rr\<lparr>rs_records := rev (rs_records rr)\<rparr>)"
  using assms by (simp add: same_rrset_def canonical_text_eq js_sort_def hashed_compare_def hashed_def)

theorem rrsetHash_tie_order_witness:
  "canonical_rrset (\<lambda>_ _. 0) (demo_rrset [''a'', ''b''] None) \<noteq> canonical_rrset (\<lambda>_ _. 0) (demo_rrset [''b'', ''a''] None)"
  using rrsetHash_tie_order [of "\<lambda>_ _. 0" "''a''" "''b''" "demo_rrset [''a'', ''b''] None" None]
  by (simp add: demo_rrset_def)

subsection \<open>Conflicts\<close>

definition unchanged_since :: "(string \<Rightarrow> string \<Rightarrow> int) \<Rightarrow> (string \<Rightarrow> string) \<Rightarrow>
    (string \<times> 'a rrset_scheme) list \<Rightarrow> conflict_candidate \<Rightarrow> bool" where
  "unchanged_since lc sha beforeMap change \<longleftrightarrow>
     (\<forall>hash. cc_expected change = Some hash \<longrightarrow>
        (\<exists>live. map_of beforeMap (rrset_key (cc_name change) (cc_type change)) = Some live
           \<and> rrsetHash lc sha live = hash))"

lemma detect_one_Nil: "detect_one lc sha beforeMap c = [] \<longleftrightarrow> unchanged_since lc sha beforeMap c"
  by (cases "cc_expected c"; cases "map_of beforeMap (rrset_key (cc_name c) (cc_type c))")
    (simp_all add: detect_one_def unchanged_since_def Let_def)

lemma no_conflicts_iff:
  "detectRRsetConflicts lc sha changes beforeMap = [] \<longleftrightarrow>
     (\<forall>c \<in> set changes. unchanged_since lc sha beforeMap c)"
  by (simp add: detectRRsetConflicts_def detect_one_Nil)

subsection \<open>Patches\<close>

lemma sbind_Inr: "sbind x f = Inr b \<longleftrightarrow> (\<exists>a. x = Inr a \<and> f a = Inr b)"
  by (cases x) (simp_all add: sbind_def)

lemma sbind_simps [simp]: "sbind (Inl e) f = Inl e" "sbind (Inr a) f = f a"
  by (simp_all add: sbind_def)

lemma ensureTrailingDot_dotted: "js_trim n = n \<Longrightarrow> ends_with n ''.'' \<Longrightarrow> ensureTrailingDot n = Inr n"
  by (auto simp: ensureTrailingDot_def Let_def ends_with_dot)

lemma ensureTrailingDot_Inr: "ensureTrailingDot n = Inr m \<Longrightarrow> m \<noteq> [] \<and> ends_with m ''.''"
  by (auto simp: ensureTrailingDot_def Let_def ends_with_dot split: if_splits)

end
