(* ===== verification/ZonePermissions.thy ===== *)
theory ZonePermissions
  imports Ability ZoneNames
begin

section \<open>May this user do this on this zone?\<close>

text \<open>
  Models \<open>lib/rbac/zone-permissions.ts\<close>, \<open>lib/rbac/protected-rrsets.ts\<close> and
  \<open>lib/rbac/nav-access.ts\<close>.  A JavaScript \<open>Set\<close> is the list of its elements in insertion
  order, a \<open>Map\<close> an association list.
\<close>

subsection \<open>Grants\<close>

record zone_grant =
  zg_serverId :: string
  zg_zoneName :: string
  zg_permissions :: "string list"

definition effectiveZonePermissions :: "zone_grant list \<Rightarrow> string \<Rightarrow> string \<Rightarrow> string list" where
  "effectiveZonePermissions grants serverId zoneName =
     foldl (\<lambda>out g. if zg_serverId g \<noteq> serverId then out
              else if zg_zoneName g \<noteq> zoneName then out
              else foldl (\<lambda>s p. jset_add p s) out (zg_permissions g)) [] grants"

fun hasZonePermissionViaGrant :: "zone_grant list \<Rightarrow> string \<Rightarrow> string \<Rightarrow> string \<Rightarrow> bool" where
  "hasZonePermissionViaGrant [] serverId zoneName permission = False"
| "hasZonePermissionViaGrant (g # gs) serverId zoneName permission =
     (if zg_serverId g \<noteq> serverId then hasZonePermissionViaGrant gs serverId zoneName permission
      else if zg_zoneName g \<noteq> zoneName then hasZonePermissionViaGrant gs serverId zoneName permission
      else if permission \<in> set (zg_permissions g) then True
      else hasZonePermissionViaGrant gs serverId zoneName permission)"

subsection \<open>Zone-scoped roles\<close>

definition isZoneScopablePermission :: "string \<Rightarrow> bool" where
  "isZoneScopablePermission permission \<longleftrightarrow>
     (if permission = ''zone.create'' then False
      else resource_in [''zone'', ''record'', ''soa'', ''dnssec'', ''metadata''] permission)"

type_synonym scoped_map = "(string \<times> string list) list"

definition scoped_add :: "string \<Rightarrow> scoped_map \<Rightarrow> string \<Rightarrow> scoped_map" where
  "scoped_add zone out p =
     (if \<not> isZoneScopablePermission p then out
      else AList.update zone (jset_add p (case map_of out zone of Some s \<Rightarrow> s | None \<Rightarrow> [])) out)"

definition scoped_step :: "scoped_map \<Rightarrow> ability_source \<Rightarrow> scoped_map" where
  "scoped_step out src =
     (if as_scope src \<noteq> ZoneScope then out
      else case as_scopeId src of
        None \<Rightarrow> out
      | Some i \<Rightarrow>
          let zone = canonicalZoneName i in
          if zone = [] then out else foldl (scoped_add zone) out (as_permissions src))"

definition zoneScopedPermissionsOf :: "ability_source list \<Rightarrow> scoped_map" where
  "zoneScopedPermissionsOf sources = foldl scoped_step [] sources"

record zone_access =
  globalPermissions :: "string list"
  zoneGrants :: "zone_grant list"
  zoneScopedPermissions :: scoped_map

definition hasZoneScopedPermission :: "'a zone_access_scheme \<Rightarrow> string \<Rightarrow> string \<Rightarrow> bool" where
  "hasZoneScopedPermission access zoneName permission \<longleftrightarrow>
     (if \<not> isZoneScopablePermission permission then False
      else case map_of (zoneScopedPermissions access) (canonicalZoneName zoneName) of
        None \<Rightarrow> False
      | Some s \<Rightarrow> permission \<in> set s)"

definition canActOnZone :: "'a zone_access_scheme \<Rightarrow> string \<Rightarrow> string \<Rightarrow> string \<Rightarrow> bool" where
  "canActOnZone access serverId zoneName permission \<longleftrightarrow>
     (if permission \<in> set (globalPermissions access) then True
      else if hasZonePermissionViaGrant (zoneGrants access) serverId zoneName permission then True
      else hasZoneScopedPermission access zoneName permission)"

subsection \<open>Lists, the wizard and the navigation\<close>

datatype zone_filter = AllZones | OnlyZones "string list"

definition listableZoneFilter :: "'a zone_access_scheme \<Rightarrow> zone_filter" where
  "listableZoneFilter access =
     (if ''zone.read'' \<in> set (globalPermissions access) then AllZones
      else
        (let names = foldl (\<lambda>s g. jset_add (canonicalZoneName (zg_zoneName g)) s) [] (zoneGrants access)
         in OnlyZones (foldl (\<lambda>s zone. if hasZoneScopedPermission access zone ''zone.read''
                                then jset_add zone s else s)
              names (map fst (zoneScopedPermissions access)))))"

definition zoneIsListable :: "zone_filter \<Rightarrow> string \<Rightarrow> bool" where
  "zoneIsListable flt zoneName \<longleftrightarrow>
     (case flt of AllZones \<Rightarrow> True | OnlyZones names \<Rightarrow> canonicalZoneName zoneName \<in> set names)"

definition canListZones :: "'a zone_access_scheme \<Rightarrow> bool" where
  "canListZones access \<longleftrightarrow>
     (case listableZoneFilter access of AllZones \<Rightarrow> True | OnlyZones names \<Rightarrow> length names > 0)"

definition holdsOnSomeZone :: "'a zone_access_scheme \<Rightarrow> (string \<Rightarrow> bool) \<Rightarrow> bool" where
  "holdsOnSomeZone access matches \<longleftrightarrow>
     list_ex (\<lambda>g. list_ex matches (zg_permissions g)) (zoneGrants access)
     \<or> list_ex (\<lambda>zp. list_ex matches (snd zp)) (zoneScopedPermissions access)"

definition canUseRecordWizard :: "'a zone_access_scheme \<Rightarrow> bool" where
  "canUseRecordWizard access \<longleftrightarrow>
     ''record.create'' \<in> set (globalPermissions access)
     \<or> holdsOnSomeZone access (\<lambda>p. p = ''record.create'')"

definition expandGrantsAcrossClusters :: "zone_grant list \<Rightarrow> (string \<times> string list) list \<Rightarrow>
    zone_grant list" where
  "expandGrantsAcrossClusters grants equivalent =
     concat (map (\<lambda>g.
       case map_of equivalent (zg_serverId g) of
         None \<Rightarrow> [g]
       | Some peers \<Rightarrow>
           if length peers = 0 then [g]
           else map (\<lambda>peerId. if peerId = zg_serverId g then g else g\<lparr>zg_serverId := peerId\<rparr>) peers)
       grants)"

record nav_input = zone_access +
  canReadAnyTeam :: bool
  feature_reverseDns :: bool
  feature_zoneMonitoring :: bool

record nav_access =
  nav_zones :: bool
  nav_reverseDns :: bool
  nav_zoneMonitoring :: bool
  nav_addRecord :: bool
  nav_servers :: bool
  nav_autoprimaries :: bool
  nav_zoneTemplates :: bool
  nav_importExport :: bool
  nav_tsigKeys :: bool
  nav_requestLog :: bool
  nav_changeLog :: bool
  nav_users :: bool
  nav_teams :: bool
  nav_roles :: bool
  nav_authentication :: bool
  nav_audit :: bool
  nav_settings :: bool

definition navAccessOf :: "nav_input \<Rightarrow> nav_access" where
  "navAccessOf input =
     (let global = (\<lambda>p. p \<in> set (globalPermissions input)) in
      \<lparr>nav_zones = canListZones input,
       nav_reverseDns = feature_reverseDns input \<and> global ''record.read'',
       nav_zoneMonitoring = feature_zoneMonitoring input \<and> global ''zone.read'',
       nav_addRecord = canUseRecordWizard input,
       nav_servers = global ''server.read'',
       nav_autoprimaries = global ''autoprimary.manage'',
       nav_zoneTemplates = global ''template.use'',
       nav_importExport = global ''zone.read'',
       nav_tsigKeys = global ''tsig.read'',
       nav_requestLog = global ''audit.read'',
       nav_changeLog = global ''audit.read'',
       nav_users = global ''user.read'',
       nav_teams = canReadAnyTeam input,
       nav_roles = global ''role.read'',
       nav_authentication = global ''auth.read'',
       nav_audit = global ''audit.read'',
       nav_settings = global ''settings.read''\<rparr>)"

subsection \<open>protected-rrsets.ts\<close>

definition isZoneApex :: "string \<Rightarrow> string \<Rightarrow> bool" where
  "isZoneApex name zoneName \<longleftrightarrow>
     (let trimmed = js_trim name in
      if trimmed = [] \<or> trimmed = ''@'' then True
      else canonicalZoneName trimmed = canonicalZoneName zoneName)"

definition protectedRRsetPermission :: "string \<Rightarrow> string \<Rightarrow> string \<Rightarrow> string option" where
  "protectedRRsetPermission name type zoneName =
     (let upperType = js_upper (js_trim type) in
      if upperType = ''SOA'' then Some ''soa.update''
      else if upperType = ''NS'' \<and> isZoneApex name zoneName then Some ''record.update.apex-ns''
      else None)"

subsection \<open>The three sources of zone access\<close>

lemma via_grant_iff:
  "hasZonePermissionViaGrant grants s z p \<longleftrightarrow>
     (\<exists>g \<in> set grants. zg_serverId g = s \<and> zg_zoneName g = z \<and> p \<in> set (zg_permissions g))"
  by (induction grants) auto

lemma effective_iff: "p \<in> set (effectiveZonePermissions grants s z) \<longleftrightarrow> hasZonePermissionViaGrant grants s z p"
proof -
  have "p \<in> set (foldl (\<lambda>out g. if zg_serverId g \<noteq> s then out
              else if zg_zoneName g \<noteq> z then out
              else foldl (\<lambda>s p. jset_add p s) out (zg_permissions g)) out grants)
      \<longleftrightarrow> p \<in> set out \<or> hasZonePermissionViaGrant grants s z p" for out
    by (induction grants arbitrary: out) (auto simp: set_foldl_jset_add)
  then show ?thesis by (simp add: effectiveZonePermissions_def)
qed

definition carries :: "scoped_map \<Rightarrow> string \<Rightarrow> string \<Rightarrow> bool" where
  "carries m zone p \<longleftrightarrow> (\<exists>ps. map_of m zone = Some ps \<and> p \<in> set ps)"

lemma carries_Nil [simp]: "\<not> carries [] zone p"
  by (simp add: carries_def)

lemma carries_add:
  "carries (scoped_add zone out q) z p \<longleftrightarrow>
     carries out z p \<or> isZoneScopablePermission q \<and> z = zone \<and> p = q"
  by (cases "map_of out zone") (auto simp: carries_def scoped_add_def map_of_update)

lemma carries_fold_add:
  "carries (foldl (scoped_add zone) out qs) z p \<longleftrightarrow>
     carries out z p \<or> isZoneScopablePermission p \<and> z = zone \<and> p \<in> set qs"
  by (induction qs arbitrary: out) (auto simp: carries_add)

definition source_carries :: "ability_source \<Rightarrow> string \<Rightarrow> string \<Rightarrow> bool" where
  "source_carries src zone p \<longleftrightarrow>
     as_scope src = ZoneScope \<and> p \<in> set (as_permissions src) \<and> isZoneScopablePermission p
     \<and> (\<exists>i. as_scopeId src = Some i \<and> canonicalZoneName i = zone \<and> zone \<noteq> [])"

lemma carries_step: "carries (scoped_step out src) z p \<longleftrightarrow> carries out z p \<or> source_carries src z p"
  by (auto simp: scoped_step_def Let_def source_carries_def carries_fold_add split: option.splits)

lemma carries_of: "carries (zoneScopedPermissionsOf sources) z p \<longleftrightarrow> (\<exists>src \<in> set sources. source_carries src z p)"
proof -
  have "carries (foldl scoped_step out sources) z p \<longleftrightarrow>
      carries out z p \<or> (\<exists>src \<in> set sources. source_carries src z p)" for out
    by (induction sources arbitrary: out) (auto simp: carries_step)
  then show ?thesis by (simp add: zoneScopedPermissionsOf_def)
qed

lemma hasZoneScoped_iff:
  "hasZoneScopedPermission access z p \<longleftrightarrow>
     isZoneScopablePermission p \<and> carries (zoneScopedPermissions access) (canonicalZoneName z) p"
  by (auto simp: hasZoneScopedPermission_def carries_def split: option.splits)

lemma canAct_iff:
  "canActOnZone access s z p \<longleftrightarrow> p \<in> set (globalPermissions access)
     \<or> hasZonePermissionViaGrant (zoneGrants access) s z p \<or> hasZoneScopedPermission access z p"
  by (simp add: canActOnZone_def)

text \<open>The access of a caller, as the request context builds it from assignments and grants.\<close>

definition access_of :: "ability_source list \<Rightarrow> zone_grant list \<Rightarrow> zone_access" where
  "access_of sources grants =
     \<lparr>globalPermissions = globalPermissionsOf sources, zoneGrants = grants,
      zoneScopedPermissions = zoneScopedPermissionsOf sources\<rparr>"

lemma access_of_sel [simp]:
  "globalPermissions (access_of sources grants) = globalPermissionsOf sources"
  "zoneGrants (access_of sources grants) = grants"
  "zoneScopedPermissions (access_of sources grants) = zoneScopedPermissionsOf sources"
  by (simp_all add: access_of_def)

text \<open>
  C10. The whole of zone authorization: a caller may do something on a zone of a server exactly
  when a global assignment carries the permission, or a grant on that very server and zone does,
  or an assignment scoped to a zone of that name, in any spelling, carries it and it is one that
  a zone scope may carry.
\<close>

theorem canActOnZone_sources:
  "canActOnZone (access_of sources grants) serverId zoneName p \<longleftrightarrow>
     (\<exists>src \<in> set sources. as_scope src = GlobalScope \<and> p \<in> set (as_permissions src))
     \<or> (\<exists>g \<in> set grants. zg_serverId g = serverId \<and> zg_zoneName g = zoneName \<and> p \<in> set (zg_permissions g))
     \<or> (\<exists>src \<in> set sources. \<exists>i. as_scope src = ZoneScope \<and> as_scopeId src = Some i
          \<and> canonicalZoneName i = canonicalZoneName zoneName \<and> canonicalZoneName zoneName \<noteq> []
          \<and> p \<in> set (as_permissions src) \<and> isZoneScopablePermission p)"
proof -
  have "p \<in> set (globalPermissionsOf sources) \<longleftrightarrow>
      (\<exists>src \<in> set sources. as_scope src = GlobalScope \<and> p \<in> set (as_permissions src))"
    by (auto simp: set_globalPermissionsOf)
  then show ?thesis
    by (simp add: canAct_iff via_grant_iff hasZoneScoped_iff carries_of)
      (auto simp: source_carries_def)
qed

text \<open>
  Containment: a caller with neither a global assignment nor a grant can act only on zones
  his zone-scoped assignments name, and only with zone-bound permissions: never to create a zone,
  and never with a permission on TSIG keys, users, roles, servers, settings or the audit log.
\<close>

theorem zone_scope_contained:
  assumes "\<forall>src \<in> set sources. as_scope src \<noteq> GlobalScope"
    and "canActOnZone (access_of sources []) serverId zoneName p"
  shows "p \<noteq> ''zone.create'' \<and> resource_in [''zone'', ''record'', ''soa'', ''dnssec'', ''metadata''] p
    \<and> (\<exists>src \<in> set sources. as_scope src = ZoneScope
         \<and> map_option canonicalZoneName (as_scopeId src) = Some (canonicalZoneName zoneName))
    \<and> globalPermissionsOf sources = []"
proof -
  have g: "set (globalPermissionsOf sources) = {}"
    using assms(1) by (auto simp: set_globalPermissionsOf)
  then have "hasZoneScopedPermission (access_of sources []) zoneName p"
    using assms(2) by (simp add: canAct_iff)
  then show ?thesis
    using g by (auto simp: hasZoneScoped_iff carries_of source_carries_def isZoneScopablePermission_def
        split: if_splits)
qed

definition demo_scoped :: "ability_source list" where
  "demo_scoped = [\<lparr>as_permissions = OPERATOR, as_scope = ZoneScope, as_scopeId = Some ''Example.COM''\<rparr>]"

theorem zone_scope_contained_witness:
  "globalPermissionsOf demo_scoped = [] \<and> canActOnZone (access_of demo_scoped []) ''s1'' ''example.com.'' ''record.update''"
proof -
  have c: "canActOnZone (access_of demo_scoped []) ''s1'' ''example.com.'' ''record.update''"
    by code_simp
  with zone_scope_contained [OF _ c] show ?thesis by (simp add: demo_scoped_def)
qed

subsection \<open>Lists and offers agree with the check\<close>

lemma names_fold:
  "set (foldl (\<lambda>s zone. if P zone then jset_add zone s else s) out zs) = set out \<union> {z \<in> set zs. P z}"
  by (induction zs arbitrary: out) auto

lemma grant_names_fold:
  "set (foldl (\<lambda>s g. jset_add (f g) s) out gs) = set out \<union> f ` set gs"
  by (induction gs arbitrary: out) auto

lemma listable_iff:
  "zoneIsListable (listableZoneFilter access) z \<longleftrightarrow>
     ''zone.read'' \<in> set (globalPermissions access)
     \<or> (\<exists>g \<in> set (zoneGrants access). canonicalZoneName (zg_zoneName g) = canonicalZoneName z)
     \<or> (canonicalZoneName z \<in> fst ` set (zoneScopedPermissions access)
        \<and> hasZoneScopedPermission access (canonicalZoneName z) ''zone.read'')"
  by (simp add: listableZoneFilter_def zoneIsListable_def Let_def names_fold grant_names_fold
      image_iff) metis

lemma carries_dom: "carries m z p \<Longrightarrow> z \<in> fst ` set m"
  by (force simp: carries_def dest: map_of_SomeD)

lemma scoped_canonical:
  "hasZoneScopedPermission access (canonicalZoneName z) p = hasZoneScopedPermission access z p"
  by (simp add: hasZoneScoped_iff zname.canon_idem)

lemma readable_is_listed:
  "canActOnZone access s z ''zone.read'' \<Longrightarrow> zoneIsListable (listableZoneFilter access) z"
  by (auto simp: listable_iff canAct_iff via_grant_iff scoped_canonical)
    (auto simp: hasZoneScoped_iff dest: carries_dom)

definition scoped_ok :: "scoped_map \<Rightarrow> bool" where
  "scoped_ok m \<longleftrightarrow> distinct (map fst m)
     \<and> (\<forall>zp \<in> set m. canonicalZoneName (fst zp) = fst zp \<and> fst zp \<noteq> [])"

lemma scoped_add_ok:
  assumes "scoped_ok out" "canonicalZoneName zone = zone" "zone \<noteq> []"
  shows "scoped_ok (scoped_add zone out q)"
proof -
  have "scoped_ok (AList.update zone v out)" for v
  proof -
    have "distinct (map fst (AList.update zone v out))"
      using assms(1) by (intro distinct_update) (simp add: scoped_ok_def)
    moreover have "canonicalZoneName (fst zp) = fst zp \<and> fst zp \<noteq> []"
      if "zp \<in> set (AList.update zone v out)" for zp
    proof -
      have "fst zp \<in> fst ` set (AList.update zone v out)" using that by (rule imageI)
      then have "fst zp = zone \<or> fst zp \<in> fst ` set out" by (simp add: dom_update)
      then show ?thesis
      proof
        assume "fst zp \<in> fst ` set out"
        then obtain zq where "zq \<in> set out" "fst zp = fst zq" by (rule imageE)
        then show ?thesis using assms(1) by (simp add: scoped_ok_def)
      qed (use assms in simp)
    qed
    ultimately show ?thesis by (simp add: scoped_ok_def)
  qed
  then show ?thesis using assms(1) by (simp add: scoped_add_def)
qed

lemma scoped_of_ok: "scoped_ok (zoneScopedPermissionsOf sources)"
proof -
  have f: "scoped_ok (foldl (scoped_add zone) out qs)"
    if "scoped_ok out" "canonicalZoneName zone = zone" "zone \<noteq> []" for zone out qs
    using that by (induction qs arbitrary: out) (auto intro: scoped_add_ok)
  have "scoped_ok (scoped_step out src)" if "scoped_ok out" for out src
    using that f by (auto simp: scoped_step_def Let_def split: option.split)
  then have "scoped_ok (foldl scoped_step out sources)" if "scoped_ok out" for out
    using that by (induction sources arbitrary: out) auto
  from this [of "[]"] show ?thesis by (simp add: zoneScopedPermissionsOf_def scoped_ok_def)
qed

lemma list_iff_some_listable:
  assumes "\<forall>zp \<in> set (zoneScopedPermissions access). canonicalZoneName (fst zp) = fst zp"
  shows "canListZones access \<longleftrightarrow> (\<exists>z. zoneIsListable (listableZoneFilter access) z)"
proof (cases "listableZoneFilter access")
  case AllZones
  then show ?thesis by (simp add: canListZones_def zoneIsListable_def)
next
  case (OnlyZones ns)
  then have e: "ns = foldl (\<lambda>s zone. if hasZoneScopedPermission access zone ''zone.read''
                                then jset_add zone s else s)
      (foldl (\<lambda>s g. jset_add (canonicalZoneName (zg_zoneName g)) s) [] (zoneGrants access))
      (map fst (zoneScopedPermissions access))"
    by (simp add: listableZoneFilter_def Let_def split: if_splits)
  have ns: "set ns = (\<lambda>g. canonicalZoneName (zg_zoneName g)) ` set (zoneGrants access)
      \<union> {z \<in> fst ` set (zoneScopedPermissions access). hasZoneScopedPermission access z ''zone.read''}"
    unfolding e names_fold grant_names_fold by simp
  have "canonicalZoneName n = n" if "n \<in> set ns" for n
    using that assms unfolding ns by (auto simp: zname.canon_idem)
  then have "(\<exists>z. canonicalZoneName z \<in> set ns) \<longleftrightarrow> (\<exists>n. n \<in> set ns)" by metis
  then show ?thesis
    by (cases ns) (auto simp: OnlyZones canListZones_def zoneIsListable_def)
qed

lemma wizard_iff:
  "canUseRecordWizard (access_of sources grants) \<longleftrightarrow>
     (\<exists>s z. canActOnZone (access_of sources grants) s z ''record.create'')"
proof -
  let ?m = "zoneScopedPermissionsOf sources"
  have sc: "isZoneScopablePermission ''record.create''" by code_simp
  have d: "distinct (map fst ?m)" and c: "\<forall>zp \<in> set ?m. canonicalZoneName (fst zp) = fst zp"
    using scoped_of_ok by (simp_all add: scoped_ok_def)
  have "(\<exists>zp \<in> set ?m. p \<in> set (snd zp)) \<longleftrightarrow> (\<exists>z. carries ?m (canonicalZoneName z) p)" for p
  proof
    assume "\<exists>zp \<in> set ?m. p \<in> set (snd zp)"
    then obtain z ps where "(z, ps) \<in> set ?m" "p \<in> set ps" by auto
    with d have "carries ?m z p" by (auto simp: carries_def)
    moreover have "canonicalZoneName z = z" using c \<open>(z, ps) \<in> set ?m\<close> by force
    ultimately show "\<exists>z. carries ?m (canonicalZoneName z) p" by metis
  next
    assume "\<exists>z. carries ?m (canonicalZoneName z) p"
    then show "\<exists>zp \<in> set ?m. p \<in> set (snd zp)" by (force simp: carries_def dest: map_of_SomeD)
  qed
  then show ?thesis
    using sc by (auto simp: canUseRecordWizard_def holdsOnSomeZone_def list_ex_iff canAct_iff
        via_grant_iff hasZoneScoped_iff)
qed

text \<open>
  What the app offers agrees with what it allows: every zone a caller may read passes the
  filter of the zones list, the list page is offered exactly when some zone passes, and the
  record wizard exactly when there is a zone on which the caller may create a record.
\<close>

theorem offers_agree_with_checks:
  "(\<forall>s z. canActOnZone (access_of sources grants) s z ''zone.read'' \<longrightarrow>
      zoneIsListable (listableZoneFilter (access_of sources grants)) z)
   \<and> (canListZones (access_of sources grants) \<longleftrightarrow>
        (\<exists>z. zoneIsListable (listableZoneFilter (access_of sources grants)) z))
   \<and> (canUseRecordWizard (access_of sources grants) \<longleftrightarrow>
        (\<exists>s z. canActOnZone (access_of sources grants) s z ''record.create''))"
proof (intro conjI)
  show "canListZones (access_of sources grants) \<longleftrightarrow>
      (\<exists>z. zoneIsListable (listableZoneFilter (access_of sources grants)) z)"
    by (rule list_iff_some_listable) (use scoped_of_ok in \<open>simp add: scoped_ok_def\<close>)
qed (use readable_is_listed wizard_iff in blast)+

theorem offers_agree_with_checks_witness:
  "zoneIsListable (listableZoneFilter (access_of demo_scoped [])) ''EXAMPLE.com''"
proof -
  have "canActOnZone (access_of demo_scoped []) ''s1'' ''EXAMPLE.com'' ''zone.read''" by code_simp
  with offers_agree_with_checks [of demo_scoped "[]"] show ?thesis by blast
qed

lemma nav_contained:
  assumes "globalPermissions input = []"
  shows "\<not> nav_servers (navAccessOf input) \<and> \<not> nav_users (navAccessOf input)
    \<and> \<not> nav_roles (navAccessOf input) \<and> \<not> nav_audit (navAccessOf input)
    \<and> \<not> nav_settings (navAccessOf input) \<and> \<not> nav_tsigKeys (navAccessOf input)
    \<and> \<not> nav_authentication (navAccessOf input)"
  using assms by (simp add: navAccessOf_def Let_def)

subsection \<open>Grants across cluster peers\<close>

definition peers_of :: "(string \<times> string list) list \<Rightarrow> string \<Rightarrow> string set" where
  "peers_of equivalent s = (case map_of equivalent s of
     None \<Rightarrow> {s} | Some peers \<Rightarrow> if peers = [] then {s} else set peers)"

lemma via_expanded_iff:
  "hasZonePermissionViaGrant (expandGrantsAcrossClusters grants equivalent) s z p \<longleftrightarrow>
     (\<exists>g \<in> set grants. s \<in> peers_of equivalent (zg_serverId g)
        \<and> hasZonePermissionViaGrant [g] (zg_serverId g) z p)"
proof -
  let ?e = "\<lambda>g. case map_of equivalent (zg_serverId g) of
         None \<Rightarrow> [g]
       | Some peers \<Rightarrow>
           if length peers = 0 then [g]
           else map (\<lambda>peerId. if peerId = zg_serverId g then g else g\<lparr>zg_serverId := peerId\<rparr>) peers"
  have one: "(\<exists>h \<in> set (?e g). zg_serverId h = s \<and> zg_zoneName h = z \<and> p \<in> set (zg_permissions h))
      \<longleftrightarrow> s \<in> peers_of equivalent (zg_serverId g) \<and> zg_zoneName g = z \<and> p \<in> set (zg_permissions g)" for g
  proof (cases "map_of equivalent (zg_serverId g)")
    case (Some peers)
    let ?f = "\<lambda>k. if k = zg_serverId g then g else g\<lparr>zg_serverId := k\<rparr>"
    have f: "zg_serverId (?f k) = s \<and> zg_zoneName (?f k) = z \<and> p \<in> set (zg_permissions (?f k))
        \<longleftrightarrow> k = s \<and> zg_zoneName g = z \<and> p \<in> set (zg_permissions g)" for k by simp
    have "(\<exists>h \<in> set (map ?f peers). zg_serverId h = s \<and> zg_zoneName h = z \<and> p \<in> set (zg_permissions h))
        \<longleftrightarrow> s \<in> set peers \<and> zg_zoneName g = z \<and> p \<in> set (zg_permissions g)"
      unfolding set_map bex_simps(7) f by blast
    then show ?thesis using Some by (cases "peers = []") (auto simp add: peers_of_def simp del: set_map)
  qed (auto simp: peers_of_def)
  have "hasZonePermissionViaGrant (expandGrantsAcrossClusters grants equivalent) s z p \<longleftrightarrow>
      (\<exists>g \<in> set grants. \<exists>h \<in> set (?e g). zg_serverId h = s \<and> zg_zoneName h = z \<and> p \<in> set (zg_permissions h))"
    by (simp only: via_grant_iff expandGrantsAcrossClusters_def set_concat set_map UN_iff bex_simps
        image_iff) blast
  then show ?thesis unfolding one via_grant_iff by auto
qed

text \<open>
  A grant issued on one server authorizes exactly on the servers of its cluster, for its own
  zone and permissions: on every peer, and nowhere else; a server outside any cluster keeps its
  grant as it is.
\<close>

theorem expandGrants_authorizes:
  "hasZonePermissionViaGrant (expandGrantsAcrossClusters grants equivalent) s z p \<longleftrightarrow>
     (\<exists>g \<in> set grants. s \<in> peers_of equivalent (zg_serverId g)
        \<and> hasZonePermissionViaGrant [g] (zg_serverId g) z p)"
  by (rule via_expanded_iff)

end
