(* ===== verification/ReverseLookup.thy ===== *)
theory ReverseLookup
  imports ReverseName
begin

section \<open>Choosing the hosted reverse zone\<close>

text \<open>
  Correctness of \<open>findReverseZone\<close> (\<open>lib/dns/reverse-name.ts\<close>): the zone it returns is hosted
  and is the most specific one for the address, nothing hosted covers an address for which it
  returns nothing, and the owner name it returns reads back to the address.
\<close>

subsection \<open>Which hosted zone a PTR belongs to\<close>

text \<open>A zone is a proper suffix of the owner name, on a label boundary.\<close>

definition under_zone :: "string \<Rightarrow> string \<Rightarrow> bool" where
  "under_zone owner zone \<longleftrightarrow> zone \<noteq> [] \<and> ends_with owner (CHR ''.'' # zone)"

lemma drop_join_suffix:
  "0 < i \<Longrightarrow> i < length ls \<Longrightarrow> ends_with (join ''.'' ls) (CHR ''.'' # join ''.'' (drop i ls))"
proof -
  assume i: "0 < i" "i < length ls"
  then have "join ''.'' (take i ls @ drop i ls) = join ''.'' (take i ls) @ ''.'' @ join ''.'' (drop i ls)"
    by (intro join_append) auto
  then show ?thesis by (simp add: ends_with_iff)
qed

lemma drop_join_ne: "i < length ls - 1 \<Longrightarrow> join ''.'' (drop i ls) \<noteq> []"
proof -
  assume "i < length ls - 1"
  then obtain a b rest where "drop i ls = a # b # rest"
    by (metis Cons_nth_drop_Suc Suc_lessD less_diff_conv Suc_eq_plus1)
  then show ?thesis by simp
qed

lemma under_zone_drop:
  assumes "ends_with owner ''.''" "under_zone owner zone"
  shows "\<exists>i. 0 < i \<and> i < length (split_on (CHR ''.'') owner) - 1
    \<and> zone = join ''.'' (drop i (split_on (CHR ''.'') owner))"
proof -
  from assms(2) obtain p where p: "owner = p @ CHR ''.'' # zone" "zone \<noteq> []"
    unfolding under_zone_def ends_with_iff by blast
  from assms(1) p have "last zone = CHR ''.''" by (simp add: ends_with_dot)
  with p(2) obtain q where q: "zone = q @ ''.''" by (metis append_butlast_last_id)
  have ls: "split_on (CHR ''.'') owner = split_on (CHR ''.'') p @ split_on (CHR ''.'') zone"
    unfolding p(1) by (rule split_on_concat)
  have "length (split_on (CHR ''.'') zone) > 1" unfolding q split_last by simp
  then show ?thesis
    by (intro exI [of _ "length (split_on (CHR ''.'') p)"]) (simp add: ls)
qed

lemma join_drop_length:
  "0 < i \<Longrightarrow> i < j \<Longrightarrow> j < length ls \<Longrightarrow> length (join ''.'' (drop j ls)) < length (join ''.'' (drop i ls))"
proof -
  assume ij: "0 < i" "i < j" "j < length ls"
  then have "drop i ls = take (j - i) (drop i ls) @ drop j ls"
    by (metis append_take_drop_id drop_drop le_add_diff_inverse2 less_imp_le)
  moreover have "take (j - i) (drop i ls) \<noteq> []" "drop j ls \<noteq> []" using ij by auto
  ultimately have "join ''.'' (drop i ls)
      = join ''.'' (take (j - i) (drop i ls)) @ ''.'' @ join ''.'' (drop j ls)"
    by (metis join_append)
  then show ?thesis by simp
qed

lemma suffix_match_Some:
  assumes "suffix_match owner hosted = Some m"
  shows "m_zone m \<in> set hosted \<and> m_owner m = owner \<and> \<not> m_classless m \<and> under_zone owner (m_zone m)"
proof -
  let ?ls = "split_on (CHR ''.'') owner"
  from assms obtain i where f: "find (\<lambda>i. join ''.'' (drop i ?ls) \<in> set hosted) [1..<length ?ls - 1] = Some i"
    and m: "m = \<lparr>m_zone = join ''.'' (drop i ?ls), m_owner = owner, m_classless = False\<rparr>"
    by (auto simp: suffix_match_def Let_def)
  from find_SomeD [OF f] have i: "1 \<le> i" "i < length ?ls - 1" "join ''.'' (drop i ?ls) \<in> set hosted"
    by auto
  then have "ends_with (join ''.'' ?ls) (CHR ''.'' # join ''.'' (drop i ?ls))"
    by (intro drop_join_suffix) auto
  with i m show ?thesis using drop_join_ne [OF i(2)] by (simp add: under_zone_def)
qed

lemma suffix_match_longest:
  assumes "suffix_match owner hosted = Some m" "ends_with owner ''.''"
    "z \<in> set hosted" "under_zone owner z"
  shows "length z \<le> length (m_zone m)"
proof -
  let ?ls = "split_on (CHR ''.'') owner"
  let ?P = "\<lambda>i. join ''.'' (drop i ?ls) \<in> set hosted"
  from assms(1) obtain i where f: "find ?P [1..<length ?ls - 1] = Some i"
    and m: "m_zone m = join ''.'' (drop i ?ls)"
    by (auto simp: suffix_match_def Let_def)
  have "\<exists>k. k < length ?ls - 2 \<and> i = Suc k \<and> (\<forall>j<k. \<not> ?P (Suc j))"
    using f by (auto simp: find_Some_iff)
  then obtain k where k: "k < length ?ls - 2" "i = Suc k" "\<forall>j<k. \<not> ?P (Suc j)" by blast
  from under_zone_drop [OF assms(2,4)] obtain j where j: "0 < j" "j < length ?ls - 1"
    "z = join ''.'' (drop j ?ls)" by blast
  have "i \<le> j"
  proof (rule ccontr)
    assume "\<not> i \<le> j"
    with k j have "j - 1 < k" by simp
    with k(3) have "\<not> ?P (Suc (j - 1))" by blast
    with j k assms(3) show False by simp
  qed
  then show ?thesis
    using join_drop_length [of i j ?ls] j k(2) m
    by (cases "i = j") (simp_all add: less_imp_le)
qed

lemma suffix_match_None:
  assumes "suffix_match owner hosted = None" "ends_with owner ''.''" "z \<in> set hosted"
  shows "\<not> under_zone owner z"
proof
  let ?ls = "split_on (CHR ''.'') owner"
  assume "under_zone owner z"
  from under_zone_drop [OF assms(2) this] obtain j where j: "0 < j" "j < length ?ls - 1"
    "z = join ''.'' (drop j ?ls)" by blast
  with assms show False by (auto simp: suffix_match_def Let_def find_None_ball)
qed

definition block_covers :: "nat list \<Rightarrow> string \<Rightarrow> classless_block \<Rightarrow> bool" where
  "block_covers octets zone block \<longleftrightarrow>
     parseClasslessZone zone = Some block
     \<and> b_parentLabels block = join ''.'' (map dec_of_nat [octets ! 2, octets ! 1, octets ! 0])
     \<and> b_first block \<le> octets ! 3 \<and> octets ! 3 \<le> b_last block"

definition block_span :: "classless_block \<Rightarrow> nat" where
  "block_span block = b_last block - b_first block"

definition best_inv :: "nat list \<Rightarrow> string list \<Rightarrow> reverse_zone_match option \<Rightarrow> bool" where
  "best_inv octets seen best \<longleftrightarrow>
     (case best of
        None \<Rightarrow> \<forall>z \<in> set seen. \<forall>b. \<not> block_covers octets z b
      | Some m \<Rightarrow> m_zone m \<in> set seen \<and> m_classless m
          \<and> m_owner m = dec_of_nat (octets ! 3) @ ''.'' @ m_zone m
          \<and> (\<exists>b. block_covers octets (m_zone m) b
               \<and> (\<forall>z \<in> set seen. \<forall>b'. block_covers octets z b' \<longrightarrow> block_span b \<le> block_span b')))"

lemma classless_step_skip:
  "\<forall>b. \<not> block_covers octets zone b \<Longrightarrow> classless_step octets best zone = best"
  by (auto simp: classless_step_def block_covers_def Let_def split: option.splits)

lemma classless_step_cover:
  "block_covers octets zone b \<Longrightarrow> classless_step octets best zone =
     (if (case best of None \<Rightarrow> True
          | Some m \<Rightarrow> (case bestSpan m of None \<Rightarrow> True | Some span \<Rightarrow> block_span b < span))
      then Some \<lparr>m_zone = zone, m_owner = dec_of_nat (octets ! 3) @ ''.'' @ zone, m_classless = True\<rparr>
      else best)"
  by (cases best; cases "bestSpan (the best)")
     (auto simp: classless_step_def block_covers_def Let_def block_span_def)

lemma bestSpan_cover: "block_covers octets (m_zone m) b \<Longrightarrow> bestSpan m = Some (block_span b)"
  by (simp add: bestSpan_def block_covers_def block_span_def)

lemma block_covers_unique: "block_covers o1 z b \<Longrightarrow> block_covers o2 z b' \<Longrightarrow> b = b'"
  by (simp add: block_covers_def)

lemma best_inv_Some:
  assumes "block_covers octets (m_zone m) b" "m_zone m \<in> set seen" "m_classless m"
    "m_owner m = dec_of_nat (octets ! 3) @ ''.'' @ m_zone m"
    "\<And>z b'. z \<in> set seen \<Longrightarrow> block_covers octets z b' \<Longrightarrow> block_span b \<le> block_span b'"
  shows "best_inv octets seen (Some m)"
  using assms by (auto simp: best_inv_def)

lemma best_inv_step:
  assumes inv: "best_inv octets seen best"
  shows "best_inv octets (seen @ [zone]) (classless_step octets best zone)"
proof (cases "\<exists>b. block_covers octets zone b")
  case False
  then have "classless_step octets best zone = best" by (simp add: classless_step_skip)
  with inv False show ?thesis by (fastforce simp: best_inv_def split: option.splits)
next
  case True
  then obtain b where b: "block_covers octets zone b" ..
  have new: "best_inv octets (seen @ [zone]) (Some \<lparr>m_zone = zone,
      m_owner = dec_of_nat (octets ! 3) @ ''.'' @ zone, m_classless = True\<rparr>)"
    if "\<And>z b'. z \<in> set seen \<Longrightarrow> block_covers octets z b' \<Longrightarrow> block_span b \<le> block_span b'"
  proof (rule best_inv_Some [of _ _ b])
    fix z b' assume "z \<in> set (seen @ [zone])" "block_covers octets z b'"
    then show "block_span b \<le> block_span b'"
      using that block_covers_unique [OF b] by (cases "z \<in> set seen") auto
  qed (use b in auto)
  show ?thesis
  proof (cases best)
    case None
    with inv have "\<And>z b'. z \<in> set seen \<Longrightarrow> \<not> block_covers octets z b'" by (simp add: best_inv_def)
    with new None show ?thesis by (simp add: classless_step_cover [OF b])
  next
    case (Some m)
    with inv obtain bm where bm: "block_covers octets (m_zone m) bm"
      and least: "\<And>z b'. z \<in> set seen \<Longrightarrow> block_covers octets z b' \<Longrightarrow> block_span bm \<le> block_span b'"
      and rest: "m_zone m \<in> set seen" "m_classless m"
        "m_owner m = dec_of_nat (octets ! 3) @ ''.'' @ m_zone m"
      by (auto simp: best_inv_def)
    show ?thesis
    proof (cases "block_span b < block_span bm")
      case True
      then have "\<And>z b'. z \<in> set seen \<Longrightarrow> block_covers octets z b' \<Longrightarrow> block_span b \<le> block_span b'"
        using least by (meson less_imp_le order.trans)
      with new Some True show ?thesis
        by (simp add: classless_step_cover [OF b] bestSpan_cover [OF bm])
    next
      case False
      have "best_inv octets (seen @ [zone]) (Some m)"
      proof (rule best_inv_Some [OF bm])
        fix z b' assume "z \<in> set (seen @ [zone])" "block_covers octets z b'"
        then show "block_span bm \<le> block_span b'"
          using least False block_covers_unique [OF b] by (cases "z \<in> set seen") auto
      qed (use rest in auto)
      with Some False show ?thesis
        by (simp add: classless_step_cover [OF b] bestSpan_cover [OF bm])
    qed
  qed
qed

lemma best_inv_foldl:
  "best_inv octets zones (foldl (classless_step octets) None zones)"
proof (induction zones rule: rev_induct)
  case Nil
  then show ?case by (simp add: best_inv_def)
next
  case (snoc z zones)
  then show ?case using best_inv_step by simp
qed


definition hosted_names :: "string list \<Rightarrow> string list" where
  "hosted_names hostedZones = jset_of (map canonicalZone hostedZones)"

lemma octets_of_canonical:
  assumes "parseIpv4 ip = Some os"
  shows "map nat_of_dec (split_on (CHR ''.'') (join ''.'' (map dec_of_nat os))) = os"
proof -
  have "os \<noteq> []" using assms by (auto simp: parseIpv4_iff)
  then have "split_on (CHR ''.'') (join ''.'' (map dec_of_nat os)) = map dec_of_nat os"
    by (intro split_join) (auto simp: dec_no_dot)
  then show ?thesis by (simp add: map_idI)
qed

lemma findReverseZone_v4:
  assumes "parseIpv4 ip = Some os" "reverseOwnerName ip = Some owner"
  shows "findReverseZone ip hosted =
    (case foldl (classless_step os) None (hosted_names hosted) of
       Some m \<Rightarrow> Some m | None \<Rightarrow> suffix_match owner (hosted_names hosted))"
  using assms by (simp add: findReverseZone_def parseIp_v4 octets_of_canonical hosted_names_def Let_def
      split: option.split)

lemma findReverseZone_v6:
  assumes "parseIpv4 ip = None" "reverseOwnerName ip = Some owner"
  shows "findReverseZone ip hosted = suffix_match owner (hosted_names hosted)"
  using assms by (auto simp: findReverseZone_def reverseOwnerName_def parseIp_def hosted_names_def
      split: option.splits)

lemma findReverseZone_owner:
  "findReverseZone ip hosted = Some m \<Longrightarrow> \<exists>owner. reverseOwnerName ip = Some owner"
  by (auto simp: findReverseZone_def split: option.splits)

lemma reverseOwnerName_dot: "reverseOwnerName ip = Some owner \<Longrightarrow> ends_with owner ''.''"
  by (auto simp: reverseOwnerName_def ends_with_dot split: option.splits if_splits)

lemma set_hosted_names [simp]: "set (hosted_names hosted) = canonicalZone ` set hosted"
  by (simp add: hosted_names_def)

lemma findReverseZone_sound:
  assumes "findReverseZone ip hosted = Some m"
  shows "m_zone m \<in> canonicalZone ` set hosted \<and>
    (if m_classless m
     then \<exists>os b. parseIpv4 ip = Some os \<and> block_covers os (m_zone m) b
       \<and> m_owner m = dec_of_nat (os ! 3) @ ''.'' @ m_zone m
       \<and> (\<forall>z \<in> canonicalZone ` set hosted. \<forall>b'. block_covers os z b' \<longrightarrow> block_span b \<le> block_span b')
     else reverseOwnerName ip = Some (m_owner m) \<and> under_zone (m_owner m) (m_zone m)
       \<and> (\<forall>z \<in> canonicalZone ` set hosted. under_zone (m_owner m) z \<longrightarrow> length z \<le> length (m_zone m))
       \<and> (\<forall>os. parseIpv4 ip = Some os \<longrightarrow>
            (\<forall>z \<in> canonicalZone ` set hosted. \<forall>b. \<not> block_covers os z b)))"
proof -
  obtain owner where own: "reverseOwnerName ip = Some owner"
    using findReverseZone_owner [OF assms] by blast
  note dot = reverseOwnerName_dot [OF own]
  let ?h = "hosted_names hosted"
  have suf: ?thesis if s: "suffix_match owner ?h = Some m"
    and no: "\<And>os z b. parseIpv4 ip = Some os \<Longrightarrow> z \<in> canonicalZone ` set hosted \<Longrightarrow> \<not> block_covers os z b"
    using suffix_match_Some [OF s] suffix_match_longest [OF s dot] own no by auto
  show ?thesis
  proof (cases "parseIpv4 ip")
    case None
    show ?thesis
      by (rule suf) (use assms own None in \<open>simp_all add: findReverseZone_v6\<close>)
  next
    case (Some os)
    note inv = best_inv_foldl [of os ?h]
    show ?thesis
    proof (cases "foldl (classless_step os) None ?h")
      case None
      with inv have "\<forall>z \<in> canonicalZone ` set hosted. \<forall>b. \<not> block_covers os z b"
        by (simp add: best_inv_def)
      moreover have "suffix_match owner ?h = Some m"
        using assms Some own None by (simp add: findReverseZone_v4)
      ultimately show ?thesis using Some by (intro suf) auto
    next
      case s: (Some m')
      with assms Some own have "m' = m" by (simp add: findReverseZone_v4)
      with inv s Some show ?thesis by (auto simp: best_inv_def)
    qed
  qed
qed

lemma findReverseZone_complete:
  assumes "findReverseZone ip hosted = None" "reverseOwnerName ip = Some owner"
    and "z \<in> canonicalZone ` set hosted"
  shows "\<not> under_zone owner z \<and> (\<forall>os b. parseIpv4 ip = Some os \<longrightarrow> \<not> block_covers os z b)"
proof (cases "parseIpv4 ip")
  case None
  with assms show ?thesis
    using suffix_match_None [OF _ reverseOwnerName_dot [OF assms(2)]]
    by (simp add: findReverseZone_v6)
next
  case (Some os)
  let ?h = "hosted_names hosted"
  have fold: "foldl (classless_step os) None ?h = None" and s: "suffix_match owner ?h = None"
    using assms Some by (auto simp: findReverseZone_v4 split: option.splits)
  have "best_inv os ?h None" using best_inv_foldl [of os ?h] fold by simp
  then show ?thesis
    using suffix_match_None [OF s reverseOwnerName_dot [OF assms(2)]] assms(3) Some
    by (auto simp: best_inv_def)
qed

lemma parse_block_Some:
  assumes "parse_block lbl = Some (m1, sep, m3)"
  shows "lbl = m1 @ sep # m3" "digits13 m1" "digits13 m3" "sep = CHR ''/'' \<or> sep = CHR ''-''"
proof -
  have "lbl = takeWhile is_digit lbl @ dropWhile is_digit lbl" by simp
  moreover have "m1 = takeWhile is_digit lbl \<and> dropWhile is_digit lbl = sep # m3"
    using assms by (simp add: parse_block_def Let_def split: list.splits if_splits)
  ultimately show "lbl = m1 @ sep # m3" by simp
  show "digits13 m1" "digits13 m3" "sep = CHR ''/'' \<or> sep = CHR ''-''"
    using assms by (auto simp: parse_block_def Let_def split: list.splits if_splits)
qed

lemma label_ok_digits: "list_all is_digit p \<Longrightarrow> label_ok p"
  by (auto simp: label_ok_def list_all_iff is_digit_def is_upper_def is_ws_def)

lemma label_ok_append: "label_ok (p @ q) \<longleftrightarrow> label_ok p \<and> label_ok q"
  by (auto simp: label_ok_def)

lemma label_ok_block: "parse_block lbl = Some x \<Longrightarrow> label_ok lbl"
proof -
  assume a: "parse_block lbl = Some x"
  obtain m1 sep m3 where x: "x = (m1, sep, m3)" by (cases x)
  note pb = parse_block_Some [OF a [unfolded x]]
  have "label_ok m1" "label_ok m3"
    using pb(2,3) by (auto simp: digits13_def intro: label_ok_digits)
  moreover have "label_ok [sep]"
    using pb(4) by (auto simp: label_ok_def is_upper_def is_ws_def)
  ultimately show ?thesis using pb(1) label_ok_append [of m1 "[sep] @ m3"]
      label_ok_append [of "[sep]" m3] by simp
qed

lemma classless_block_Some:
  assumes "classless_block_of lbl c b a inaddr arpa e = Some block"
  shows "inaddr = ''in-addr''" "arpa = ''arpa''" "e = []" "parse_block lbl \<noteq> None"
    "b_parentLabels block = join ''.'' [c, b, a]"
  using assms by (auto simp: classless_block_of_def Let_def split: if_splits option.splits)

lemma case_list7:
  "(case xs of [a, b, c, d, e, f, g] \<Rightarrow> F a b c d e f g | _ \<Rightarrow> None) = Some y \<Longrightarrow>
   \<exists>a b c d e f g. xs = [a, b, c, d, e, f, g] \<and> F a b c d e f g = Some y"
  by (auto split: list.splits)

lemma parseClasslessZone_Some:
  assumes "parseClasslessZone zone = Some block"
  shows "\<exists>lbl c b a. split_on (CHR ''.'') zone = [lbl, c, b, a, ''in-addr'', ''arpa'', []]
    \<and> parse_block lbl \<noteq> None \<and> b_parentLabels block = join ''.'' [c, b, a]"
proof -
  from case_list7 [OF assms [unfolded parseClasslessZone_def]] obtain lbl c b a inaddr arpa e
    where sp: "split_on (CHR ''.'') zone = [lbl, c, b, a, inaddr, arpa, e]"
      and blk: "classless_block_of lbl c b a inaddr arpa e = Some block" by blast
  note f = classless_block_Some [OF blk]
  have "split_on (CHR ''.'') zone = [lbl, c, b, a, ''in-addr'', ''arpa'', []]"
    by (simp only: sp f(1-3))
  then show ?thesis using f(4,5) by (intro exI conjI)
qed

lemma block_covers_labels:
  assumes "block_covers os zone b"
  obtains lbl where "zone = join ''.'' ([lbl] @ map dec_of_nat [os ! 2, os ! 1, os ! 0]
      @ [''in-addr'', ''arpa'']) @ ''.''"
    "parse_block lbl \<noteq> None"
proof -
  from assms have pz: "parseClasslessZone zone = Some b" by (simp add: block_covers_def)
  from parseClasslessZone_Some [OF pz] obtain lbl c b' a where sp: "split_on (CHR ''.'') zone = [lbl, c, b', a, ''in-addr'', ''arpa'', []]"
    and pb: "parse_block lbl \<noteq> None" and par: "b_parentLabels b = join ''.'' [c, b', a]"
    by blast
  have nd: "CHR ''.'' \<notin> set p" if "p \<in> {c, b', a}" for p
    using split_on_parts [of p "CHR ''.''" zone] that sp by auto
  have c1: "split_on (CHR ''.'') (join ''.'' [c, b', a]) = [c, b', a]"
    using nd by (intro split_join) auto
  have c2: "split_on (CHR ''.'') (join ''.'' (map dec_of_nat [os ! 2, os ! 1, os ! 0]))
      = map dec_of_nat [os ! 2, os ! 1, os ! 0]"
    by (intro split_join) (auto simp: dec_no_dot)
  have j: "join ''.'' [c, b', a] = join ''.'' (map dec_of_nat [os ! 2, os ! 1, os ! 0])"
    using assms unfolding block_covers_def par by blast
  have "[c, b', a] = map dec_of_nat [os ! 2, os ! 1, os ! 0]"
    by (rule trans [OF c1 [unfolded j, symmetric] c2])
  moreover have "zone = join ''.'' [lbl, c, b', a, ''in-addr'', ''arpa'', []]"
    using join_split [of "CHR ''.''" zone, unfolded sp, THEN sym] .
  ultimately show ?thesis by (intro that [of lbl] pb) simp
qed

lemma owner_classless:
  assumes "parseIpv4 ip = Some os" "block_covers os zone b"
  shows "ipFromReverseOwner (dec_of_nat (os ! 3) @ ''.'' @ zone)
    = Some (join ''.'' (map dec_of_nat os))"
proof -
  from assms(1) obtain o0 o1 o2 o3 where os: "os = [o0, o1, o2, o3]" "\<forall>n \<in> set os. n \<le> 255"
    by (auto simp: parseIpv4_iff length_Suc_conv eval_nat_numeral)
  obtain lbl where z: "zone = join ''.'' ([lbl] @ map dec_of_nat [os ! 2, os ! 1, os ! 0]
      @ [''in-addr'', ''arpa'']) @ ''.''" and pb: "parse_block lbl \<noteq> None"
    using block_covers_labels [OF assms(2)] .
  let ?ls = "[dec_of_nat o3, lbl, dec_of_nat o2, dec_of_nat o1, dec_of_nat o0, ''in-addr'', ''arpa'']"
  have ok: "?ls \<noteq> []" "\<forall>l \<in> set ?ls. label_ok l"
    using pb by (auto simp: label_ok_dec label_ok_arpa label_ok_block)
  have own: "dec_of_nat (os ! 3) @ ''.'' @ zone = join ''.'' ?ls @ ''.''"
    using z os by simp
  have "owner_v4 (join ''.'' ?ls) = Some (join ''.'' (map dec_of_nat os))"
    using owner_of_labels(2) [OF ok] os pb by (simp add: owner_v4_def digits13_dec_of_nat)
  then show ?thesis
    unfolding own
    using owner_of_labels(1) [OF ok] parseIpv4_dec [OF assms(1)]
    by (simp add: ipFromReverseOwner_def Let_def)
qed

lemma findReverseZone_owner_reads_back:
  assumes "findReverseZone ip hosted = Some m" "parseIp ip = Some p"
    and "ip_family p = V6 \<Longrightarrow> CHR ''.'' \<notin> set (ip_canonical p)"
  shows "\<exists>t. ipFromReverseOwner (m_owner m) = Some t \<and> parseIp t = Some p"
proof (cases "m_classless m")
  case False
  then have "reverseOwnerName ip = Some (m_owner m)"
    using findReverseZone_sound [OF assms(1)] by simp
  then show ?thesis using reverse_roundtrip_main [OF assms(2,3)] by auto
next
  case True
  then obtain os b where os: "parseIpv4 ip = Some os" and b: "block_covers os (m_zone m) b"
    and own: "m_owner m = dec_of_nat (os ! 3) @ ''.'' @ m_zone m"
    using findReverseZone_sound [OF assms(1)] by auto
  have "parseIp (join ''.'' (map dec_of_nat os)) = Some p"
    using parseIp_v4 [OF parseIpv4_dec [OF os]] parseIp_v4 [OF os] assms(2) by simp
  with owner_classless [OF os b] own show ?thesis by simp
qed
text \<open>
  C12. \<open>findReverseZone\<close> returns a hosted zone and the most specific one: an RFC 2317 block that
  covers the address whenever one is hosted (the smallest such block, the owner being
  \<open><last octet>.<zone>\<close>), and otherwise the longest hosted suffix of the address's reverse name,
  which is then the owner.
\<close>

theorem findReverseZone_correct:
  assumes "findReverseZone ip hosted = Some m"
  shows "m_zone m \<in> canonicalZone ` set hosted \<and>
    (if m_classless m
     then \<exists>os b. parseIpv4 ip = Some os \<and> block_covers os (m_zone m) b
       \<and> m_owner m = dec_of_nat (os ! 3) @ ''.'' @ m_zone m
       \<and> (\<forall>z \<in> canonicalZone ` set hosted. \<forall>b'. block_covers os z b' \<longrightarrow> block_span b \<le> block_span b')
     else reverseOwnerName ip = Some (m_owner m) \<and> under_zone (m_owner m) (m_zone m)
       \<and> (\<forall>z \<in> canonicalZone ` set hosted. under_zone (m_owner m) z \<longrightarrow> length z \<le> length (m_zone m))
       \<and> (\<forall>os. parseIpv4 ip = Some os \<longrightarrow>
            (\<forall>z \<in> canonicalZone ` set hosted. \<forall>b. \<not> block_covers os z b)))"
  by (rule findReverseZone_sound [OF assms])

theorem findReverseZone_correct_witness:
  "\<exists>m. findReverseZone ''192.0.2.5'' [''2.0.192.in-addr.arpa'', ''0/25.2.0.192.IN-ADDR.arpa''] = Some m
     \<and> m_classless m \<and> m_zone m \<in> canonicalZone ` {''2.0.192.in-addr.arpa'', ''0/25.2.0.192.IN-ADDR.arpa''}"
proof -
  have "findReverseZone ''192.0.2.5'' [''2.0.192.in-addr.arpa'', ''0/25.2.0.192.IN-ADDR.arpa'']
      = Some \<lparr>m_zone = ''0/25.2.0.192.in-addr.arpa.'', m_owner = ''5.0/25.2.0.192.in-addr.arpa.'',
              m_classless = True\<rparr>" by code_simp
  from findReverseZone_correct [OF this] this show ?thesis by auto
qed

text \<open>
  When \<open>findReverseZone\<close> finds nothing for an address, nothing hosted covers it: no hosted
  zone is a suffix of its reverse name and no hosted RFC 2317 block contains it.  When it finds a
  zone, the owner name it gives reads back to the very address it was asked for.
\<close>

theorem findReverseZone_total:
  assumes "parseIp ip = Some p" and "ip_family p = V6 \<Longrightarrow> CHR ''.'' \<notin> set (ip_canonical p)"
  shows "case findReverseZone ip hosted of
      Some m \<Rightarrow> \<exists>t. ipFromReverseOwner (m_owner m) = Some t \<and> parseIp t = Some p
    | None \<Rightarrow> \<forall>owner. reverseOwnerName ip = Some owner \<longrightarrow>
        (\<forall>z \<in> canonicalZone ` set hosted. \<not> under_zone owner z
           \<and> (\<forall>os b. parseIpv4 ip = Some os \<longrightarrow> \<not> block_covers os z b))"
  using findReverseZone_owner_reads_back [OF _ assms] findReverseZone_complete
  by (auto split: option.split)

theorem findReverseZone_total_witness:
  "\<exists>t. ipFromReverseOwner ''5.0/25.2.0.192.in-addr.arpa.'' = Some t
     \<and> parseIp t = Some \<lparr>ip_family = V4, ip_canonical = ''192.0.2.5''\<rparr>"
proof -
  have p: "parseIp ''192.0.2.5'' = Some \<lparr>ip_family = V4, ip_canonical = ''192.0.2.5''\<rparr>"
    by code_simp
  have "findReverseZone ''192.0.2.5'' [''0/25.2.0.192.in-addr.arpa.'']
      = Some \<lparr>m_zone = ''0/25.2.0.192.in-addr.arpa.'', m_owner = ''5.0/25.2.0.192.in-addr.arpa.'',
              m_classless = True\<rparr>" by code_simp
  with findReverseZone_total [OF p, of "[''0/25.2.0.192.in-addr.arpa.'']"] show ?thesis by simp
qed

end
