(* ===== verification/AutoPtr.thy ===== *)
theory AutoPtr
  imports ReverseLookup
begin

section \<open>Automatic PTR maintenance: the decision table\<close>

text \<open>
  Models \<open>lib/dns/auto-ptr.ts\<close> (the planner, the owner names it may touch, the summary of
  outcomes) and \<open>lib/dns/auto-ptr-setting.ts\<close> (whether the planner runs at all).  Not modelled:
  \<open>describePtrOutcome\<close>, which only renders messages (with characters outside ISO 8859-1).
\<close>

subsection \<open>Data\<close>

datatype change_kind = Upsert | Delete
datatype address_type = TypeA | TypeAAAA

record address_record =
  a_content :: string
  a_disabled :: "bool option"

record address_change =
  c_kind :: change_kind
  c_name :: string
  c_type :: address_type
  c_ttl :: "nat option"
  c_records :: "address_record list option"

record rrset_value =
  v_ttl :: nat
  v_records :: "address_record list"

record ptr_context =
  hostedReverseZones :: "string list"
  existing :: "string \<rightharpoonup> rrset_value"
  takeover :: "bool option"

datatype ptr_action = PtrCreate | PtrUpdate | PtrDelete | PtrUnchanged | PtrSkip | PtrConflict
datatype skip_reason = NoReverseZone | PointsElsewhere | AlreadyAbsent

record ptr_plan_item =
  i_ip :: string
  i_owner :: string
  i_reverseZone :: "string option"
  i_action :: ptr_action
  i_reason :: "skip_reason option"
  i_currentTargets :: "string list option"
  i_rrset :: "rrset_value option"

record ptr_plan =
  p_kind :: change_kind
  p_name :: string
  p_type :: address_type
  p_items :: "ptr_plan_item list"

subsection \<open>The planner\<close>

definition sameName :: "string \<Rightarrow> string \<Rightarrow> bool" where
  "sameName a b \<longleftrightarrow> js_lower a = js_lower b"

definition uniqueAddresses :: "address_record list \<Rightarrow> address_record list" where
  "uniqueAddresses records =
     foldl (\<lambda>out r. if list_ex (\<lambda>x. sameAddress (a_content x) (a_content r)) out
                    then out else out @ [r]) [] records"

definition is_disabled :: "address_record \<Rightarrow> bool" where
  "is_disabled r \<longleftrightarrow> a_disabled r = Some True"

text \<open>An item of each shape the two loops push.\<close>

definition skip_item :: "string \<Rightarrow> string \<Rightarrow> ptr_plan_item" where
  "skip_item ip owner =
     \<lparr>i_ip = ip, i_owner = owner, i_reverseZone = None, i_action = PtrSkip,
      i_reason = Some NoReverseZone, i_currentTargets = None, i_rrset = None\<rparr>"

definition hosted_item :: "string \<Rightarrow> reverse_zone_match \<Rightarrow> ptr_action \<Rightarrow> skip_reason option \<Rightarrow>
    string list option \<Rightarrow> rrset_value option \<Rightarrow> ptr_plan_item" where
  "hosted_item ip match action reason targets rrset =
     \<lparr>i_ip = ip, i_owner = m_owner match, i_reverseZone = Some (m_zone match), i_action = action,
      i_reason = reason, i_currentTargets = targets, i_rrset = rrset\<rparr>"

definition nonempty_rrset :: "rrset_value option \<Rightarrow> rrset_value option" where
  "nonempty_rrset cur = (case cur of
     None \<Rightarrow> None | Some c \<Rightarrow> if length (v_records c) = 0 then None else Some c)"

text \<open>The body of the first loop, over the addresses the record will have.\<close>

definition plan_desired :: "address_change \<Rightarrow> rrset_value option \<Rightarrow> ptr_context \<Rightarrow>
    address_record \<Rightarrow> ptr_plan_item list" where
  "plan_desired change before ctx rec =
     (let target = js_lower (c_name change) in
      case reverseOwnerName (a_content rec) of
        None \<Rightarrow> []
      | Some owner \<Rightarrow>
          (case findReverseZone (a_content rec) (hostedReverseZones ctx) of
             None \<Rightarrow> [skip_item (a_content rec) owner]
           | Some match \<Rightarrow>
               let want = \<lparr>v_ttl = (case c_ttl change of Some t \<Rightarrow> t
                              | None \<Rightarrow> (case before of Some b \<Rightarrow> v_ttl b | None \<Rightarrow> 0)),
                           v_records = [\<lparr>a_content = target,
                              a_disabled = (if is_disabled rec then Some True else None)\<rparr>]\<rparr>
               in (case nonempty_rrset (existing ctx (m_owner match)) of
                  None \<Rightarrow> [hosted_item (a_content rec) match PtrCreate None None (Some want)]
                | Some current \<Rightarrow>
                    let targets = map a_content (v_records current);
                        allOurs = list_all (\<lambda>r. sameName (a_content r) target) (v_records current)
                    in if allOurs then
                         (let unchanged = (v_ttl current = v_ttl want
                              \<and> length (v_records current) = 1
                              \<and> is_disabled (v_records current ! 0) = is_disabled rec)
                          in [hosted_item (a_content rec) match
                                (if unchanged then PtrUnchanged else PtrUpdate) None (Some targets)
                                (if unchanged then None else Some want)])
                       else if takeover ctx = Some True then
                         [hosted_item (a_content rec) match PtrUpdate None (Some targets)
                            (Some want)]
                       else
                         [hosted_item (a_content rec) match PtrConflict None (Some targets) None])))"

text \<open>The body of the second loop, over the addresses the record had.\<close>

definition plan_previous :: "address_change \<Rightarrow> address_record list \<Rightarrow> ptr_context \<Rightarrow>
    address_record \<Rightarrow> ptr_plan_item list" where
  "plan_previous change desired ctx rec =
     (let target = js_lower (c_name change) in
      if list_ex (\<lambda>d. sameAddress (a_content d) (a_content rec)) desired then []
      else case reverseOwnerName (a_content rec) of
        None \<Rightarrow> []
      | Some owner \<Rightarrow>
          (case findReverseZone (a_content rec) (hostedReverseZones ctx) of
             None \<Rightarrow> [skip_item (a_content rec) owner]
           | Some match \<Rightarrow>
               (case nonempty_rrset (existing ctx (m_owner match)) of
                  None \<Rightarrow> [hosted_item (a_content rec) match PtrUnchanged (Some AlreadyAbsent)
                             None None]
                | Some current \<Rightarrow>
                    let targets = map a_content (v_records current);
                        ours = filter (\<lambda>r. sameName (a_content r) target) (v_records current)
                    in if length ours = 0 then
                         [hosted_item (a_content rec) match PtrUnchanged (Some PointsElsewhere)
                            (Some targets) None]
                       else if length ours = length (v_records current) then
                         [hosted_item (a_content rec) match PtrDelete None (Some targets) None]
                       else
                         [hosted_item (a_content rec) match PtrUpdate None (Some targets)
                            (Some \<lparr>v_ttl = v_ttl current, v_records =
                               filter (\<lambda>r. \<not> sameName (a_content r) target)
                                 (v_records current)\<rparr>)])))"

definition desired_records :: "address_change \<Rightarrow> address_record list" where
  "desired_records change =
     (if c_kind change = Upsert
      then uniqueAddresses (case c_records change of Some rs \<Rightarrow> rs | None \<Rightarrow> []) else [])"

definition previous_records :: "rrset_value option \<Rightarrow> address_record list" where
  "previous_records before =
     uniqueAddresses (case before of Some b \<Rightarrow> v_records b | None \<Rightarrow> [])"

definition planPtrChanges :: "address_change \<Rightarrow> rrset_value option \<Rightarrow> ptr_context \<Rightarrow> ptr_plan" where
  "planPtrChanges change before ctx =
     (let desired = desired_records change; previous = previous_records before in
      \<lparr>p_kind = c_kind change, p_name = c_name change, p_type = c_type change,
       p_items = concat (map (plan_desired change before ctx) desired)
               @ concat (map (plan_previous change desired ctx) previous)\<rparr>)"

text \<open>Owner name to zone, in the order of a JavaScript \<open>Map\<close>.\<close>

definition candidatePtrOwners :: "address_change \<Rightarrow> address_record list option \<Rightarrow> string list \<Rightarrow>
    (string \<times> string) list" where
  "candidatePtrOwners change before hosted =
     (let allrecs = (if c_kind change = Upsert
                  then (case c_records change of Some rs \<Rightarrow> rs | None \<Rightarrow> []) else [])
                @ (case before of Some rs \<Rightarrow> rs | None \<Rightarrow> [])
      in foldl (\<lambda>out rec. case findReverseZone (a_content rec) hosted of
                   None \<Rightarrow> out
                 | Some match \<Rightarrow> AList.update (m_owner match) (m_zone match) out) [] allrecs)"

definition isAddressType :: "string \<Rightarrow> bool" where
  "isAddressType type \<longleftrightarrow> type = ''A'' \<or> type = ''AAAA''"

subsection \<open>Outcomes and their summary\<close>

datatype outcome_reason = SkipReason skip_reason | NoPermission | ReverseZoneNotWritable
  | ReadFailed | WriteFailed
datatype outcome_action = Planned ptr_action | Failed

record auto_ptr_outcome =
  o_name :: string
  o_type :: address_type
  o_kind :: change_kind
  o_ip :: string
  o_owner :: string
  o_reverseZone :: "string option"
  o_server :: "string option"
  o_action :: outcome_action
  o_reason :: "outcome_reason option"
  o_message :: "string option"
  o_currentTargets :: "string list option"

datatype summary_level = LevelNone | LevelOk | LevelWarn | LevelError

record ptr_summary =
  s_written :: nat
  s_unchanged :: nat
  s_skipped :: nat
  s_conflicts :: nat
  s_failed :: nat

definition summary_step :: "ptr_summary \<Rightarrow> auto_ptr_outcome \<Rightarrow> ptr_summary" where
  "summary_step s oc =
     (if o_action oc \<in> {Planned PtrCreate, Planned PtrUpdate, Planned PtrDelete}
      then s\<lparr>s_written := s_written s + 1\<rparr>
      else if o_action oc = Planned PtrUnchanged then s\<lparr>s_unchanged := s_unchanged s + 1\<rparr>
      else if o_action oc = Planned PtrSkip then s\<lparr>s_skipped := s_skipped s + 1\<rparr>
      else if o_action oc = Planned PtrConflict then s\<lparr>s_conflicts := s_conflicts s + 1\<rparr>
      else s\<lparr>s_failed := s_failed s + 1\<rparr>)"

definition summary_text :: "ptr_summary \<Rightarrow> string" where
  "summary_text s =
     (let parts =
        (if s_written s \<noteq> 0 then [dec_of_nat (s_written s) @ '' PTR ''
            @ (if s_written s = 1 then ''record'' else ''records'') @ '' updated''] else [])
        @ (if s_conflicts s \<noteq> 0 then [dec_of_nat (s_conflicts s) @ '' left pointing elsewhere''] else [])
        @ (if s_skipped s \<noteq> 0 then [dec_of_nat (s_skipped s) @ '' skipped''] else [])
        @ (if s_failed s \<noteq> 0 then [dec_of_nat (s_failed s) @ '' failed''] else [])
      in if length parts \<noteq> 0 then ''Reverse DNS: '' @ join '', '' parts @ ''.'' else [])"

definition summary_level :: "ptr_summary \<Rightarrow> summary_level" where
  "summary_level s =
     (if s_failed s \<noteq> 0 then LevelError
      else if s_conflicts s \<noteq> 0 \<or> s_skipped s \<noteq> 0 then LevelWarn
      else if s_written s \<noteq> 0 then LevelOk else LevelNone)"

definition summarizePtrOutcomes :: "auto_ptr_outcome list \<Rightarrow> ptr_summary \<times> string \<times> summary_level" where
  "summarizePtrOutcomes outcomes =
     (let s = foldl summary_step \<lparr>s_written = 0, s_unchanged = 0, s_skipped = 0,
                s_conflicts = 0, s_failed = 0\<rparr> outcomes
      in (s, summary_text s, summary_level s))"

subsection \<open>auto-ptr-setting.ts\<close>

record metadata_entry =
  md_kind :: string
  md_values :: "string list"

definition ZONE_AUTO_PTR_KIND :: string where
  "ZONE_AUTO_PTR_KIND = ''X-AUTHADMIN-AUTO-PTR''"

definition parseAutoPtrFlag :: "string \<Rightarrow> bool option" where
  "parseAutoPtrFlag value =
     (let v = js_lower (js_trim value) in
      if v = ''on'' \<or> v = ''yes'' \<or> v = ''true'' \<or> v = ''1'' then Some True
      else if v = ''off'' \<or> v = ''no'' \<or> v = ''false'' \<or> v = ''0'' then Some False
      else None)"

definition first_metadata :: "string \<Rightarrow> metadata_entry list \<Rightarrow> string option" where
  "first_metadata kind metadata =
     (case find (\<lambda>m. md_kind m = kind) metadata of
        None \<Rightarrow> None
      | Some e \<Rightarrow> (case md_values e of [] \<Rightarrow> None | v # _ \<Rightarrow> Some v))"

definition zoneAutoPtrFromMetadata :: "metadata_entry list \<Rightarrow> bool option" where
  "zoneAutoPtrFromMetadata metadata =
     (case first_metadata ZONE_AUTO_PTR_KIND metadata of
        None \<Rightarrow> None | Some first \<Rightarrow> parseAutoPtrFlag first)"

datatype auto_ptr_source = FromChange | FromZone | FromGlobal | Builtin

definition resolveAutoPtr :: "bool option \<Rightarrow> bool option \<Rightarrow> bool option \<Rightarrow> bool \<times> auto_ptr_source" where
  "resolveAutoPtr change zone global =
     (case change of Some b \<Rightarrow> (b, FromChange)
      | None \<Rightarrow> (case zone of Some b \<Rightarrow> (b, FromZone)
         | None \<Rightarrow> (case global of Some b \<Rightarrow> (b, FromGlobal) | None \<Rightarrow> (False, Builtin))))"

definition zoneAutoPtrValuesError :: "string list \<Rightarrow> string option" where
  "zoneAutoPtrValuesError vals =
     (if length vals \<noteq> 1 \<or> parseAutoPtrFlag (vals ! 0) = None
      then Some (ZONE_AUTO_PTR_KIND @ '' takes a single value: on or off.'') else None)"

definition autoPtrFlagValue :: "bool \<Rightarrow> string" where
  "autoPtrFlagValue enabled = (if enabled then ''on'' else ''off'')"


subsection \<open>Addresses up to spelling\<close>

definition addr_key :: "string \<Rightarrow> parsed_ip + string" where
  "addr_key a = (case parseIp a of Some p \<Rightarrow> Inl p | None \<Rightarrow> Inr (js_trim a))"

lemma parseIp_trim: "js_trim a = js_trim b \<Longrightarrow> parseIp a = parseIp b"
proof -
  assume t: "js_trim a = js_trim b"
  have "parseIpv4 a = parseIpv4 b" "expandIpv6 a = expandIpv6 b"
    by (simp_all only: parseIpv4_def expandIpv6_def t)
  then show ?thesis by (simp only: parseIp_def)
qed

lemma sameAddress_iff: "sameAddress a b \<longleftrightarrow> addr_key a = addr_key b"
  using parseIp_trim [of a b]
  by (auto simp: sameAddress_def addr_key_def split: option.splits)

abbreviation rec_key :: "address_record \<Rightarrow> parsed_ip + string" where
  "rec_key r \<equiv> addr_key (a_content r)"

lemma unique_step:
  defines "step \<equiv> \<lambda>out r. if list_ex (\<lambda>x. sameAddress (a_content x) (a_content r)) out then out else out @ [r]"
  shows "distinct (map rec_key out) \<Longrightarrow>
      distinct (map rec_key (foldl step out rs))"
    and "set (foldl step out rs) \<subseteq> set out \<union> set rs"
    and "rec_key ` set (foldl step out rs)
      = rec_key ` (set out \<union> set rs)"
proof (induction rs arbitrary: out)
  case Nil
  { case 1 then show ?case by simp }
  { case 2 then show ?case by simp }
  { case 3 then show ?case by simp }
next
  case (Cons r rs)
  { case 1
    then have "distinct (map rec_key (step out r))"
      by (auto simp: step_def sameAddress_iff list_ex_iff)
    then show ?case using Cons.IH(1) [of "step out r"] by simp }
  { case 2
    have "set (step out r) \<subseteq> insert r (set out)" by (auto simp: step_def)
    then show ?case using Cons.IH(2) [of "step out r"] by auto }
  { case 3
    have "rec_key ` set (step out r) = rec_key ` insert r (set out)"
      by (auto simp: step_def sameAddress_iff list_ex_iff) (metis imageI)
    then show ?case using Cons.IH(3) [of "step out r"] by (simp add: image_Un) }
qed

lemma uniqueAddresses_distinct: "distinct (map rec_key (uniqueAddresses rs))"
  using unique_step(1) [of "[]" rs] by (simp add: uniqueAddresses_def)

lemma uniqueAddresses_subset: "set (uniqueAddresses rs) \<subseteq> set rs"
  using unique_step(2) [of "[]" rs] by (simp add: uniqueAddresses_def)

lemma uniqueAddresses_keys:
  "rec_key ` set (uniqueAddresses rs) = rec_key ` set rs"
  using unique_step(3) [of "[]" rs] by (simp add: uniqueAddresses_def)

subsection \<open>The shape of a plan\<close>

lemma sameName_lower [simp]: "sameName a (js_lower b) = sameName a b"
  by (simp add: sameName_def)

lemma nonempty_rrset_Some:
  "nonempty_rrset c = Some cur \<longleftrightarrow> c = Some cur \<and> v_records cur \<noteq> []"
  by (auto simp: nonempty_rrset_def split: option.splits)

lemma nonempty_rrset_None:
  "nonempty_rrset c = None \<longleftrightarrow> (\<forall>cur. c = Some cur \<longrightarrow> v_records cur = [])"
  by (auto simp: nonempty_rrset_def split: option.splits)

text \<open>What one item may do to the PTR RRset \<open>cur\<close> that exists at its owner.\<close>

definition item_respects :: "address_change \<Rightarrow> bool \<Rightarrow> rrset_value option \<Rightarrow> ptr_plan_item \<Rightarrow> bool" where
  "item_respects change force cur item \<longleftrightarrow>
     (i_rrset item \<noteq> None \<longleftrightarrow> i_action item = PtrCreate \<or> i_action item = PtrUpdate)
     \<and> (\<forall>w. i_rrset item = Some w \<longrightarrow> v_records w \<noteq> [] \<and>
          (\<forall>r \<in> set (v_records w). sameName (a_content r) (c_name change)
             \<or> (\<exists>c. cur = Some c \<and> r \<in> set (v_records c))))
     \<and> (\<forall>c r. cur = Some c \<longrightarrow> r \<in> set (v_records c) \<longrightarrow> \<not> sameName (a_content r) (c_name change) \<longrightarrow>
          \<not> force \<longrightarrow> i_action item \<in> {PtrUnchanged, PtrConflict, PtrSkip}
            \<or> i_action item = PtrUpdate \<and> (\<exists>w. i_rrset item = Some w \<and> r \<in> set (v_records w)))"

lemma respects_skip [simp]: "item_respects change force cur (skip_item ip owner)"
  by (simp add: item_respects_def skip_item_def)

lemma skip_item_sel [simp]: "i_owner (skip_item ip owner) = owner" "i_ip (skip_item ip owner) = ip"
  "i_action (skip_item ip owner) = PtrSkip"
  by (simp_all add: skip_item_def)

lemma hosted_item_sel [simp]:
  "i_owner (hosted_item ip m a rs t w) = m_owner m" "i_ip (hosted_item ip m a rs t w) = ip"
  "i_action (hosted_item ip m a rs t w) = a" "i_rrset (hosted_item ip m a rs t w) = w"
  "i_reverseZone (hosted_item ip m a rs t w) = Some (m_zone m)"
  by (simp_all add: hosted_item_def)

lemma respects_quiet:
  "a = PtrUnchanged \<or> a = PtrConflict \<Longrightarrow>
   item_respects change force cur (hosted_item ip m a rs t None)"
  by (auto simp: item_respects_def)

lemma respects_create:
  "nonempty_rrset cur = None \<Longrightarrow> v_records w = [r] \<Longrightarrow> sameName (a_content r) (c_name change) \<Longrightarrow>
   item_respects change force cur (hosted_item ip m PtrCreate rs t (Some w))"
  by (auto simp: item_respects_def nonempty_rrset_None)

lemma respects_update:
  "nonempty_rrset cur = Some c \<Longrightarrow> v_records w = [r] \<Longrightarrow> sameName (a_content r) (c_name change) \<Longrightarrow>
   force \<or> (\<forall>x \<in> set (v_records c). sameName (a_content x) (c_name change)) \<Longrightarrow>
   item_respects change force cur (hosted_item ip m PtrUpdate rs t (Some w))"
  by (auto simp: item_respects_def nonempty_rrset_Some)

lemma respects_delete:
  "nonempty_rrset cur = Some c \<Longrightarrow>
   \<forall>x \<in> set (v_records c). sameName (a_content x) (c_name change) \<Longrightarrow>
   item_respects change force cur (hosted_item ip m PtrDelete rs t None)"
  by (auto simp: item_respects_def nonempty_rrset_Some)

lemma respects_prune:
  "nonempty_rrset cur = Some c \<Longrightarrow>
   v_records w = filter (\<lambda>r. \<not> sameName (a_content r) (c_name change)) (v_records c) \<Longrightarrow>
   v_records w \<noteq> [] \<Longrightarrow>
   item_respects change force cur (hosted_item ip m PtrUpdate rs t (Some w))"
  by (auto simp: item_respects_def nonempty_rrset_Some)

lemma sameName_refl [simp]: "sameName a a"
  by (simp add: sameName_def)

lemma sameName_lower_left [simp]: "sameName (js_lower a) b = sameName a b"
  by (simp add: sameName_def)

lemmas plan_item_cases = option.splits if_splits

lemma plan_desired_respects:
  assumes item: "item \<in> set (plan_desired change before ctx rec)"
  shows "item_respects change (takeover ctx = Some True) (existing ctx (i_owner item)) item"
proof (cases "findReverseZone (a_content rec) (hostedReverseZones ctx)")
  case None
  with item show ?thesis by (auto simp: plan_desired_def Let_def split: option.splits)
next
  case (Some m)
  show ?thesis
  proof (cases "nonempty_rrset (existing ctx (m_owner m))")
    case None
    with item Some show ?thesis
      by (auto simp: plan_desired_def Let_def intro!: respects_create split: option.splits)
  next
    case c: (Some c)
    show ?thesis
      using item Some c
      by (auto simp: plan_desired_def Let_def list_all_iff respects_quiet
          split: option.splits if_splits intro!: respects_update)
  qed
qed

lemma length_filter_full: "length (filter P xs) = length xs \<longleftrightarrow> (\<forall>x \<in> set xs. P x)"
  by (metis filter_True length_filter_less less_irrefl)

lemma plan_previous_respects:
  assumes item: "item \<in> set (plan_previous change desired ctx rec)"
  shows "item_respects change (takeover ctx = Some True) (existing ctx (i_owner item)) item"
proof (cases "findReverseZone (a_content rec) (hostedReverseZones ctx)")
  case None
  with item show ?thesis
    by (auto simp: plan_previous_def Let_def split: option.splits if_splits)
next
  case (Some m)
  show ?thesis
  proof (cases "nonempty_rrset (existing ctx (m_owner m))")
    case None
    with item Some show ?thesis
      by (auto simp: plan_previous_def Let_def respects_quiet split: option.splits if_splits)
  next
    case c: (Some c)
    show ?thesis
      using item Some c
      by (auto simp: plan_previous_def Let_def respects_quiet length_filter_full filter_empty_conv
          split: option.splits if_splits intro!: respects_delete respects_prune)
  qed
qed

lemma plan_respects:
  "item \<in> set (p_items (planPtrChanges change before ctx)) \<Longrightarrow>
   item_respects change (takeover ctx = Some True) (existing ctx (i_owner item)) item"
  by (auto simp: planPtrChanges_def Let_def dest: plan_desired_respects plan_previous_respects)


subsection \<open>Which addresses and owners a plan mentions\<close>

definition item_at :: "string list \<Rightarrow> string \<Rightarrow> ptr_plan_item \<Rightarrow> bool" where
  "item_at hosted ip item \<longleftrightarrow> i_ip item = ip \<and>
     (case findReverseZone ip hosted of
        None \<Rightarrow> reverseOwnerName ip = Some (i_owner item) \<and> i_reverseZone item = None
      | Some m \<Rightarrow> i_owner item = m_owner m \<and> i_reverseZone item = Some (m_zone m))"

lemma item_at_hosted: "findReverseZone ip hosted = Some m \<Longrightarrow> item_at hosted ip (hosted_item ip m a rs t w)"
  by (simp add: item_at_def)

lemma item_at_skip:
  "findReverseZone ip hosted = None \<Longrightarrow> reverseOwnerName ip = Some owner \<Longrightarrow>
   item_at hosted ip (skip_item ip owner)"
  by (simp add: item_at_def skip_item_def)

lemma reverseOwnerName_parse: "reverseOwnerName ip = None \<longleftrightarrow> parseIp ip = None"
  by (auto simp: reverseOwnerName_def split: option.splits if_splits)

lemma plan_desired_single:
  "if parseIp (a_content rec) = None then plan_desired change before ctx rec = []
   else \<exists>item. plan_desired change before ctx rec = [item]
     \<and> item_at (hostedReverseZones ctx) (a_content rec) item"
  using reverseOwnerName_parse [of "a_content rec"]
  by (auto simp: plan_desired_def Let_def item_at_hosted item_at_skip split: option.splits)

lemma plan_previous_single:
  "if parseIp (a_content rec) = None \<or> (\<exists>d \<in> set desired. rec_key d = rec_key rec)
   then plan_previous change desired ctx rec = []
   else \<exists>item. plan_previous change desired ctx rec = [item]
     \<and> item_at (hostedReverseZones ctx) (a_content rec) item"
  using reverseOwnerName_parse [of "a_content rec"]
  by (auto simp: plan_previous_def Let_def item_at_hosted item_at_skip list_ex_iff sameAddress_iff
      split: option.splits)

lemma distinct_concat_single:
  assumes "distinct (map key rs)"
    and "\<And>r. r \<in> set rs \<Longrightarrow> f r = [] \<or> (\<exists>it. f r = [it] \<and> ikey it = key r)"
  shows "distinct (map ikey (concat (map f rs))) \<and> ikey ` set (concat (map f rs)) \<subseteq> key ` set rs"
  using assms
proof (induction rs)
  case (Cons r rs)
  then have IH: "distinct (map ikey (concat (map f rs)))" "ikey ` set (concat (map f rs)) \<subseteq> key ` set rs"
    by auto
  from Cons.prems(2) [of r] consider "f r = []" | it where "f r = [it]" "ikey it = key r" by auto
  then show ?case
  proof cases
    case 1
    with IH show ?thesis by auto
  next
    case 2
    with IH Cons.prems(1) show ?thesis by auto
  qed
qed simp

abbreviation item_key :: "ptr_plan_item \<Rightarrow> parsed_ip + string" where
  "item_key it \<equiv> addr_key (i_ip it)"

lemma plan_items_distinct:
  "distinct (map item_key (p_items (planPtrChanges change before ctx)))"
proof -
  let ?d = "desired_records change" and ?p = "previous_records before"
  let ?f = "plan_desired change before ctx" and ?g = "plan_previous change ?d ctx"
  let ?q = "filter (\<lambda>r. \<not> (\<exists>d \<in> set ?d. rec_key d = rec_key r)) ?p"
  have f: "?f r = [] \<or> (\<exists>it. ?f r = [it] \<and> item_key it = rec_key r)" for r
    using plan_desired_single [of r change before ctx] by (auto simp: item_at_def split: if_splits)
  have g: "?g r = [] \<or> (\<exists>it. ?g r = [it] \<and> item_key it = rec_key r)" for r
    using plan_previous_single [of r ?d change ctx] by (auto simp: item_at_def split: if_splits)
  have "\<And>rs. concat (map ?g rs) = concat (map ?g (filter (\<lambda>r. \<not> (\<exists>d \<in> set ?d. rec_key d = rec_key r)) rs))"
  proof -
    fix rs show "concat (map ?g rs) = concat (map ?g (filter (\<lambda>r. \<not> (\<exists>d \<in> set ?d. rec_key d = rec_key r)) rs))"
    proof (induction rs)
      case (Cons r rs)
      then show ?case using plan_previous_single [of r ?d change ctx] by simp
    qed simp
  qed
  then have gq: "concat (map ?g ?p) = concat (map ?g ?q)" by blast
  have dd: "distinct (map rec_key ?d)"
    by (simp add: desired_records_def uniqueAddresses_distinct)
  have "distinct (map rec_key ?p)"
    by (simp add: previous_records_def uniqueAddresses_distinct)
  then have dq: "distinct (map rec_key ?q)" by (rule distinct_map_filter)
  note D = distinct_concat_single [OF dd f] and Q = distinct_concat_single [OF dq g]
  have "rec_key ` set ?d \<inter> rec_key ` set ?q = {}" by auto
  then have "item_key ` set (concat (map ?f ?d)) \<inter> item_key ` set (concat (map ?g ?q)) = {}"
    using D Q by blast
  then show ?thesis using D Q
    by (simp add: planPtrChanges_def Let_def gq del: set_concat map_concat)
qed

lemma plan_item_at:
  assumes "item \<in> set (p_items (planPtrChanges change before ctx))"
  obtains rec where "rec \<in> set (desired_records change) \<union> set (previous_records before)"
    "parseIp (a_content rec) \<noteq> None" "item_at (hostedReverseZones ctx) (a_content rec) item"
proof -
  from assms consider rec where "rec \<in> set (desired_records change)"
      "item \<in> set (plan_desired change before ctx rec)"
    | rec where "rec \<in> set (previous_records before)"
      "item \<in> set (plan_previous change (desired_records change) ctx rec)"
    by (auto simp: planPtrChanges_def Let_def)
  then show ?thesis
  proof cases
    case (1 rec)
    then show ?thesis using that [of rec] plan_desired_single [of rec change before ctx]
      by (auto split: if_splits)
  next
    case (2 rec)
    then show ?thesis
      using that [of rec] plan_previous_single [of rec "desired_records change" change ctx]
      by (auto split: if_splits)
  qed
qed

definition plain_address :: "string \<Rightarrow> bool" where
  "plain_address a \<longleftrightarrow>
     (case parseIp a of Some p \<Rightarrow> ip_family p = V4 \<or> CHR ''.'' \<notin> set (ip_canonical p) | None \<Rightarrow> True)"

lemma item_at_reads_back:
  assumes "item_at hosted ip item" "plain_address ip" "parseIp ip = Some p"
  shows "\<exists>t. ipFromReverseOwner (i_owner item) = Some t \<and> parseIp t = Some p"
proof -
  have p: "ip_family p = V6 \<Longrightarrow> CHR ''.'' \<notin> set (ip_canonical p)"
    using assms(2,3) by (auto simp: plain_address_def)
  show ?thesis
  proof (cases "findReverseZone ip hosted")
    case None
    with assms(1) have "reverseOwnerName ip = Some (i_owner item)" by (simp add: item_at_def)
    with reverse_roundtrip_main [OF assms(3) p] show ?thesis by auto
  next
    case (Some m)
    with assms(1) findReverseZone_owner_reads_back [OF Some assms(3) p] show ?thesis
      by (simp add: item_at_def)
  qed
qed

lemma uniqueAddresses_Nil [simp]: "uniqueAddresses [] = []"
  by (simp add: uniqueAddresses_def)

lemma desired_records_subset: "set (desired_records change) \<subseteq>
    (if c_kind change = Upsert then (case c_records change of Some rs \<Rightarrow> set rs | None \<Rightarrow> {}) else {})"
  using uniqueAddresses_subset by (auto simp: desired_records_def split: option.splits)

lemma previous_records_subset: "set (previous_records before) \<subseteq>
    (case before of Some b \<Rightarrow> set (v_records b) | None \<Rightarrow> {})"
  using uniqueAddresses_subset by (auto simp: previous_records_def split: option.splits)

lemma distinct_map_weaker:
  assumes d: "distinct (map f xs)"
    and w: "\<And>x y. x \<in> set xs \<Longrightarrow> y \<in> set xs \<Longrightarrow> g x = g y \<Longrightarrow> f x = f y"
  shows "distinct (map g xs)"
proof -
  have "distinct xs" and inj: "inj_on f (set xs)" using d by (simp_all add: distinct_map)
  moreover have "inj_on g (set xs)"
    by (rule inj_onI, rule inj_onD [OF inj w])
  ultimately show ?thesis by (simp add: distinct_map)
qed

lemma item_reads_back:
  assumes it: "it \<in> set (p_items (planPtrChanges change before ctx))"
    and plain: "\<forall>r \<in> set (desired_records change) \<union> set (previous_records before).
      plain_address (a_content r)"
  shows "\<exists>t. ipFromReverseOwner (i_owner it) = Some t \<and> item_key it = addr_key t"
proof -
  obtain rec where rec: "rec \<in> set (desired_records change) \<union> set (previous_records before)"
    "parseIp (a_content rec) \<noteq> None" "item_at (hostedReverseZones ctx) (a_content rec) it"
    using plan_item_at [OF it] by blast
  then obtain p where p: "parseIp (a_content rec) = Some p" by blast
  have "plain_address (a_content rec)" using plain rec(1) by (rule bspec)
  from item_at_reads_back [OF rec(3) this p] obtain t
    where t: "ipFromReverseOwner (i_owner it) = Some t" "parseIp t = Some p" by blast
  from rec(3) have "i_ip it = a_content rec" by (simp add: item_at_def)
  with p t(2) have "item_key it = addr_key t" by (simp add: addr_key_def)
  with t(1) show ?thesis by blast
qed

lemma plan_owners_distinct:
  assumes plain: "\<forall>r \<in> set (desired_records change) \<union> set (previous_records before).
      plain_address (a_content r)"
  shows "distinct (map i_owner (p_items (planPtrChanges change before ctx)))"
proof (rule distinct_map_weaker [OF plan_items_distinct])
  fix x y
  assume x: "x \<in> set (p_items (planPtrChanges change before ctx))"
    and y: "y \<in> set (p_items (planPtrChanges change before ctx))" and eq: "i_owner x = i_owner y"
  obtain t where t: "ipFromReverseOwner (i_owner x) = Some t" "item_key x = addr_key t"
    using item_reads_back [OF x plain] by blast
  obtain u where u: "ipFromReverseOwner (i_owner y) = Some u" "item_key y = addr_key u"
    using item_reads_back [OF y plain] by blast
  from t(1) u(1) eq have "t = u" by simp
  with t(2) u(2) show "item_key x = item_key y" by simp
qed

lemma plan_items_set:
  "set (p_items (planPtrChanges change before ctx)) =
     (\<Union>r \<in> set (desired_records change). set (plan_desired change before ctx r))
     \<union> (\<Union>r \<in> set (previous_records before).
          set (plan_previous change (desired_records change) ctx r))"
  by (simp add: planPtrChanges_def Let_def)

lemma plan_covers_desired:
  assumes r: "r \<in> set (desired_records change)" and ip: "parseIp (a_content r) \<noteq> None"
  shows "\<exists>item \<in> set (p_items (planPtrChanges change before ctx)). item_key item = rec_key r"
proof -
  obtain item where item: "plan_desired change before ctx r = [item]"
    "item_at (hostedReverseZones ctx) (a_content r) item"
    using plan_desired_single [of r change before ctx] ip by auto
  have "item \<in> set (plan_desired change before ctx r)" by (simp add: item(1))
  with r have "item \<in> set (p_items (planPtrChanges change before ctx))"
    unfolding plan_items_set by blast
  moreover have "item_key item = rec_key r" using item(2) by (simp add: item_at_def)
  ultimately show ?thesis by blast
qed

lemma plan_covers_previous:
  assumes r: "r \<in> set (previous_records before)" and ip: "parseIp (a_content r) \<noteq> None"
  shows "\<exists>item \<in> set (p_items (planPtrChanges change before ctx)). item_key item = rec_key r"
proof (cases "\<exists>d \<in> set (desired_records change). rec_key d = rec_key r")
  case True
  then obtain d where d: "d \<in> set (desired_records change)" "rec_key d = rec_key r" by blast
  then have "parseIp (a_content d) \<noteq> None"
    using ip by (auto simp: addr_key_def split: option.splits)
  from plan_covers_desired [OF d(1) this, of before ctx] d(2) show ?thesis by metis
next
  case False
  then obtain item where item: "plan_previous change (desired_records change) ctx r = [item]"
    "item_at (hostedReverseZones ctx) (a_content r) item"
    using plan_previous_single [of r "desired_records change" change ctx] ip by auto
  have "item \<in> set (plan_previous change (desired_records change) ctx r)" by (simp add: item(1))
  with r have "item \<in> set (p_items (planPtrChanges change before ctx))"
    unfolding plan_items_set by blast
  moreover have "item_key item = rec_key r" using item(2) by (simp add: item_at_def)
  ultimately show ?thesis by blast
qed

lemma candidate_foldl:
  "findReverseZone (a_content r) hosted = Some m \<Longrightarrow> r \<in> set rs \<or> m_owner m \<in> fst ` set out \<Longrightarrow>
   m_owner m \<in> fst ` set (foldl (\<lambda>out rec. case findReverseZone (a_content rec) hosted of
                   None \<Rightarrow> out
                 | Some match \<Rightarrow> AList.update (m_owner match) (m_zone match) out) out rs)"
proof (induction rs arbitrary: out)
  case (Cons x rs)
  let ?step = "\<lambda>out rec. case findReverseZone (a_content rec) hosted of
                   None \<Rightarrow> out
                 | Some match \<Rightarrow> AList.update (m_owner match) (m_zone match) out"
  have "r \<in> set rs \<or> m_owner m \<in> fst ` set (?step out x)"
    using Cons.prems by (auto simp: dom_update split: option.splits)
  with Cons.IH [OF Cons.prems(1), of "?step out x"] show ?case by simp
qed simp

lemma candidate_owner:
  assumes m: "findReverseZone (a_content r) hosted = Some m"
    and r: "r \<in> set (desired_records change) \<union> set (previous_records before)"
  shows "m_owner m \<in> fst ` set (candidatePtrOwners change (map_option v_records before) hosted)"
proof -
  let ?new = "if c_kind change = Upsert then (case c_records change of Some rs \<Rightarrow> rs | None \<Rightarrow> []) else []"
  let ?old = "case map_option v_records before of Some rs \<Rightarrow> rs | None \<Rightarrow> []"
  have "set (desired_records change) \<subseteq> set ?new"
    unfolding desired_records_def by (simp only: uniqueAddresses_subset split: if_split)
      simp
  moreover have "set (previous_records before) \<subseteq> set ?old"
    using previous_records_subset [of before] by (cases before) simp_all
  ultimately have "r \<in> set (?new @ ?old)" using r unfolding set_append by blast
  then show ?thesis
    unfolding candidatePtrOwners_def Let_def using candidate_foldl [OF m] by blast
qed

lemma plan_reads_only_candidates:
  assumes "\<And>own. own \<in> fst ` set (candidatePtrOwners change (map_option v_records before)
      (hostedReverseZones ctx)) \<Longrightarrow> existing ctx own = ex own"
  shows "planPtrChanges change before (ctx\<lparr>existing := ex\<rparr>) = planPtrChanges change before ctx"
proof -
  have same: "existing ctx (m_owner m) = ex (m_owner m)"
    if "findReverseZone (a_content r) (hostedReverseZones ctx) = Some m"
      "r \<in> set (desired_records change) \<union> set (previous_records before)" for r m
    using candidate_owner [OF that] assms by blast
  have "plan_desired change before (ctx\<lparr>existing := ex\<rparr>) r = plan_desired change before ctx r"
    if "r \<in> set (desired_records change)" for r
    using same [of r] that by (auto simp: plan_desired_def Let_def split: option.split)
  moreover have "plan_previous change d (ctx\<lparr>existing := ex\<rparr>) r = plan_previous change d ctx r"
    if "r \<in> set (previous_records before)" for r d
    using same [of r] that by (auto simp: plan_previous_def Let_def split: option.split)
  ultimately show ?thesis
    by (simp add: planPtrChanges_def Let_def cong: map_cong)
qed

subsection \<open>The summary and the setting\<close>

definition count_actions :: "outcome_action set \<Rightarrow> auto_ptr_outcome list \<Rightarrow> nat" where
  "count_actions acts ocs = length (filter (\<lambda>oc. o_action oc \<in> acts) ocs)"

lemma summary_fold:
  "foldl summary_step s ocs =
     \<lparr>s_written = s_written s + count_actions {Planned PtrCreate, Planned PtrUpdate, Planned PtrDelete} ocs,
      s_unchanged = s_unchanged s + count_actions {Planned PtrUnchanged} ocs,
      s_skipped = s_skipped s + count_actions {Planned PtrSkip} ocs,
      s_conflicts = s_conflicts s + count_actions {Planned PtrConflict} ocs,
      s_failed = s_failed s + count_actions {Failed} ocs\<rparr>"
proof (induction ocs arbitrary: s)
  case Nil
  then show ?case by (simp add: count_actions_def)
next
  case (Cons oc ocs)
  have step: "foldl summary_step s (oc # ocs) = foldl summary_step (summary_step s oc) ocs" by simp
  show ?case
    unfolding step Cons.IH
    by (cases "o_action oc"; (cases "case o_action oc of Planned a \<Rightarrow> a | Failed \<Rightarrow> PtrSkip")?)
      (simp_all add: summary_step_def count_actions_def)
qed

lemma count_actions_pos: "count_actions acts ocs \<noteq> 0 \<longleftrightarrow> (\<exists>oc \<in> set ocs. o_action oc \<in> acts)"
  by (auto simp: count_actions_def filter_empty_conv)

lemma bex_disj_distrib: "(\<exists>x \<in> A. P x \<or> Q x) \<longleftrightarrow> (\<exists>x \<in> A. P x) \<or> (\<exists>x \<in> A. Q x)"
  by blast

lemma action_rest:
  "o_action oc \<noteq> Failed \<Longrightarrow> o_action oc \<noteq> Planned PtrConflict \<Longrightarrow> o_action oc \<noteq> Planned PtrSkip \<Longrightarrow>
   o_action oc \<noteq> Planned PtrUnchanged \<longleftrightarrow>
     o_action oc \<in> {Planned PtrCreate, Planned PtrUpdate, Planned PtrDelete}"
  by (cases "o_action oc") (auto intro: ptr_action.exhaust)

lemma actions_rest:
  assumes "\<not> (\<exists>oc \<in> set ocs. o_action oc = Failed)"
    and "\<not> (\<exists>oc \<in> set ocs. o_action oc = Planned PtrConflict)"
    and "\<not> (\<exists>oc \<in> set ocs. o_action oc = Planned PtrSkip)"
  shows "(\<exists>oc \<in> set ocs. o_action oc \<noteq> Planned PtrUnchanged) \<longleftrightarrow>
    (\<exists>oc \<in> set ocs. o_action oc \<in> {Planned PtrCreate, Planned PtrUpdate, Planned PtrDelete})"
  by (rule bex_cong [OF refl], rule action_rest) (use assms in blast)+

text \<open>
  The toast level of a batch of PTR outcomes is the worst outcome in it: error exactly when
  one failed, a warning exactly when none failed and one was skipped or left pointing elsewhere,
  ok exactly when nothing needs attention and a record was written, and nothing at all otherwise.
\<close>

theorem summarizePtrOutcomes_level:
  "snd (snd (summarizePtrOutcomes ocs)) =
     (if \<exists>oc \<in> set ocs. o_action oc = Failed then LevelError
      else if \<exists>oc \<in> set ocs. o_action oc = Planned PtrConflict \<or> o_action oc = Planned PtrSkip
      then LevelWarn
      else if \<exists>oc \<in> set ocs. o_action oc \<noteq> Planned PtrUnchanged then LevelOk else LevelNone)"
proof -
  let ?any = "\<lambda>acts. \<exists>oc \<in> set ocs. o_action oc \<in> acts"
  have "snd (snd (summarizePtrOutcomes ocs)) =
     (if ?any {Failed} then LevelError
      else if ?any {Planned PtrConflict} \<or> ?any {Planned PtrSkip} then LevelWarn
      else if ?any {Planned PtrCreate, Planned PtrUpdate, Planned PtrDelete} then LevelOk
      else LevelNone)"
    by (simp only: summarizePtrOutcomes_def Let_def summary_level_def summary_fold snd_conv
        ptr_summary.select_convs add_0 count_actions_pos)
  then show ?thesis using actions_rest [of ocs] by (simp add: bex_disj_distrib)
qed

lemma parseAutoPtrFlag_value: "parseAutoPtrFlag (autoPtrFlagValue b) = Some b"
proof -
  have "parseAutoPtrFlag ''on'' = Some True" "parseAutoPtrFlag ''off'' = Some False" by code_simp+
  then show ?thesis by (simp add: autoPtrFlagValue_def)
qed

lemma resolveAutoPtr_order:
  "resolveAutoPtr (Some b) z g = (b, FromChange)"
  "resolveAutoPtr None (Some b) g = (b, FromZone)"
  "fst (resolveAutoPtr None None g) \<longleftrightarrow> g = Some True"
  by (auto simp: resolveAutoPtr_def split: option.splits)

subsection \<open>What a plan guarantees\<close>

text \<open>
  Without takeover a plan never drops a PTR record that points at another name: an item
  whose owner holds such a record leaves the RRset alone or rewrites it with that record kept.
  Whatever it writes is a PTR to the changed name or a record already there, and never an empty
  RRset.
\<close>

theorem planPtrChanges_keeps_foreign:
  assumes "item \<in> set (p_items (planPtrChanges change before ctx))"
    and "takeover ctx \<noteq> Some True"
    and "existing ctx (i_owner item) = Some c"
    and "r \<in> set (v_records c)" and "\<not> sameName (a_content r) (c_name change)"
  shows "(i_action item \<in> {PtrUnchanged, PtrConflict, PtrSkip} \<and> i_rrset item = None)
      \<or> (\<exists>w. i_action item = PtrUpdate \<and> i_rrset item = Some w \<and> r \<in> set (v_records w)
           \<and> (\<forall>x \<in> set (v_records w). sameName (a_content x) (c_name change) \<or> x \<in> set (v_records c)))"
  using plan_respects [OF assms(1)] assms(2-)
  by (auto simp: item_respects_def)

text \<open>The concrete setting of the witnesses: one address, moved to a name another host owns.\<close>

definition demo_change :: address_change where
  "demo_change = \<lparr>c_kind = Upsert, c_name = ''WWW.example.com.'', c_type = TypeA, c_ttl = Some 300,
     c_records = Some [\<lparr>a_content = ''192.168.1.5'', a_disabled = None\<rparr>]\<rparr>"

definition demo_ctx :: ptr_context where
  "demo_ctx = \<lparr>hostedReverseZones = [''1.168.192.in-addr.arpa.''],
     existing = [''5.1.168.192.in-addr.arpa.'' \<mapsto>
        \<lparr>v_ttl = 60, v_records = [\<lparr>a_content = ''mail.example.com.'', a_disabled = None\<rparr>]\<rparr>],
     takeover = None\<rparr>"

definition demo_item :: ptr_plan_item where
  "demo_item = \<lparr>i_ip = ''192.168.1.5'', i_owner = ''5.1.168.192.in-addr.arpa.'',
     i_reverseZone = Some ''1.168.192.in-addr.arpa.'', i_action = PtrConflict, i_reason = None,
     i_currentTargets = Some [''mail.example.com.''], i_rrset = None\<rparr>"

lemma demo_plan: "p_items (planPtrChanges demo_change None demo_ctx) = [demo_item]"
  by code_simp

lemma demo_existing:
  "takeover demo_ctx \<noteq> Some True"
  "existing demo_ctx (i_owner demo_item) =
     Some \<lparr>v_ttl = 60, v_records = [\<lparr>a_content = ''mail.example.com.'', a_disabled = None\<rparr>]\<rparr>"
  "\<not> sameName ''mail.example.com.'' (c_name demo_change)"
  by (simp add: demo_ctx_def, simp add: demo_ctx_def demo_item_def, code_simp)

theorem planPtrChanges_keeps_foreign_witness:
  "i_action demo_item \<in> {PtrUnchanged, PtrConflict, PtrSkip} \<and> i_rrset demo_item = None
     \<or> i_action demo_item = PtrUpdate"
  using planPtrChanges_keeps_foreign [of demo_item demo_change None demo_ctx _
      "\<lparr>a_content = ''mail.example.com.'', a_disabled = None\<rparr>", OF _ demo_existing(1,2)]
    demo_plan demo_existing(3)
  by auto

text \<open>
  A plan has exactly one item for each address the record gains or loses: every valid
  address among the new and the old ones has one, whatever its spelling, no address has two, and
  for addresses in their ordinary spelling no two items touch the same PTR owner name.
\<close>

theorem planPtrChanges_one_item_per_address:
  assumes "\<forall>r \<in> set (desired_records change) \<union> set (previous_records before).
      plain_address (a_content r)"
  shows "distinct (map i_owner (p_items (planPtrChanges change before ctx)))
    \<and> distinct (map (\<lambda>it. addr_key (i_ip it)) (p_items (planPtrChanges change before ctx)))
    \<and> (\<forall>r \<in> set (desired_records change) \<union> set (previous_records before).
      parseIp (a_content r) \<noteq> None \<longrightarrow>
      (\<exists>item \<in> set (p_items (planPtrChanges change before ctx)). sameAddress (i_ip item) (a_content r)))"
  using plan_owners_distinct [OF assms] plan_items_distinct plan_covers_desired plan_covers_previous
  unfolding sameAddress_iff by blast

definition demo_before :: rrset_value where
  "demo_before = \<lparr>v_ttl = 300, v_records = [\<lparr>a_content = ''192.168.1.9'', a_disabled = None\<rparr>]\<rparr>"

lemma demo_plain:
  "\<forall>r \<in> set (desired_records demo_change) \<union> set (previous_records (Some demo_before)).
      plain_address (a_content r)"
  by code_simp

theorem planPtrChanges_one_item_per_address_witness:
  "distinct (map i_owner (p_items (planPtrChanges demo_change (Some demo_before) demo_ctx)))"
  by (rule planPtrChanges_one_item_per_address [OF demo_plain, THEN conjunct1])

text \<open>
  The caller reads the PTR RRsets at \<open>candidatePtrOwners\<close> before it plans; the plan
  depends on no other part of the reverse zones, so a plan made from that partial read is the
  plan the full zone contents would give.
\<close>

theorem planPtrChanges_reads_only_candidates:
  assumes "\<forall>own \<in> fst ` set (candidatePtrOwners change (map_option v_records before)
      (hostedReverseZones ctx)). existing ctx own = ex own"
  shows "planPtrChanges change before (ctx\<lparr>existing := ex\<rparr>) = planPtrChanges change before ctx"
  by (rule plan_reads_only_candidates) (use assms in blast)

lemma demo_candidates:
  "candidatePtrOwners demo_change None (hostedReverseZones demo_ctx)
     = [(''5.1.168.192.in-addr.arpa.'', ''1.168.192.in-addr.arpa.'')]"
  by code_simp

theorem planPtrChanges_reads_only_candidates_witness:
  "planPtrChanges demo_change None (demo_ctx\<lparr>existing :=
      (existing demo_ctx)(''9.1.168.192.in-addr.arpa.'' \<mapsto> demo_before)\<rparr>)
     = planPtrChanges demo_change None demo_ctx"
  by (rule planPtrChanges_reads_only_candidates) (simp add: demo_candidates)

end
