(* ===== verification/ZoneSettings.thy ===== *)
theory ZoneSettings
  imports AutoPtr Errors
begin

section \<open>Zone kinds, metadata policy, backend capabilities and zone ids\<close>

text \<open>
  Models \<open>lib/pdns/zone-kinds.ts\<close>, \<open>lib/pdns/writable-kind.ts\<close>, \<open>lib/dns/default-ttl.ts\<close>,
  \<open>lib/pdns/metadata-policy.ts\<close>, \<open>lib/pdns/lua-enablement.ts\<close>, \<open>lib/pdns/version.ts\<close> and
  \<open>lib/pdns/zone-id.ts\<close>.  A call of the PowerDNS client is a parameter: the value it returned or
  what it threw.  \<open>redact\<close>, the scrubbing of messages, is a parameter too.
\<close>

subsection \<open>zone-kinds.ts and writable-kind.ts\<close>

definition MIRROR_KINDS :: "string list" where
  "MIRROR_KINDS = [''slave'', ''secondary'', ''consumer'']"

definition TRANSFERRED_KINDS :: "string list" where
  "TRANSFERRED_KINDS = [''master'', ''primary'', ''producer'']"

definition SYSTEM_KINDS :: "string list" where
  "SYSTEM_KINDS = [''producer'', ''consumer'']"

definition isMirrorKind :: "string \<Rightarrow> bool" where
  "isMirrorKind kind \<longleftrightarrow> js_lower kind \<in> set MIRROR_KINDS"

definition isTransferredKind :: "string \<Rightarrow> bool" where
  "isTransferredKind kind \<longleftrightarrow> js_lower kind \<in> set TRANSFERRED_KINDS"

definition isSystemKind :: "string \<Rightarrow> bool" where
  "isSystemKind kind \<longleftrightarrow> js_lower kind \<in> set SYSTEM_KINDS"

datatype catalog_role = Producer | Consumer

definition catalogRole :: "string \<Rightarrow> catalog_role option" where
  "catalogRole kind =
     (let k = js_lower kind in
      if k = ''producer'' then Some Producer else if k = ''consumer'' then Some Consumer else None)"

definition mirrorFollowsZone :: "string \<Rightarrow> bool \<Rightarrow> bool" where
  "mirrorFollowsZone primaryKind mirrorHasZone \<longleftrightarrow>
     catalogRole primaryKind \<noteq> Some Producer \<or> mirrorHasZone"

definition isReadOnlyZoneKind :: "string \<Rightarrow> bool" where
  "isReadOnlyZoneKind kind \<longleftrightarrow> isMirrorKind kind"

record zone_ops =
  op_rrsets :: bool
  op_dnssec :: bool
  op_metadata :: bool
  op_masters :: bool
  op_axfrRetrieve :: bool
  op_delete :: bool

definition zoneCapabilities :: "string \<Rightarrow> zone_ops" where
  "zoneCapabilities kind =
     (let mirror = isReadOnlyZoneKind kind; producer = (catalogRole kind = Some Producer) in
      \<lparr>op_rrsets = \<not> mirror \<and> \<not> producer, op_dnssec = \<not> mirror \<and> \<not> producer,
       op_metadata = True, op_masters = mirror, op_axfrRetrieve = mirror, op_delete = True\<rparr>)"

definition assertEditableZoneKind :: "string \<Rightarrow> thrown + unit" where
  "assertEditableZoneKind kind =
     (if catalogRole kind = Some Producer then
        Inl (AppThrown (ConflictError (''This is a catalog Producer zone - PowerDNS generates its records from the zones that ''
          @ ''name it as their catalog, so they can't be edited here. Change a zone's catalog in its settings instead.'') None))
      else if isReadOnlyZoneKind kind then
        Inl (AppThrown (ConflictError (''This is a '' @ kind @ '' zone - its records and DNSSEC are managed by its primary over AXFR ''
          @ ''and can't be edited here. (You can still change the mirror's masters and transfer metadata.)'') None))
      else Inr ())"

lemma editable_iff_rrsets: "assertEditableZoneKind kind = Inr () \<longleftrightarrow> op_rrsets (zoneCapabilities kind)"
  by (simp add: assertEditableZoneKind_def zoneCapabilities_def Let_def)

lemma kinds_classified:
  "\<not> (isMirrorKind kind \<and> isTransferredKind kind)"
  "isSystemKind kind \<longleftrightarrow> catalogRole kind \<noteq> None"
  by (auto simp: isMirrorKind_def isTransferredKind_def isSystemKind_def catalogRole_def Let_def
      MIRROR_KINDS_def TRANSFERRED_KINDS_def SYSTEM_KINDS_def)

subsection \<open>default-ttl.ts\<close>

definition BUILTIN_DEFAULT_TTL :: nat where "BUILTIN_DEFAULT_TTL = 3600"
definition MIN_DEFAULT_TTL :: nat where "MIN_DEFAULT_TTL = 1"
definition MAX_DEFAULT_TTL :: nat where "MAX_DEFAULT_TTL = 2147483647"

definition ZONE_DEFAULT_TTL_KIND :: string where
  "ZONE_DEFAULT_TTL_KIND = ''X-AUTHADMIN-DEFAULT-TTL''"

definition parseDefaultTtl :: "string \<Rightarrow> nat option" where
  "parseDefaultTtl value =
     (let trimmed = js_trim value in
      if \<not> (trimmed \<noteq> [] \<and> list_all is_digit trimmed) then None
      else (let n = nat_of_dec trimmed in
            if MIN_DEFAULT_TTL \<le> n \<and> n \<le> MAX_DEFAULT_TTL then Some n else None))"

definition zoneDefaultTtlFromMetadata :: "metadata_entry list \<Rightarrow> nat option" where
  "zoneDefaultTtlFromMetadata metadata =
     (case first_metadata ZONE_DEFAULT_TTL_KIND metadata of
        None \<Rightarrow> None | Some first \<Rightarrow> parseDefaultTtl first)"

datatype ttl_source = TtlZone | TtlGlobal | TtlBuiltin

definition resolveDefaultTtl :: "nat option \<Rightarrow> nat option \<Rightarrow> nat \<times> ttl_source" where
  "resolveDefaultTtl zone global =
     (case zone of Some t \<Rightarrow> (t, TtlZone)
      | None \<Rightarrow> (case global of Some t \<Rightarrow> (t, TtlGlobal) | None \<Rightarrow> (BUILTIN_DEFAULT_TTL, TtlBuiltin)))"

definition zoneDefaultTtlValuesError :: "string list \<Rightarrow> string option" where
  "zoneDefaultTtlValuesError vals =
     (if length vals \<noteq> 1 \<or> parseDefaultTtl (vals ! 0) = None
      then Some (ZONE_DEFAULT_TTL_KIND @ '' takes a single whole number of seconds between ''
        @ dec_of_nat MIN_DEFAULT_TTL @ '' and '' @ dec_of_nat MAX_DEFAULT_TTL @ ''.'')
      else None)"

subsection \<open>metadata-policy.ts\<close>

definition ENABLE_LUA_RECORDS_KIND :: string where
  "ENABLE_LUA_RECORDS_KIND = ''ENABLE-LUA-RECORDS''"

definition ENABLE_LUA_RECORDS_SETTING :: string where
  "ENABLE_LUA_RECORDS_SETTING = ''enable-lua-records''"

definition ENABLE_LUA_RECORD_UPDATES_SETTING :: string where
  "ENABLE_LUA_RECORD_UPDATES_SETTING = ''enable-lua-record-updates''"

definition READ_ONLY_METADATA_KINDS :: "string list" where
  "READ_ONLY_METADATA_KINDS =
     [''AXFR-MASTER-TSIG'', ''TSIG-ALLOW-AXFR'', ''LUA-AXFR-SCRIPT'', ''NSEC3NARROW'', ''NSEC3PARAM'',
      ''PRESIGNED'', ENABLE_LUA_RECORDS_KIND]"

definition isApiWritableMetadataKind :: "string \<Rightarrow> bool" where
  "isApiWritableMetadataKind kind \<longleftrightarrow>
     (if starts_with kind ''X-'' then True else kind \<notin> set READ_ONLY_METADATA_KINDS)"

definition assertApiWritableMetadataKind :: "string \<Rightarrow> thrown + unit" where
  "assertApiWritableMetadataKind kind =
     (if \<not> isApiWritableMetadataKind kind then
        Inl (AppThrown (ForbiddenError (''The \"'' @ kind @ ''\" metadata kind is read-only in AuthAdmin. ''
          @ ''Change it on the PowerDNS host (or via pdnsutil), not through the metadata API.'')))
      else Inr ())"

definition field_error :: "string \<Rightarrow> thrown" where
  "field_error e = AppThrown (ValidationError e
     (Some [(''fieldErrors'', JObj [(''values'', JArr [JStr e])])]))"

definition normalizeMetadataValues :: "string \<Rightarrow> string list \<Rightarrow> thrown + string list" where
  "normalizeMetadataValues kind vals =
     (if kind = ZONE_DEFAULT_TTL_KIND then
        (case zoneDefaultTtlValuesError vals of
           Some e \<Rightarrow> Inl (field_error e)
         | None \<Rightarrow> Inr [case parseDefaultTtl (vals ! 0) of Some n \<Rightarrow> dec_of_nat n | None \<Rightarrow> ''null''])
      else if kind = ZONE_AUTO_PTR_KIND then
        (case zoneAutoPtrValuesError vals of
           Some e \<Rightarrow> Inl (field_error e)
         | None \<Rightarrow> Inr [autoPtrFlagValue (parseAutoPtrFlag (vals ! 0) = Some True)])
      else Inr vals)"

definition isTruthyFlag :: "string \<Rightarrow> bool" where
  "isTruthyFlag value \<longleftrightarrow> js_lower (js_trim value) \<in> {''1'', ''yes'', ''true''}"

definition isLuaEnabledByZoneMetadata :: "metadata_entry list \<Rightarrow> bool" where
  "isLuaEnabledByZoneMetadata metadata \<longleftrightarrow>
     list_ex (\<lambda>item. md_kind item = ENABLE_LUA_RECORDS_KIND \<and> list_ex isTruthyFlag (md_values item)) metadata"

definition isLuaEnabledGlobally :: "string option \<Rightarrow> bool" where
  "isLuaEnabledGlobally settingValue \<longleftrightarrow>
     (case settingValue of
        None \<Rightarrow> False
      | Some s \<Rightarrow> (let v = js_lower (js_trim s) in
          if v = [] then True else v = ''shared'' \<or> v = ''shard'' \<or> isTruthyFlag v))"

definition areLuaRecordUpdatesLocked :: "string option \<Rightarrow> bool" where
  "areLuaRecordUpdatesLocked settingValue \<longleftrightarrow>
     (case settingValue of
        None \<Rightarrow> False | Some s \<Rightarrow> js_lower (js_trim s) \<in> {''no'', ''off''})"

subsection \<open>lua-enablement.ts\<close>

text \<open>
  The result of a client call: a value, a \<open>PdnsNotFoundError\<close>, another \<open>PdnsError\<close> with its
  status, or any other exception.
\<close>

datatype 'a pdns_call = Returned 'a | NotFoundRaised string | PdnsRaised nat string | OtherRaised string

definition rethrow :: "'a pdns_call \<Rightarrow> thrown" where
  "rethrow c = (case c of
     NotFoundRaised m \<Rightarrow> PdnsThrown 404 m
   | PdnsRaised st m \<Rightarrow> PdnsThrown st m
   | OtherRaised m \<Rightarrow> ErrorThrown m
   | Returned _ \<Rightarrow> ErrorThrown [])"

definition pdns_message :: "'a pdns_call \<Rightarrow> string option" where
  "pdns_message c = (case c of NotFoundRaised m \<Rightarrow> Some m | PdnsRaised st m \<Rightarrow> Some m | _ \<Rightarrow> None)"

definition NOT_ENABLED_FOR_ZONE :: string where
  "NOT_ENABLED_FOR_ZONE =
     ''LUA records are not enabled for this zone. Enable them on the PowerDNS host - set ''
     @ ''enable-lua-records globally, or the ENABLE-LUA-RECORDS metadata on this zone via pdnsutil.''"

definition NOT_ENABLED_ON_BACKEND :: string where
  "NOT_ENABLED_ON_BACKEND =
     ''LUA records are not enabled on this PowerDNS backend. Set enable-lua-records on the host ''
     @ ''before importing a zonefile that contains LUA records.''"

definition UPDATES_LOCKED :: string where
  "UPDATES_LOCKED =
     ''This PowerDNS backend does not allow changes to LUA records. PowerDNS 5.1+ makes them ''
     @ ''read-only unless enable-lua-record-updates=yes is set on the host.''"

record global_lua =
  gl_enabled :: bool
  gl_updatesLocked :: bool
  gl_unreadable :: "string option"

definition setting_value :: "(string \<times> string) list \<Rightarrow> string \<Rightarrow> string option" where
  "setting_value config name = map_option snd (find (\<lambda>row. fst row = name) config)"

definition readGlobalLua :: "(string \<Rightarrow> string) \<Rightarrow> (string \<times> string) list pdns_call \<Rightarrow>
    thrown + global_lua" where
  "readGlobalLua redact getConfig =
     (case getConfig of
        Returned config \<Rightarrow> Inr \<lparr>gl_enabled = isLuaEnabledGlobally (setting_value config ENABLE_LUA_RECORDS_SETTING),
          gl_updatesLocked = areLuaRecordUpdatesLocked
            (setting_value config ENABLE_LUA_RECORD_UPDATES_SETTING), gl_unreadable = None\<rparr>
      | c \<Rightarrow> (case pdns_message c of
          Some m \<Rightarrow> Inr \<lparr>gl_enabled = False, gl_updatesLocked = True,
            gl_unreadable = Some (''Could not verify Lua-records enablement: '' @ redact m)\<rparr>
        | None \<Rightarrow> Inl (rethrow c)))"

definition validation :: "string \<Rightarrow> thrown" where
  "validation m = AppThrown (ValidationError m None)"

definition assertZoneAllowsLua :: "(string \<Rightarrow> string) \<Rightarrow> metadata_entry list pdns_call \<Rightarrow>
    (string \<times> string) list pdns_call \<Rightarrow> thrown + unit" where
  "assertZoneAllowsLua redact listZoneMetadata getConfig =
     (case listZoneMetadata of
        Returned metadata \<Rightarrow>
          (case readGlobalLua redact getConfig of
             Inl e \<Rightarrow> Inl e
           | Inr global \<Rightarrow>
               (case gl_unreadable global of
                  Some reason \<Rightarrow> Inl (validation reason)
                | None \<Rightarrow>
                    if \<not> isLuaEnabledByZoneMetadata metadata \<and> \<not> gl_enabled global
                    then Inl (validation NOT_ENABLED_FOR_ZONE)
                    else if gl_updatesLocked global then Inl (validation UPDATES_LOCKED)
                    else Inr ()))
      | c \<Rightarrow> (case pdns_message c of
          Some m \<Rightarrow> Inl (validation (''Could not verify Lua-records enablement: '' @ redact m))
        | None \<Rightarrow> Inl (rethrow c)))"

definition assertLuaRecordsMutable :: "(string \<Rightarrow> string) \<Rightarrow> (string \<times> string) list pdns_call \<Rightarrow>
    thrown + unit" where
  "assertLuaRecordsMutable redact getConfig =
     (case readGlobalLua redact getConfig of
        Inl e \<Rightarrow> Inl e
      | Inr global \<Rightarrow>
          (case gl_unreadable global of
             Some reason \<Rightarrow> Inl (validation reason)
           | None \<Rightarrow> if gl_updatesLocked global then Inl (validation UPDATES_LOCKED) else Inr ()))"

definition luaDenialReasonForNewZone :: "(string \<Rightarrow> string) \<Rightarrow> (string \<times> string) list pdns_call \<Rightarrow>
    thrown + string option" where
  "luaDenialReasonForNewZone redact getConfig =
     (case readGlobalLua redact getConfig of
        Inl e \<Rightarrow> Inl e
      | Inr global \<Rightarrow> Inr
          (case gl_unreadable global of
             Some reason \<Rightarrow> Some reason
           | None \<Rightarrow> if \<not> gl_enabled global then Some NOT_ENABLED_ON_BACKEND
                     else if gl_updatesLocked global then Some UPDATES_LOCKED else None))"

subsection \<open>version.ts\<close>

record parsed_version =
  ver_major :: nat
  ver_minor :: nat
  ver_patch :: nat

record pdns_capabilities =
  supportsExtendPrune :: bool
  supportsCatalogZones :: bool
  supportsViews :: bool
  supportsTsigApi :: bool
  supportsRrsetFilter :: bool

record pdns_version_cache =
  vc_version :: string
  vc_serverId :: string
  vc_parsed :: parsed_version
  vc_capabilities :: pdns_capabilities
  vc_fetchedAt :: string

definition version_part :: "string \<Rightarrow> (nat \<times> string) option" where
  "version_part s =
     (let d = takeWhile is_digit s in
      if d = [] then None else Some (nat_of_dec d, dropWhile is_digit s))"

definition after_dot :: "string \<Rightarrow> string option" where
  "after_dot s = (case s of [] \<Rightarrow> None | c # rest \<Rightarrow> if c = CHR ''.'' then Some rest else None)"

definition parseVersion :: "string \<Rightarrow> parsed_version option" where
  "parseVersion version =
     (case version_part (js_trim version) of
        None \<Rightarrow> None
      | Some (major, r1) \<Rightarrow>
          (case after_dot r1 of
             None \<Rightarrow> None
           | Some s1 \<Rightarrow>
               (case version_part s1 of
                  None \<Rightarrow> None
                | Some (minor, r2) \<Rightarrow>
                    (case after_dot r2 of
                       None \<Rightarrow> None
                     | Some s2 \<Rightarrow>
                         (case version_part s2 of
                            None \<Rightarrow> None
                          | Some (patch, _) \<Rightarrow>
                              Some \<lparr>ver_major = major, ver_minor = minor, ver_patch = patch\<rparr>)))))"

definition compareVersions :: "parsed_version \<Rightarrow> parsed_version \<Rightarrow> int" where
  "compareVersions a b =
     (if ver_major a \<noteq> ver_major b then int (ver_major a) - int (ver_major b)
      else if ver_minor a \<noteq> ver_minor b then int (ver_minor a) - int (ver_minor b)
      else int (ver_patch a) - int (ver_patch b))"

definition gte :: "parsed_version \<Rightarrow> parsed_version \<Rightarrow> bool" where
  "gte a b \<longleftrightarrow> compareVersions a b \<ge> 0"

abbreviation ver :: "nat \<Rightarrow> nat \<Rightarrow> nat \<Rightarrow> parsed_version" where
  "ver a b c \<equiv> \<lparr>ver_major = a, ver_minor = b, ver_patch = c\<rparr>"

definition buildVersionCache :: "string \<Rightarrow> string \<Rightarrow> string \<Rightarrow> pdns_version_cache" where
  "buildVersionCache now rawVersion serverId =
     (let parsed = (case parseVersion rawVersion of Some v \<Rightarrow> v | None \<Rightarrow> ver 0 0 0);
          major = ver_major parsed; minor = ver_minor parsed; patch = ver_patch parsed
      in \<lparr>vc_version = rawVersion, vc_serverId = serverId, vc_parsed = parsed,
          vc_capabilities =
            \<lparr>supportsExtendPrune =
               major = 4 \<and> (minor > 9 \<or> minor = 9 \<and> patch \<ge> 12)
               \<or> major = 5 \<and> (minor > 0 \<or> minor = 0 \<and> patch \<ge> 2) \<or> major > 5,
             supportsCatalogZones = gte parsed (ver 4 7 0),
             supportsViews = gte parsed (ver 5 0 0),
             supportsTsigApi = gte parsed (ver 4 1 0),
             supportsRrsetFilter = gte parsed (ver 4 5 0)\<rparr>,
          vc_fetchedAt = now\<rparr>)"

subsection \<open>zone-id.ts\<close>

definition is_alnum :: "char \<Rightarrow> bool" where
  "is_alnum c \<longleftrightarrow> is_digit c \<or> 65 \<le> code c \<and> code c \<le> 90 \<or> 97 \<le> code c \<and> code c \<le> 122"

definition id_safe :: "char \<Rightarrow> bool" where
  "id_safe c \<longleftrightarrow> is_alnum c \<or> c = CHR ''.'' \<or> c = CHR ''-''"

definition utf8_char :: "char \<Rightarrow> nat list" where
  "utf8_char c = (if code c < 128 then [code c] else [192 + code c div 64, 128 + code c mod 64])"

definition upper_hex :: "nat \<Rightarrow> char" where
  "upper_hex d = (if d < 10 then char_of (48 + d) else char_of (55 + d))"

definition escape_byte :: "nat \<Rightarrow> string" where
  "escape_byte b = [CHR ''='', upper_hex (b div 16), upper_hex (b mod 16)]"

definition id_char :: "char \<Rightarrow> string" where
  "id_char ch = (if id_safe ch then [ch] else concat (map escape_byte (utf8_char ch)))"

definition pdnsZoneIdForName :: "string \<Rightarrow> string" where
  "pdnsZoneIdForName name =
     (let out = concat (map id_char name);
          out = (if \<not> ends_with out ''.'' then out @ ''.'' else out)
      in if out = ''.'' then ''=2E'' else out)"

subsection \<open>What a metadata write accepts, a read understands\<close>

lemma trim_dec [simp]: "js_trim (dec_of_nat n) = dec_of_nat n"
proof (rule js_trim_no_ws)
  fix c assume "c \<in> set (dec_of_nat n)"
  then have "is_digit c" by (rule dec_of_nat_digits)
  then show "\<not> is_ws c" by (auto simp: is_digit_def is_ws_def)
qed

lemma parse_ttl_dec: "MIN_DEFAULT_TTL \<le> n \<Longrightarrow> n \<le> MAX_DEFAULT_TTL \<Longrightarrow> parseDefaultTtl (dec_of_nat n) = Some n"
  using dec_of_nat_digits by (auto simp: parseDefaultTtl_def Let_def list_all_iff)

lemma parse_ttl_range: "parseDefaultTtl v = Some n \<Longrightarrow> MIN_DEFAULT_TTL \<le> n \<and> n \<le> MAX_DEFAULT_TTL"
  by (auto simp: parseDefaultTtl_def Let_def split: if_splits)

lemma kinds_differ: "ZONE_AUTO_PTR_KIND \<noteq> ZONE_DEFAULT_TTL_KIND"
  by (simp add: ZONE_AUTO_PTR_KIND_def ZONE_DEFAULT_TTL_KIND_def)

definition one_entry :: "string \<Rightarrow> string list \<Rightarrow> metadata_entry list" where
  "one_entry kind vals = [\<lparr>md_kind = kind, md_values = vals\<rparr>]"

lemma read_one_entry: "first_metadata kind (one_entry kind [v]) = Some v"
  by (simp add: first_metadata_def one_entry_def)

lemma normalize_ttl:
  "normalizeMetadataValues ZONE_DEFAULT_TTL_KIND vals = Inr out \<longleftrightarrow>
     (\<exists>v n. vals = [v] \<and> parseDefaultTtl v = Some n \<and> out = [dec_of_nat n])"
  by (cases vals) (auto simp: normalizeMetadataValues_def zoneDefaultTtlValuesError_def)

lemma normalize_flag:
  "normalizeMetadataValues ZONE_AUTO_PTR_KIND vals = Inr out \<longleftrightarrow>
     (\<exists>v b. vals = [v] \<and> parseAutoPtrFlag v = Some b \<and> out = [autoPtrFlagValue b])"
  by (cases vals) (auto simp: normalizeMetadataValues_def kinds_differ zoneAutoPtrValuesError_def)

text \<open>
  A value of one of the app's own metadata kinds is stored only in a canonical form the
  readers understand: what a write accepts is stored as a single value that reads back as the
  value that was meant, storing it again changes nothing, and a value that a read would ignore is
  refused.
\<close>

theorem metadata_write_readable:
  "(normalizeMetadataValues ZONE_DEFAULT_TTL_KIND [v] = Inr out \<longrightarrow>
      zoneDefaultTtlFromMetadata (one_entry ZONE_DEFAULT_TTL_KIND out) = parseDefaultTtl v
      \<and> normalizeMetadataValues ZONE_DEFAULT_TTL_KIND out = Inr out)
   \<and> (normalizeMetadataValues ZONE_AUTO_PTR_KIND [v] = Inr out \<longrightarrow>
      zoneAutoPtrFromMetadata (one_entry ZONE_AUTO_PTR_KIND out) = parseAutoPtrFlag v
      \<and> normalizeMetadataValues ZONE_AUTO_PTR_KIND out = Inr out)
   \<and> (zoneDefaultTtlFromMetadata (one_entry ZONE_DEFAULT_TTL_KIND [v]) = None \<longrightarrow>
      (\<exists>e. normalizeMetadataValues ZONE_DEFAULT_TTL_KIND [v] = Inl e))
   \<and> (zoneAutoPtrFromMetadata (one_entry ZONE_AUTO_PTR_KIND [v]) = None \<longrightarrow>
      (\<exists>e. normalizeMetadataValues ZONE_AUTO_PTR_KIND [v] = Inl e))"
proof (intro conjI impI)
  assume "normalizeMetadataValues ZONE_DEFAULT_TTL_KIND [v] = Inr out"
  then obtain n where n: "parseDefaultTtl v = Some n" "out = [dec_of_nat n]"
    unfolding normalize_ttl by auto
  have "parseDefaultTtl (dec_of_nat n) = Some n"
    using parse_ttl_range [OF n(1)] by (simp add: parse_ttl_dec)
  then show "zoneDefaultTtlFromMetadata (one_entry ZONE_DEFAULT_TTL_KIND out) = parseDefaultTtl v"
    "normalizeMetadataValues ZONE_DEFAULT_TTL_KIND out = Inr out"
    using n by (simp_all add: zoneDefaultTtlFromMetadata_def read_one_entry normalize_ttl)
next
  assume "normalizeMetadataValues ZONE_AUTO_PTR_KIND [v] = Inr out"
  then show "zoneAutoPtrFromMetadata (one_entry ZONE_AUTO_PTR_KIND out) = parseAutoPtrFlag v"
    "normalizeMetadataValues ZONE_AUTO_PTR_KIND out = Inr out"
    unfolding normalize_flag
    by (auto simp: zoneAutoPtrFromMetadata_def read_one_entry parseAutoPtrFlag_value)
next
  assume "zoneDefaultTtlFromMetadata (one_entry ZONE_DEFAULT_TTL_KIND [v]) = None"
  then show "\<exists>e. normalizeMetadataValues ZONE_DEFAULT_TTL_KIND [v] = Inl e"
    by (simp add: zoneDefaultTtlFromMetadata_def read_one_entry normalizeMetadataValues_def
        zoneDefaultTtlValuesError_def)
next
  assume "zoneAutoPtrFromMetadata (one_entry ZONE_AUTO_PTR_KIND [v]) = None"
  then show "\<exists>e. normalizeMetadataValues ZONE_AUTO_PTR_KIND [v] = Inl e"
    by (simp add: zoneAutoPtrFromMetadata_def read_one_entry normalizeMetadataValues_def
        kinds_differ zoneAutoPtrValuesError_def)
qed

theorem metadata_write_readable_witness:
  "zoneAutoPtrFromMetadata (one_entry ZONE_AUTO_PTR_KIND [''on'']) = Some True"
proof -
  have p: "parseAutoPtrFlag '' YES '' = Some True" by code_simp
  then have "normalizeMetadataValues ZONE_AUTO_PTR_KIND ['' YES ''] = Inr [''on'']"
    unfolding normalize_flag by (intro exI [of _ "'' YES ''"] exI [of _ True]) (simp add: autoPtrFlagValue_def)
  with metadata_write_readable [of "'' YES ''" "[''on'']"] p show ?thesis by simp
qed

subsection \<open>The Lua gate fails closed\<close>

lemma readGlobalLua_readable:
  "readGlobalLua redact cfg = Inr g \<Longrightarrow> gl_unreadable g = None \<longleftrightarrow>
     (\<exists>config. cfg = Returned config \<and> gl_enabled g = isLuaEnabledGlobally (setting_value config ENABLE_LUA_RECORDS_SETTING)
        \<and> gl_updatesLocked g = areLuaRecordUpdatesLocked (setting_value config ENABLE_LUA_RECORD_UPDATES_SETTING))"
  by (cases cfg) (auto simp: readGlobalLua_def pdns_message_def)

lemma allowsLua_iff:
  "assertZoneAllowsLua redact mdc cfg = Inr () \<longleftrightarrow>
     (\<exists>md config. mdc = Returned md \<and> cfg = Returned config
        \<and> (isLuaEnabledByZoneMetadata md \<or> isLuaEnabledGlobally (setting_value config ENABLE_LUA_RECORDS_SETTING))
        \<and> \<not> areLuaRecordUpdatesLocked (setting_value config ENABLE_LUA_RECORD_UPDATES_SETTING))"
  by (cases mdc; cases cfg) (auto simp: assertZoneAllowsLua_def readGlobalLua_def pdns_message_def)

text \<open>
  A LUA record is written only if both reads of the backend succeeded and together show Lua
  armed, by the zone's metadata or the daemon's setting, and its records mutable; any failure to
  read denies the write.  A delete needs the readable, unlocked setting but not the arming, and
  the gate for a zone that does not exist yet agrees with the one for a zone without metadata.
\<close>

theorem lua_gate_fails_closed:
  "(assertZoneAllowsLua redact mdc cfg = Inr () \<longleftrightarrow>
     (\<exists>md config. mdc = Returned md \<and> cfg = Returned config
        \<and> (isLuaEnabledByZoneMetadata md \<or> isLuaEnabledGlobally (setting_value config ENABLE_LUA_RECORDS_SETTING))
        \<and> \<not> areLuaRecordUpdatesLocked (setting_value config ENABLE_LUA_RECORD_UPDATES_SETTING)))
   \<and> (assertLuaRecordsMutable redact cfg = Inr () \<longleftrightarrow>
        (\<exists>config. cfg = Returned config
           \<and> \<not> areLuaRecordUpdatesLocked (setting_value config ENABLE_LUA_RECORD_UPDATES_SETTING)))
   \<and> (luaDenialReasonForNewZone redact cfg = Inr None \<longleftrightarrow> assertZoneAllowsLua redact (Returned []) cfg = Inr ())"
  unfolding allowsLua_iff
  by (cases cfg) (auto simp: assertLuaRecordsMutable_def luaDenialReasonForNewZone_def
      readGlobalLua_def pdns_message_def isLuaEnabledByZoneMetadata_def)

subsection \<open>Capabilities follow the documented cut-offs\<close>

definition ver_le :: "parsed_version \<Rightarrow> parsed_version \<Rightarrow> bool" where
  "ver_le a b \<longleftrightarrow> ver_major a < ver_major b \<or> ver_major a = ver_major b
     \<and> (ver_minor a < ver_minor b \<or> ver_minor a = ver_minor b \<and> ver_patch a \<le> ver_patch b)"

lemma gte_iff: "gte a b \<longleftrightarrow> ver_le b a"
  by (auto simp: gte_def compareVersions_def ver_le_def)

text \<open>
  The capability flags are the documented version cut-offs: EXTEND and PRUNE from 4.9.12
  within 4.x and from 5.0.2 on, the others from their release on, and a version that does not
  parse has none.
\<close>

theorem buildVersionCache_cutoffs:
  assumes "v = (case parseVersion raw of Some v \<Rightarrow> v | None \<Rightarrow> ver 0 0 0)"
    and "c = vc_capabilities (buildVersionCache now raw serverId)"
  shows "(supportsExtendPrune c \<longleftrightarrow>
        ver_le (ver 4 9 12) v \<and> \<not> ver_le (ver 5 0 0) v \<or> ver_le (ver 5 0 2) v)
    \<and> (supportsCatalogZones c \<longleftrightarrow> ver_le (ver 4 7 0) v)
    \<and> (supportsViews c \<longleftrightarrow> ver_le (ver 5 0 0) v)
    \<and> (supportsTsigApi c \<longleftrightarrow> ver_le (ver 4 1 0) v)
    \<and> (supportsRrsetFilter c \<longleftrightarrow> ver_le (ver 4 5 0) v)
    \<and> (parseVersion raw = None \<longrightarrow> \<not> supportsTsigApi c \<and> \<not> supportsExtendPrune c)"
proof -
  have c: "c = \<lparr>supportsExtendPrune =
               ver_major v = 4 \<and> (ver_minor v > 9 \<or> ver_minor v = 9 \<and> ver_patch v \<ge> 12)
               \<or> ver_major v = 5 \<and> (ver_minor v > 0 \<or> ver_minor v = 0 \<and> ver_patch v \<ge> 2) \<or> ver_major v > 5,
             supportsCatalogZones = gte v (ver 4 7 0),
             supportsViews = gte v (ver 5 0 0),
             supportsTsigApi = gte v (ver 4 1 0),
             supportsRrsetFilter = gte v (ver 4 5 0)\<rparr>"
    unfolding assms by (simp add: buildVersionCache_def Let_def)
  have "parseVersion raw = None \<Longrightarrow> v = ver 0 0 0" using assms(1) by simp
  then show ?thesis unfolding c by (auto simp: gte_iff ver_le_def)
qed

theorem buildVersionCache_cutoffs_witness:
  "supportsExtendPrune (vc_capabilities (buildVersionCache ''t'' ''4.9.12-rc1'' ''s''))"
proof -
  have p: "parseVersion ''4.9.12-rc1'' = Some (ver 4 9 12)" by code_simp
  show ?thesis
    using buildVersionCache_cutoffs [OF refl refl, where raw = "''4.9.12-rc1''" and now = "''t''" and serverId = "''s''"]
    by (simp add: p ver_le_def)
qed

subsection \<open>Zone ids decode to the name\<close>

definition hex_value :: "char \<Rightarrow> nat" where
  "hex_value c = (if is_digit c then code c - 48 else code c - 55)"

text \<open>What the daemon does with an id: every \<open>=XX\<close> becomes the byte it names.\<close>

function id_decode :: "string \<Rightarrow> nat list" where
  "id_decode [] = []"
| "id_decode (c # cs) =
     (if c = CHR ''='' \<and> 2 \<le> length cs
      then (16 * hex_value (cs ! 0) + hex_value (cs ! 1)) # id_decode (drop 2 cs)
      else code c # id_decode cs)"
  by pat_completeness auto
termination
  by (relation "measure length") auto

lemma hex_value_upper: "d < 16 \<Longrightarrow> hex_value (upper_hex d) = d"
  by (auto simp: hex_value_def upper_hex_def is_digit_def)

lemma id_decode_byte: "b < 256 \<Longrightarrow> id_decode (escape_byte b @ rest) = b # id_decode rest"
  by (simp add: escape_byte_def hex_value_upper)

lemma id_safe_code: "id_safe c \<Longrightarrow> code c < 128 \<and> c \<noteq> CHR ''=''"
  by (auto simp: id_safe_def is_alnum_def is_digit_def)

lemma utf8_bytes: "b \<in> set (utf8_char c) \<Longrightarrow> b < 256"
proof -
  have "code c div 64 < 4" using code_less [of c] by (simp add: div_less_iff_less_mult)
  then show "b \<in> set (utf8_char c) \<Longrightarrow> b < 256" by (auto simp: utf8_char_def split: if_splits)
qed

lemma id_decode_bytes: "\<forall>b \<in> set bs. b < 256 \<Longrightarrow> id_decode (concat (map escape_byte bs) @ rest) = bs @ id_decode rest"
  by (induction bs) (simp_all add: id_decode_byte)

lemma id_decode_char: "id_decode (id_char c @ rest) = utf8_char c @ id_decode rest"
proof (cases "id_safe c")
  case True
  then show ?thesis using id_safe_code [OF True] by (simp add: id_char_def utf8_char_def)
next
  case False
  have "\<forall>b \<in> set (utf8_char c). b < 256" using utf8_bytes by blast
  from id_decode_bytes [OF this] False show ?thesis by (simp add: id_char_def)
qed

lemma id_decode_name: "id_decode (concat (map id_char n) @ rest) = concat (map utf8_char n) @ id_decode rest"
  by (induction n) (simp_all add: id_decode_char)

lemma upper_hex_range: "d < 16 \<Longrightarrow> is_alnum (upper_hex d)"
  by (auto simp: upper_hex_def is_alnum_def is_digit_def)

definition id_out :: "char \<Rightarrow> bool" where
  "id_out c \<longleftrightarrow> id_safe c \<or> c = CHR ''=''"

lemma escape_byte_out: "b < 256 \<Longrightarrow> list_all id_out (escape_byte b)"
  by (simp add: escape_byte_def id_out_def id_safe_def upper_hex_range)

lemma id_char_out: "list_all id_out (id_char c)"
proof (cases "id_safe c")
  case False
  then show ?thesis
    using utf8_bytes [of _ c] escape_byte_out by (fastforce simp: id_char_def list_all_iff)
qed (simp add: id_char_def id_out_def)

lemma is_alnum_dot: "\<not> is_alnum (CHR ''.'')"
  by (simp add: is_alnum_def is_digit_def)

lemma last_id_char: "id_char c \<noteq> [] \<and> (last (id_char c) = CHR ''.'' \<longleftrightarrow> c = CHR ''.'')"
proof (cases "id_safe c")
  case True
  then show ?thesis by (simp add: id_char_def)
next
  case False
  obtain bs b where u: "utf8_char c = bs @ [b]" by (cases "code c < 128") (auto simp: utf8_char_def)
  then have "b < 256" using utf8_bytes [of b c] by simp
  then have "upper_hex (b mod 16) \<noteq> CHR ''.''" using upper_hex_range [of "b mod 16"] is_alnum_dot by auto
  then show ?thesis using False u by (auto simp: id_char_def escape_byte_def id_safe_def)
qed

lemma ends_id: "ends_with (concat (map id_char n)) ''.'' \<longleftrightarrow> ends_with n ''.''"
  using last_id_char by (cases n rule: rev_cases) (auto simp: ends_with_dot)

lemma id_of_dot: "id_char (CHR ''.'') = ''.''"
  by (simp add: id_char_def id_safe_def)

text \<open>
  The id of a zone names that zone: the daemon's decoding of it gives the bytes of the name
  with its final dot (the root zone included), and it is made of letters, digits, dots, hyphens
  and \<open>=\<close> only, so nothing in it is taken for a path separator or an escape of the URL.
\<close>

theorem zone_id_decodes:
  "id_decode (pdnsZoneIdForName n)
     = concat (map utf8_char (if ends_with n ''.'' then n else n @ ''.''))
   \<and> list_all (\<lambda>c. is_alnum c \<or> c \<in> set ''.-='') (pdnsZoneIdForName n)"
proof -
  define m where "m = (if ends_with n ''.'' then n else n @ ''.'')"
  define out where "out = concat (map id_char m)"
  have "(let out = concat (map id_char n) in if \<not> ends_with out ''.'' then out @ ''.'' else out) = out"
    by (simp add: Let_def ends_id id_of_dot out_def m_def)
  then have id: "pdnsZoneIdForName n = (if out = ''.'' then ''=2E'' else out)"
    unfolding pdnsZoneIdForName_def Let_def by (simp only:)
  have dec: "id_decode out = concat (map utf8_char m)"
    using id_decode_name [of m "[]"] by (simp add: out_def)
  have safe: "list_all id_out out"
    using id_char_out by (auto simp: list_all_iff out_def)
  have root: "id_decode ''=2E'' = id_decode ''.''" "list_all id_out ''=2E''" by code_simp+
  have "id_decode (pdnsZoneIdForName n) = concat (map utf8_char m) \<and> list_all id_out (pdnsZoneIdForName n)"
  proof (cases "out = ''.''")
    case True
    then show ?thesis using dec root by (simp add: id del: id_decode.simps)
  next
    case False
    then show ?thesis using dec safe by (simp add: id)
  qed
  moreover have "id_out = (\<lambda>c. is_alnum c \<or> c \<in> set ''.-='')"
    by (auto simp: id_out_def id_safe_def)
  ultimately show ?thesis unfolding m_def by simp
qed

end
