(* ===== verification/Dyndns.thy ===== *)
theory Dyndns
  imports RrsetHash ZonePermissions ZoneSettings ReverseName
begin

text \<open>
  The DynDNS 2 endpoint: the parsers of \<open>lib/dyndns/parse.ts\<close>, the presented token of
  \<open>lib/auth/tokens.ts\<close>, the narrowing of a user's rights to a token's scopes
  (\<open>lib/auth/token-scope-narrowing.ts\<close>), the peers of a server (\<open>mapServersToClusterPeers\<close> of
  \<open>lib/db/repositories/zone-grants.ts\<close>), the client address of \<open>lib/client-ip.ts\<close>, and the whole
  handler \<open>app/nic/update/route.ts\<close> as a function from the answers of its environment to a reply and
  the effects it performs.
\<close>

section \<open>The request\<close>

datatype dyndns_code = Good | Nochg | Nohost | Badauth | Notfqdn | Numhost | Abuse | Dnserr | NineOneOne

fun code_text :: "dyndns_code \<Rightarrow> string" where
  "code_text Good = ''good''"
| "code_text Nochg = ''nochg''"
| "code_text Nohost = ''nohost''"
| "code_text Badauth = ''badauth''"
| "code_text Notfqdn = ''notfqdn''"
| "code_text Numhost = ''numhost''"
| "code_text Abuse = ''abuse''"
| "code_text Dnserr = ''dnserr''"
| "code_text NineOneOne = ''911''"

definition fqdn_label :: "string \<Rightarrow> bool" where
  "fqdn_label s \<longleftrightarrow>
     (let outer = (\<lambda>c. (CHR ''a'' \<le> c \<and> c \<le> CHR ''z'') \<or> is_digit c \<or> c = CHR ''_'') in
      s \<noteq> [] \<and> length s \<le> 64 \<and> outer (hd s) \<and> outer (last s)
      \<and> list_all (\<lambda>c. outer c \<or> c = CHR ''-'') s)"

definition isPlausibleFqdn :: "string \<Rightarrow> bool" where
  "isPlausibleFqdn name \<longleftrightarrow> \<not> (length name = 0 \<or> length name > 253) \<and> CHR ''.'' \<in> set name
     \<and> list_all fqdn_label (split_on (CHR ''.'') name)"

definition isPlausibleIp :: "string \<Rightarrow> bool" where
  "isPlausibleIp s \<longleftrightarrow>
     (if length s = 0 \<or> length s > 45 then False
      else let parts = split_on (CHR ''.'') s in
        if length parts = 4 \<and> list_all digits13 parts then list_all (\<lambda>o'. nat_of_dec o' \<le> 255) parts
        else list_all (\<lambda>c. is_hex (lower_char c) \<or> c = CHR '':'') s \<and> CHR '':'' \<in> set s)"

record dyndns_request =
  dq_hostname :: string
  dq_myip :: "string option"

text \<open>The two arguments are what \<open>searchParams.get\<close> gives for \<open>hostname\<close> and \<open>myip\<close>.\<close>

definition parseDynDnsRequest :: "string option \<Rightarrow> string option \<Rightarrow> dyndns_code + dyndns_request" where
  "parseDynDnsRequest hostnameRaw myipRaw =
     (case hostnameRaw of
        None \<Rightarrow> Inl Notfqdn
      | Some raw \<Rightarrow>
          if raw = [] then Inl Notfqdn
          else if CHR '','' \<in> set raw then Inl Numhost
          else let hostname = strip_dot (js_lower (js_trim raw)) in
            if \<not> isPlausibleFqdn hostname then Inl Notfqdn
            else let myip = (case myipRaw of
                     None \<Rightarrow> None
                   | Some m \<Rightarrow> if m \<noteq> [] \<and> js_lower m \<noteq> ''auto'' \<and> length (js_trim m) > 0
                               then Some (js_trim m) else None)
              in case myip of
                   Some m \<Rightarrow> if \<not> isPlausibleIp m then Inl Dnserr
                             else Inr \<lparr>dq_hostname = hostname, dq_myip = Some m\<rparr>
                 | None \<Rightarrow> Inr \<lparr>dq_hostname = hostname, dq_myip = None\<rparr>)"

definition formatResponse :: "dyndns_code \<Rightarrow> string option \<Rightarrow> string" where
  "formatResponse rc ip =
     (case ip of
        Some s \<Rightarrow> if (rc = Good \<or> rc = Nochg) \<and> s \<noteq> [] then code_text rc @ '' '' @ s else code_text rc
      | None \<Rightarrow> code_text rc)"

text \<open>\<open>Buffer.from(.., "base64").toString()\<close> is the parameter \<open>decode\<close>.\<close>

definition parseBasicAuth :: "(string \<Rightarrow> string) \<Rightarrow> string option \<Rightarrow> (string \<times> string) option" where
  "parseBasicAuth decode header =
     (case header of
        None \<Rightarrow> None
      | Some h \<Rightarrow>
          let t = js_trim h; rest = drop 5 t; token = dropWhile is_ws rest in
          if h = [] \<or> js_lower (take 5 t) \<noteq> ''basic'' \<or> token = rest \<or> token = []
             \<or> list_ex (\<lambda>c. c = CHR 0x0A \<or> c = CHR 0x0D) token then None
          else let decoded = decode token; user = takeWhile (\<lambda>c. c \<noteq> CHR '':'') decoded;
                   pass = drop (Suc (length user)) decoded
            in if CHR '':'' \<notin> set decoded then None
               else if user = [] \<or> pass = [] then None
               else Some (user, pass))"

fun longest_loop :: "string \<Rightarrow> string option \<Rightarrow> string list \<Rightarrow> string option" where
  "longest_loop hostname best [] = best"
| "longest_loop hostname best (z # zs) =
     (if hostname = z then Some z
      else if ends_with hostname (''.'' @ z) then
        longest_loop hostname
          (if (case best of None \<Rightarrow> True | Some b \<Rightarrow> length z > length b) then Some z else best) zs
      else longest_loop hostname best zs)"

definition findLongestZoneMatch :: "string \<Rightarrow> string list \<Rightarrow> string option" where
  "findLongestZoneMatch hostname candidateZones = longest_loop hostname None candidateZones"

section \<open>Tokens and the client address\<close>

definition TOKEN_PREFIX :: string where "TOKEN_PREFIX = ''pda_pat_''"
definition TOKEN_BODY_LEN :: nat where "TOKEN_BODY_LEN = 32"
definition PUBLIC_PREFIX_LEN :: nat where "PUBLIC_PREFIX_LEN = 8"

definition base64url_char :: "char \<Rightarrow> bool" where
  "base64url_char c \<longleftrightarrow> (CHR ''A'' \<le> c \<and> c \<le> CHR ''Z'') \<or> (CHR ''a'' \<le> c \<and> c \<le> CHR ''z'')
     \<or> is_digit c \<or> c = CHR ''_'' \<or> c = CHR ''-''"

definition parsePresentedToken :: "string \<Rightarrow> string option" where
  "parsePresentedToken presented =
     (if \<not> starts_with presented TOKEN_PREFIX then None
      else let body = drop (length TOKEN_PREFIX) presented in
        if length body \<noteq> TOKEN_BODY_LEN then None
        else if \<not> list_all base64url_char body then None
        else Some (take PUBLIC_PREFIX_LEN body))"

definition narrowAssignmentsByTokenScopes :: "ability_source list \<Rightarrow> string list \<Rightarrow> ability_source list" where
  "narrowAssignmentsByTokenScopes assignments tokenScopes =
     (if length tokenScopes = 0 then assignments
      else concat (map (\<lambda>a. let filtered = filter (\<lambda>p. p \<in> set tokenScopes) (as_permissions a) in
             if length filtered > 0 then [a\<lparr>as_permissions := filtered\<rparr>] else []) assignments))"

text \<open>The two headers, and Node's \<open>isIP\<close> as a parameter.\<close>

definition plausible_client_ip :: "(string \<Rightarrow> bool) \<Rightarrow> string \<Rightarrow> bool" where
  "plausible_client_ip isIP s \<longleftrightarrow> (if length s = 0 \<or> length s > 45 then False else isIP s)"

definition getClientIp :: "(string \<Rightarrow> bool) \<Rightarrow> string option \<Rightarrow> string option \<Rightarrow> string option" where
  "getClientIp isIP forwarded_for real_ip =
     (let first = (case forwarded_for of
            None \<Rightarrow> None
          | Some fwd \<Rightarrow> if fwd = [] then None else Some (js_trim (hd (split_on (CHR '','') fwd))));
          real = map_option js_trim real_ip
      in case first of
           Some f \<Rightarrow> if f \<noteq> [] \<and> plausible_client_ip isIP f then Some f
                     else (case real of Some r \<Rightarrow> if r \<noteq> [] \<and> plausible_client_ip isIP r then Some r else None
                           | None \<Rightarrow> None)
         | None \<Rightarrow> (case real of Some r \<Rightarrow> if r \<noteq> [] \<and> plausible_client_ip isIP r then Some r else None
                    | None \<Rightarrow> None))"

section \<open>The handler\<close>

record dyn_user =
  du_id :: string
  du_disabled :: bool

record token_row =
  tk_id :: string
  tk_userId :: string
  tk_revoked :: bool
  tk_expiresAt :: "int option"
  tk_hash :: string
  tk_scopes :: "string list"

record dyn_server =
  ds_id :: string
  ds_slug :: string

record dyn_env =
  d_hostname :: "string option"
  d_myip :: "string option"
  d_authorization :: "string option"
  d_forwarded_for :: "string option"
  d_real_ip :: "string option"
  d_isIP :: "string \<Rightarrow> bool"
  d_decode :: "string \<Rightarrow> string"
  d_limiter :: "string \<Rightarrow> bool"
  d_findUser :: "string \<Rightarrow> dyn_user option"
  d_findToken :: "string \<Rightarrow> token_row option"
  d_verify :: "string \<Rightarrow> string \<Rightarrow> bool"
  d_now :: int
  d_assignments :: "string \<Rightarrow> ability_source list"
  d_grants :: "string \<Rightarrow> zone_grant list"
  d_servers_in_clusters :: "(string \<times> string option) list"
  d_servers :: "dyn_server list"
  d_listZones :: "dyn_server \<Rightarrow> string list option"
  d_patchZone :: "dyn_server \<Rightarrow> string \<Rightarrow> rrset_patch list \<Rightarrow> unit pdns_call"

datatype dyn_effect =
    DAuthFailure string string
  | DPatch dyn_server string "rrset_patch list"
  | DTouchToken string
  | DAudit string string string string

record dyn_reply =
  dr_body :: string
  dr_challenge :: bool

definition plain :: "dyndns_code \<Rightarrow> string option \<Rightarrow> dyn_reply" where
  "plain rc ip = \<lparr>dr_body = formatResponse rc ip, dr_challenge = False\<rparr>"

definition plainWithChallenge :: "dyndns_code \<Rightarrow> dyn_reply" where
  "plainWithChallenge rc = \<lparr>dr_body = formatResponse rc None, dr_challenge = True\<rparr>"

definition client_ip :: "dyn_env \<Rightarrow> string option" where
  "client_ip env = getClientIp (d_isIP env) (d_forwarded_for env) (d_real_ip env)"

text \<open>The checks of the credentials, in the code's order: the reason of a refusal or the token.\<close>

definition check_token :: "dyn_env \<Rightarrow> string \<times> string \<Rightarrow> string + token_row" where
  "check_token env basic =
     (case d_findUser env (fst basic) of
        None \<Rightarrow> Inl ''unknown-or-disabled-user''
      | Some user \<Rightarrow>
          if du_disabled user then Inl ''unknown-or-disabled-user''
          else case parsePresentedToken (snd basic) of
            None \<Rightarrow> Inl ''malformed-token''
          | Some public \<Rightarrow>
              (case d_findToken env public of
                 None \<Rightarrow> Inl ''unknown-token''
               | Some row \<Rightarrow>
                   if tk_userId row \<noteq> du_id user then Inl ''token-user-mismatch''
                   else if tk_revoked row then Inl ''token-revoked''
                   else if (case tk_expiresAt row of Some t \<Rightarrow> t \<le> d_now env | None \<Rightarrow> False)
                   then Inl ''token-expired''
                   else if \<not> d_verify env (snd basic) (tk_hash row) then Inl ''bad-token''
                   else Inr row))"

definition narrow_grants :: "string list \<Rightarrow> zone_grant list \<Rightarrow> zone_grant list" where
  "narrow_grants scopes rawGrants =
     (if length scopes = 0 then rawGrants
      else filter (\<lambda>g. length (zg_permissions g) > 0)
             (map (\<lambda>g. g\<lparr>zg_permissions := filter (\<lambda>p. p \<in> set scopes) (zg_permissions g)\<rparr>) rawGrants))"

text \<open>
  \<open>mapServersToClusterPeers\<close> of \<open>lib/db/repositories/zone-grants.ts\<close>, on the table of servers: each row is a
  server's id and its cluster, if it is in one.
\<close>

definition peers_by_cluster :: "(string \<times> string option) list \<Rightarrow> (string \<times> string list) list" where
  "peers_by_cluster peerRows =
     foldl (\<lambda>m r. case snd r of
              None \<Rightarrow> m
            | Some c \<Rightarrow> AList.update c ((case map_of m c of Some arr \<Rightarrow> arr | None \<Rightarrow> []) @ [fst r]) m) [] peerRows"

definition mapServersToClusterPeers ::
  "(string \<times> string option) list \<Rightarrow> string list \<Rightarrow> (string \<times> string list) list" where
  "mapServersToClusterPeers servers serverIds =
     (if length serverIds = 0 then []
      else
        let inputRows = filter (\<lambda>r. fst r \<in> set serverIds) servers;
            clusterIds = jset_of (List.map_filter snd inputRows)
        in if length clusterIds = 0 then []
        else
          let peersByCluster = peers_by_cluster (filter (\<lambda>r. case snd r of Some c \<Rightarrow> c \<in> set clusterIds | None \<Rightarrow> False) servers)
          in foldl (\<lambda>result r. case snd r of
                      None \<Rightarrow> result
                    | Some c \<Rightarrow> AList.update (fst r)
                        (case map_of peersByCluster c of Some ps \<Rightarrow> ps | None \<Rightarrow> [fst r]) result) [] inputRows)"

definition token_peers :: "dyn_env \<Rightarrow> token_row \<Rightarrow> (string \<times> string list) list" where
  "token_peers env row =
     (let narrowed = narrow_grants (tk_scopes row) (d_grants env (tk_userId row)) in
      if length narrowed > 0 then mapServersToClusterPeers (d_servers_in_clusters env) (map zg_serverId narrowed) else [])"

definition token_access :: "dyn_env \<Rightarrow> token_row \<Rightarrow> zone_access" where
  "token_access env row =
     (let narrowed = narrowAssignmentsByTokenScopes (d_assignments env (tk_userId row)) (tk_scopes row);
          narrowedGrants = narrow_grants (tk_scopes row) (d_grants env (tk_userId row));
          clusterPeers = token_peers env row
      in \<lparr>globalPermissions = globalPermissionsOf narrowed,
          zoneGrants = (if length clusterPeers = 0 then narrowedGrants
                        else expandGrantsAcrossClusters narrowedGrants clusterPeers),
          zoneScopedPermissions = zoneScopedPermissionsOf narrowed\<rparr>)"

definition update_patch :: "string \<Rightarrow> string \<Rightarrow> thrown + rrset_patch list" where
  "update_patch hostname sourceIp =
     sbind (replaceRRset (hostname @ ''.'') (if CHR '':'' \<in> set sourceIp then ''AAAA'' else ''A'') 300
              [\<lparr>rr_content = sourceIp, rr_disabled = None\<rparr>] None)
       (\<lambda>patch. zonePatchBody [patch])"

definition update_zone :: "dyn_env \<Rightarrow> token_row \<Rightarrow> string \<Rightarrow> string \<Rightarrow> dyn_server \<Rightarrow> string \<Rightarrow>
    (thrown + dyn_reply) \<times> dyn_effect list" where
  "update_zone env row hostname sourceIp server zoneName =
     (if \<not> canActOnZone (token_access env row) (ds_id server) zoneName ''record.update''
      then (Inr (plain Nohost None), [])
      else case update_patch hostname sourceIp of
        Inl e \<Rightarrow> (Inl e, [])
      | Inr patches \<Rightarrow>
          (case d_patchZone env server zoneName patches of
             Returned _ \<Rightarrow>
               (Inr (plain Good (Some sourceIp)),
                [DPatch server zoneName patches, DTouchToken (tk_id row),
                 DAudit (tk_id row) (ds_slug server @ '':'' @ zoneName) (hostname @ ''.'') sourceIp])
           | OtherRaised m \<Rightarrow> (Inl (ErrorThrown m), [DPatch server zoneName patches])
           | _ \<Rightarrow> (Inr (plain Dnserr None), [DPatch server zoneName patches])))"

text \<open>The loop over the active servers: a server whose list fails or has no matching zone is passed over.\<close>

definition matching_zone :: "string \<Rightarrow> string list \<Rightarrow> string option" where
  "matching_zone hostname zoneList =
     (case findLongestZoneMatch hostname (map (\<lambda>z. js_lower (strip_dot z)) zoneList) of
        Some z \<Rightarrow> if z = [] then None else Some (z @ ''.'')
      | None \<Rightarrow> None)"

fun scan_servers :: "dyn_env \<Rightarrow> token_row \<Rightarrow> string \<Rightarrow> string \<Rightarrow> dyn_server list \<Rightarrow>
    (thrown + dyn_reply) \<times> dyn_effect list" where
  "scan_servers env row hostname sourceIp [] = (Inr (plain Nohost None), [])"
| "scan_servers env row hostname sourceIp (server # rest) =
     (case d_listZones env server of
        None \<Rightarrow> scan_servers env row hostname sourceIp rest
      | Some zoneList \<Rightarrow>
          (case matching_zone hostname zoneList of
             None \<Rightarrow> scan_servers env row hostname sourceIp rest
           | Some zoneName \<Rightarrow> update_zone env row hostname sourceIp server zoneName))"

definition handle_update :: "dyn_env \<Rightarrow> (thrown + dyn_reply) \<times> dyn_effect list" where
  "handle_update env =
     (case parseDynDnsRequest (d_hostname env) (d_myip env) of
        Inl rc \<Rightarrow> (Inr (plain rc None), [])
      | Inr req \<Rightarrow>
          (case parseBasicAuth (d_decode env) (d_authorization env) of
             None \<Rightarrow> (Inr (plainWithChallenge Badauth), [])
           | Some basic \<Rightarrow>
               if \<not> d_limiter env (''dyndns:'' @ (case client_ip env of Some ip \<Rightarrow> ip | None \<Rightarrow> ''unknown''))
               then (Inr (plain Abuse None), [])
               else case check_token env basic of
                 Inl reason \<Rightarrow>
                   (Inr (plainWithChallenge Badauth), [DAuthFailure (js_lower (fst basic)) reason])
               | Inr row \<Rightarrow>
                   (case (case dq_myip req of Some ip \<Rightarrow> Some ip | None \<Rightarrow> client_ip env) of
                      None \<Rightarrow> (Inr (plain Dnserr None), [])
                    | Some sourceIp \<Rightarrow>
                        scan_servers env row (dq_hostname req) sourceIp (d_servers env))))"

section \<open>The longest match\<close>

definition in_zone :: "string \<Rightarrow> string \<Rightarrow> bool" where
  "in_zone hostname z \<longleftrightarrow> hostname = z \<or> (\<exists>u. hostname = u @ ''.'' @ z)"

lemma in_zone_ends: "in_zone hostname z \<longleftrightarrow> hostname = z \<or> ends_with hostname (''.'' @ z)"
  by (simp add: in_zone_def ends_with_iff)

lemma in_zone_length: "in_zone hostname z \<Longrightarrow> hostname \<noteq> z \<Longrightarrow> length z < length hostname"
  by (auto simp: in_zone_def)

definition best_so_far :: "string \<Rightarrow> string option \<Rightarrow> string list \<Rightarrow> bool" where
  "best_so_far hostname best zs \<longleftrightarrow>
     (case best of
        None \<Rightarrow> \<forall>z \<in> set zs. \<not> in_zone hostname z
      | Some b \<Rightarrow> b \<in> set zs \<and> in_zone hostname b
          \<and> (\<forall>z \<in> set zs. in_zone hostname z \<longrightarrow> length z \<le> length b))"

lemma best_step:
  assumes "best_so_far hostname best seen" "in_zone hostname z"
  shows "best_so_far hostname
    (if (case best of None \<Rightarrow> True | Some b \<Rightarrow> length z > length b) then Some z else best) (seen @ [z])"
  using assms by (cases best) (auto simp: best_so_far_def)

lemma best_skip:
  "best_so_far hostname best seen \<Longrightarrow> \<not> in_zone hostname z \<Longrightarrow> best_so_far hostname best (seen @ [z])"
  by (cases best) (auto simp: best_so_far_def)

lemma longest_loop_best:
  "best_so_far hostname best seen \<Longrightarrow> best_so_far hostname (longest_loop hostname best zs) (seen @ zs)"
proof (induction zs arbitrary: best seen)
  case (Cons z zs)
  show ?case
  proof (cases "hostname = z")
    case True
    then have "length y \<le> length z" if "in_zone hostname y" for y
      using that in_zone_length by (cases "y = z") (auto intro: less_imp_le)
    with True show ?thesis by (simp add: best_so_far_def in_zone_def)
  next
    case ne: False
    show ?thesis
    proof (cases "in_zone hostname z")
      case True
      with ne have "ends_with hostname (''.'' @ z)" by (simp add: in_zone_ends)
      with ne Cons.IH [OF best_step [OF Cons.prems True]] show ?thesis by simp
    next
      case False
      with ne have "\<not> ends_with hostname (''.'' @ z)" by (simp add: in_zone_ends)
      with ne Cons.IH [OF best_skip [OF Cons.prems False]] show ?thesis by simp
    qed
  qed
qed simp

lemma longest_match: "best_so_far hostname (findLongestZoneMatch hostname zs) zs"
  using longest_loop_best [of hostname None "[]" zs] by (simp add: findLongestZoneMatch_def best_so_far_def)

text \<open>
  The zone chosen for a host name is one of the candidates, is the name itself or a parent of it at
  a label boundary, and no other candidate that matches is longer; there is none exactly when no
  candidate matches.
\<close>

theorem findLongestZoneMatch_correct:
  "(findLongestZoneMatch hostname zs = None \<longleftrightarrow> (\<forall>z \<in> set zs. \<not> in_zone hostname z))
   \<and> (\<forall>b. findLongestZoneMatch hostname zs = Some b \<longrightarrow> b \<in> set zs \<and> in_zone hostname b
        \<and> (\<forall>z \<in> set zs. in_zone hostname z \<longrightarrow> length z \<le> length b))"
  using longest_match [of hostname zs] by (auto simp: best_so_far_def split: option.splits)

theorem findLongestZoneMatch_correct_witness:
  "findLongestZoneMatch ''a.evil-example.com'' [''example.com'', ''com''] = Some ''com''
   \<and> in_zone ''a.evil-example.com'' ''com''"
proof -
  have e: "findLongestZoneMatch ''a.evil-example.com'' [''example.com'', ''com''] = Some ''com''"
    by (simp add: findLongestZoneMatch_def ends_with_def)
  with findLongestZoneMatch_correct [of "''a.evil-example.com''" "[''example.com'', ''com'']"] show ?thesis by blast
qed

section \<open>Narrowing\<close>

lemma narrowed_source:
  "(\<exists>src \<in> set (narrowAssignmentsByTokenScopes as scopes).
      Q (as_scope src) (as_scopeId src) \<and> p \<in> set (as_permissions src))
   \<longleftrightarrow> (scopes = [] \<or> p \<in> set scopes)
      \<and> (\<exists>src \<in> set as. Q (as_scope src) (as_scopeId src) \<and> p \<in> set (as_permissions src))"
proof (cases "scopes = []")
  case False
  let ?f = "\<lambda>a. filter (\<lambda>p. p \<in> set scopes) (as_permissions a)"
  have "set (narrowAssignmentsByTokenScopes as scopes)
      = {a\<lparr>as_permissions := ?f a\<rparr> | a. a \<in> set as \<and> ?f a \<noteq> []}"
    using False by (auto simp: narrowAssignmentsByTokenScopes_def Let_def split: if_splits)
  moreover have "?f a \<noteq> []" if "p \<in> set scopes" "p \<in> set (as_permissions a)" for a
    using that by (auto simp: filter_empty_conv)
  ultimately show ?thesis using False by fastforce
qed (simp add: narrowAssignmentsByTokenScopes_def)

lemma narrowed_global:
  "p \<in> set (globalPermissionsOf (narrowAssignmentsByTokenScopes as scopes))
   \<longleftrightarrow> (scopes = [] \<or> p \<in> set scopes) \<and> p \<in> set (globalPermissionsOf as)"
proof -
  have "p \<in> set (globalPermissionsOf sources)
      \<longleftrightarrow> (\<exists>src \<in> set sources. as_scope src = GlobalScope \<and> p \<in> set (as_permissions src))" for sources
    by (auto simp: set_globalPermissionsOf)
  with narrowed_source [of as scopes "\<lambda>s i. s = GlobalScope" p] show ?thesis by simp
qed

lemma narrowed_scoped:
  "carries (zoneScopedPermissionsOf (narrowAssignmentsByTokenScopes as scopes)) z p
   \<longleftrightarrow> (scopes = [] \<or> p \<in> set scopes) \<and> carries (zoneScopedPermissionsOf as) z p"
proof -
  let ?Q = "\<lambda>s i. s = ZoneScope \<and> isZoneScopablePermission p
    \<and> (\<exists>j. i = Some j \<and> canonicalZoneName j = z \<and> z \<noteq> [])"
  have "source_carries src z p \<longleftrightarrow> ?Q (as_scope src) (as_scopeId src) \<and> p \<in> set (as_permissions src)" for src
    by (auto simp: source_carries_def)
  with narrowed_source [of as scopes ?Q p] show ?thesis unfolding carries_of by simp
qed

lemma narrowed_via:
  "hasZonePermissionViaGrant [g] s z p \<longleftrightarrow> zg_serverId g = s \<and> zg_zoneName g = z \<and> p \<in> set (zg_permissions g)"
  by simp

lemma narrowed_grants:
  "(\<exists>g \<in> set (narrow_grants scopes grants). Q (zg_serverId g) (zg_zoneName g) \<and> p \<in> set (zg_permissions g))
   \<longleftrightarrow> (scopes = [] \<or> p \<in> set scopes)
      \<and> (\<exists>g \<in> set grants. Q (zg_serverId g) (zg_zoneName g) \<and> p \<in> set (zg_permissions g))"
proof (cases "scopes = []")
  case False
  let ?f = "\<lambda>g. filter (\<lambda>p. p \<in> set scopes) (zg_permissions g)"
  have "set (narrow_grants scopes grants) = {g\<lparr>zg_permissions := ?f g\<rparr> | g. g \<in> set grants \<and> ?f g \<noteq> []}"
    using False by (auto simp: narrow_grants_def)
  moreover have "?f g \<noteq> []" if "p \<in> set scopes" "p \<in> set (zg_permissions g)" for g
    using that by (auto simp: filter_empty_conv)
  ultimately show ?thesis using False by fastforce
qed (simp add: narrow_grants_def)

lemma expanded_via:
  "hasZonePermissionViaGrant (if length ps = 0 then gs else expandGrantsAcrossClusters gs ps) s z p
   \<longleftrightarrow> (\<exists>g \<in> set gs. (s \<in> peers_of ps (zg_serverId g) \<and> zg_zoneName g = z) \<and> p \<in> set (zg_permissions g))"
proof (cases "ps = []")
  case True
  then show ?thesis unfolding via_grant_iff by (auto simp: peers_of_def)
next
  case False
  then show ?thesis by (simp add: via_expanded_iff) blast
qed

subsection \<open>The peers of a server\<close>

text \<open>What a cluster is, from the table alone: two servers are linked when they are one or in one cluster.\<close>

definition linked :: "(string \<times> string option) list \<Rightarrow> string \<Rightarrow> string \<Rightarrow> bool" where
  "linked servers a b \<longleftrightarrow> a = b \<or> (\<exists>c. (a, Some c) \<in> set servers \<and> (b, Some c) \<in> set servers)"

lemma peers_by_cluster_of:
  "map_of (peers_by_cluster rows) c
   = (let xs = map fst (filter (\<lambda>r. snd r = Some c) rows) in if xs = [] then None else Some xs)"
proof (induction rows rule: rev_induct)
  case (snoc r rows)
  then show ?case
    by (cases "snd r") (auto simp: peers_by_cluster_def Let_def update_conv' filter_empty_conv split: if_splits option.splits)
qed (simp add: peers_by_cluster_def)

lemma result_of:
  "map_of (foldl (\<lambda>m r. case snd r of None \<Rightarrow> m | Some c \<Rightarrow> AList.update (fst r) (f r c) m) [] rows) a
   = (let rs = filter (\<lambda>r. fst r = a \<and> snd r \<noteq> None) rows in
      if rs = [] then None else Some (f (last rs) (the (snd (last rs)))))"
proof (induction rows rule: rev_induct)
  case (snoc r rows)
  then show ?case by (cases "snd r") (auto simp: Let_def update_conv')
qed simp

lemma clustered_entry:
  fixes servers serverIds a
  defines "rs \<equiv> filter (\<lambda>r. fst r = a \<and> snd r \<noteq> None) (filter (\<lambda>r. fst r \<in> set serverIds) servers)"
  shows "map_of (mapServersToClusterPeers servers serverIds) a
    = (if rs = [] then None else Some (map fst (filter (\<lambda>r. snd r = snd (last rs)) servers)))"
proof (cases "rs = []")
  case True
  then show ?thesis unfolding rs_def mapServersToClusterPeers_def Let_def by (simp add: result_of)
next
  case False
  define clusters where "clusters = jset_of (List.map_filter snd (filter (\<lambda>r. fst r \<in> set serverIds) servers))"
  define peers where "peers = filter (\<lambda>r. case snd r of Some c \<Rightarrow> c \<in> set clusters | None \<Rightarrow> False) servers"
  have "last rs \<in> set rs" using False by simp
  then obtain c where l: "last rs \<in> set servers" "fst (last rs) = a" "a \<in> set serverIds" "snd (last rs) = Some c"
    unfolding rs_def by auto
  have c: "c \<in> set clusters"
    unfolding clusters_def jset_of_def set_foldl_jset_add List.map_filter_def using l by force
  then have n: "serverIds \<noteq> []" "clusters \<noteq> []" using l(3) by auto
  have "filter (\<lambda>r. snd r = Some c) peers = filter (\<lambda>r. snd r = Some c) servers"
    unfolding peers_def filter_filter using c by (intro filter_cong) auto
  moreover have "last rs \<in> set (filter (\<lambda>r. snd r = Some c) servers)" using l by simp
  ultimately have "map_of (peers_by_cluster peers) c = Some (map fst (filter (\<lambda>r. snd r = Some c) servers))"
    unfolding peers_by_cluster_of Let_def by (auto simp: filter_empty_conv)
  then show ?thesis
    unfolding mapServersToClusterPeers_def Let_def clusters_def [symmetric] peers_def [symmetric]
    using False n l(4) result_of [of "\<lambda>r c. case map_of (peers_by_cluster peers) c of Some ps \<Rightarrow> ps | None \<Rightarrow> [fst r]"
        "filter (\<lambda>r. fst r \<in> set serverIds) servers" a, folded rs_def, unfolded Let_def]
    by simp
qed

lemma last_clustered:
  assumes "filter (\<lambda>r. fst r = a \<and> snd r \<noteq> None) (filter (\<lambda>r. fst r \<in> set ids) servers) \<noteq> []" (is "?rs \<noteq> []")
  obtains c where "last ?rs = (a, Some c)" "(a, Some c) \<in> set servers"
proof -
  have "last ?rs \<in> set ?rs" using assms by (rule last_in_set)
  then have x: "last ?rs \<in> set servers" "fst (last ?rs) = a" "snd (last ?rs) \<noteq> None" by simp_all
  then obtain c where "snd (last ?rs) = Some c" by blast
  with x(2) have "last ?rs = (a, Some c)" by (simp add: prod_eq_iff)
  with x(1) that show ?thesis by simp
qed

lemma peers_linked:
  "s \<in> peers_of (mapServersToClusterPeers servers ids) a \<Longrightarrow> linked servers a s"
proof -
  assume s: "s \<in> peers_of (mapServersToClusterPeers servers ids) a"
  let ?rs = "filter (\<lambda>r. fst r = a \<and> snd r \<noteq> None) (filter (\<lambda>r. fst r \<in> set ids) servers)"
  show ?thesis
  proof (cases "?rs = []")
    case True
    with s show ?thesis by (simp add: peers_of_def clustered_entry linked_def)
  next
    case False
    then obtain c where l: "last ?rs = (a, Some c)" "(a, Some c) \<in> set servers" by (rule last_clustered)
    then have "filter (\<lambda>r. snd r = Some c) servers \<noteq> []" by (force simp: filter_empty_conv)
    with s False l(1) have "s \<in> set (map fst (filter (\<lambda>r. snd r = Some c) servers))"
      by (simp add: peers_of_def clustered_entry del: filter_filter)
    with l(2) show ?thesis by (force simp: linked_def)
  qed
qed

lemma linked_peers:
  assumes "distinct (map fst servers)" "a \<in> set ids" "linked servers a s"
  shows "s \<in> peers_of (mapServersToClusterPeers servers ids) a"
proof -
  let ?rs = "filter (\<lambda>r. fst r = a \<and> snd r \<noteq> None) (filter (\<lambda>r. fst r \<in> set ids) servers)"
  show ?thesis
  proof (cases "?rs = []")
    case True
    with assms(2) have "(a, Some c) \<notin> set servers" for c by (force simp: filter_empty_conv)
    with assms(3) have "a = s" by (auto simp: linked_def)
    with True show ?thesis by (simp add: peers_of_def clustered_entry)
  next
    case False
    then obtain c where l: "last ?rs = (a, Some c)" "(a, Some c) \<in> set servers" by (rule last_clustered)
    then have ne: "filter (\<lambda>r. snd r = Some c) servers \<noteq> []" by (force simp: filter_empty_conv)
    have "(s, Some c) \<in> set servers"
      using assms(1,3) l(2) by (auto simp: linked_def dest: eq_key_imp_eq_value)
    then have "s \<in> set (map fst (filter (\<lambda>r. snd r = Some c) servers))" by force
    with ne False l(1) show ?thesis by (simp add: peers_of_def clustered_entry del: filter_filter)
  qed
qed

subsection \<open>What a token may do\<close>

text \<open>
  What a user may do on a zone of a server, from the tables alone: a global assignment, an assignment to the
  zone, or a grant on the zone for the server or one of its cluster.
\<close>

definition may_on_zone :: "ability_source list \<Rightarrow> zone_grant list \<Rightarrow> (string \<times> string option) list \<Rightarrow>
    string \<Rightarrow> string \<Rightarrow> string \<Rightarrow> bool" where
  "may_on_zone assignments grants servers s z p \<longleftrightarrow>
     (\<exists>a \<in> set assignments. as_scope a = GlobalScope \<and> p \<in> set (as_permissions a))
     \<or> (\<exists>a \<in> set assignments. \<exists>i. as_scope a = ZoneScope \<and> as_scopeId a = Some i
          \<and> canonicalZoneName i = canonicalZoneName z \<and> canonicalZoneName z \<noteq> []
          \<and> p \<in> set (as_permissions a) \<and> isZoneScopablePermission p)
     \<or> (\<exists>g \<in> set grants. linked servers (zg_serverId g) s \<and> zg_zoneName g = z \<and> p \<in> set (zg_permissions g))"

definition in_scopes :: "string list \<Rightarrow> string \<Rightarrow> bool" where
  "in_scopes scopes p \<longleftrightarrow> scopes = [] \<or> p \<in> set scopes"

lemma narrowed_access_iff:
  fixes as scopes grants servers
  defines "ng \<equiv> narrow_grants scopes grants"
  defines "ps \<equiv> (if length ng > 0 then mapServersToClusterPeers servers (map zg_serverId ng) else [])"
  defines "access \<equiv> \<lparr>globalPermissions = globalPermissionsOf (narrowAssignmentsByTokenScopes as scopes),
     zoneGrants = (if length ps = 0 then ng else expandGrantsAcrossClusters ng ps),
     zoneScopedPermissions = zoneScopedPermissionsOf (narrowAssignmentsByTokenScopes as scopes)\<rparr>"
  shows narrowed_access_sound: "canActOnZone access s z p \<Longrightarrow> in_scopes scopes p \<and> may_on_zone as grants servers s z p"
    and narrowed_access_complete: "distinct (map fst servers) \<Longrightarrow> in_scopes scopes p \<Longrightarrow>
      may_on_zone as grants servers s z p \<Longrightarrow> canActOnZone access s z p"
proof -
  have g: "p \<in> set (globalPermissionsOf as) \<longleftrightarrow> (\<exists>a \<in> set as. as_scope a = GlobalScope \<and> p \<in> set (as_permissions a))"
    by (auto simp: set_globalPermissionsOf)
  have z: "carries (zoneScopedPermissionsOf as) (canonicalZoneName z) p \<and> isZoneScopablePermission p \<longleftrightarrow>
      (\<exists>a \<in> set as. \<exists>i. as_scope a = ZoneScope \<and> as_scopeId a = Some i
          \<and> canonicalZoneName i = canonicalZoneName z \<and> canonicalZoneName z \<noteq> []
          \<and> p \<in> set (as_permissions a) \<and> isZoneScopablePermission p)"
    unfolding carries_of by (auto simp: source_carries_def)
  have v: "hasZonePermissionViaGrant (if length ps = 0 then ng else expandGrantsAcrossClusters ng ps) s z p
     \<longleftrightarrow> (\<exists>g \<in> set ng. (s \<in> peers_of ps (zg_serverId g) \<and> zg_zoneName g = z) \<and> p \<in> set (zg_permissions g))"
    by (rule expanded_via)
  have n: "(\<exists>g \<in> set ng. (linked servers (zg_serverId g) s \<and> zg_zoneName g = z) \<and> p \<in> set (zg_permissions g))
     \<longleftrightarrow> in_scopes scopes p \<and> (\<exists>g \<in> set grants. linked servers (zg_serverId g) s \<and> zg_zoneName g = z \<and> p \<in> set (zg_permissions g))"
    unfolding ng_def in_scopes_def narrowed_grants [of _ _ "\<lambda>i n. linked servers i s \<and> n = z"] by blast
  have a: "canActOnZone access s z p \<longleftrightarrow>
      (in_scopes scopes p \<and> p \<in> set (globalPermissionsOf as))
      \<or> (\<exists>g \<in> set ng. (s \<in> peers_of ps (zg_serverId g) \<and> zg_zoneName g = z) \<and> p \<in> set (zg_permissions g))
      \<or> (in_scopes scopes p \<and> carries (zoneScopedPermissionsOf as) (canonicalZoneName z) p \<and> isZoneScopablePermission p)"
    unfolding canAct_iff hasZoneScoped_iff access_def zone_access.select_convs v narrowed_global narrowed_scoped in_scopes_def
    by blast
  have snd: "linked servers (zg_serverId g) s" if "s \<in> peers_of ps (zg_serverId g)" for g
    using that peers_linked [of s servers "map zg_serverId ng"] by (auto simp: ps_def peers_of_def linked_def split: if_splits)
  show "in_scopes scopes p \<and> may_on_zone as grants servers s z p" if c: "canActOnZone access s z p"
  proof (cases "\<exists>g \<in> set ng. (s \<in> peers_of ps (zg_serverId g) \<and> zg_zoneName g = z) \<and> p \<in> set (zg_permissions g)")
    case True
    then have "\<exists>g \<in> set ng. (linked servers (zg_serverId g) s \<and> zg_zoneName g = z) \<and> p \<in> set (zg_permissions g)"
      using snd by blast
    then show ?thesis unfolding n may_on_zone_def by blast
  next
    case False
    then show ?thesis using c g z unfolding a may_on_zone_def by blast
  qed
  show "canActOnZone access s z p"
    if d: "distinct (map fst servers)" and i: "in_scopes scopes p" and m: "may_on_zone as grants servers s z p"
  proof (cases "\<exists>g \<in> set grants. linked servers (zg_serverId g) s \<and> zg_zoneName g = z \<and> p \<in> set (zg_permissions g)")
    case True
    with i n obtain g where h: "g \<in> set ng" "linked servers (zg_serverId g) s" "zg_zoneName g = z" "p \<in> set (zg_permissions g)"
      by blast
    then have "zg_serverId g \<in> set (map zg_serverId ng)" "length ng > 0" by auto
    with linked_peers [OF d this(1) h(2)] have "s \<in> peers_of ps (zg_serverId g)" by (simp add: ps_def)
    with h show ?thesis unfolding a by blast
  next
    case False
    then show ?thesis using m i g z unfolding a may_on_zone_def by blast
  qed
qed

lemma token_access_narrowed:
  "token_access env row = (let ng = narrow_grants (tk_scopes row) (d_grants env (tk_userId row));
      as = narrowAssignmentsByTokenScopes (d_assignments env (tk_userId row)) (tk_scopes row);
      ps = (if length ng > 0 then mapServersToClusterPeers (d_servers_in_clusters env) (map zg_serverId ng) else [])
    in \<lparr>globalPermissions = globalPermissionsOf as,
        zoneGrants = (if length ps = 0 then ng else expandGrantsAcrossClusters ng ps),
        zoneScopedPermissions = zoneScopedPermissionsOf as\<rparr>)"
  by (simp add: token_access_def token_peers_def Let_def)

lemma token_access_sound:
  "canActOnZone (token_access env row) s z p \<Longrightarrow> in_scopes (tk_scopes row) p
     \<and> may_on_zone (d_assignments env (tk_userId row)) (d_grants env (tk_userId row)) (d_servers_in_clusters env) s z p"
  using narrowed_access_sound unfolding token_access_narrowed Let_def by blast

text \<open>
  C25. What a token may do at this endpoint is exactly what the tables give its owner, cut down to the token's
  scopes (all of it when the token names none): the permissions of the owner's global roles, those of a role
  assigned for the zone, and those of a grant on the zone for the server itself or for a server of the same
  cluster.  Permissions derived from the identity provider are not among them: the endpoint does not look at
  them.  The ids in the table of servers differ.
\<close>

theorem token_narrowing_exact:
  assumes "distinct (map fst (d_servers_in_clusters env))"
  shows "canActOnZone (token_access env row) s z p
   \<longleftrightarrow> (tk_scopes row = [] \<or> p \<in> set (tk_scopes row))
     \<and> may_on_zone (d_assignments env (tk_userId row)) (d_grants env (tk_userId row)) (d_servers_in_clusters env) s z p"
  using narrowed_access_sound narrowed_access_complete [OF assms]
  unfolding token_access_narrowed Let_def in_scopes_def by blast

section \<open>Every write is authorized\<close>

lemma fqdn_no_ws:
  assumes "isPlausibleFqdn h" "c \<in> set h"
  shows "\<not> is_ws c"
proof -
  have "set h \<subseteq> insert (CHR ''.'') (\<Union> (set ` set (split_on (CHR ''.'') h)))"
    using set_join [of "''.''" "split_on (CHR ''.'') h"] by auto
  with assms(2) consider "c = CHR ''.''" | l where "l \<in> set (split_on (CHR ''.'') h)" "c \<in> set l" by blast
  then show ?thesis
  proof cases
    case 2
    with assms(1) have "list_all (\<lambda>c. ((CHR ''a'' \<le> c \<and> c \<le> CHR ''z'') \<or> is_digit c \<or> c = CHR ''_'') \<or> c = CHR ''-'') l"
      by (auto simp: isPlausibleFqdn_def fqdn_label_def list_all_iff Let_def)
    with 2(2) show ?thesis
      by (auto simp: list_all_iff is_ws_def is_digit_def less_eq_char_def)
  qed simp
qed

lemma update_zone_patch:
  assumes "DPatch server zoneName patches \<in> set (snd (update_zone env row hostname sourceIp sv zn))"
  shows "server = sv \<and> zoneName = zn \<and> canActOnZone (token_access env row) (ds_id sv) zn ''record.update''
    \<and> update_patch hostname sourceIp = Inr patches"
  using assms by (auto simp: update_zone_def split: if_splits sum.splits pdns_call.splits)

lemma scan_servers_patch:
  "DPatch server zoneName patches \<in> set (snd (scan_servers env row hostname sourceIp svs)) \<Longrightarrow>
     server \<in> set svs \<and> (\<exists>zs. d_listZones env server = Some zs \<and> matching_zone hostname zs = Some zoneName)
     \<and> canActOnZone (token_access env row) (ds_id server) zoneName ''record.update''
     \<and> update_patch hostname sourceIp = Inr patches"
proof (induction svs)
  case (Cons sv svs)
  show ?case
  proof (cases "\<exists>zs zn. d_listZones env sv = Some zs \<and> matching_zone hostname zs = Some zn")
    case True
    then obtain zs zn where z: "d_listZones env sv = Some zs" "matching_zone hostname zs = Some zn" by blast
    with Cons.prems have "DPatch server zoneName patches \<in> set (snd (update_zone env row hostname sourceIp sv zn))"
      by simp
    from update_zone_patch [OF this] z show ?thesis by simp
  next
    case False
    then have "scan_servers env row hostname sourceIp (sv # svs) = scan_servers env row hostname sourceIp svs"
      by (auto split: option.splits)
    with Cons show ?thesis by simp
  qed
qed simp

lemma matching_zone_in:
  assumes "matching_zone hostname zs = Some zn"
  shows "in_zone (hostname @ ''.'') zn \<and> (\<exists>z \<in> set zs. zn = js_lower (strip_dot z) @ ''.'')"
proof -
  let ?c = "map (\<lambda>z. js_lower (strip_dot z)) zs"
  obtain z where z: "findLongestZoneMatch hostname ?c = Some z" "zn = z @ ''.''"
    using assms by (auto simp: matching_zone_def split: option.splits if_splits)
  with longest_match [of hostname ?c] have "z \<in> set ?c" "in_zone hostname z"
    by (simp_all add: best_so_far_def)
  with z(2) show ?thesis by (auto simp: in_zone_def)
qed

text \<open>What an update sends: one RRset, replaced by the address.\<close>

definition replaces_address :: "string \<Rightarrow> string \<Rightarrow> rrset_patch list \<Rightarrow> bool" where
  "replaces_address name ip patches \<longleftrightarrow> (\<exists>patch. patches = [patch] \<and> pt_changetype patch = REPLACE
     \<and> pt_name patch = name \<and> pt_type patch = (if CHR '':'' \<in> set ip then ''AAAA'' else ''A'')
     \<and> pt_records patch = Some [\<lparr>rr_content = ip, rr_disabled = None\<rparr>])"

lemma update_patch_sends:
  assumes "update_patch hostname ip = Inr patches" "isPlausibleFqdn hostname"
  shows "replaces_address (hostname @ ''.'') ip patches"
proof -
  have "js_trim (hostname @ ''.'') = hostname @ ''.''"
    by (rule js_trim_no_ws) (auto dest: fqdn_no_ws [OF assms(2)])
  then have n: "ensureTrailingDot (hostname @ ''.'') = Inr (hostname @ ''.'')"
    by (rule ensureTrailingDot_dotted) (simp add: ends_with_dot)
  have u: "js_upper ''A'' = ''A''" "js_upper ''AAAA'' = ''AAAA''"
    by (simp_all add: js_upper_def upper_char_def)
  from assms(1) show ?thesis
    by (auto simp: update_patch_def replaces_address_def replaceRRset_def zonePatchBody_def n u)
qed

lemma check_token_Inr:
  assumes "check_token env basic = Inr row"
  obtains user public where "d_findUser env (fst basic) = Some user" "\<not> du_disabled user"
    "parsePresentedToken (snd basic) = Some public" "d_findToken env public = Some row"
    "tk_userId row = du_id user" "\<not> tk_revoked row" "d_verify env (snd basic) (tk_hash row)"
    "case tk_expiresAt row of Some t \<Rightarrow> d_now env < t | None \<Rightarrow> True"
  using assms by (auto simp: check_token_def split: option.splits if_splits)

lemma parsed_hostname: "parseDynDnsRequest h m = Inr req \<Longrightarrow> isPlausibleFqdn (dq_hostname req)"
  by (auto simp: parseDynDnsRequest_def Let_def split: option.splits if_splits)

lemma handle_update_patch:
  assumes "DPatch server zoneName patches \<in> set (snd (handle_update env))"
  obtains req basic row sourceIp where "parseDynDnsRequest (d_hostname env) (d_myip env) = Inr req"
    "parseBasicAuth (d_decode env) (d_authorization env) = Some basic"
    "check_token env basic = Inr row"
    "DPatch server zoneName patches \<in> set (snd (scan_servers env row (dq_hostname req) sourceIp (d_servers env)))"
  using assms by (auto simp: handle_update_def split: sum.splits option.splits if_splits)

text \<open>
  C24. Whatever the endpoint writes was authorized: the credentials name an enabled user and present a token
  whose stored row belongs to that very user and is unrevoked, unexpired and verified against its hash; the
  row's scopes include \<open>record.update\<close> (or name nothing) and its owner may, by the tables, update records of
  the very zone and server written to; and what is written is one A or AAAA RRset, for the requested host name,
  which lies in that zone.
\<close>

theorem dyndns_update_authorized:
  assumes "DPatch server zoneName patches \<in> set (snd (handle_update env))"
  shows "\<exists>req basic user public row. parseDynDnsRequest (d_hostname env) (d_myip env) = Inr req
    \<and> parseBasicAuth (d_decode env) (d_authorization env) = Some basic
    \<and> d_findUser env (fst basic) = Some user \<and> \<not> du_disabled user
    \<and> parsePresentedToken (snd basic) = Some public \<and> d_findToken env public = Some row
    \<and> tk_userId row = du_id user \<and> \<not> tk_revoked row
    \<and> (case tk_expiresAt row of Some t \<Rightarrow> d_now env < t | None \<Rightarrow> True)
    \<and> d_verify env (snd basic) (tk_hash row)
    \<and> (tk_scopes row = [] \<or> ''record.update'' \<in> set (tk_scopes row))
    \<and> may_on_zone (d_assignments env (du_id user)) (d_grants env (du_id user)) (d_servers_in_clusters env)
        (ds_id server) zoneName ''record.update''
    \<and> server \<in> set (d_servers env) \<and> in_zone (dq_hostname req @ ''.'') zoneName
    \<and> (\<exists>ip. replaces_address (dq_hostname req @ ''.'') ip patches)"
proof -
  obtain req basic row sourceIp where r: "parseDynDnsRequest (d_hostname env) (d_myip env) = Inr req"
    "parseBasicAuth (d_decode env) (d_authorization env) = Some basic" "check_token env basic = Inr row"
    "DPatch server zoneName patches \<in> set (snd (scan_servers env row (dq_hostname req) sourceIp (d_servers env)))"
    using handle_update_patch [OF assms] by blast
  obtain user public where u: "d_findUser env (fst basic) = Some user" "\<not> du_disabled user"
    "parsePresentedToken (snd basic) = Some public" "d_findToken env public = Some row"
    "tk_userId row = du_id user" "\<not> tk_revoked row" "d_verify env (snd basic) (tk_hash row)"
    "case tk_expiresAt row of Some t \<Rightarrow> d_now env < t | None \<Rightarrow> True"
    using check_token_Inr [OF r(3)] by metis
  from scan_servers_patch [OF r(4)] obtain zs where s: "server \<in> set (d_servers env)"
    "matching_zone (dq_hostname req) zs = Some zoneName"
    "canActOnZone (token_access env row) (ds_id server) zoneName ''record.update''"
    "update_patch (dq_hostname req) sourceIp = Inr patches" by blast
  have "replaces_address (dq_hostname req @ ''.'') sourceIp patches"
    by (rule update_patch_sends [OF s(4) parsed_hostname [OF r(1)]])
  moreover have "(tk_scopes row = [] \<or> ''record.update'' \<in> set (tk_scopes row))
    \<and> may_on_zone (d_assignments env (du_id user)) (d_grants env (du_id user)) (d_servers_in_clusters env)
        (ds_id server) zoneName ''record.update''"
    using token_access_sound [OF s(3)] unfolding in_scopes_def u(5) .
  ultimately show ?thesis using r(1,2) u s(1) matching_zone_in [OF s(2)]
    by (intro exI [of _ req] exI [of _ basic] exI [of _ user] exI [of _ public] exI [of _ row]) auto
qed

definition demo_token :: token_row where
  "demo_token = \<lparr>tk_id = ''t1'', tk_userId = ''u1'', tk_revoked = False, tk_expiresAt = None, tk_hash = ''h'',
     tk_scopes = [''record.update'']\<rparr>"

definition demo_password :: string where
  "demo_password = ''pda_pat_abcdefghabcdefghabcdefghabcdefgh''"

definition demo_dyn :: dyn_env where
  "demo_dyn = \<lparr>d_hostname = Some ''Home.Example.org'', d_myip = Some ''192.0.2.7'',
     d_authorization = Some ''Basic xyz'', d_forwarded_for = None, d_real_ip = None, d_isIP = (\<lambda>s. True),
     d_decode = (\<lambda>s. ''a@b:'' @ demo_password), d_limiter = (\<lambda>k. True),
     d_findUser = (\<lambda>e. Some \<lparr>du_id = ''u1'', du_disabled = False\<rparr>),
     d_findToken = (\<lambda>p. if p = ''abcdefgh'' then Some demo_token else None),
     d_verify = (\<lambda>p h. True), d_now = 0, d_assignments = (\<lambda>u. []),
     d_grants = (\<lambda>u. [\<lparr>zg_serverId = ''s1'', zg_zoneName = ''example.org.'',
        zg_permissions = [''record.update'', ''record.delete'']\<rparr>]),
     d_servers_in_clusters = [(''s1'', None)], d_servers = [\<lparr>ds_id = ''s1'', ds_slug = ''main''\<rparr>],
     d_listZones = (\<lambda>s. Some [''org.'', ''example.org.'']), d_patchZone = (\<lambda>s z ps. Returned ())\<rparr>"

definition demo_server1 :: dyn_server where "demo_server1 = \<lparr>ds_id = ''s1'', ds_slug = ''main''\<rparr>"

lemma demo_req: "parseDynDnsRequest (d_hostname demo_dyn) (d_myip demo_dyn)
    = Inr \<lparr>dq_hostname = ''home.example.org'', dq_myip = Some ''192.0.2.7''\<rparr>"
  by code_simp

lemma demo_basic: "parseBasicAuth (d_decode demo_dyn) (d_authorization demo_dyn) = Some (''a@b'', demo_password)"
  by code_simp

lemma demo_checked: "check_token demo_dyn (''a@b'', demo_password) = Inr demo_token"
  by code_simp

lemma demo_scan:
  "DPatch demo_server1 ''example.org.'' (projr (update_patch ''home.example.org'' ''192.0.2.7''))
     \<in> set (snd (scan_servers demo_dyn demo_token ''home.example.org'' ''192.0.2.7'' (d_servers demo_dyn)))"
proof -
  have m: "matching_zone ''home.example.org'' [''org.'', ''example.org.''] = Some ''example.org.''" by code_simp
  have a: "canActOnZone (token_access demo_dyn demo_token) ''s1'' ''example.org.'' ''record.update''" by code_simp
  have p: "\<exists>ps. update_patch ''home.example.org'' ''192.0.2.7'' = Inr ps"
    by (simp add: update_patch_def replaceRRset_def ensureTrailingDot_def js_trim_def is_ws_def zonePatchBody_def Let_def)
  have s: "d_servers demo_dyn = [demo_server1]" "d_listZones demo_dyn demo_server1 = Some [''org.'', ''example.org.'']"
    "ds_id demo_server1 = ''s1''" "\<And>z ps. d_patchZone demo_dyn demo_server1 z ps = Returned ()"
    by (simp_all add: demo_dyn_def demo_server1_def)
  from p obtain ps where "update_patch ''home.example.org'' ''192.0.2.7'' = Inr ps" by blast
  with s m a show ?thesis by (simp add: update_zone_def)
qed

lemma demo_handled:
  "DPatch demo_server1 ''example.org.'' (projr (update_patch ''home.example.org'' ''192.0.2.7''))
     \<in> set (snd (handle_update demo_dyn))"
proof -
  have "d_limiter demo_dyn k" for k by (simp add: demo_dyn_def)
  with demo_scan show ?thesis by (simp add: handle_update_def demo_req demo_basic demo_checked)
qed

theorem dyndns_update_authorized_witness:
  "\<exists>ip. replaces_address ''home.example.org.'' ip (projr (update_patch ''home.example.org'' ''192.0.2.7''))"
  using dyndns_update_authorized [OF demo_handled] by (auto simp: demo_req)

theorem token_narrowing_exact_witness:
  "canActOnZone (token_access (demo_dyn\<lparr>d_servers_in_clusters := [(''s1'', Some ''c''), (''s2'', Some ''c'')]\<rparr>) demo_token)
     ''s2'' ''example.org.'' ''record.update''
   \<and> \<not> canActOnZone (token_access (demo_dyn\<lparr>d_servers_in_clusters := [(''s1'', Some ''c''), (''s2'', Some ''c'')]\<rparr>) demo_token)
     ''s2'' ''example.org.'' ''record.delete''"
proof -
  let ?env = "demo_dyn\<lparr>d_servers_in_clusters := [(''s1'', Some ''c''), (''s2'', Some ''c'')]\<rparr>"
  have d: "distinct (map fst (d_servers_in_clusters ?env))" by simp
  show ?thesis
    unfolding token_narrowing_exact [OF d]
    by (auto simp: demo_token_def demo_dyn_def may_on_zone_def linked_def)
qed

end
