(* ===== verification/CurrentUser.thy ===== *)
theory CurrentUser
  imports AccountLinks Dyndns
begin

section \<open>Who is asking\<close>

text \<open>
  \<open>lib/auth/get-current-user.ts\<close> and \<open>require-user.ts\<close>: the caller behind a session cookie or an API token,
  what the caller may do, and the guard of the handlers; and the two handlers under \<open>app/api/auth\<close> that need a
  session, \<open>change-password\<close> and \<open>sessions/[id]\<close>.  The tables of assignments, grants, tokens, roles and
  servers, the question to the identity provider and CASL's \<open>can\<close> are in the record \<open>user_env\<close>.  That a
  token was used is noted in the background and not modelled.
\<close>

record user_env =
  ue_auth :: auth_env
  ue_findToken :: "string \<Rightarrow> token_row option"
  ue_assignments :: "string \<Rightarrow> ability_source list"
  ue_grants :: "string \<Rightarrow> zone_grant list"
  ue_servers :: "(string \<times> string option) list"
  ue_recompute :: "user_row \<Rightarrow> session_row \<Rightarrow> ability_source list option"
  ue_fallbackTtlSeconds :: int
  ue_roleMfa :: "string \<Rightarrow> role_slice list"
  ue_can :: "casl_rule list \<Rightarrow> string \<Rightarrow> subject \<Rightarrow> bool"
  ue_sort :: "string list \<Rightarrow> string list"

record auth_context = zone_access +
  ac_user :: user_row
  ac_ability :: "casl_rule list"
  ac_session :: bool

definition expandClusterGrants :: "user_env \<Rightarrow> zone_grant list \<Rightarrow> zone_grant list" where
  "expandClusterGrants env grants =
     (if length grants = 0 then grants
      else let peers = mapServersToClusterPeers (ue_servers env) (map zg_serverId grants) in
        if length peers = 0 then grants else expandGrantsAcrossClusters grants peers)"

definition context_of :: "user_env \<Rightarrow> user_row \<Rightarrow> ability_source list \<Rightarrow> zone_grant list \<Rightarrow> bool \<Rightarrow> auth_context" where
  "context_of env user sources grants fromSession =
     \<lparr>globalPermissions = globalPermissionsOf sources, zoneGrants = expandClusterGrants env grants,
      zoneScopedPermissions = zoneScopedPermissionsOf sources, ac_user = user, ac_ability = buildAbility sources,
      ac_session = fromSession\<rparr>"

lemma context_of_sel: "ac_user (context_of env u srcs gs b) = u" "ac_session (context_of env u srcs gs b) = b"
  by (simp_all add: context_of_def)

text \<open>The two headers; a header value has no line break.\<close>

definition extractPresentedToken :: "string option \<Rightarrow> string option \<Rightarrow> string option" where
  "extractPresentedToken authorization apiKey =
     (let bearer = (case authorization of
            None \<Rightarrow> None
          | Some auth \<Rightarrow>
              (let s = js_trim auth; rest = dropWhile is_ws (drop 6 s) in
               if auth \<noteq> [] \<and> js_lower (take 6 s) = ''bearer'' \<and> rest \<noteq> drop 6 s \<and> rest \<noteq> [] then Some (js_trim rest) else None))
      in case bearer of
           Some t \<Rightarrow> Some t
         | None \<Rightarrow> (case apiKey of Some k \<Rightarrow> if k = [] then None else Some (js_trim k) | None \<Rightarrow> None))"

text \<open>The identity provider's part: asked now where it can be, else the last session's snapshot while it is young enough.\<close>

definition chosen_derived :: "user_env \<Rightarrow> int \<Rightarrow> user_row \<Rightarrow> session_row option \<Rightarrow> ability_source list" where
  "chosen_derived env now user latestSession =
     (case latestSession of
        None \<Rightarrow> []
      | Some ls \<Rightarrow>
          (case (se_idpProviderType ls, se_idpProviderSlug ls) of
             (Some type, Some slug) \<Rightarrow>
               if slug = [] then []
               else
                 (case (if type = IdpOidc \<or> type = IdpLdap then ue_recompute env user ls else None) of
                    Some live \<Rightarrow> live
                  | None \<Rightarrow>
                      if length (se_derivedPermissions ls) > 0
                        \<and> now - se_lastSeenAt ls \<le> ue_fallbackTtlSeconds env * 1000
                      then se_derivedPermissions ls else [])
           | _ \<Rightarrow> []))"

definition token_sources :: "user_env \<Rightarrow> int \<Rightarrow> user_row \<Rightarrow> token_row \<Rightarrow> auth_state \<Rightarrow> ability_source list" where
  "token_sources env now user row st =
     narrowAssignmentsByTokenScopes (ue_assignments env (us_id user)) (tk_scopes row)
     @ narrowAssignmentsByTokenScopes (chosen_derived env now user (latestSessionForUser (us_id user) st)) (tk_scopes row)"

definition resolvePresentedToken :: "user_env \<Rightarrow> int \<Rightarrow> string \<Rightarrow> auth_state \<Rightarrow> auth_context option" where
  "resolvePresentedToken env now presented st =
     (case parsePresentedToken presented of
        None \<Rightarrow> None
      | Some public \<Rightarrow>
      (case ue_findToken env public of
        None \<Rightarrow> None
      | Some row \<Rightarrow>
          if tk_revoked row then None
          else if (case tk_expiresAt row of Some t \<Rightarrow> t \<le> now | None \<Rightarrow> False) then None
          else if \<not> ae_verifyPassword (ue_auth env) (tk_hash row) presented then None
          else case findUserById (tk_userId row) st of
            None \<Rightarrow> None
          | Some user \<Rightarrow>
              if isDisabled user then None
              else Some (context_of env user (token_sources env now user row st)
                (narrow_grants (tk_scopes row) (ue_grants env (us_id user))) False)))"

definition getCurrentUser ::
  "user_env \<Rightarrow> auth_request \<Rightarrow> string option \<times> string option \<Rightarrow> auth_state \<Rightarrow> auth_context option \<times> auth_state" where
  "getCurrentUser env rq hdrs st =
     (case readSession (ue_auth env) rq st of
        (Some session, st1) \<Rightarrow>
          (case findUserById (se_userId session) st1 of
             None \<Rightarrow> None
           | Some user \<Rightarrow>
               if isDisabled user then None
               else Some (context_of env user (ue_assignments env (us_id user) @ se_derivedPermissions session)
                 (ue_grants env (us_id user)) True), st1)
      | (None, st1) \<Rightarrow>
          (case extractPresentedToken (fst hdrs) (snd hdrs) of
             None \<Rightarrow> None
           | Some presented \<Rightarrow> if presented = [] then None else resolvePresentedToken env (rq_now rq) presented st1, st1))"

subsection \<open>require-user.ts\<close>

record require_options =
  ro_can :: "string option"
  ro_on :: "subject option"
  ro_anyInstance :: bool
  ro_skipComplianceGate :: bool

definition missing_permission :: "string \<Rightarrow> thrown + unit" where
  "missing_permission can = Inl (AppThrown (ForbiddenError (''Missing permission: '' @ can)))"

definition check_can :: "user_env \<Rightarrow> require_options \<Rightarrow> auth_context \<Rightarrow> thrown + unit" where
  "check_can env opts ctx =
     (case ro_can opts of
        None \<Rightarrow> Inr ()
      | Some can \<Rightarrow>
          if can = [] then Inr ()
          else if CHR ''.'' \<notin> set can then Inl (ErrorThrown (''requireUser: malformed permission '' @ CHR 0x27 # can @ [CHR 0x27]))
          else
            let resource = takeWhile (\<lambda>c. c \<noteq> CHR ''.'') can; action = drop (length resource + 1) can in
            case ro_on opts of
              Some s \<Rightarrow> if ue_can env (ac_ability ctx) action s then Inr () else missing_permission can
            | None \<Rightarrow>
                if ro_anyInstance opts then
                  (if resource = [] then Inl (ErrorThrown [])
                   else if ue_can env (ac_ability ctx) action (SubjectType (js_upper (take 1 resource) @ drop 1 resource)) then Inr ()
                   else missing_permission can)
                else if can \<in> set (globalPermissions ctx) then Inr () else missing_permission can)"

definition mfa_of :: "user_row \<Rightarrow> mfa_state" where
  "mfa_of user = \<lparr>mf_totpEnrolled = us_totpSecretEncrypted user \<noteq> None,
     mf_webauthnEnrolled = length (us_webauthnCredentials user) > 0, mf_ssoOnly = us_passwordHash user = None,
     mf_mfaOverride = us_mfaRequired user\<rparr>"

definition compliance_gate :: "user_env \<Rightarrow> require_options \<Rightarrow> auth_context \<Rightarrow> thrown + unit" where
  "compliance_gate env opts ctx =
     (if ac_session ctx \<and> \<not> ro_skipComplianceGate opts then
        (case evaluateSessionCompliance (ue_sort env) (mfa_of (ac_user ctx)) (us_mustChangePassword (ac_user ctx))
                (ue_roleMfa env (us_id (ac_user ctx))) of
           Compliant \<Rightarrow> Inr ()
         | NotCompliantMfa \<Rightarrow> Inl (AppThrown (ForbiddenError ''MFA enrollment required before performing this action.''))
         | NotCompliantPassword \<Rightarrow> Inl (AppThrown (ForbiddenError ''Password change required before performing this action.'')))
      else Inr ())"

definition requireUser ::
  "user_env \<Rightarrow> require_options \<Rightarrow> auth_request \<Rightarrow> string option \<times> string option \<Rightarrow> auth_state \<Rightarrow> (thrown + auth_context) \<times> auth_state" where
  "requireUser env opts rq hdrs st =
     (case getCurrentUser env rq hdrs st of
        (None, st1) \<Rightarrow> (Inl (AppThrown (UnauthorizedError ''Sign-in required.'')), st1)
      | (Some ctx, st1) \<Rightarrow>
          (case check_can env opts ctx of
             Inl e \<Rightarrow> Inl e
           | Inr _ \<Rightarrow> (case compliance_gate env opts ctx of Inl e \<Rightarrow> Inl e | Inr _ \<Rightarrow> Inr ctx), st1))"

subsection \<open>change-password\<close>

record change_body =
  cb_currentPassword :: string
  cb_newPassword :: string
  cb_captchaToken :: "string option"

definition self_service :: require_options where
  "self_service = \<lparr>ro_can = None, ro_on = None, ro_anyInstance = False, ro_skipComplianceGate = True\<rparr>"

definition change_failed :: "user_row \<Rightarrow> (string \<times> json) list \<Rightarrow> auth_state \<Rightarrow> auth_state" where
  "change_failed user after =
     appendAudit (Some (us_id user)) ''auth.password.changed'' (''user'', Some (us_id user)) ((''ok'', JBool False) # after)"

text \<open>After the captcha: the limiter, the current password, the new hash.\<close>

definition change_verified ::
  "auth_env \<Rightarrow> auth_request \<Rightarrow> user_row \<Rightarrow> change_body \<Rightarrow> auth_state \<Rightarrow> (thrown + response \<times> cookie_change list) \<times> auth_state" where
  "change_verified env rq user b st =
     (case rq_limited rq of
        Some seconds \<Rightarrow> (Inl (AppThrown (RateLimitedError seconds)), st)
      | None \<Rightarrow>
      (case findUserById (us_id user) st of
        None \<Rightarrow> (Inl (AppThrown (UnauthorizedError ''Authentication required.'')), st)
      | Some fresh \<Rightarrow>
      (case us_passwordHash fresh of
        None \<Rightarrow> (Inl (AppThrown (ValidationError
           ''This account uses single sign-on. Change your password with your identity provider.'' None)), st)
      | Some hash \<Rightarrow>
          if hash = [] then (Inl (AppThrown (ValidationError
             ''This account uses single sign-on. Change your password with your identity provider.'' None)), st)
          else if \<not> ae_verifyPassword env hash (cb_currentPassword b)
          then (Inl (AppThrown (ValidationError ''Current password is incorrect.'' None)), st)
          else (Inr (json_ok [(''ok'', JBool True)], []),
            appendAudit (Some (us_id user)) ''auth.password.changed'' (''user'', Some (us_id user)) []
              (snd (updateUser (rq_now rq) (us_id user) (Some (Some (ae_hashPassword env (rq_salt rq) (cb_newPassword b))))
                (\<lambda>u. u\<lparr>us_mustChangePassword := False\<rparr>) st))))))"

definition change_password_route ::
  "user_env \<Rightarrow> auth_request \<Rightarrow> string option \<times> string option \<Rightarrow> change_body body \<Rightarrow> auth_state \<Rightarrow> outcome" where
  "change_password_route env rq hdrs body st = caught
     (case requireUser env self_service rq hdrs st of
        (Inl e, st1) \<Rightarrow> (Inl e, st1)
      | (Inr ctx, st1) \<Rightarrow>
      (let user = ac_user ctx; ae = ue_auth env in
       case requireCsrf ae rq st1 of
        (Inl e, st2) \<Rightarrow> (Inl e, st2)
      | (Inr _, st2) \<Rightarrow>
      (case assertBootstrapAdminMutable (ae_bootstrapRo ae) (ae_bootstrapEmail ae) (Some (us_email user)) of
        Inl e \<Rightarrow> (Inl e, st2)
      | Inr _ \<Rightarrow>
      (case body of
        Malformed d \<Rightarrow> (Inl (AppThrown (ValidationError ''Invalid input.'' (Some (field_errors d)))), st2)
      | NotJson m \<Rightarrow> (Inl (ErrorThrown m), st2)
      | Parsed b \<Rightarrow>
          (case captcha_gate ae rq (cb_captchaToken b) of
             CaptchaMissing \<Rightarrow>
               (Inl (AppThrown (ValidationError ''Captcha required.''
                  (Some (field_errors [(''captchaToken'', JArr [JStr ''Captcha required.''])])))),
                change_failed user (reason ''captcha-missing'') st2)
           | CaptchaFailed reasons \<Rightarrow>
               (Inl (AppThrown (ValidationError ''Captcha verification failed.''
                  (Some (field_errors [(''captchaToken'', JArr [JStr ''Captcha verification failed. Try again.''])])))),
                change_failed user (captcha_failed reasons) st2)
           | CaptchaPassed \<Rightarrow> change_verified ae rq user b st2)))))"

subsection \<open>sessions/[id]\<close>

definition any_user :: require_options where
  "any_user = \<lparr>ro_can = None, ro_on = None, ro_anyInstance = False, ro_skipComplianceGate = False\<rparr>"

definition session_failure :: "thrown \<Rightarrow> response" where
  "session_failure err =
     (case err of
        AppThrown (UnauthorizedError m) \<Rightarrow> jsonError 401 m []
      | AppThrown (ForbiddenError m) \<Rightarrow> jsonError 403 m []
      | AppThrown (NotFoundError m) \<Rightarrow> jsonError 404 m []
      | _ \<Rightarrow> jsonError 500 ''Internal error.'' [])"

definition session_delete_route ::
  "user_env \<Rightarrow> auth_request \<Rightarrow> string option \<times> string option \<Rightarrow> string \<Rightarrow> auth_state \<Rightarrow> response \<times> auth_state" where
  "session_delete_route env rq hdrs i st =
     (case requireUser env any_user rq hdrs st of
        (Inl e, st1) \<Rightarrow> (session_failure e, st1)
      | (Inr ctx, st1) \<Rightarrow>
      (case requireCsrf (ue_auth env) rq st1 of
        (Inl e, st2) \<Rightarrow> (session_failure e, st2)
      | (Inr _, st2) \<Rightarrow>
      (case findValidSessionById (rq_now rq) i st2 of
        None \<Rightarrow> (session_failure (AppThrown (NotFoundError ''Session not found.'')), st2)
      | Some session \<Rightarrow>
          if se_userId session \<noteq> us_id (ac_user ctx)
          then (session_failure (AppThrown (ForbiddenError ''Not your session.'')), st2)
          else (json_ok [(''ok'', JBool True)],
            appendAudit (Some (us_id (ac_user ctx))) ''auth.session.revoked'' (''session'', Some i) [] (revokeSession i st2)))))"

section \<open>Properties\<close>

subsection \<open>What a token may do\<close>

lemma narrow_append:
  "narrowAssignmentsByTokenScopes as scopes @ narrowAssignmentsByTokenScopes bs scopes = narrowAssignmentsByTokenScopes (as @ bs) scopes"
  by (simp add: narrowAssignmentsByTokenScopes_def)

lemma context_access:
  fixes env user as gs scopes fromSession
  defines "ctx \<equiv> context_of env user (narrowAssignmentsByTokenScopes as scopes) (narrow_grants scopes gs) fromSession"
  shows "canActOnZone ctx s z p \<Longrightarrow> in_scopes scopes p \<and> may_on_zone as gs (ue_servers env) s z p"
    and "distinct (map fst (ue_servers env)) \<Longrightarrow> in_scopes scopes p \<Longrightarrow> may_on_zone as gs (ue_servers env) s z p \<Longrightarrow>
      canActOnZone ctx s z p"
proof -
  define ng where "ng = narrow_grants scopes gs"
  define ps where "ps = (if length ng > 0 then mapServersToClusterPeers (ue_servers env) (map zg_serverId ng) else [])"
  have "canActOnZone ctx s z p = canActOnZone
      \<lparr>globalPermissions = globalPermissionsOf (narrowAssignmentsByTokenScopes as scopes),
        zoneGrants = (if length ps = 0 then ng else expandGrantsAcrossClusters ng ps),
        zoneScopedPermissions = zoneScopedPermissionsOf (narrowAssignmentsByTokenScopes as scopes)\<rparr> s z p"
    by (simp add: canAct_iff hasZoneScoped_iff ctx_def context_of_def expandClusterGrants_def ng_def [symmetric] ps_def Let_def)
  with narrowed_access_sound [of as scopes gs "ue_servers env" s z p, folded ng_def, folded ps_def]
    narrowed_access_complete [of "ue_servers env" scopes p as gs s z, folded ng_def, folded ps_def]
  show "canActOnZone ctx s z p \<Longrightarrow> in_scopes scopes p \<and> may_on_zone as gs (ue_servers env) s z p"
    and "distinct (map fst (ue_servers env)) \<Longrightarrow> in_scopes scopes p \<Longrightarrow> may_on_zone as gs (ue_servers env) s z p \<Longrightarrow>
      canActOnZone ctx s z p" by blast+
qed

lemma narrow_all: "narrowAssignmentsByTokenScopes as [] = as" "narrow_grants [] gs = gs"
  by (simp_all add: narrowAssignmentsByTokenScopes_def narrow_grants_def)

lemma session_context_access:
  "canActOnZone (context_of env user as gs fromSession) s z p \<Longrightarrow> may_on_zone as gs (ue_servers env) s z p"
  using context_access(1) [of env user as "[]" gs fromSession] by (simp add: narrow_all)

text \<open>
  What a token may do, outside the DynDNS endpoint: what the tables and the identity provider give its owner now, cut
  down to its scopes.
\<close>

definition owner_may :: "user_env \<Rightarrow> int \<Rightarrow> user_row \<Rightarrow> auth_state \<Rightarrow> string \<Rightarrow> string \<Rightarrow> string \<Rightarrow> bool" where
  "owner_may env now user st s z p \<longleftrightarrow>
     may_on_zone (ue_assignments env (us_id user) @ chosen_derived env now user (latestSessionForUser (us_id user) st))
       (ue_grants env (us_id user)) (ue_servers env) s z p"

lemma token_context_sound:
  "canActOnZone (context_of env user (token_sources env now user row st)
      (narrow_grants (tk_scopes row) (ue_grants env (us_id user))) fromSession) s z p
   \<Longrightarrow> in_scopes (tk_scopes row) p \<and> owner_may env now user st s z p"
  unfolding token_sources_def narrow_append owner_may_def by (rule context_access(1))

lemma token_context_complete:
  "distinct (map fst (ue_servers env)) \<Longrightarrow> in_scopes (tk_scopes row) p \<Longrightarrow> owner_may env now user st s z p \<Longrightarrow>
   canActOnZone (context_of env user (token_sources env now user row st)
      (narrow_grants (tk_scopes row) (ue_grants env (us_id user))) fromSession) s z p"
  unfolding token_sources_def narrow_append owner_may_def by (rule context_access(2))

subsection \<open>Who passes the guard\<close>

lemma readSession_valid:
  assumes "readSession env rq st = (Some session, st1)"
  shows "\<exists>c. rq_cookie rq = Some c \<and> ae_decrypt env ''session-cookie'' c = Some (se_id session)
      \<and> session \<in> set (as_sessions st) \<and> rq_now rq < se_expiresAt session
    \<and> as_users st1 = as_users st"
proof -
  obtain c i where c: "rq_cookie rq = Some c" "ae_decrypt env ''session-cookie'' c = Some i"
    "findValidSessionById (rq_now rq) i st = Some session" "as_users st1 = as_users st"
    using assms by (auto simp: readSession_def cookie_session_id_def touchSession_def split: option.splits if_splits)
  have "session \<in> set (as_sessions st) \<and> se_id session = i \<and> se_expiresAt session > rq_now rq"
    using find_Some_in c(3) unfolding findValidSessionById_def by fastforce
  with c show ?thesis by auto
qed

text \<open>
  What passes the gate of an account: no password to change, and a factor enrolled, unless the account needs none: it
  has no local password, it is exempted by its own flag, or neither its flag nor a role asks for one.
\<close>

definition gate_passed :: "user_row \<Rightarrow> role_slice list \<Rightarrow> bool" where
  "gate_passed user roles \<longleftrightarrow> \<not> us_mustChangePassword user
     \<and> (us_totpSecretEncrypted user \<noteq> None \<or> us_webauthnCredentials user \<noteq> []
        \<or> us_passwordHash user = None
        \<or> us_mfaRequired user = Some False
        \<or> us_mfaRequired user = None \<and> (\<forall>r \<in> set roles. \<not> rs_requiresMfa r))"

lemma gate_passed_iff:
  "gate_passed user roles \<longleftrightarrow> \<not> must_enrol (mfa_of user) roles \<and> \<not> us_mustChangePassword user"
  by (cases "us_mfaRequired user") (auto simp: gate_passed_def must_enrol_def mfa_of_def list_ex_iff)

definition by_session :: "user_env \<Rightarrow> require_options \<Rightarrow> auth_request \<Rightarrow> auth_state \<Rightarrow> auth_context \<Rightarrow> bool" where
  "by_session env opts rq st ctx \<longleftrightarrow>
     (\<exists>c session. rq_cookie rq = Some c \<and> ae_decrypt (ue_auth env) ''session-cookie'' c = Some (se_id session)
        \<and> session \<in> set (as_sessions st) \<and> rq_now rq < se_expiresAt session \<and> se_userId session = us_id (ac_user ctx)
        \<and> (\<forall>s z p. canActOnZone ctx s z p \<longrightarrow>
             may_on_zone (ue_assignments env (us_id (ac_user ctx)) @ se_derivedPermissions session)
               (ue_grants env (us_id (ac_user ctx))) (ue_servers env) s z p)
        \<and> (ro_skipComplianceGate opts \<or> gate_passed (ac_user ctx) (ue_roleMfa env (us_id (ac_user ctx)))))"

definition by_token :: "user_env \<Rightarrow> auth_request \<Rightarrow> string option \<times> string option \<Rightarrow> auth_state \<Rightarrow> auth_context \<Rightarrow> bool" where
  "by_token env rq hdrs st ctx \<longleftrightarrow>
     (\<exists>presented public row. extractPresentedToken (fst hdrs) (snd hdrs) = Some presented
        \<and> parsePresentedToken presented = Some public \<and> ue_findToken env public = Some row
        \<and> \<not> tk_revoked row \<and> (\<forall>t. tk_expiresAt row = Some t \<longrightarrow> rq_now rq < t)
        \<and> ae_verifyPassword (ue_auth env) (tk_hash row) presented \<and> tk_userId row = us_id (ac_user ctx)
        \<and> (\<forall>s z p. canActOnZone ctx s z p \<longrightarrow>
             (tk_scopes row = [] \<or> p \<in> set (tk_scopes row)) \<and> owner_may env (rq_now rq) (ac_user ctx) st s z p))"

lemma resolve_cases:
  assumes "resolvePresentedToken env now presented st = Some ctx"
  shows "\<exists>public row w. parsePresentedToken presented = Some public \<and> ue_findToken env public = Some row
    \<and> \<not> tk_revoked row \<and> \<not> (case tk_expiresAt row of Some t \<Rightarrow> t \<le> now | None \<Rightarrow> False)
    \<and> ae_verifyPassword (ue_auth env) (tk_hash row) presented \<and> findUserById (tk_userId row) st = Some w \<and> \<not> isDisabled w
    \<and> ctx = context_of env w (token_sources env now w row st) (narrow_grants (tk_scopes row) (ue_grants env (us_id w))) False"
proof -
  obtain public where p: "parsePresentedToken presented = Some public"
    using assms by (cases "parsePresentedToken presented") (simp_all add: resolvePresentedToken_def)
  obtain row where r: "ue_findToken env public = Some row"
    using assms p by (cases "ue_findToken env public") (simp_all add: resolvePresentedToken_def)
  define e where "e \<longleftrightarrow> (case tk_expiresAt row of Some t \<Rightarrow> t \<le> now | None \<Rightarrow> False)"
  define v where "v \<longleftrightarrow> ae_verifyPassword (ue_auth env) (tk_hash row) presented"
  define x where "x = (case findUserById (tk_userId row) st of None \<Rightarrow> None
    | Some user \<Rightarrow> if isDisabled user then None
        else Some (context_of env user (token_sources env now user row st) (narrow_grants (tk_scopes row) (ue_grants env (us_id user))) False))"
  have q: "(if tk_revoked row then None else if e then None else if \<not> v then None else x) = Some ctx"
    using assms unfolding resolvePresentedToken_def p r option.case e_def v_def x_def .
  have ok: "\<not> tk_revoked row" "\<not> e" "v" using q by (cases "tk_revoked row"; cases e; cases v; simp)+
  have x: "x = Some ctx" using q ok by simp
  obtain w where w: "findUserById (tk_userId row) st = Some w" using x by (cases "findUserById (tk_userId row) st") (simp_all add: x_def)
  have d: "\<not> isDisabled w" using x w by (cases "isDisabled w") (simp_all add: x_def)
  have "ctx = context_of env w (token_sources env now w row st) (narrow_grants (tk_scopes row) (ue_grants env (us_id w))) False"
    using x w d by (simp add: x_def)
  with p r ok w d show ?thesis unfolding e_def v_def by blast
qed

lemma getCurrentUser_cases:
  assumes "getCurrentUser env rq hdrs st = (Some ctx, st1)"
  shows "findUserById (us_id (ac_user ctx)) st = Some (ac_user ctx) \<and> \<not> isDisabled (ac_user ctx)
    \<and> (ac_session ctx \<longrightarrow> (\<exists>session. readSession (ue_auth env) rq st = (Some session, st1) \<and> se_userId session = us_id (ac_user ctx)
          \<and> ctx = context_of env (ac_user ctx) (ue_assignments env (us_id (ac_user ctx)) @ se_derivedPermissions session)
              (ue_grants env (us_id (ac_user ctx))) True))
    \<and> (\<not> ac_session ctx \<longrightarrow> by_token env rq hdrs st ctx)"
proof (cases "readSession (ue_auth env) rq st")
  case (Pair o' st')
  show ?thesis
  proof (cases o')
    case (Some session)
    from readSession_valid [of "ue_auth env" rq st session st'] Pair Some have u: "as_users st' = as_users st" by auto
    have gc: "getCurrentUser env rq hdrs st = (case findUserById (se_userId session) st' of None \<Rightarrow> None
        | Some user \<Rightarrow> if isDisabled user then None
            else Some (context_of env user (ue_assignments env (us_id user) @ se_derivedPermissions session)
              (ue_grants env (us_id user)) True), st')"
      unfolding getCurrentUser_def Pair Some by simp
    obtain w where w1: "findUserById (se_userId session) st' = Some w" using assms unfolding gc by (cases "findUserById (se_userId session) st'") simp_all
    have w2: "\<not> isDisabled w" using assms unfolding gc w1 by (cases "isDisabled w") simp_all
    have w3: "st1 = st'" "ctx = context_of env w (ue_assignments env (us_id w) @ se_derivedPermissions session) (ue_grants env (us_id w)) True"
      using assms w2 unfolding gc w1 by simp_all
    have w: "findUserById (se_userId session) st' = Some w" "\<not> isDisabled w" "st1 = st'" "ac_user ctx = w" "ac_session ctx"
      using w1 w2 w3(1) by (simp_all only: w3(2) context_of_sel not_False_eq_True)
    have "findUserById (se_userId session) st = Some w" using w(1) u by (simp add: findUserById_def)
    then show ?thesis using findUserById_id [OF w(1)] w w3(2) Pair Some by auto
  next
    case none: None
    from Pair none have st': "st' = st"
      by (auto simp: readSession_def split: option.splits)
    obtain presented where p: "extractPresentedToken (fst hdrs) (snd hdrs) = Some presented"
      "resolvePresentedToken env (rq_now rq) presented st = Some ctx"
    proof (cases "extractPresentedToken (fst hdrs) (snd hdrs)")
      case None
      then show ?thesis using assms Pair none by (simp add: getCurrentUser_def)
    next
      case (Some t)
      have "resolvePresentedToken env (rq_now rq) t st = Some ctx"
        using assms Pair none st' Some by (cases "t = []") (auto simp: getCurrentUser_def)
      with Some that show ?thesis by blast
    qed
    from resolve_cases [OF p(2)] obtain public row w where r: "parsePresentedToken presented = Some public" "ue_findToken env public = Some row"
      "\<not> tk_revoked row" "\<not> (case tk_expiresAt row of Some t \<Rightarrow> t \<le> rq_now rq | None \<Rightarrow> False)"
      "ae_verifyPassword (ue_auth env) (tk_hash row) presented" "findUserById (tk_userId row) st = Some w" "\<not> isDisabled w"
      "ctx = context_of env w (token_sources env (rq_now rq) w row st) (narrow_grants (tk_scopes row) (ue_grants env (us_id w))) False"
      by blast
    have w: "ac_user ctx = w" "\<not> ac_session ctx" by (simp_all add: r(8) context_of_sel)
    have "by_token env rq hdrs st ctx"
      unfolding by_token_def w using p r findUserById_id [OF r(6)] token_context_sound [of env w "rq_now rq" row st False, unfolded in_scopes_def]
      by (intro exI [of _ presented] exI [of _ public] exI [of _ row]) (auto split: option.splits)
    then show ?thesis using r(6,7) w findUserById_id [OF r(6)] by simp
  qed
qed


definition demo_user_env :: user_env where
  "demo_user_env = \<lparr>ue_auth = demo_auth, ue_findToken = (\<lambda>p. None),
     ue_assignments = (\<lambda>i. [\<lparr>as_permissions = [''zone.read''], as_scope = GlobalScope, as_scopeId = None\<rparr>]),
     ue_grants = (\<lambda>i. []), ue_servers = [], ue_recompute = (\<lambda>u s. None), ue_fallbackTtlSeconds = 60,
     ue_roleMfa = (\<lambda>i. []), ue_can = first_match_can, ue_sort = (\<lambda>xs. xs)\<rparr>"

definition demo_caller :: "(thrown + auth_context) \<times> auth_state" where
  "demo_caller = requireUser demo_user_env
     \<lparr>ro_can = Some ''zone.read'', ro_on = None, ro_anyInstance = False, ro_skipComplianceGate = False\<rparr>
     (demo_request 7 ''2''\<lparr>rq_cookie := Some ''s1''\<rparr>) (None, None) (createSession demo_session (demo_auth_state demo_account))"

lemma demo_caller_in: "case fst demo_caller of Inr ctx \<Rightarrow> ac_session ctx | Inl e \<Rightarrow> False"
  by code_simp


subsection \<open>Changing a password\<close>

lemma requireUser_users: "requireUser env opts rq hdrs st = (r, st1) \<Longrightarrow> as_users st1 = as_users st"
proof -
  assume a: "requireUser env opts rq hdrs st = (r, st1)"
  have "as_users (snd (readSession (ue_auth env) rq st)) = as_users st"
    by (simp add: readSession_def touchSession_def split: option.splits)
  moreover have "snd (getCurrentUser env rq hdrs st) = snd (readSession (ue_auth env) rq st)"
    unfolding getCurrentUser_def by (simp split: prod.splits option.splits)
  moreover have "snd (requireUser env opts rq hdrs st) = snd (getCurrentUser env rq hdrs st)"
    unfolding requireUser_def by (simp split: prod.splits option.splits)
  ultimately show ?thesis using a by simp
qed

definition new_password :: "int \<Rightarrow> string \<Rightarrow> user_row \<Rightarrow> user_row" where
  "new_password now h u = u\<lparr>us_mustChangePassword := False, us_passwordHash := Some h, us_passwordHashUpdatedAt := now\<rparr>"

lemma change_verified_effect:
  defines "res env rq user b st \<equiv> change_verified env rq user b st"
  shows "as_users (snd (res env rq user b st)) = as_users st
    \<or> (\<exists>fresh h. findUserById (us_id user) st = Some fresh \<and> us_passwordHash fresh = Some h
        \<and> ae_verifyPassword env h (cb_currentPassword b)
        \<and> as_users (snd (res env rq user b st)) =
            as_users (set_user (us_id user) (new_password (rq_now rq) (ae_hashPassword env (rq_salt rq) (cb_newPassword b))) st))"
  unfolding res_def change_verified_def
  by (auto simp: updateUser_def Let_def new_password_def split: option.splits)

text \<open>
  A password is changed only by the signed-in account itself, with its current password, and not while the
  account is the locked bootstrap administrator; no other account changes.
\<close>

lemma change_needs_current_password:
  "as_users (snd (snd (change_password_route env rq hdrs body st))) = as_users st
    \<or> (\<exists>b ctx st1 fresh h. body = Parsed b \<and> requireUser env self_service rq hdrs st = (Inr ctx, st1)
        \<and> \<not> isBootstrapAdminLocked (ae_bootstrapRo (ue_auth env)) (ae_bootstrapEmail (ue_auth env)) (Some (us_email (ac_user ctx)))
        \<and> findUserById (us_id (ac_user ctx)) st = Some fresh \<and> us_passwordHash fresh = Some h
        \<and> ae_verifyPassword (ue_auth env) h (cb_currentPassword b)
        \<and> as_users (snd (snd (change_password_route env rq hdrs body st))) =
            as_users (set_user (us_id (ac_user ctx))
              (new_password (rq_now rq) (ae_hashPassword (ue_auth env) (rq_salt rq) (cb_newPassword b))) st))"
proof -
  obtain r st1 where q: "requireUser env self_service rq hdrs st = (r, st1)" by fastforce
  note u1 = requireUser_users [OF q]
  obtain r2 st2 where c: "requireCsrf (ue_auth env) rq st1 = (r2, st2)" by fastforce
  have u2: "as_users st2 = as_users st" using requireCsrf_effect [OF c] u1 by simp
  note d = change_password_route_def q c caught_result(2)
  show ?thesis
  proof (cases "\<exists>ctx b. r = Inr ctx \<and> r2 = Inr () \<and> body = Parsed b \<and> captcha_gate (ue_auth env) rq (cb_captchaToken b) = CaptchaPassed
      \<and> \<not> isBootstrapAdminLocked (ae_bootstrapRo (ue_auth env)) (ae_bootstrapEmail (ue_auth env)) (Some (us_email (ac_user ctx)))")
    case False
    show ?thesis
    proof (cases r)
      case (Inr ctx)
      show ?thesis
      proof (cases r2)
        case (Inr un)
        have "as_users (snd (snd (change_password_route env rq hdrs body st))) = as_users st"
          using False \<open>r = Inr ctx\<close> Inr u1 u2
          by (cases body) (auto simp: d Let_def assertBootstrapAdminMutable_def change_failed_def split: captcha_verdict.splits)
        then show ?thesis ..
      qed (use Inr u1 u2 in \<open>simp add: d\<close>)
    qed (use u1 in \<open>simp add: d\<close>)
  next
    case True
    then obtain ctx b where t: "r = Inr ctx" "r2 = Inr ()" "body = Parsed b"
      "captcha_gate (ue_auth env) rq (cb_captchaToken b) = CaptchaPassed"
      "\<not> isBootstrapAdminLocked (ae_bootstrapRo (ue_auth env)) (ae_bootstrapEmail (ue_auth env)) (Some (us_email (ac_user ctx)))"
      by blast
    have e: "snd (snd (change_password_route env rq hdrs body st)) = snd (change_verified (ue_auth env) rq (ac_user ctx) b st2)"
      using t by (simp add: d assertBootstrapAdminMutable_def Let_def)
    from change_verified_effect [of "ue_auth env" rq "ac_user ctx" b st2] t q u2 show ?thesis
      unfolding e by (auto simp: findUserById_def)
  qed
qed

subsection \<open>Ending a session\<close>

text \<open>A caller can end only a session of its own; no other session goes.\<close>

lemma session_delete_own:
  assumes "session_delete_route env rq hdrs i st = (r, st')" "r_status r = 200"
  shows "\<exists>ctx st1 st2 session. requireUser env any_user rq hdrs st = (Inr ctx, st1) \<and> requireCsrf (ue_auth env) rq st1 = (Inr (), st2)
    \<and> findValidSessionById (rq_now rq) i st2 = Some session \<and> se_userId session = us_id (ac_user ctx)
    \<and> as_sessions st' = filter (\<lambda>s. se_id s \<noteq> i) (as_sessions st2)"
proof -
  obtain q st1 where q: "requireUser env any_user rq hdrs st = (q, st1)" by fastforce
  obtain c st2 where c: "requireCsrf (ue_auth env) rq st1 = (c, st2)" by fastforce
  have bad: "r_status (session_failure e) \<noteq> 200" for e
    by (auto simp: session_failure_def jsonError_def split: thrown.splits app_error.splits)
  obtain ctx where ctx: "q = Inr ctx" using assms q bad by (cases q) (auto simp: session_delete_route_def)
  have cu: "c = Inr ()" using assms q c ctx bad by (cases c) (auto simp: session_delete_route_def)
  obtain session where s: "findValidSessionById (rq_now rq) i st2 = Some session"
    using assms q c ctx cu bad by (cases "findValidSessionById (rq_now rq) i st2") (auto simp: session_delete_route_def)
  have "se_userId session = us_id (ac_user ctx)"
    using assms q c ctx cu s bad by (cases "se_userId session = us_id (ac_user ctx)") (auto simp: session_delete_route_def)
  moreover from this have "as_sessions st' = filter (\<lambda>s. se_id s \<noteq> i) (as_sessions st2)"
    using assms(1) q c ctx cu s by (auto simp: session_delete_route_def revokeSession_def)
  ultimately show ?thesis using q c ctx cu s by blast
qed

end
