(* ===== verification/PtrReconcile.thy ===== *)
theory PtrReconcile
  imports AutoPtr ZoneDiff
begin

section \<open>The fleet-wide reverse-DNS diff\<close>

text \<open>
  Models \<open>lib/dns/ptr-reconcile.ts\<close>: forward records grouped by horizon and address, each group
  judged against the PTR that exists for it, the orphaned PTRs, the order of the rows and the
  statistics.  \<open>localeCompare\<close> is a parameter (\<open>lc\<close>, and \<open>lcn\<close> with the numeric option); sorting
  with a comparison function is the stable insertion of \<open>js_sort\<close>.
\<close>

subsection \<open>Data\<close>

definition horizon_text :: "horizon \<Rightarrow> string" where
  "horizon_text h = (case h of Public \<Rightarrow> ''public'' | Internal \<Rightarrow> ''internal'')"

record forward_view =
  fv_zone :: string
  fv_server :: string
  fv_horizon :: horizon
  fv_name :: string
  fv_type :: address_type
  fv_ttl :: nat
  fv_disabled :: bool

record forward_record = forward_view +
  fv_content :: string

record reverse_ptr =
  rp_zone :: string
  rp_server :: string
  rp_horizon :: horizon
  rp_owner :: string
  rp_ttl :: nat
  rp_targets :: "string list"

record hosted_zone =
  hz_name :: string
  hz_server :: string
  hz_writable :: bool
  hz_horizon :: horizon

datatype ptr_status = StOk | Missing | Mismatch | Ambiguous | Orphan | Unhosted

record ptr_row =
  pr_id :: string
  pr_ip :: string
  pr_family :: ip_family
  pr_horizon :: horizon
  pr_owner :: string
  pr_zone :: "string option"
  pr_server :: "string option"
  pr_forward :: "forward_view list"
  pr_targets :: "string list"
  pr_ttl :: "nat option"
  pr_status :: ptr_status
  pr_suggested :: "string option"
  pr_canWrite :: bool

record ptr_stats =
  n_ok :: nat
  n_missing :: nat
  n_mismatch :: nat
  n_ambiguous :: nat
  n_orphan :: nat
  n_unhosted :: nat

record reconcile_input =
  in_forward :: "forward_record list"
  in_reverse :: "reverse_ptr list"
  in_hosted :: "hosted_zone list"
  in_canWrite :: "string \<Rightarrow> string \<Rightarrow> bool"

subsection \<open>Hosts and keys\<close>

definition hostOf :: "string \<Rightarrow> hosted_zone list \<Rightarrow> horizon \<Rightarrow> hosted_zone option" where
  "hostOf zone hosted h =
     (let copies = filter (\<lambda>z. hz_name z = zone \<and> hz_horizon z = h) hosted in
      case find hz_writable copies of
        Some z \<Rightarrow> Some z
      | None \<Rightarrow> (case copies of [] \<Rightarrow> None | z # _ \<Rightarrow> Some z))"

definition hostedByHorizon :: "reconcile_input \<Rightarrow> horizon \<Rightarrow> string list" where
  "hostedByHorizon input h =
     jset_of (map hz_name (filter (\<lambda>z. hz_horizon z = h) (in_hosted input)))"

definition bar_key :: "string \<Rightarrow> string \<Rightarrow> string \<Rightarrow> string" where
  "bar_key a b c = a @ ''|'' @ b @ ''|'' @ c"

definition reverseByKey :: "reverse_ptr list \<Rightarrow> (string \<times> reverse_ptr) list" where
  "reverseByKey rs =
     foldl (\<lambda>m r. AList.update (bar_key (rp_server r) (rp_zone r) (js_lower (rp_owner r))) r m) [] rs"

subsection \<open>Groups of forward records\<close>

record addr_group =
  g_ip :: string
  g_family :: ip_family
  g_horizon :: horizon
  g_records :: "forward_record list"

definition group_key :: "horizon \<Rightarrow> parsed_ip \<Rightarrow> string" where
  "group_key h p = horizon_text h @ '':'' @ (case ip_family p of V4 \<Rightarrow> ''4'' | V6 \<Rightarrow> ''6'') @ '':''
     @ ip_canonical p"

definition group_step :: "(string \<times> addr_group) list \<Rightarrow> forward_record \<Rightarrow> (string \<times> addr_group) list" where
  "group_step groups rec =
     (case parseIp (fv_content rec) of
        None \<Rightarrow> groups
      | Some p \<Rightarrow>
          let key = group_key (fv_horizon rec) p;
              g = (case map_of groups key of
                     Some g \<Rightarrow> g
                   | None \<Rightarrow> \<lparr>g_ip = js_trim (fv_content rec), g_family = ip_family p,
                              g_horizon = fv_horizon rec, g_records = []\<rparr>)
          in AList.update key (g\<lparr>g_records := g_records g @ [rec]\<rparr>) groups)"

definition forward_groups :: "forward_record list \<Rightarrow> (string \<times> addr_group) list" where
  "forward_groups recs = foldl group_step [] recs"

subsection \<open>The verdict on one group\<close>

definition group_names :: "addr_group \<Rightarrow> string list" where
  "group_names g = sort (jset_of (map (\<lambda>r. js_lower (fv_name r)) (g_records g)))"

definition verdict :: "bool \<Rightarrow> string list \<Rightarrow> string list \<Rightarrow> ptr_status \<times> string option" where
  "verdict hosted names targets =
     (if \<not> hosted then (Unhosted, None)
      else if length targets = 1 \<and> targets ! 0 \<in> set names then (StOk, Some (targets ! 0))
      else if length names > 1 then
        (Ambiguous, case find (\<lambda>t. t \<in> set names) targets of
                      Some t \<Rightarrow> Some t | None \<Rightarrow> Some (names ! 0))
      else (if length targets = 0 then Missing else Mismatch, Some (names ! 0)))"

text \<open>The match, its host and the PTR RRset that exists there.\<close>

definition group_match :: "reconcile_input \<Rightarrow> addr_group \<Rightarrow> reverse_zone_match option" where
  "group_match input g = findReverseZone (g_ip g) (hostedByHorizon input (g_horizon g))"

definition group_host :: "reconcile_input \<Rightarrow> addr_group \<Rightarrow> hosted_zone option" where
  "group_host input g =
     (case group_match input g of
        None \<Rightarrow> None | Some m \<Rightarrow> hostOf (m_zone m) (in_hosted input) (g_horizon g))"

definition group_current :: "reconcile_input \<Rightarrow> addr_group \<Rightarrow> reverse_ptr option" where
  "group_current input g =
     (case (group_match input g, group_host input g) of
        (Some m, Some h) \<Rightarrow> map_of (reverseByKey (in_reverse input))
                              (bar_key (hz_server h) (m_zone m) (js_lower (m_owner m)))
      | _ \<Rightarrow> None)"

definition view_compare :: "(string \<Rightarrow> string \<Rightarrow> int) \<Rightarrow> forward_view \<Rightarrow> forward_view \<Rightarrow> int" where
  "view_compare lc a b =
     (if lc (fv_name a) (fv_name b) \<noteq> 0 then lc (fv_name a) (fv_name b) else lc (fv_zone a) (fv_zone b))"

definition group_row :: "(string \<Rightarrow> string \<Rightarrow> int) \<Rightarrow> reconcile_input \<Rightarrow> string \<times> addr_group \<Rightarrow> ptr_row" where
  "group_row lc input kg =
     (let key = fst kg; g = snd kg;
          match = group_match input g; host = group_host input g; current = group_current input g;
          names = group_names g;
          targets = (case current of Some c \<Rightarrow> map js_lower (rp_targets c) | None \<Rightarrow> []);
          v = verdict (match \<noteq> None \<and> host \<noteq> None) names targets
      in \<lparr>pr_id = key, pr_ip = g_ip g, pr_family = g_family g, pr_horizon = g_horizon g,
          pr_owner = (case match of Some m \<Rightarrow> m_owner m | None \<Rightarrow> []),
          pr_zone = map_option m_zone match,
          pr_server = map_option hz_server host,
          pr_forward = js_sort (view_compare lc) (map forward_view.truncate (g_records g)),
          pr_targets = (case current of Some c \<Rightarrow> rp_targets c | None \<Rightarrow> []),
          pr_ttl = map_option rp_ttl current,
          pr_status = fst v, pr_suggested = snd v,
          pr_canWrite = (case (match, host) of
             (Some m, Some h) \<Rightarrow> hz_writable h \<and> in_canWrite input (m_zone m) (hz_server h)
           | _ \<Rightarrow> False)\<rparr>)"

definition claimedOwners :: "reconcile_input \<Rightarrow> (string \<times> addr_group) list \<Rightarrow> string list" where
  "claimedOwners input groups =
     foldl (\<lambda>s kg. case group_match input (snd kg) of
              None \<Rightarrow> s
            | Some m \<Rightarrow> jset_add (bar_key (horizon_text (g_horizon (snd kg))) (m_zone m)
                                    (js_lower (m_owner m))) s) [] groups"

subsection \<open>Orphans, order and statistics\<close>

definition orphan_rows :: "reconcile_input \<Rightarrow> string list \<Rightarrow> reverse_ptr \<Rightarrow> ptr_row list" where
  "orphan_rows input claimed r =
     (if length (rp_targets r) = 0 then []
      else if bar_key (horizon_text (rp_horizon r)) (rp_zone r) (js_lower (rp_owner r)) \<in> set claimed
      then []
      else case ipFromReverseOwner (rp_owner r) of
        None \<Rightarrow> []
      | Some ip \<Rightarrow>
          let host = hostOf (rp_zone r) (in_hosted input) (rp_horizon r) in
          [\<lparr>pr_id = ''orphan:'' @ bar_key (rp_server r) (rp_zone r) (js_lower (rp_owner r)),
            pr_ip = ip,
            pr_family = (case parseIp ip of Some p \<Rightarrow> ip_family p | None \<Rightarrow> V4),
            pr_horizon = rp_horizon r, pr_owner = js_lower (rp_owner r),
            pr_zone = Some (rp_zone r),
            pr_server = Some (case host of Some h \<Rightarrow> hz_server h | None \<Rightarrow> rp_server r),
            pr_forward = [], pr_targets = rp_targets r, pr_ttl = Some (rp_ttl r),
            pr_status = Orphan, pr_suggested = None,
            pr_canWrite = (case host of
               Some h \<Rightarrow> hz_writable h \<and> in_canWrite input (rp_zone r) (hz_server h)
             | None \<Rightarrow> False)\<rparr>])"

definition status_order :: "ptr_status \<Rightarrow> int" where
  "status_order s = (case s of Mismatch \<Rightarrow> 0 | Missing \<Rightarrow> 1 | Ambiguous \<Rightarrow> 2 | Orphan \<Rightarrow> 3
                             | Unhosted \<Rightarrow> 4 | StOk \<Rightarrow> 5)"

definition row_compare :: "(string \<Rightarrow> string \<Rightarrow> int) \<Rightarrow> ptr_row \<Rightarrow> ptr_row \<Rightarrow> int" where
  "row_compare lcn a b =
     (let d = status_order (pr_status a) - status_order (pr_status b) in
      if d \<noteq> 0 then d else lcn (pr_ip a) (pr_ip b))"

definition count_status :: "ptr_stats \<Rightarrow> ptr_row \<Rightarrow> ptr_stats" where
  "count_status s row =
     (case pr_status row of
        StOk \<Rightarrow> s\<lparr>n_ok := n_ok s + 1\<rparr>
      | Missing \<Rightarrow> s\<lparr>n_missing := n_missing s + 1\<rparr>
      | Mismatch \<Rightarrow> s\<lparr>n_mismatch := n_mismatch s + 1\<rparr>
      | Ambiguous \<Rightarrow> s\<lparr>n_ambiguous := n_ambiguous s + 1\<rparr>
      | Orphan \<Rightarrow> s\<lparr>n_orphan := n_orphan s + 1\<rparr>
      | Unhosted \<Rightarrow> s\<lparr>n_unhosted := n_unhosted s + 1\<rparr>)"

definition reconcilePtrs :: "(string \<Rightarrow> string \<Rightarrow> int) \<Rightarrow> (string \<Rightarrow> string \<Rightarrow> int) \<Rightarrow> reconcile_input \<Rightarrow>
    ptr_row list \<times> ptr_stats" where
  "reconcilePtrs lc lcn input =
     (let groups = forward_groups (in_forward input);
          claimed = claimedOwners input groups;
          rows = js_sort (row_compare lcn)
            (map (group_row lc input) groups
             @ concat (map (orphan_rows input claimed) (in_reverse input)));
          stats = foldl count_status \<lparr>n_ok = 0, n_missing = 0, n_mismatch = 0, n_ambiguous = 0,
                    n_orphan = 0, n_unhosted = 0\<rparr> rows
      in (rows, stats))"

subsection \<open>Groups partition the valid forward records\<close>

declare map_of_eq_Some_iff [simp del]

lemma group_key_inject:
  "group_key h p = group_key h' p' \<longleftrightarrow> h = h' \<and> (p :: parsed_ip) = p'"
proof -
  have "horizon_text Public = ''public''" "horizon_text Internal = ''internal''"
    by (simp_all add: horizon_text_def)
  then show ?thesis
    by (cases h; cases h'; cases "ip_family p"; cases "ip_family p'") (auto simp: group_key_def)
qed

definition group_ok :: "string \<times> addr_group \<Rightarrow> bool" where
  "group_ok kg \<longleftrightarrow> (\<exists>p. g_records (snd kg) \<noteq> [] \<and> fst kg = group_key (g_horizon (snd kg)) p
     \<and> parseIp (g_ip (snd kg)) = Some p \<and> g_family (snd kg) = ip_family p
     \<and> (\<forall>r \<in> set (g_records (snd kg)).
          fv_horizon r = g_horizon (snd kg) \<and> parseIp (fv_content r) = Some p))"

definition rec_group_key :: "forward_record \<Rightarrow> string option" where
  "rec_group_key r = map_option (group_key (fv_horizon r)) (parseIp (fv_content r))"

definition groups_ok :: "(string \<times> addr_group) list \<Rightarrow> forward_record set \<Rightarrow> bool" where
  "groups_ok gs seen \<longleftrightarrow> distinct (map fst gs) \<and> (\<forall>kg \<in> set gs. group_ok kg)
     \<and> (\<forall>r \<in> seen. \<forall>k. rec_group_key r = Some k \<longrightarrow>
          (\<exists>g. map_of gs k = Some g \<and> r \<in> set (g_records g)))"

lemma parseIp_js_trim [simp]: "parseIp (js_trim c) = parseIp c"
  by (rule parseIp_trim) simp

lemma group_step_ok:
  assumes ok: "groups_ok gs seen"
  shows "groups_ok (group_step gs rec) (insert rec seen)"
proof (cases "parseIp (fv_content rec)")
  case None
  then show ?thesis using ok by (simp add: group_step_def groups_ok_def rec_group_key_def del: map_of_eq_Some_iff)
next
  case (Some p)
  let ?k = "group_key (fv_horizon rec) p"
  define g where "g = (case map_of gs ?k of Some g \<Rightarrow> g
    | None \<Rightarrow> \<lparr>g_ip = js_trim (fv_content rec), g_family = ip_family p,
               g_horizon = fv_horizon rec, g_records = []\<rparr>)"
  let ?g = "g\<lparr>g_records := g_records g @ [rec]\<rparr>"
  have step: "group_step gs rec = AList.update ?k ?g gs"
    by (simp add: group_step_def Some g_def Let_def)
  have d: "distinct (map fst gs)" and each: "\<forall>kg \<in> set gs. group_ok kg"
    and seen: "\<forall>r \<in> seen. \<forall>k. rec_group_key r = Some k \<longrightarrow>
          (\<exists>g. map_of gs k = Some g \<and> r \<in> set (g_records g))"
    using ok by (simp_all add: groups_ok_def)
  have new: "group_ok (?k, ?g)"
  proof (cases "map_of gs ?k")
    case None
    then show ?thesis by (simp add: group_ok_def g_def Some)
  next
    case (Some g0)
    then have "group_ok (?k, g0)" using each map_of_SomeD by fastforce
    then show ?thesis
      using \<open>parseIp (fv_content rec) = Some p\<close> Some
      by (auto simp: group_ok_def g_def group_key_inject)
  qed
  have "\<forall>kg \<in> set (AList.update ?k ?g gs). group_ok kg"
    using set_update_subset [of ?k ?g gs] each new by blast
  moreover have "\<exists>g'. map_of (AList.update ?k ?g gs) k = Some g' \<and> r \<in> set (g_records g')"
    if r: "r \<in> insert rec seen" "rec_group_key r = Some k" for r k
  proof (cases "r = rec")
    case True
    with r(2) Some have "k = ?k" by (simp add: rec_group_key_def)
    with True show ?thesis by (simp add: map_of_update)
  next
    case False
    with r seen obtain g0 where g0: "map_of gs k = Some g0" "r \<in> set (g_records g0)" by blast
    show ?thesis
    proof (cases "k = ?k")
      case True
      with g0 have "g = g0" by (simp add: g_def)
      with True g0 show ?thesis by (simp add: map_of_update)
    next
      case False
      with g0 show ?thesis by (simp add: map_of_update)
    qed
  qed
  ultimately show ?thesis
    unfolding groups_ok_def step using distinct_update [OF d] by blast
qed

lemma forward_groups_ok: "groups_ok (forward_groups recs) (set recs)"
proof -
  have "groups_ok (foldl group_step gs recs) (seen \<union> set recs)" if "groups_ok gs seen" for gs seen
    using that
  proof (induction recs arbitrary: gs seen)
    case (Cons r recs)
    show ?case using Cons.IH [OF group_step_ok [OF Cons.prems, of r]] by simp
  qed simp
  from this [of "[]" "{}"] show ?thesis by (simp add: forward_groups_def groups_ok_def del: map_of_eq_Some_iff)
qed

lemma group_step_Some:
  assumes "parseIp (fv_content rec) = Some p"
  shows "\<exists>g. group_step gs rec = AList.update (group_key (fv_horizon rec) p)
            (g\<lparr>g_records := g_records g @ [rec]\<rparr>) gs
     \<and> (map_of gs (group_key (fv_horizon rec) p) = Some g \<or> g_records g = [])"
  unfolding group_step_def assms option.case Let_def
  by (rule exI, rule conjI [OF refl]) (simp split: option.split)

lemma group_step_subset:
  assumes each: "\<forall>kg \<in> set gs. set (g_records (snd kg)) \<subseteq> seen"
  shows "\<forall>kg \<in> set (group_step gs rec). set (g_records (snd kg)) \<subseteq> insert rec seen"
proof (cases "parseIp (fv_content rec)")
  case None
  then show ?thesis using each by (auto simp: group_step_def)
next
  case (Some p)
  from group_step_Some [OF this, of gs] obtain g where
    step: "group_step gs rec = AList.update (group_key (fv_horizon rec) p)
            (g\<lparr>g_records := g_records g @ [rec]\<rparr>) gs"
    and g: "map_of gs (group_key (fv_horizon rec) p) = Some g \<or> g_records g = []" by blast
  have "set (g_records g) \<subseteq> seen" using g each map_of_SomeD [of gs _ g] by fastforce
  then have "set (g_records (g\<lparr>g_records := g_records g @ [rec]\<rparr>)) \<subseteq> insert rec seen" by auto
  then show ?thesis
    unfolding step using each set_update_subset by fastforce
qed

lemma forward_groups_subset:
  assumes "kg \<in> set (forward_groups recs)"
  shows "set (g_records (snd kg)) \<subseteq> set recs"
proof -
  have "\<forall>kg \<in> set (foldl group_step gs recs). set (g_records (snd kg)) \<subseteq> seen \<union> set recs"
    if "\<forall>kg \<in> set gs. set (g_records (snd kg)) \<subseteq> seen" for gs seen
    using that
  proof (induction recs arbitrary: gs seen)
    case (Cons r recs)
    show ?case using Cons.IH [OF group_step_subset [OF Cons.prems, of r]] by simp
  qed simp
  from this [of "[]" "{}"] assms show ?thesis by (simp add: forward_groups_def)
qed

subsection \<open>Rows\<close>

lemma group_row_sel [simp]:
  "pr_id (group_row lc input kg) = fst kg"
  "pr_ip (group_row lc input kg) = g_ip (snd kg)"
  "pr_horizon (group_row lc input kg) = g_horizon (snd kg)"
  "set (pr_forward (group_row lc input kg)) = forward_view.truncate ` set (g_records (snd kg))"
  by (simp_all add: group_row_def Let_def)

lemma verdict_not_orphan: "fst (verdict hosted names targets) \<noteq> Orphan"
  by (simp add: verdict_def)

lemma group_row_not_orphan [simp]: "pr_status (group_row lc input kg) \<noteq> Orphan"
  by (simp add: group_row_def Let_def verdict_not_orphan)

lemma orphan_rows_status: "row \<in> set (orphan_rows input claimed r) \<Longrightarrow> pr_status row = Orphan"
  by (auto simp: orphan_rows_def Let_def split: if_splits option.splits)

definition all_rows :: "(string \<Rightarrow> string \<Rightarrow> int) \<Rightarrow> reconcile_input \<Rightarrow> ptr_row list" where
  "all_rows lc input =
     map (group_row lc input) (forward_groups (in_forward input))
     @ concat (map (orphan_rows input (claimedOwners input (forward_groups (in_forward input))))
                (in_reverse input))"

lemma reconcile_rows: "mset (fst (reconcilePtrs lc lcn input)) = mset (all_rows lc input)"
  by (simp add: reconcilePtrs_def Let_def all_rows_def)

lemma reconcile_set: "set (fst (reconcilePtrs lc lcn input)) = set (all_rows lc input)"
  by (metis reconcile_rows set_mset_mset)

lemma address_rows:
  "filter (\<lambda>row. pr_status row \<noteq> Orphan) (all_rows lc input)
     = map (group_row lc input) (forward_groups (in_forward input))"
proof -
  have "filter (\<lambda>row. pr_status row \<noteq> Orphan)
      (concat (map (orphan_rows input claimed) rs)) = []" for claimed rs
    by (auto simp: filter_empty_conv dest: orphan_rows_status)
  then show ?thesis by (simp add: all_rows_def filter_id_conv)
qed

lemma rows_distinct_ids:
  "distinct (map pr_id (filter (\<lambda>row. pr_status row \<noteq> Orphan) (fst (reconcilePtrs lc lcn input))))"
proof -
  have "mset (map pr_id (filter (\<lambda>row. pr_status row \<noteq> Orphan) (fst (reconcilePtrs lc lcn input))))
      = mset (map fst (forward_groups (in_forward input)))"
  proof -
    have "mset (filter (\<lambda>row. pr_status row \<noteq> Orphan) (fst (reconcilePtrs lc lcn input)))
        = mset (map (group_row lc input) (forward_groups (in_forward input)))"
      by (simp only: mset_filter reconcile_rows flip: address_rows)
    then have "mset (map pr_id (filter (\<lambda>row. pr_status row \<noteq> Orphan) (fst (reconcilePtrs lc lcn input))))
        = mset (map pr_id (map (group_row lc input) (forward_groups (in_forward input))))"
      by (simp only: mset_map)
    then show ?thesis by (simp add: comp_def)
  qed
  moreover have "distinct (map fst (forward_groups (in_forward input)))"
    using forward_groups_ok by (simp add: groups_ok_def)
  ultimately show ?thesis by (metis mset_eq_imp_distinct_iff)
qed

lemma row_cases:
  assumes "row \<in> set (fst (reconcilePtrs lc lcn input))"
  obtains (group) kg where "kg \<in> set (forward_groups (in_forward input))" "row = group_row lc input kg"
  | (orphan) r where "r \<in> set (in_reverse input)" "pr_status row = Orphan"
      "row \<in> set (orphan_rows input (claimedOwners input (forward_groups (in_forward input))) r)"
  using assms unfolding reconcile_set all_rows_def by (auto dest: orphan_rows_status)

lemma orphan_row_forward: "row \<in> set (orphan_rows input claimed r) \<Longrightarrow> pr_forward row = []"
  by (auto simp: orphan_rows_def Let_def split: if_splits option.splits)

lemma forward_record_has_row:
  assumes "r \<in> set (in_forward input)" "parseIp (fv_content r) = Some p"
  shows "\<exists>row \<in> set (fst (reconcilePtrs lc lcn input)).
        pr_id row = group_key (fv_horizon r) p \<and> pr_horizon row = fv_horizon r
        \<and> parseIp (pr_ip row) = Some p \<and> forward_view.truncate r \<in> set (pr_forward row)"
proof -
  let ?k = "group_key (fv_horizon r) p"
  have "rec_group_key r = Some ?k" using assms(2) by (simp add: rec_group_key_def)
  then obtain g where g: "map_of (forward_groups (in_forward input)) ?k = Some g" "r \<in> set (g_records g)"
    using forward_groups_ok [of "in_forward input"] assms(1) unfolding groups_ok_def by blast
  then have mem: "(?k, g) \<in> set (forward_groups (in_forward input))" by (simp add: map_of_SomeD)
  then have "group_ok (?k, g)" using forward_groups_ok [of "in_forward input"] by (simp add: groups_ok_def)
  then have "g_horizon g = fv_horizon r" "parseIp (g_ip g) = Some p"
    using g(2) assms(2) by (auto simp: group_ok_def)
  moreover have "group_row lc input (?k, g) \<in> set (fst (reconcilePtrs lc lcn input))"
    using mem unfolding reconcile_set all_rows_def by simp
  ultimately show ?thesis using g(2) by (intro bexI [of _ "group_row lc input (?k, g)"]) simp_all
qed

lemma row_forward_sound:
  assumes "row \<in> set (fst (reconcilePtrs lc lcn input))" "v \<in> set (pr_forward row)"
  shows "\<exists>r \<in> set (in_forward input). v = forward_view.truncate r \<and> fv_horizon r = pr_horizon row
       \<and> parseIp (fv_content r) = parseIp (pr_ip row)"
  using assms(1)
proof (cases rule: row_cases)
  case (group kg)
  then obtain r where r: "r \<in> set (g_records (snd kg))" "v = forward_view.truncate r"
    using assms(2) by auto
  have "group_ok kg" using forward_groups_ok group(1) by (simp add: groups_ok_def)
  with r have "fv_horizon r = pr_horizon row \<and> parseIp (fv_content r) = parseIp (pr_ip row)"
    by (auto simp: group_ok_def group(2))
  moreover have "r \<in> set (in_forward input)" using forward_groups_subset [OF group(1)] r(1) by blast
  ultimately show ?thesis using r(2) by blast
next
  case (orphan r)
  then show ?thesis using assms(2) orphan_row_forward by fastforce
qed

text \<open>
  Every forward record with a valid address appears in the row of its address and horizon,
  there is at most one such row per address and horizon, and every record shown in a row has that
  row's horizon and address: the two sides of a split horizon are never mixed.
\<close>

theorem reconcilePtrs_partitions_forward:
  "distinct (map pr_id (filter (\<lambda>row. pr_status row \<noteq> Orphan) (fst (reconcilePtrs lc lcn input))))
   \<and> (\<forall>r \<in> set (in_forward input). \<forall>p. parseIp (fv_content r) = Some p \<longrightarrow>
     (\<exists>row \<in> set (fst (reconcilePtrs lc lcn input)).
        pr_id row = group_key (fv_horizon r) p \<and> pr_horizon row = fv_horizon r
        \<and> parseIp (pr_ip row) = Some p \<and> forward_view.truncate r \<in> set (pr_forward row)))
   \<and> (\<forall>row \<in> set (fst (reconcilePtrs lc lcn input)). \<forall>v \<in> set (pr_forward row).
     \<exists>r \<in> set (in_forward input). v = forward_view.truncate r \<and> fv_horizon r = pr_horizon row
       \<and> parseIp (fv_content r) = parseIp (pr_ip row))"
  using rows_distinct_ids forward_record_has_row row_forward_sound by blast

lemma hostOf_Some:
  "hostOf zone hosted h = Some z \<Longrightarrow> z \<in> set hosted \<and> hz_name z = zone \<and> hz_horizon z = h"
  by (auto simp: hostOf_def Let_def filter_eq_Cons_iff dest!: find_SomeD split: option.splits list.splits)

lemma group_host_Some:
  "group_host input g = Some z \<Longrightarrow> \<exists>m. group_match input g = Some m \<and> z \<in> set (in_hosted input)
     \<and> hz_name z = m_zone m \<and> hz_horizon z = g_horizon g"
  by (auto simp: group_host_def dest: hostOf_Some split: option.splits)

lemma row_write:
  assumes "row \<in> set (fst (reconcilePtrs lc lcn input))" "pr_canWrite row"
  shows "\<exists>z \<in> set (in_hosted input). pr_zone row = Some (hz_name z) \<and> pr_server row = Some (hz_server z)
       \<and> hz_horizon z = pr_horizon row \<and> hz_writable z \<and> in_canWrite input (hz_name z) (hz_server z)"
  using assms(1)
proof (cases rule: row_cases)
  case (group kg)
  with assms(2) obtain m z where "group_match input (snd kg) = Some m" "group_host input (snd kg) = Some z"
    "hz_writable z" "in_canWrite input (m_zone m) (hz_server z)"
    by (auto simp: group_row_def Let_def split: option.splits)
  with group_host_Some show ?thesis
    by (intro bexI [of _ z]) (fastforce simp: group(2) group_row_def Let_def)+
next
  case (orphan r)
  with assms(2) obtain z where z: "hostOf (rp_zone r) (in_hosted input) (rp_horizon r) = Some z"
    "pr_zone row = Some (rp_zone r)" "pr_server row = Some (hz_server z)" "pr_horizon row = rp_horizon r"
    "hz_writable z" "in_canWrite input (rp_zone r) (hz_server z)"
    by (auto simp: orphan_rows_def Let_def split: if_splits option.splits)
  with hostOf_Some [OF z(1)] show ?thesis by (intro bexI [of _ z]) auto
qed

text \<open>
  C32. A row offers a write only on a writable backend that hosts the row's reverse zone in the
  row's own horizon and on which the caller may write it.
\<close>

theorem reconcilePtrs_write_safe:
  assumes "row \<in> set (fst (reconcilePtrs lc lcn input))" "pr_canWrite row"
  shows "\<exists>z \<in> set (in_hosted input). pr_zone row = Some (hz_name z) \<and> pr_server row = Some (hz_server z)
       \<and> hz_horizon z = pr_horizon row \<and> hz_writable z \<and> in_canWrite input (hz_name z) (hz_server z)"
  by (rule row_write [OF assms])

subsection \<open>Statuses and statistics\<close>

lemma sort_jset_Nil [simp]: "sort (jset_of xs) = [] \<longleftrightarrow> xs = []"
  by (metis set_empty set_jset_of set_sort)

lemma set_group_names: "set (group_names g) = js_lower ` fv_name ` set (g_records g)"
  by (auto simp: group_names_def)

lemma group_names_ne: "g_records g \<noteq> [] \<Longrightarrow> group_names g \<noteq> []"
  by (simp add: group_names_def)

lemma verdict_cases:
  assumes "names \<noteq> []" "verdict hosted names targets = (s, sug)"
  obtains (unhosted) "\<not> hosted" "s = Unhosted" "sug = None"
  | (ok) t where "hosted" "targets = [t]" "t \<in> set names" "s = StOk" "sug = Some t"
  | (many) t where "hosted" "\<not> (\<exists>t. targets = [t] \<and> t \<in> set names)" "1 < length names"
      "s = Ambiguous" "t \<in> set names" "sug = Some t"
  | (one) "hosted" "\<not> (\<exists>t. targets = [t] \<and> t \<in> set names)" "length names = 1"
      "s = (if targets = [] then Missing else Mismatch)" "sug = Some (names ! 0)" "names ! 0 \<in> set names"
proof -
  have four: "length targets = 1 \<and> targets ! 0 \<in> set names \<longleftrightarrow> (\<exists>t. targets = [t] \<and> t \<in> set names)"
    by (auto simp: length_Suc_conv)
  have n0: "names ! 0 \<in> set names" using assms(1) by simp
  note v = assms(2) [unfolded verdict_def four]
  show thesis
  proof (cases "hosted")
    case False
    then show thesis using v unhosted by simp
  next
    case hosted: True
    show thesis
    proof (cases "\<exists>t. targets = [t] \<and> t \<in> set names")
      case True
      then show thesis using v hosted ok by auto
    next
      case no: False
      show thesis
      proof (cases "1 < length names")
        case True
        have "\<exists>t. t \<in> set names \<and> (case find (\<lambda>t. t \<in> set names) targets of
            Some t \<Rightarrow> Some t | None \<Rightarrow> Some (names ! 0)) = Some t"
          using n0 by (cases "find (\<lambda>t. t \<in> set names) targets") (auto dest: find_SomeD)
        with v hosted no True many show thesis by auto
      next
        case False
        with assms(1) have "length names = 1" by (cases names) auto
        with v hosted no n0 one show thesis by simp
      qed
    qed
  qed
qed

text \<open>
  The verdict on an address, from the names that claim it and the targets of its PTR: it is
  unhosted exactly when no hosted reverse zone takes it, ok exactly when the PTR has one target
  and that target is one of the names, missing exactly when one name claims it and there is no
  PTR; the suggested target, when the address is hosted, is always one of the names.
\<close>

theorem verdict_correct:
  assumes "names \<noteq> []" "verdict hosted names targets = (s, sug)"
  shows "(s = Unhosted \<longleftrightarrow> \<not> hosted)
    \<and> (s = StOk \<longleftrightarrow> hosted \<and> (\<exists>t. targets = [t] \<and> t \<in> set names))
    \<and> (s = Missing \<longleftrightarrow> hosted \<and> length names = 1 \<and> targets = [])
    \<and> (if hosted then \<exists>t \<in> set names. sug = Some t else sug = None)"
  using assms by (cases rule: verdict_cases) auto

theorem verdict_correct_witness:
  "fst (verdict True [''a.example.'', ''b.example.''] [''b.example.'']) = StOk"
proof -
  obtain s sug where v: "verdict True [''a.example.'', ''b.example.''] [''b.example.''] = (s, sug)"
    by (cases "verdict True [''a.example.'', ''b.example.''] [''b.example.'']")
  from verdict_correct [OF _ v] show ?thesis by (simp add: v)
qed

text \<open>The example of the witnesses: one address known under one name, no PTR yet.\<close>

definition demo_input :: reconcile_input where
  "demo_input = \<lparr>in_forward = [\<lparr>fv_zone = ''example.'', fv_server = ''s1'', fv_horizon = Public,
       fv_name = ''www.example.'', fv_type = TypeA, fv_ttl = 60, fv_disabled = False,
       fv_content = ''192.0.2.1''\<rparr>],
     in_reverse = [],
     in_hosted = [\<lparr>hz_name = ''2.0.192.in-addr.arpa.'', hz_server = ''s2'', hz_writable = True,
       hz_horizon = Public\<rparr>],
     in_canWrite = (\<lambda>_ _. True)\<rparr>"

lemma demo_rows:
  "map pr_canWrite (fst (reconcilePtrs (\<lambda>_ _. 0) (\<lambda>_ _. 0) demo_input)) = [True]"
  by code_simp

theorem reconcilePtrs_write_safe_witness:
  "\<exists>row \<in> set (fst (reconcilePtrs (\<lambda>_ _. 0) (\<lambda>_ _. 0) demo_input)).
     \<exists>z \<in> set (in_hosted demo_input). pr_server row = Some (hz_server z) \<and> hz_writable z"
proof -
  obtain row where "row \<in> set (fst (reconcilePtrs (\<lambda>_ _. 0) (\<lambda>_ _. 0) demo_input))" "pr_canWrite row"
    using demo_rows by (auto simp: map_eq_Cons_conv)
  with reconcilePtrs_write_safe [of row "\<lambda>_ _. 0" "\<lambda>_ _. 0" demo_input] show ?thesis by blast
qed

theorem reconcilePtrs_partitions_forward_witness:
  "\<exists>row \<in> set (fst (reconcilePtrs (\<lambda>_ _. 0) (\<lambda>_ _. 0) demo_input)). pr_horizon row = Public"
proof -
  let ?r = "hd (in_forward demo_input)"
  have r: "?r \<in> set (in_forward demo_input)" by (simp add: demo_input_def)
  have p: "parseIp (fv_content ?r) = Some \<lparr>ip_family = V4, ip_canonical = ''192.0.2.1''\<rparr>"
    by (simp add: demo_input_def) code_simp
  have h: "fv_horizon ?r = Public" by (simp add: demo_input_def)
  from reconcilePtrs_partitions_forward [of "\<lambda>_ _. 0" "\<lambda>_ _. 0" demo_input] r p h
  show ?thesis by metis
qed

text \<open>The counters of the summary are the numbers of rows of each status.\<close>

lemma count_fold:
  "foldl count_status s rows =
     \<lparr>n_ok = n_ok s + length (filter (\<lambda>r. pr_status r = StOk) rows),
      n_missing = n_missing s + length (filter (\<lambda>r. pr_status r = Missing) rows),
      n_mismatch = n_mismatch s + length (filter (\<lambda>r. pr_status r = Mismatch) rows),
      n_ambiguous = n_ambiguous s + length (filter (\<lambda>r. pr_status r = Ambiguous) rows),
      n_orphan = n_orphan s + length (filter (\<lambda>r. pr_status r = Orphan) rows),
      n_unhosted = n_unhosted s + length (filter (\<lambda>r. pr_status r = Unhosted) rows)\<rparr>"
proof (induction rows arbitrary: s)
  case (Cons r rows)
  have step: "foldl count_status s (r # rows) = foldl count_status (count_status s r) rows" by simp
  show ?case
    unfolding step Cons.IH by (cases "pr_status r") (simp_all add: count_status_def)
qed simp

lemma reconcile_stats:
  "snd (reconcilePtrs lc lcn input) = foldl count_status \<lparr>n_ok = 0, n_missing = 0, n_mismatch = 0,
     n_ambiguous = 0, n_orphan = 0, n_unhosted = 0\<rparr> (fst (reconcilePtrs lc lcn input))"
  by (simp add: reconcilePtrs_def Let_def)

end
