(* ===== verification/Serials.thy ===== *)
theory Serials
  imports ZoneSettings ZoneDiff "HOL-Library.Word"
begin

section \<open>SOA serials: dates, mirrors and DNSSEC plans\<close>

text \<open>
  Models \<open>lib/dns/soa-serial.ts\<close>, \<open>lib/pdns/serial-sync.ts\<close> and \<open>lib/pdns/dnssec-plan.ts\<close>.
  A JavaScript number that the code only uses as an integer is an \<open>int\<close>; the clock is a
  parameter.  \<open>Number(s)\<close> is \<open>js_integer\<close>: the value of the literal when it is an integer
  (\<open>None\<close> stands for NaN, the infinities and values with a fraction, none of which passes
  \<open>Number.isInteger\<close>); it is exact, where JavaScript rounds values beyond 2^53.
\<close>

subsection \<open>soa-serial.ts\<close>

definition leap_year :: "int \<Rightarrow> bool" where
  "leap_year y \<longleftrightarrow> y mod 4 = 0 \<and> (y mod 100 \<noteq> 0 \<or> y mod 400 = 0)"

definition days_in_month :: "int \<Rightarrow> int \<Rightarrow> int" where
  "days_in_month y m =
     (if m = 2 then (if leap_year y then 29 else 28)
      else if m = 4 \<or> m = 6 \<or> m = 9 \<or> m = 11 then 30 else 31)"

text \<open>
  The result is the calendar date of the \<open>Date\<close> at UTC midnight.  Its last check, that
  \<open>Date.UTC\<close> did not roll the day over into the next month, is the bound on the day.
\<close>

definition parseSoaSerialDate :: "int \<Rightarrow> int option \<Rightarrow> (int \<times> int \<times> int) option" where
  "parseSoaSerialDate thisYear serial =
     (case serial of
        None \<Rightarrow> None
      | Some s \<Rightarrow>
          if s \<le> 0 then None
          else if s < 1000000000 \<or> s > 9999999999 then None
          else
            (let year = s div 1000000; month = (s div 10000) mod 100; day = (s div 100) mod 100 in
             if year < 1985 \<or> year > thisYear + 1 then None
             else if month < 1 \<or> month > 12 then None
             else if day < 1 \<or> day > 31 then None
             else if day > days_in_month year month then None
             else Some (year, month, day)))"

subsection \<open>serial-sync.ts\<close>

datatype sync_state = InSync | RefreshDue | Ahead | Lagging | MirrorMissing | SyncError

definition isSettledSyncState :: "sync_state \<Rightarrow> bool" where
  "isSettledSyncState state \<longleftrightarrow> state = InSync \<or> state = RefreshDue"

record zone_serials =
  z_serial :: "int option"
  z_editedSerial :: "int option"
  z_soaEdit :: "string option"

definition isEpochSoaEdit :: "string option \<Rightarrow> bool" where
  "isEpochSoaEdit kind \<longleftrightarrow> js_upper (js_trim (case kind of Some k \<Rightarrow> k | None \<Rightarrow> [])) = ''EPOCH''"

definition servedSerial :: "zone_serials \<Rightarrow> int option" where
  "servedSerial zone = (case z_editedSerial zone of Some s \<Rightarrow> Some s | None \<Rightarrow> z_serial zone)"

definition WEEK_MS :: int where "WEEK_MS = 7 * 86400000"
definition DEFAULT_SOA_REFRESH_SECONDS :: int where "DEFAULT_SOA_REFRESH_SECONDS = 10800"
definition REFRESH_GRACE_MARGIN_MS :: int where "REFRESH_GRACE_MARGIN_MS = 5 * 60000"

definition soaEditRolloverGraceMs :: "int option \<Rightarrow> int" where
  "soaEditRolloverGraceMs refreshSeconds =
     (let refresh = (case refreshSeconds of
            Some r \<Rightarrow> if r > 0 then r else DEFAULT_SOA_REFRESH_SECONDS
          | None \<Rightarrow> DEFAULT_SOA_REFRESH_SECONDS)
      in min (refresh * 1000 + REFRESH_GRACE_MARGIN_MS) WEEK_MS)"

definition withinSoaEditRolloverGrace :: "int \<Rightarrow> int option \<Rightarrow> bool" where
  "withinSoaEditRolloverGrace now refreshSeconds \<longleftrightarrow>
     now mod WEEK_MS < soaEditRolloverGraceMs refreshSeconds"

definition classifyMirrorSerial :: "zone_serials \<Rightarrow> int option option \<Rightarrow> int \<Rightarrow> int option \<Rightarrow> sync_state" where
  "classifyMirrorSerial primary copy now refreshSeconds =
     (case copy of
        None \<Rightarrow> MirrorMissing
      | Some ms \<Rightarrow>
          (case (servedSerial primary, ms) of
             (Some served, Some m) \<Rightarrow>
               if m = served then InSync
               else if m > served then Ahead
               else if isEpochSoaEdit (z_soaEdit primary) then
                 (if now - m * 1000 \<le> soaEditRolloverGraceMs refreshSeconds then RefreshDue else Lagging)
               else
                 (let soaEditActive = z_editedSerial primary \<noteq> None \<and> z_serial primary \<noteq> None
                        \<and> z_editedSerial primary \<noteq> z_serial primary
                  in if soaEditActive \<and> withinSoaEditRolloverGrace now refreshSeconds
                     then RefreshDue else Lagging)
           | _ \<Rightarrow> SyncError))"

subsection \<open>Number(s) where the value is an integer\<close>

definition radix_digits :: "nat \<Rightarrow> string \<Rightarrow> bool" where
  "radix_digits b s \<longleftrightarrow> s \<noteq> [] \<and> list_all (\<lambda>c.
     is_digit c \<and> code c - 48 < b
     \<or> 97 \<le> code (lower_char c) \<and> code (lower_char c) \<le> 102 \<and> code (lower_char c) - 87 < b) s"

definition radix_value :: "nat \<Rightarrow> string \<Rightarrow> nat" where
  "radix_value b s = foldl (\<lambda>n c. n * b + (if is_digit c then code c - 48 else code (lower_char c) - 87)) 0 s"

text \<open>Sign and rest.\<close>

definition signed_part :: "string \<Rightarrow> int \<times> string" where
  "signed_part s = (case s of
     [] \<Rightarrow> (1, [])
   | c # cs \<Rightarrow> if c = CHR ''-'' then (- 1, cs) else if c = CHR ''+'' then (1, cs) else (1, s))"

definition exponent_part :: "string \<Rightarrow> int option" where
  "exponent_part s =
     (if s = [] then Some 0
      else if lower_char (hd s) = CHR ''e'' then
        (let su = signed_part (tl s) in
         if snd su \<noteq> [] \<and> list_all is_digit (snd su) then Some (fst su * int (nat_of_dec (snd su)))
         else None)
      else None)"

definition scaled :: "nat \<Rightarrow> int \<Rightarrow> int option" where
  "scaled m e =
     (if e \<ge> 0 then Some (int m * 10 ^ nat e)
      else if m mod 10 ^ nat (- e) = 0 then Some (int (m div 10 ^ nat (- e))) else None)"

definition decimal_integer :: "string \<Rightarrow> int option" where
  "decimal_integer s =
     (let ip = takeWhile is_digit s; r = dropWhile is_digit s;
          dot = (r \<noteq> [] \<and> hd r = CHR ''.'');
          fp = (if dot then takeWhile is_digit (tl r) else []);
          r2 = (if dot then dropWhile is_digit (tl r) else r)
      in if ip = [] \<and> fp = [] then None
         else case exponent_part r2 of
           None \<Rightarrow> None
         | Some e \<Rightarrow> scaled (nat_of_dec (ip @ fp)) (e - int (length fp)))"

definition js_integer :: "string \<Rightarrow> int option" where
  "js_integer str =
     (let s = js_trim str; p = js_lower (take 2 s) in
      if s = [] then Some 0
      else if p = ''0x'' then (if radix_digits 16 (drop 2 s) then Some (int (radix_value 16 (drop 2 s))) else None)
      else if p = ''0o'' then (if radix_digits 8 (drop 2 s) then Some (int (radix_value 8 (drop 2 s))) else None)
      else if p = ''0b'' then (if radix_digits 2 (drop 2 s) then Some (int (radix_value 2 (drop 2 s))) else None)
      else map_option ((*) (fst (signed_part s))) (decimal_integer (snd (signed_part s))))"

record soa_rrset =
  sr_name :: string
  sr_type :: string
  sr_records :: "string list"

definition soaRefreshSeconds :: "string \<Rightarrow> soa_rrset list \<Rightarrow> int option" where
  "soaRefreshSeconds zoneName rrsets =
     (case find (\<lambda>r. sr_type r = ''SOA'' \<and> sr_name r = zoneName) rrsets of
        None \<Rightarrow> None
      | Some soa \<Rightarrow>
          (case sr_records soa of
             [] \<Rightarrow> None
           | content # _ \<Rightarrow>
               if content = [] then None
               else (let fields = split_ws (js_trim content) in
                 if length fields \<le> 3 then None
                 else case js_integer (fields ! 3) of
                   None \<Rightarrow> None | Some refresh \<Rightarrow> if refresh > 0 then Some refresh else None)))"

subsection \<open>dnssec-plan.ts\<close>

definition DEFAULT_SIGNED_SOA_EDIT :: string where
  "DEFAULT_SIGNED_SOA_EDIT = ''INCREMENT-WEEKS''"

record dnssec_zone_facts =
  dz_kind :: string
  dz_soa_edit :: "string option"
  dz_types :: "string list option"

record enable_request =
  er_soaEdit :: "string option"
  er_apiRectify :: "bool option"
  er_nsec3param :: "string option"
  er_nsec3narrow :: "bool option"

record enable_settings =
  es_dnssec :: bool
  es_api_rectify :: bool
  es_soa_edit :: "string option"
  es_nsec3param :: "string option"
  es_nsec3narrow :: "bool option"

record enable_plan =
  ep_settings :: enable_settings
  ep_replicated :: bool
  ep_warnings :: "string list"

definition WARN_SOA_EDIT :: string where
  "WARN_SOA_EDIT = ''SOA-EDIT is not set. Presigned secondaries only re-transfer when the served serial changes, so their signatures expire (about three weeks) unless the zone is edited regularly. Set SOA-EDIT to INCREMENT-WEEKS.''"

definition WARN_API_RECTIFY :: string where
  "WARN_API_RECTIFY = ''API-RECTIFY is off: record edits through the API won't rectify the zone, which breaks NSEC/NSEC3 denial until you rectify. Leave it on unless you rectify another way.''"

definition WARN_LUA :: string where
  "WARN_LUA = ''The zone has LUA records. PowerDNS transfers them unexpanded and a presigned secondary can't sign the answers it computes from them, so validating resolvers will see those names as bogus on the secondaries. Keep LUA records out of signed zones served by presigned secondaries.''"

definition WARN_ALIAS :: string where
  "WARN_ALIAS = ''The zone has ALIAS records. A presigned secondary can't sign the addresses an ALIAS expands to; set outgoing-axfr-expand-alias=yes on the primary so they are transferred expanded and signed (their values then only refresh on the next transfer).''"

definition signedZoneWarnings :: "dnssec_zone_facts \<Rightarrow> bool \<Rightarrow> bool option \<Rightarrow> string list" where
  "signedZoneWarnings zone replicated apiRectify =
     (let types = jset_of (map js_upper (case dz_types zone of Some ts \<Rightarrow> ts | None \<Rightarrow> [])) in
      (if replicated \<and> (case dz_soa_edit zone of Some e \<Rightarrow> e | None \<Rightarrow> []) = [] then [WARN_SOA_EDIT] else [])
      @ (if apiRectify = Some False then [WARN_API_RECTIFY] else [])
      @ (if replicated \<and> ''LUA'' \<in> set types then [WARN_LUA] else [])
      @ (if replicated \<and> ''ALIAS'' \<in> set types then [WARN_ALIAS] else []))"

definition planDnssecEnable :: "dnssec_zone_facts \<Rightarrow> bool \<Rightarrow> enable_request \<Rightarrow> enable_plan" where
  "planDnssecEnable zone hasMirrors req =
     (let replicated = hasMirrors \<or> isTransferredKind (dz_kind zone);
          currentSoaEdit = (case dz_soa_edit zone of Some e \<Rightarrow> e | None \<Rightarrow> []);
          soaEdit = (case er_soaEdit req of
              Some e \<Rightarrow> if e \<noteq> currentSoaEdit then Some e else None
            | None \<Rightarrow> if replicated \<and> currentSoaEdit = [] then Some DEFAULT_SIGNED_SOA_EDIT else None);
          settings = \<lparr>es_dnssec = True,
            es_api_rectify = (case er_apiRectify req of Some b \<Rightarrow> b | None \<Rightarrow> True),
            es_soa_edit = soaEdit, es_nsec3param = er_nsec3param req,
            es_nsec3narrow = er_nsec3narrow req\<rparr>;
          effectiveSoaEdit = (case soaEdit of Some e \<Rightarrow> e | None \<Rightarrow> currentSoaEdit)
      in \<lparr>ep_settings = settings, ep_replicated = replicated,
          ep_warnings = signedZoneWarnings (zone\<lparr>dz_soa_edit := Some effectiveSoaEdit\<rparr>) replicated
                          (Some (es_api_rectify settings))\<rparr>)"

definition bumpSoaSerial :: "string \<Rightarrow> string option" where
  "bumpSoaSerial content =
     (let fields = split_ws (js_trim content) in
      if length fields \<noteq> 7 then None
      else case js_integer (fields ! 2) of
        None \<Rightarrow> None
      | Some serial \<Rightarrow>
          if serial < 0 \<or> serial > 4294967295 then None
          else (let next' = (serial + 1) mod 4294967296 in
                Some (join '' '' (fields[2 := dec_of_nat (nat (if next' = 0 then 1 else next'))]))))"

record cryptokey =
  ck_keytype :: string
  ck_active :: bool
  ck_published :: "bool option"
  ck_ds :: "string list option"

definition DEPRECATED_DS_DIGESTS :: "string list" where
  "DEPRECATED_DS_DIGESTS = [''1'', ''3'']"

definition publishable :: "string \<Rightarrow> bool" where
  "publishable ds \<longleftrightarrow>
     (let fields = split_ws (js_trim ds) in
      length fields > 2 \<and> fields ! 2 \<notin> set DEPRECATED_DS_DIGESTS)"

definition dsRecordsToPublish :: "cryptokey list \<Rightarrow> string list" where
  "dsRecordsToPublish keys =
     concat (map (\<lambda>k.
       let sep = (ck_keytype k = ''ksk'' \<or> ck_keytype k = ''csk'') in
       if \<not> sep \<or> \<not> ck_active k \<or> ck_published k = Some False then []
       else filter publishable (case ck_ds k of Some ds \<Rightarrow> ds | None \<Rightarrow> [])) keys)"

subsection \<open>Dates in serials\<close>

definition serial_of_date :: "int \<Rightarrow> int \<Rightarrow> int \<Rightarrow> int \<Rightarrow> int" where
  "serial_of_date y m d nn = y * 1000000 + m * 10000 + d * 100 + nn"

definition calendar_date :: "int \<Rightarrow> int \<Rightarrow> int \<Rightarrow> bool" where
  "calendar_date y m d \<longleftrightarrow> 1 \<le> m \<and> m \<le> 12 \<and> 1 \<le> d \<and> d \<le> days_in_month y m"

lemma days_31: "days_in_month y m \<le> 31"
  by (simp add: days_in_month_def)

lemma split_100: "0 \<le> d \<Longrightarrow> d < 100 \<Longrightarrow> (100 * a + d) div 100 = (a :: int)"
  "0 \<le> d \<Longrightarrow> d < 100 \<Longrightarrow> (100 * a + d) mod 100 = (d :: int)"
  by simp_all

lemma div_100s: "(s :: int) div 10000 = s div 100 div 100" "s div 1000000 = s div 100 div 100 div 100"
proof -
  have "s div (100 * 100) = s div 100 div 100" by (rule zdiv_zmult2_eq) simp
  then show 1: "s div 10000 = s div 100 div 100" by simp
  have "s div (10000 * 100) = s div 10000 div 100" by (rule zdiv_zmult2_eq) simp
  then show "s div 1000000 = s div 100 div 100 div 100" unfolding 1 by simp
qed

lemma serial_of_date_alt: "serial_of_date y m d nn = 100 * (100 * (100 * y + m) + d) + nn"
  by (simp add: serial_of_date_def)

lemma serial_fields:
  assumes "0 \<le> m" "m < 100" "0 \<le> d" "d < 100" "0 \<le> nn" "nn < 100"
  shows "serial_of_date y m d nn div 1000000 = y"
    "(serial_of_date y m d nn div 10000) mod 100 = m"
    "(serial_of_date y m d nn div 100) mod 100 = d"
    "serial_of_date y m d nn mod 100 = nn"
  unfolding div_100s serial_of_date_alt split_100(1) [OF assms(5,6)] split_100(1) [OF assms(3,4)]
    split_100(1) [OF assms(1,2)] split_100(2) [OF assms(5,6)] split_100(2) [OF assms(3,4)]
    split_100(2) [OF assms(1,2)] by (rule refl)+

lemma serial_decompose:
  "(s :: int) = serial_of_date (s div 1000000) ((s div 10000) mod 100) ((s div 100) mod 100) (s mod 100)"
  unfolding serial_of_date_alt div_100s mult_div_mod_eq by (rule refl)

lemma parse_date_iff:
  "parseSoaSerialDate thisYear (Some s) = Some (y, m, d) \<longleftrightarrow>
     1000000000 \<le> s \<and> s \<le> 9999999999 \<and> 1985 \<le> y \<and> y \<le> thisYear + 1 \<and> calendar_date y m d
     \<and> y = s div 1000000 \<and> m = (s div 10000) mod 100 \<and> d = (s div 100) mod 100"
proof -
  define Y where "Y = s div 1000000"
  define M where "M = (s div 10000) mod 100"
  define D where "D = (s div 100) mod 100"
  have p: "parseSoaSerialDate thisYear (Some s) =
      (if s \<le> 0 then None else if s < 1000000000 \<or> s > 9999999999 then None
       else if Y < 1985 \<or> Y > thisYear + 1 then None else if M < 1 \<or> M > 12 then None
       else if D < 1 \<or> D > 31 then None else if D > days_in_month Y M then None
       else Some (Y, M, D))"
    by (simp only: parseSoaSerialDate_def Let_def option.case Y_def M_def D_def)
  show ?thesis
    unfolding p Y_def [symmetric] M_def [symmetric] D_def [symmetric]
    using days_31 [of Y M] by (auto simp: calendar_date_def)
qed

text \<open>
  A serial is read as a date exactly when it is a real calendar date of the DNS era, at most
  a year ahead, followed by a two-digit revision; and it is that date.
\<close>

theorem parseSoaSerialDate_iff:
  assumes "0 < s" "thisYear \<le> 9998"
  shows "parseSoaSerialDate thisYear (Some s) = Some (y, m, d) \<longleftrightarrow>
     (\<exists>nn. 0 \<le> nn \<and> nn < 100 \<and> s = serial_of_date y m d nn \<and> calendar_date y m d
        \<and> 1985 \<le> y \<and> y \<le> thisYear + 1)"
proof
  assume "parseSoaSerialDate thisYear (Some s) = Some (y, m, d)"
  then have f: "y = s div 1000000" "m = (s div 10000) mod 100" "d = (s div 100) mod 100"
    and g: "1985 \<le> y" "y \<le> thisYear + 1" "calendar_date y m d"
    unfolding parse_date_iff by blast+
  have "s = serial_of_date y m d (s mod 100)" unfolding f by (rule serial_decompose)
  moreover have "0 \<le> s mod 100" "s mod 100 < 100" by simp_all
  ultimately show "\<exists>nn. 0 \<le> nn \<and> nn < 100 \<and> s = serial_of_date y m d nn \<and> calendar_date y m d
        \<and> 1985 \<le> y \<and> y \<le> thisYear + 1"
    using g by blast
next
  assume "\<exists>nn. 0 \<le> nn \<and> nn < 100 \<and> s = serial_of_date y m d nn \<and> calendar_date y m d
        \<and> 1985 \<le> y \<and> y \<le> thisYear + 1"
  then obtain nn where nn: "0 \<le> nn" "nn < 100" and s: "s = serial_of_date y m d nn"
    and c: "calendar_date y m d" and y: "1985 \<le> y" "y \<le> thisYear + 1" by blast
  have md: "1 \<le> m" "m \<le> 12" "1 \<le> d" "d \<le> 31"
    using c days_31 [of y m] by (simp_all add: calendar_date_def)
  have "1000000000 \<le> s" "s \<le> 9999999999"
    using nn md y assms(2) unfolding s serial_of_date_def by linarith+
  moreover have "y = s div 1000000" "m = (s div 10000) mod 100" "d = (s div 100) mod 100"
    unfolding s using serial_fields [of m d nn y] md nn by simp_all
  ultimately show "parseSoaSerialDate thisYear (Some s) = Some (y, m, d)"
    unfolding parse_date_iff using y c by blast
qed

theorem parseSoaSerialDate_iff_witness:
  "parseSoaSerialDate 2025 (Some 2024022901) = Some (2024, 2, 29)
   \<and> parseSoaSerialDate 2025 (Some 2025022901) \<noteq> Some (2025, 2, 29)"
  using parseSoaSerialDate_iff [of 2024022901 2025 2024 2 29]
    parseSoaSerialDate_iff [of 2025022901 2025 2025 2 29]
  by (auto simp: serial_of_date_def calendar_date_def days_in_month_def leap_year_def
      intro!: exI [of _ 1])

subsection \<open>Mirrors and RFC 1982\<close>

text \<open>Serial number arithmetic: \<open>a\<close> is newer than \<open>b\<close>, on 32-bit words.\<close>

definition newer_serial :: "32 word \<Rightarrow> 32 word \<Rightarrow> bool" where
  "newer_serial a b \<longleftrightarrow> 0 < sint (a - b)"

lemma sint_small:
  assumes "- 2147483648 < (i :: int)" "i < 2147483648"
  shows "sint (word_of_int i :: 32 word) = i"
  using assms by (simp add: signed_of_int signed_take_bit_int_eq_self)

lemma newer_small:
  assumes "\<bar>a - b\<bar> < 2147483648"
  shows "newer_serial (word_of_int a) (word_of_int b) \<longleftrightarrow> b < a"
proof -
  have "word_of_int a - word_of_int b = (word_of_int (a - b) :: 32 word)" by simp
  moreover have "sint (word_of_int (a - b) :: 32 word) = a - b" by (rule sint_small) (use assms in auto)
  ultimately show ?thesis by (simp add: newer_serial_def)
qed

lemma classify_cases:
  assumes "servedSerial primary = Some served"
  shows "classifyMirrorSerial primary (Some (Some m)) now refresh = InSync \<longleftrightarrow> m = served"
    and "classifyMirrorSerial primary (Some (Some m)) now refresh = Ahead \<longleftrightarrow> m > served"
    and "classifyMirrorSerial primary (Some (Some m)) now refresh \<in> {RefreshDue, Lagging} \<longleftrightarrow> m < served"
  using assms by (auto simp: classifyMirrorSerial_def Let_def)



subsection \<open>Bumping a serial\<close>

definition next_serial :: "int \<Rightarrow> int" where
  "next_serial s = (if (s + 1) mod 4294967296 = 0 then 1 else (s + 1) mod 4294967296)"

lemma next_serial_newer:
  assumes "0 \<le> s" "s \<le> 4294967295"
  shows "newer_serial (word_of_int (next_serial s)) (word_of_int s) \<and> 0 < next_serial s
    \<and> next_serial s \<le> 4294967295"
proof (cases "s = 4294967295")
  case True
  have "sint (1 - word_of_int 4294967295 :: 32 word) = 2" by simp
  with True show ?thesis by (simp add: next_serial_def newer_serial_def)
next
  case False
  then have n: "next_serial s = s + 1" using assms by (simp add: next_serial_def)
  have "newer_serial (word_of_int (s + 1)) (word_of_int s)"
    using newer_small [of "s + 1" s] by simp
  then show ?thesis using n assms False by (simp add: next_serial_def)
qed

lemma js_integer_digits:
  assumes d: "list_all is_digit s" and ne: "s \<noteq> []"
  shows "js_integer s = Some (int (nat_of_dec s))"
proof -
  have dig: "is_digit c" if "c \<in> set s" for c using d that by (simp add: list_all_iff)
  have nows: "\<not> is_ws c" if "c \<in> set s" for c using dig [OF that] by (auto simp: is_digit_def is_ws_def)
  have trim: "js_trim s = s" using nows by (rule js_trim_no_ws)
  have letters: "\<not> is_digit (CHR ''x'')" "\<not> is_digit (CHR ''o'')" "\<not> is_digit (CHR ''b'')"
    "\<not> is_digit (CHR ''-'')" "\<not> is_digit (CHR ''+'')" by (simp_all add: is_digit_def)
  have low: "js_lower (take 2 s) = take 2 s"
  proof (rule js_lower_id)
    fix c assume "c \<in> set (take 2 s)"
    then have "is_digit c" using dig in_set_takeD by metis
    then show "\<not> is_upper c" by (auto simp: is_digit_def is_upper_def)
  qed
  have p: "js_lower (take 2 s) \<noteq> [a, b]" if "\<not> is_digit b" for a b
  proof
    assume "js_lower (take 2 s) = [a, b]"
    then have "b \<in> set (take 2 s)" unfolding low by simp
    then show False using dig that in_set_takeD by metis
  qed
  obtain c cs where s: "s = c # cs" using ne by (cases s) auto
  have "is_digit c" using dig s by simp
  then have sg: "signed_part s = (1, s)" using letters by (auto simp: signed_part_def s)
  have tw: "takeWhile is_digit s = s" "dropWhile is_digit s = []"
    using dig by (simp_all add: takeWhile_eq_all_conv dropWhile_eq_Nil_conv)
  have "decimal_integer s = Some (int (nat_of_dec s))"
    by (simp add: decimal_integer_def tw Let_def ne exponent_part_def scaled_def)
  then show ?thesis
    using p letters ne by (simp add: js_integer_def Let_def trim sg)
qed

lemma js_integer_dec [simp]: "js_integer (dec_of_nat n) = Some (int n)"
proof -
  have "list_all is_digit (dec_of_nat n)" by (auto simp: list_all_iff dest: dec_of_nat_digits)
  from js_integer_digits [OF this] show ?thesis by simp
qed

lemma bump_fields:
  assumes "list_all plain_word ws" "length ws = 7" "ws ! 2 = dec_of_nat s" "s \<le> 4294967295"
  shows "bumpSoaSerial (join '' '' ws) = Some (join '' '' (ws[2 := dec_of_nat (nat (next_serial (int s)))]))"
proof -
  have "ws \<noteq> []" using assms(2) by auto
  then have f: "split_ws (js_trim (join '' '' ws)) = ws"
    by (simp add: trim_join_words [OF assms(1)] split_ws_join [OF assms(1)])
  have "\<not> 4294967295 < int s" using assms(4) by simp
  then show ?thesis
    unfolding bumpSoaSerial_def Let_def f by (simp add: assms(2,3) next_serial_def)
qed

text \<open>
  Bumping an SOA replaces the serial by one that is newer in the arithmetic of RFC 1982,
  whatever the old serial was (it wraps past 2^32 - 1 and skips 0), and leaves the other six
  fields as they are; so the mirrors of the zone will transfer it.
\<close>

theorem bumpSoaSerial_newer:
  assumes "list_all plain_word ws" "length ws = 7" "ws ! 2 = dec_of_nat s" "s \<le> 4294967295"
  shows "\<exists>t. bumpSoaSerial (join '' '' ws) = Some (join '' '' (ws[2 := dec_of_nat t]))
     \<and> newer_serial (word_of_nat t) (word_of_nat s) \<and> 0 < t \<and> t \<le> 4294967295"
proof (intro exI conjI)
  have n: "newer_serial (word_of_int (next_serial (int s))) (word_of_int (int s))"
    "0 < next_serial (int s)" "next_serial (int s) \<le> 4294967295"
    using next_serial_newer [of "int s"] assms(4) by simp_all
  show "bumpSoaSerial (join '' '' ws) = Some (join '' '' (ws[2 := dec_of_nat (nat (next_serial (int s)))]))"
    by (rule bump_fields [OF assms])
  have "word_of_nat (nat (next_serial (int s))) = (word_of_int (next_serial (int s)) :: 32 word)"
    using n(2) by simp
  then show "newer_serial (word_of_nat (nat (next_serial (int s)))) (word_of_nat s)"
    using n(1) by simp
  show "0 < nat (next_serial (int s))" using n(2) by simp
  show "nat (next_serial (int s)) \<le> 4294967295" using n(3) by simp
qed

theorem bumpSoaSerial_newer_witness:
  "\<exists>t. bumpSoaSerial (join '' '' (demo_soa ''4294967295'')) = Some (join '' '' ((demo_soa ''4294967295'')[2 := dec_of_nat t]))
     \<and> newer_serial (word_of_nat t) (word_of_nat 4294967295)"
proof -
  have w: "list_all plain_word (demo_soa ''4294967295'')" by code_simp
  have l: "length (demo_soa ''4294967295'') = 7" by (simp add: demo_soa_def)
  have "dec_of_nat 4294967295 = ''4294967295''" by (simp add: dec_of_nat.simps char_of_def bit_0)
  then have d: "demo_soa ''4294967295'' ! 2 = dec_of_nat 4294967295" by (simp add: demo_soa_def)
  show ?thesis using bumpSoaSerial_newer [OF w l d] by auto
qed

text \<open>
  Across the wrap the comparison of mirrors departs from RFC 1982: after the serial
  4294967295 is bumped, a mirror that still holds it is reported as ahead of its primary, the
  state for copies that will never transfer, although the primary's new serial is the newer one.
\<close>

theorem wrapped_serial_reported_ahead:
  "next_serial 4294967295 = 1
   \<and> newer_serial (word_of_int 1) (word_of_int 4294967295)
   \<and> classifyMirrorSerial \<lparr>z_serial = Some 1, z_editedSerial = None, z_soaEdit = None\<rparr>
       (Some (Some 4294967295)) now refresh = Ahead"
  using next_serial_newer [of 4294967295]
  by (simp add: next_serial_def classifyMirrorSerial_def servedSerial_def)

subsection \<open>The DNSSEC plan\<close>

text \<open>
  A plan to sign a replicated zone never leaves its SOA-EDIT unset unless the request asked
  for that: the setting it sends, or the one the zone has, is not empty, and the plan carries no
  warning about it.  It always switches signing on, and changes SOA-EDIT only to a value the zone
  does not have.
\<close>

theorem planDnssecEnable_keeps_fresh:
  assumes "p = planDnssecEnable zone hasMirrors req"
  shows "es_dnssec (ep_settings p)
    \<and> (ep_replicated p \<and> er_soaEdit req = None \<longrightarrow>
         (es_soa_edit (ep_settings p) = Some DEFAULT_SIGNED_SOA_EDIT
          \<or> es_soa_edit (ep_settings p) = None \<and> (\<exists>e. dz_soa_edit zone = Some e \<and> e \<noteq> []))
         \<and> WARN_SOA_EDIT \<notin> set (ep_warnings p))
    \<and> (\<forall>e. es_soa_edit (ep_settings p) = Some e \<longrightarrow>
         e \<noteq> (case dz_soa_edit zone of Some c \<Rightarrow> c | None \<Rightarrow> []))"
proof -
  have d: "DEFAULT_SIGNED_SOA_EDIT \<noteq> []" by (simp add: DEFAULT_SIGNED_SOA_EDIT_def)
  have w: "WARN_SOA_EDIT \<noteq> WARN_API_RECTIFY" "WARN_SOA_EDIT \<noteq> WARN_LUA" "WARN_SOA_EDIT \<noteq> WARN_ALIAS"
    by (simp_all add: WARN_SOA_EDIT_def WARN_API_RECTIFY_def WARN_LUA_def WARN_ALIAS_def)
  show ?thesis
    unfolding assms using d w
    by (cases "dz_soa_edit zone"; cases "er_soaEdit req")
      (auto simp: planDnssecEnable_def Let_def signedZoneWarnings_def split: if_splits)
qed

theorem planDnssecEnable_keeps_fresh_witness:
  "WARN_SOA_EDIT \<notin> set (ep_warnings (planDnssecEnable
      \<lparr>dz_kind = ''Master'', dz_soa_edit = None, dz_types = None\<rparr> False
      \<lparr>er_soaEdit = None, er_apiRectify = None, er_nsec3param = None, er_nsec3narrow = None\<rparr>))"
proof -
  have "ep_replicated (planDnssecEnable \<lparr>dz_kind = ''Master'', dz_soa_edit = None, dz_types = None\<rparr> False
      \<lparr>er_soaEdit = None, er_apiRectify = None, er_nsec3param = None, er_nsec3narrow = None\<rparr>)"
    by code_simp
  with planDnssecEnable_keeps_fresh [OF refl, of "\<lparr>dz_kind = ''Master'', dz_soa_edit = None, dz_types = None\<rparr>" False
      "\<lparr>er_soaEdit = None, er_apiRectify = None, er_nsec3param = None, er_nsec3narrow = None\<rparr>"]
  show ?thesis by simp
qed

end
