(* ===== verification/RrsetRoute.thy ===== *)
theory RrsetRoute
  imports RrsetHash ZoneSettings ZonePermissions
begin

section \<open>The RRset PATCH route\<close>

text \<open>
  Models \<open>lib/validators/rrsets.ts\<close>, the helpers of
  \<open>app/api/admin/pdns/zones/[zoneId]/rrsets/_shared.ts\<close> and the PATCH handler of
  \<open>.../rrsets/route.ts\<close>.  The session, the CSRF check, the database, the PowerDNS client, the
  clock and the scrubbing of messages are fields of an environment; what the handler does to the
  world is the list of its effects, in order.  An issue list of the schema library is not modelled
  beyond that there is one.  The planning behind the auto-PTR effect is in \<open>AutoPtr\<close>.
\<close>

subsection \<open>validators/rrsets.ts\<close>

definition jget :: "string \<Rightarrow> json \<Rightarrow> json option" where
  "jget k j = (case j of JObj kvs \<Rightarrow> map_of kvs k | _ \<Rightarrow> None)"

definition rr_type_ok :: "string \<Rightarrow> bool" where
  "rr_type_ok s \<longleftrightarrow> 1 \<le> length s \<and> length s \<le> 12
     \<and> list_all (\<lambda>c. is_digit c \<or> 65 \<le> code c \<and> code c \<le> 90) s"

definition has_control :: "string \<Rightarrow> bool" where
  "has_control s \<longleftrightarrow> list_ex (\<lambda>c. code c \<le> 31 \<or> code c = 127) s"

definition name_ok :: "string \<Rightarrow> bool" where
  "name_ok s \<longleftrightarrow> 1 \<le> length s \<and> length s \<le> 255
     \<and> list_all (\<lambda>c. is_alnum c \<or> c \<in> set ''._-*/'') s"

definition parse_name :: "json option \<Rightarrow> string option" where
  "parse_name j = (case j of Some (JStr s) \<Rightarrow> if name_ok s then Some s else None | _ \<Rightarrow> None)"

definition parse_type :: "json option \<Rightarrow> string option" where
  "parse_type j =
     (case j of
        Some (JStr s) \<Rightarrow> if 1 \<le> length s \<and> rr_type_ok (js_upper s) then Some (js_upper s) else None
      | _ \<Rightarrow> None)"

definition parse_ttl :: "json option \<Rightarrow> nat option" where
  "parse_ttl j =
     (case j of Some (JNum n) \<Rightarrow> if 0 \<le> n \<and> n \<le> 2147483647 then Some (nat n) else None | _ \<Rightarrow> None)"

text \<open>An optional field: absent, present and valid, or an error.\<close>

definition optional :: "(json \<Rightarrow> 'a option) \<Rightarrow> json option \<Rightarrow> 'a option option" where
  "optional p j = (case j of None \<Rightarrow> Some None | Some v \<Rightarrow> map_option Some (p v))"

definition parse_bool :: "json \<Rightarrow> bool option" where
  "parse_bool j = (case j of JBool b \<Rightarrow> Some b | _ \<Rightarrow> None)"

definition parse_comment :: "json \<Rightarrow> string option" where
  "parse_comment j = (case j of JStr s \<Rightarrow> if length s \<le> 2048 then Some s else None | _ \<Rightarrow> None)"

definition parse_expected :: "json \<Rightarrow> string option" where
  "parse_expected j =
     (case jget ''hash'' j of
        Some (JStr s) \<Rightarrow>
          if length s = 16 \<and> list_all (\<lambda>c. is_digit c \<or> 97 \<le> code c \<and> code c \<le> 102) s
          then Some s else None
      | _ \<Rightarrow> None)"

definition parse_record :: "json \<Rightarrow> rr_record option" where
  "parse_record j =
     (case (jget ''content'' j, optional parse_bool (jget ''disabled'' j)) of
        (Some (JStr s), Some d) \<Rightarrow>
          if 1 \<le> length s \<and> length s \<le> 65535 \<and> \<not> has_control s
          then Some \<lparr>rr_content = s, rr_disabled = d\<rparr> else None
      | _ \<Rightarrow> None)"

fun parse_all :: "('a \<Rightarrow> 'b option) \<Rightarrow> 'a list \<Rightarrow> 'b list option" where
  "parse_all p [] = Some []"
| "parse_all p (x # xs) =
     (case p x of None \<Rightarrow> None | Some y \<Rightarrow> map_option ((#) y) (parse_all p xs))"

definition parse_records :: "json option \<Rightarrow> rr_record list option" where
  "parse_records j =
     (case j of
        Some (JArr rs) \<Rightarrow>
          if 1 \<le> length rs \<and> length rs \<le> 1000 then parse_all parse_record rs else None
      | _ \<Rightarrow> None)"

record upsert_body =
  ub_ttl :: nat
  ub_records :: "rr_record list"
  ub_comment :: "string option"

record rrset_change =
  ch_name :: string
  ch_type :: string
  ch_upsert :: "upsert_body option"
  ch_expected :: "string option"
  ch_ptr :: "bool option"
  ch_ptrTakeover :: "bool option"

definition parse_change :: "json \<Rightarrow> rrset_change option" where
  "parse_change j =
     (let common = (\<lambda>body.
        case (parse_name (jget ''name'' j), parse_type (jget ''type'' j),
              optional parse_expected (jget ''expected'' j), optional parse_bool (jget ''ptr'' j),
              optional parse_bool (jget ''ptrTakeover'' j)) of
          (Some n, Some t, Some e, Some p, Some k) \<Rightarrow>
            Some \<lparr>ch_name = n, ch_type = t, ch_upsert = body, ch_expected = e, ch_ptr = p,
                  ch_ptrTakeover = k\<rparr>
        | _ \<Rightarrow> None)
      in if jget ''kind'' j = Some (JStr ''upsert'') then
           (case (parse_ttl (jget ''ttl'' j), parse_records (jget ''records'' j),
                  optional parse_comment (jget ''comment'' j)) of
              (Some ttl, Some rs, Some c) \<Rightarrow>
                common (Some \<lparr>ub_ttl = ttl, ub_records = rs, ub_comment = c\<rparr>)
            | _ \<Rightarrow> None)
         else if jget ''kind'' j = Some (JStr ''delete'') then common None
         else None)"

record patch_input =
  pi_serverSlug :: string
  pi_changes :: "rrset_change list"

definition parse_patch :: "json \<Rightarrow> patch_input option" where
  "parse_patch j =
     (case (jget ''serverSlug'' j, jget ''changes'' j) of
        (Some (JStr s), Some (JArr cs)) \<Rightarrow>
          if 1 \<le> length s \<and> 1 \<le> length cs \<and> length cs \<le> 500
          then map_option (\<lambda>changes. \<lparr>pi_serverSlug = s, pi_changes = changes\<rparr>)
                 (parse_all parse_change cs)
          else None
      | _ \<Rightarrow> None)"

subsection \<open>_shared.ts\<close>

definition dedupe_step :: "(string \<times> rr_record) list \<Rightarrow> rr_record \<Rightarrow> (string \<times> rr_record) list" where
  "dedupe_step byContent r =
     (case map_of byContent (rr_content r) of
        None \<Rightarrow> AList.update (rr_content r) r byContent
      | Some prev \<Rightarrow>
          if rr_disabled prev = Some True \<and> rr_disabled r \<noteq> Some True
          then AList.update (rr_content r) r byContent else byContent)"

definition dedupeRecordsByContent :: "rr_record list \<Rightarrow> rr_record list" where
  "dedupeRecordsByContent records = map snd (foldl dedupe_step [] records)"

definition normalizeName :: "string \<Rightarrow> string \<Rightarrow> string" where
  "normalizeName raw zoneName =
     (let trimmed = js_lower (js_trim raw) in
      if trimmed = [] \<or> trimmed = ''@'' then zoneName
      else if ends_with trimmed ''.'' then trimmed
      else trimmed @ ''.'' @ zoneName)"

record live_rrset = rrset +
  lr_comments :: "json option"

definition is_object :: "json \<Rightarrow> bool" where
  "is_object j = (case j of JObj _ \<Rightarrow> True | JArr _ \<Rightarrow> True | _ \<Rightarrow> False)"

definition readComments :: "live_rrset option \<Rightarrow> json list" where
  "readComments rr =
     (case rr of
        None \<Rightarrow> []
      | Some r \<Rightarrow> (case lr_comments r of Some (JArr cs) \<Rightarrow> filter is_object cs | _ \<Rightarrow> []))"

definition normalizeRRsetForAudit :: "live_rrset \<Rightarrow> live_rrset" where
  "normalizeRRsetForAudit r = r\<lparr>lr_comments := Some (JArr (readComments (Some r)))\<rparr>"

record zone_detail =
  zd_kind :: string
  zd_rrsets :: "live_rrset list option"

datatype zone_get = GetFull | GetHeader | GetRRset string string

definition MAX_FILTERED_RRSET_FETCHES :: nat where "MAX_FILTERED_RRSET_FETCHES = 3"

text \<open>
  \<open>Promise.all\<close> of the header and the filtered fetches: the values in order, or a failure.
  When several fail JavaScript reports the one that failed first in time; here it is the first in
  the list.
\<close>

fun all_calls :: "'a pdns_call list \<Rightarrow> 'a list pdns_call" where
  "all_calls [] = Returned []"
| "all_calls (c # cs) =
     (case c of
        Returned a \<Rightarrow>
          (case all_calls cs of
             Returned as \<Rightarrow> Returned (a # as)
           | NotFoundRaised m \<Rightarrow> NotFoundRaised m
           | PdnsRaised s m \<Rightarrow> PdnsRaised s m
           | OtherRaised m \<Rightarrow> OtherRaised m)
      | NotFoundRaised m \<Rightarrow> NotFoundRaised m
      | PdnsRaised s m \<Rightarrow> PdnsRaised s m
      | OtherRaised m \<Rightarrow> OtherRaised m)"

definition touched_keys :: "string \<Rightarrow> (string \<times> string) list \<Rightarrow> (string \<times> (string \<times> string)) list" where
  "touched_keys zoneName changes =
     foldl (\<lambda>m c. let name = normalizeName (fst c) zoneName in
                   AList.update (rrset_key name (snd c)) (name, snd c) m) [] changes"

definition loadZoneBefore :: "bool \<Rightarrow> (zone_get \<Rightarrow> zone_detail pdns_call) \<Rightarrow> string \<Rightarrow>
    (string \<times> string) list \<Rightarrow> zone_detail pdns_call" where
  "loadZoneBefore supportsFilter getZone zoneName changes =
     (let keys = touched_keys zoneName changes in
      if \<not> supportsFilter \<or> length keys > MAX_FILTERED_RRSET_FETCHES then getZone GetFull
      else case all_calls (getZone GetHeader # map (\<lambda>k. getZone (GetRRset (fst (snd k)) (snd (snd k)))) keys) of
        Returned zs \<Rightarrow>
          Returned ((hd zs)\<lparr>zd_rrsets := Some (concat (map (\<lambda>p.
             case zd_rrsets p of Some rs \<Rightarrow> rs | None \<Rightarrow> []) (tl zs)))\<rparr>)
      | NotFoundRaised m \<Rightarrow> NotFoundRaised m
      | PdnsRaised s m \<Rightarrow> PdnsRaised s m
      | OtherRaised m \<Rightarrow> OtherRaised m)"

subsection \<open>The environment and the effects\<close>

record server_row =
  sv_id :: string
  sv_slug :: string
  sv_disabledAt :: "string option"

record zone_user = zone_access +
  u_id :: string
  u_email :: "string option"

type_synonym ptr_change = "address_change \<times> rrset_value option \<times> bool"

record patch_env =
  e_user :: "thrown + zone_user"
  e_csrf :: "thrown + unit"
  e_findBySlug :: "string \<Rightarrow> server_row option"
  e_findDefault :: "server_row option"
  e_supportsFilter :: bool
  e_getZone :: "zone_get \<Rightarrow> zone_detail pdns_call"
  e_metadata :: "metadata_entry list pdns_call"
  e_config :: "(string \<times> string) list pdns_call"
  e_patchZone :: "rrset_patch list \<Rightarrow> unit pdns_call"
  e_zoneAutoPtr :: "thrown + bool"
  e_autoPtr :: "ptr_change list \<Rightarrow> thrown + unit"
  e_redact :: "string \<Rightarrow> string"
  e_lc :: "string \<Rightarrow> string \<Rightarrow> int"
  e_sha :: "string \<Rightarrow> string"
  e_now :: int

datatype patch_effect =
    EPatchZone string "rrset_patch list"
  | EPublish string string
  | EPoll
  | EAudit string string
  | ENotify string
  | EAutoPtr "ptr_change list"
  | EInvalidate

datatype patch_response = Conflicts "rrset_conflict list" | Applied nat bool

subsection \<open>Permission check\<close>

definition classify_change :: "string \<Rightarrow> rrset_change \<Rightarrow> bool \<times> string option" where
  "classify_change zoneName c =
     (ch_upsert c \<noteq> None,
      protectedRRsetPermission (normalizeName (ch_name c) zoneName) (ch_type c) zoneName)"

definition authorize :: "(string \<Rightarrow> bool) \<Rightarrow> string \<Rightarrow> rrset_change list \<Rightarrow> thrown + unit" where
  "authorize has zoneName changes =
     (let classified = map (classify_change zoneName) changes;
          ordinary = filter (\<lambda>c. snd c \<noteq> Some ''soa.update'') classified
      in case find (\<lambda>c. case snd c of Some extra \<Rightarrow> \<not> has extra | None \<Rightarrow> False) classified of
           Some (_, Some extra) \<Rightarrow>
             Inl (AppThrown (ForbiddenError (''Missing '' @ extra @ '' for this zone.'')))
         | _ \<Rightarrow>
             if list_ex fst ordinary \<and> \<not> has ''record.create'' \<and> \<not> has ''record.update''
             then Inl (AppThrown (ForbiddenError ''Missing record.create or record.update.''))
             else if list_ex (\<lambda>c. \<not> fst c) ordinary \<and> \<not> has ''record.delete''
             then Inl (AppThrown (ForbiddenError ''Missing record.delete.''))
             else Inr ())"

subsection \<open>Before the write\<close>

definition lua_gate :: "patch_env \<Rightarrow> rrset_change list \<Rightarrow> thrown + unit" where
  "lua_gate env changes =
     (let luaChanges = filter (\<lambda>c. ch_type c = ''LUA'') changes in
      if list_ex (\<lambda>c. ch_upsert c \<noteq> None) luaChanges
      then assertZoneAllowsLua (e_redact env) (e_metadata env) (e_config env)
      else if length luaChanges > 0 then assertLuaRecordsMutable (e_redact env) (e_config env)
      else Inr ())"

definition load_before :: "patch_env \<Rightarrow> string \<Rightarrow> rrset_change list \<Rightarrow> thrown + zone_detail" where
  "load_before env zoneName changes =
     (case loadZoneBefore (e_supportsFilter env) (e_getZone env) zoneName
             (map (\<lambda>c. (ch_name c, ch_type c)) changes) of
        Returned z \<Rightarrow> Inr z
      | NotFoundRaised m \<Rightarrow>
          Inl (AppThrown (NotFoundError (''Zone \"'' @ zoneName @ ''\" not found on backend.'')))
      | PdnsRaised st m \<Rightarrow> Inl (validation (''PDNS: '' @ e_redact env m))
      | OtherRaised m \<Rightarrow> Inl (ErrorThrown m))"

definition before_map :: "zone_detail \<Rightarrow> (string \<times> live_rrset) list" where
  "before_map z = foldl (\<lambda>m rr. AList.update (rrset_key (rs_name rr) (rs_type rr)) rr m) []
     (case zd_rrsets z of Some rs \<Rightarrow> rs | None \<Rightarrow> [])"

definition conflicts_of :: "patch_env \<Rightarrow> string \<Rightarrow> (string \<times> live_rrset) list \<Rightarrow> rrset_change list \<Rightarrow>
    rrset_conflict list" where
  "conflicts_of env zoneName before changes =
     detectRRsetConflicts (e_lc env) (e_sha env)
       (map (\<lambda>c. \<lparr>cc_name = normalizeName (ch_name c) zoneName, cc_type = ch_type c,
                  cc_expected = ch_expected c\<rparr>) changes) before"

definition buildCommentList :: "int \<Rightarrow> string \<Rightarrow> string option \<Rightarrow> json list" where
  "buildCommentList now txt email =
     (let trimmed = js_trim txt in
      if trimmed = [] then []
      else [JObj [(''content'', JStr trimmed),
                  (''account'', JStr (case email of Some e \<Rightarrow> e | None \<Rightarrow> [])),
                  (''modified_at'', JNum now)]])"

definition change_patch :: "patch_env \<Rightarrow> zone_user \<Rightarrow> string \<Rightarrow> (string \<times> live_rrset) list \<Rightarrow>
    rrset_change \<Rightarrow> thrown + rrset_patch" where
  "change_patch env user zoneName before c =
     (let name = normalizeName (ch_name c) zoneName;
          live = map_of before (rrset_key name (ch_type c))
      in case ch_upsert c of
           Some body \<Rightarrow>
             replaceRRset name (ch_type c) (ub_ttl body) (dedupeRecordsByContent (ub_records body))
               (Some (case ub_comment body of
                        Some t \<Rightarrow> buildCommentList (e_now env) t (u_email user)
                      | None \<Rightarrow> readComments live))
         | None \<Rightarrow> deleteRRset name (ch_type c))"

fun sum_all :: "('a \<Rightarrow> 'e + 'b) \<Rightarrow> 'a list \<Rightarrow> 'e + 'b list" where
  "sum_all f [] = Inr []"
| "sum_all f (x # xs) = sbind (f x) (\<lambda>y. sbind (sum_all f xs) (\<lambda>ys. Inr (y # ys)))"

subsection \<open>After the write\<close>

definition audit_action :: "string \<Rightarrow> (string \<times> live_rrset) list \<Rightarrow> rrset_change \<Rightarrow> patch_effect" where
  "audit_action zoneName before c =
     (let key = rrset_key (normalizeName (ch_name c) zoneName) (ch_type c) in
      EAudit (if ch_upsert c = None then ''record.delete''
              else if map_of before key = None then ''record.create'' else ''record.update'') key)"

definition address_of_record :: "rr_record \<Rightarrow> address_record" where
  "address_of_record r = \<lparr>a_content = rr_content r, a_disabled = rr_disabled r\<rparr>"

definition ptr_change_of :: "string \<Rightarrow> (string \<times> live_rrset) list \<Rightarrow> rrset_change \<Rightarrow> ptr_change" where
  "ptr_change_of zoneName before c =
     (let name = normalizeName (ch_name c) zoneName;
          type = (if ch_type c = ''A'' then TypeA else TypeAAAA);
          live = map_of before (rrset_key name (ch_type c))
      in (case ch_upsert c of
            Some body \<Rightarrow> \<lparr>c_kind = Upsert, c_name = name, c_type = type, c_ttl = Some (ub_ttl body),
              c_records = Some (map address_of_record (dedupeRecordsByContent (ub_records body)))\<rparr>
          | None \<Rightarrow> \<lparr>c_kind = Delete, c_name = name, c_type = type, c_ttl = None, c_records = None\<rparr>,
          map_option (\<lambda>rr. \<lparr>v_ttl = rs_ttl rr, v_records = map address_of_record (rs_records rr)\<rparr>) live,
          ch_ptrTakeover c = Some True))"

definition enabled_ptr_changes :: "patch_env \<Rightarrow> string \<Rightarrow> (string \<times> live_rrset) list \<Rightarrow>
    rrset_change list \<Rightarrow> thrown + ptr_change list" where
  "enabled_ptr_changes env zoneName before changes =
     (let addressChanges = filter (\<lambda>c. isAddressType (ch_type c)) changes in
      sbind (if list_ex (\<lambda>c. ch_ptr c = None) addressChanges then e_zoneAutoPtr env else Inr False)
        (\<lambda>zoneDefault. Inr (map (ptr_change_of zoneName before)
           (filter (\<lambda>c. case ch_ptr c of Some b \<Rightarrow> b | None \<Rightarrow> zoneDefault) addressChanges))))"

definition maintain_ptr :: "patch_env \<Rightarrow> string \<Rightarrow> (string \<times> live_rrset) list \<Rightarrow> rrset_change list \<Rightarrow>
    (thrown + bool) \<times> patch_effect list" where
  "maintain_ptr env zoneName before changes =
     (case enabled_ptr_changes env zoneName before changes of
        Inl e \<Rightarrow> (Inl e, [])
      | Inr ptrs \<Rightarrow>
          if length ptrs > 0
          then (case e_autoPtr env ptrs of
                  Inl e \<Rightarrow> (Inl e, [EAutoPtr ptrs])
                | Inr _ \<Rightarrow> (Inr True, [EAutoPtr ptrs, EInvalidate]))
          else (Inr False, [EInvalidate]))"

definition announce :: "server_row \<Rightarrow> string \<Rightarrow> zone_detail \<Rightarrow> rrset_change list \<Rightarrow>
    patch_effect list" where
  "announce server zoneName z changes =
     [EPublish zoneName (sv_slug server), EPoll]
     @ map (audit_action zoneName (before_map z)) changes
     @ (if isTransferredKind (zd_kind z) then [ENotify zoneName] else [])"

definition after_write :: "patch_env \<Rightarrow> server_row \<Rightarrow> string \<Rightarrow> zone_detail \<Rightarrow> rrset_change list \<Rightarrow>
    (thrown + patch_response) \<times> patch_effect list" where
  "after_write env server zoneName z changes =
     (case maintain_ptr env zoneName (before_map z) changes of
        (result, effects) \<Rightarrow>
          (sbind result (\<lambda>ran. Inr (Applied (length changes) ran)),
           announce server zoneName z changes @ effects))"

subsection \<open>The handler\<close>

definition admit :: "patch_env \<Rightarrow> json \<Rightarrow> thrown + (zone_user \<times> server_row \<times> rrset_change list)" where
  "admit env body =
     sbind (e_user env) (\<lambda>user.
     sbind (e_csrf env) (\<lambda>_.
       case parse_patch body of
         None \<Rightarrow> Inl (validation ''Invalid input.'')
       | Some input \<Rightarrow>
           (case (if pi_serverSlug input \<noteq> [] then e_findBySlug env (pi_serverSlug input)
                  else e_findDefault env) of
              None \<Rightarrow> Inl (validation ''Unknown or disabled PowerDNS backend.'')
            | Some server \<Rightarrow>
                if sv_disabledAt server \<noteq> None
                then Inl (validation ''Unknown or disabled PowerDNS backend.'')
                else Inr (user, server, pi_changes input))))"

definition checked :: "patch_env \<Rightarrow> string \<Rightarrow> zone_user \<Rightarrow> server_row \<Rightarrow> rrset_change list \<Rightarrow>
    thrown + zone_detail" where
  "checked env zoneName user server changes =
     sbind (authorize (canActOnZone user (sv_id server) zoneName) zoneName changes) (\<lambda>_.
     sbind (load_before env zoneName changes) (\<lambda>z.
     sbind (assertEditableZoneKind (zd_kind z)) (\<lambda>_.
     sbind (lua_gate env changes) (\<lambda>_. Inr z))))"

definition send_patch :: "patch_env \<Rightarrow> server_row \<Rightarrow> string \<Rightarrow> zone_detail \<Rightarrow> rrset_change list \<Rightarrow>
    rrset_patch list \<Rightarrow> (thrown + patch_response) \<times> patch_effect list" where
  "send_patch env server zoneName z changes patches =
     (case e_patchZone env patches of
        Returned _ \<Rightarrow>
          (case after_write env server zoneName z changes of
             (answer, effects) \<Rightarrow> (answer, EPatchZone zoneName patches # effects))
      | NotFoundRaised m \<Rightarrow>
          (Inl (AppThrown (NotFoundError ''Zone not found on backend.'')), [EPatchZone zoneName patches])
      | PdnsRaised st m \<Rightarrow> (Inl (validation (e_redact env m)), [EPatchZone zoneName patches])
      | OtherRaised m \<Rightarrow> (Inl (ErrorThrown m), [EPatchZone zoneName patches]))"

definition apply_changes :: "patch_env \<Rightarrow> string \<Rightarrow> zone_user \<Rightarrow> server_row \<Rightarrow> zone_detail \<Rightarrow>
    rrset_change list \<Rightarrow> (thrown + patch_response) \<times> patch_effect list" where
  "apply_changes env zoneName user server z changes =
     (let before = before_map z; conflicts = conflicts_of env zoneName before changes in
      if length conflicts > 0 then (Inr (Conflicts conflicts), [])
      else case sbind (sum_all (change_patch env user zoneName before) changes) zonePatchBody of
             Inl e \<Rightarrow> (Inl e, [])
           | Inr patches \<Rightarrow> send_patch env server zoneName z changes patches)"

definition patchRRsets :: "patch_env \<Rightarrow> string \<Rightarrow> json \<Rightarrow>
    (thrown + patch_response) \<times> patch_effect list" where
  "patchRRsets env zoneParam body =
     (let zoneName = canonicalZoneName zoneParam in
      case admit env body of
        Inl e \<Rightarrow> (Inl e, [])
      | Inr (user, server, changes) \<Rightarrow>
          (case checked env zoneName user server changes of
             Inl e \<Rightarrow> (Inl e, [])
           | Inr z \<Rightarrow> apply_changes env zoneName user server z changes))"

subsection \<open>Validated input\<close>

declare map_of_eq_Some_iff [simp del]

lemma parse_all_Some:
  "parse_all p xs = Some ys \<Longrightarrow> length ys = length xs \<and> (\<forall>y \<in> set ys. \<exists>x \<in> set xs. p x = Some y)"
proof (induction xs arbitrary: ys)
  case (Cons x xs)
  then obtain y zs where "p x = Some y" "parse_all p xs = Some zs" "ys = y # zs"
    by (auto split: option.splits)
  with Cons.IH [of zs] show ?case by auto
qed simp

definition change_ok :: "rrset_change \<Rightarrow> bool" where
  "change_ok c \<longleftrightarrow> name_ok (ch_name c) \<and> rr_type_ok (ch_type c)
     \<and> (\<forall>b. ch_upsert c = Some b \<longrightarrow> ub_records b \<noteq> [])"

lemma parse_records_ne: "parse_records j = Some rs \<Longrightarrow> rs \<noteq> []"
  by (auto simp: parse_records_def dest!: parse_all_Some split: option.splits json.splits if_splits)

lemma parse_name_ok: "parse_name j = Some n \<Longrightarrow> name_ok n"
  by (auto simp: parse_name_def split: option.splits json.splits if_splits)

lemma parse_type_ok: "parse_type j = Some t \<Longrightarrow> rr_type_ok t"
  by (auto simp: parse_type_def split: option.splits json.splits if_splits)

lemma parse_change_ok:
  assumes "parse_change j = Some c"
  shows "change_ok c"
proof -
  let ?body = "\<lambda>body. case (parse_name (jget ''name'' j), parse_type (jget ''type'' j),
              optional parse_expected (jget ''expected'' j), optional parse_bool (jget ''ptr'' j),
              optional parse_bool (jget ''ptrTakeover'' j)) of
          (Some n, Some t, Some e, Some p, Some k) \<Rightarrow>
            Some \<lparr>ch_name = n, ch_type = t, ch_upsert = body, ch_expected = e, ch_ptr = p,
                  ch_ptrTakeover = k\<rparr>
        | _ \<Rightarrow> None"
  have common: "name_ok (ch_name c) \<and> rr_type_ok (ch_type c) \<and> ch_upsert c = body" if "?body body = Some c" for body
    using that parse_name_ok parse_type_ok by (auto split: option.splits)
  show ?thesis
  proof (cases "jget ''kind'' j = Some (JStr ''upsert'')")
    case True
    then obtain ttl rs cm where "parse_records (jget ''records'' j) = Some rs"
      "?body (Some \<lparr>ub_ttl = ttl, ub_records = rs, ub_comment = cm\<rparr>) = Some c"
      using assms unfolding parse_change_def Let_def
      by (cases "parse_ttl (jget ''ttl'' j)"; cases "parse_records (jget ''records'' j)";
          cases "optional parse_comment (jget ''comment'' j)") simp_all
    with common [OF this(2)] parse_records_ne show ?thesis by (auto simp: change_ok_def)
  next
    case False
    then have "?body None = Some c"
      using assms unfolding parse_change_def Let_def by (simp split: if_splits)
    with common [OF this] show ?thesis by (simp add: change_ok_def)
  qed
qed

lemma admit_ok:
  assumes "admit env body = Inr (user, server, changes)"
  shows "changes \<noteq> [] \<and> (\<forall>c \<in> set changes. change_ok c) \<and> sv_disabledAt server = None
    \<and> e_user env = Inr user \<and> e_csrf env = Inr ()"
proof -
  obtain input where i: "parse_patch body = Some input" "e_user env = Inr user" "e_csrf env = Inr ()"
    and s: "(case (if pi_serverSlug input \<noteq> [] then e_findBySlug env (pi_serverSlug input)
                  else e_findDefault env) of
              None \<Rightarrow> Inl (validation ''Unknown or disabled PowerDNS backend.'')
            | Some server \<Rightarrow>
                if sv_disabledAt server \<noteq> None
                then Inl (validation ''Unknown or disabled PowerDNS backend.'')
                else Inr (user, server, pi_changes input)) = Inr (user, server, changes)"
    using assms unfolding admit_def
    by (cases "e_user env"; cases "e_csrf env"; cases "parse_patch body") (auto split: option.splits if_splits)
  have c: "changes = pi_changes input" "sv_disabledAt server = None"
    using s by (cases "if pi_serverSlug input \<noteq> [] then e_findBySlug env (pi_serverSlug input)
                  else e_findDefault env"; simp split: if_splits)+
  obtain cs where cs: "parse_all parse_change cs = Some (pi_changes input)" "1 \<le> length cs"
    using i(1) by (auto simp: parse_patch_def split: option.splits json.splits if_splits)
  from parse_all_Some [OF cs(1)] cs(2) have "pi_changes input \<noteq> []" by auto
  moreover have "\<forall>c \<in> set (pi_changes input). change_ok c"
    using parse_all_Some [OF cs(1)] parse_change_ok by blast
  ultimately show ?thesis using i c by simp
qed

subsection \<open>Duplicate contents merge\<close>

definition dedupe_ok :: "(string \<times> rr_record) list \<Rightarrow> rr_record set \<Rightarrow> bool" where
  "dedupe_ok m seen \<longleftrightarrow> distinct (map fst m) \<and> (\<forall>kr \<in> set m. fst kr = rr_content (snd kr) \<and> snd kr \<in> seen)
     \<and> (\<forall>r \<in> seen. \<exists>q. map_of m (rr_content r) = Some q
          \<and> (rr_disabled q = Some True \<longrightarrow> rr_disabled r = Some True))"

lemma dedupe_step_ok:
  assumes ok: "dedupe_ok m seen"
  shows "dedupe_ok (dedupe_step m r) (insert r seen)"
proof -
  have d: "distinct (map fst m)" and k: "\<forall>kr \<in> set m. fst kr = rr_content (snd kr) \<and> snd kr \<in> seen"
    and c: "\<forall>r \<in> seen. \<exists>q. map_of m (rr_content r) = Some q
          \<and> (rr_disabled q = Some True \<longrightarrow> rr_disabled r = Some True)"
    using ok by (auto simp: dedupe_ok_def)
  have upd: "dedupe_ok (AList.update (rr_content r) r m) (insert r seen)"
    if e: "\<forall>q. map_of m (rr_content r) = Some q \<longrightarrow> rr_disabled q = Some True \<and> rr_disabled r \<noteq> Some True"
  proof -
    have "\<exists>q. map_of (AList.update (rr_content r) r m) (rr_content x) = Some q
        \<and> (rr_disabled q = Some True \<longrightarrow> rr_disabled x = Some True)" if x: "x \<in> insert r seen" for x
    proof (cases "rr_content x = rr_content r")
      case True
      show ?thesis
      proof (cases "x = r")
        case False
        then obtain q where "map_of m (rr_content x) = Some q" using x c by blast
        with True e have "rr_disabled r \<noteq> Some True" by metis
        with True show ?thesis by (simp add: map_of_update)
      qed (simp add: map_of_update)
    next
      case False
      then have "x \<in> seen" using x by auto
      with c False show ?thesis by (simp add: map_of_update)
    qed
    moreover have "distinct (map fst (AList.update (rr_content r) r m))" using d by (rule distinct_update)
    moreover have "\<forall>kr \<in> set (AList.update (rr_content r) r m). fst kr = rr_content (snd kr) \<and> snd kr \<in> insert r seen"
      using k set_update_subset [of "rr_content r" r m] by fastforce
    ultimately show ?thesis unfolding dedupe_ok_def by blast
  qed
  show ?thesis
  proof (cases "map_of m (rr_content r)")
    case None
    then show ?thesis using upd by (simp add: dedupe_step_def)
  next
    case (Some q)
    show ?thesis
    proof (cases "rr_disabled q = Some True \<and> rr_disabled r \<noteq> Some True")
      case True
      then show ?thesis using upd Some by (simp add: dedupe_step_def)
    next
      case False
      then have "dedupe_step m r = m" using Some by (auto simp: dedupe_step_def)
      moreover have "dedupe_ok m (insert r seen)"
        using d k c Some False unfolding dedupe_ok_def by blast
      ultimately show ?thesis by simp
    qed
  qed
qed

lemma dedupe_correct:
  "distinct (map rr_content (dedupeRecordsByContent rs)) \<and> set (dedupeRecordsByContent rs) \<subseteq> set rs
   \<and> (\<forall>r \<in> set rs. \<exists>q \<in> set (dedupeRecordsByContent rs). rr_content q = rr_content r
        \<and> (rr_disabled q = Some True \<longrightarrow> rr_disabled r = Some True))"
proof -
  have "dedupe_ok (foldl dedupe_step m rs) (seen \<union> set rs)" if "dedupe_ok m seen" for m seen
    using that
  proof (induction rs arbitrary: m seen)
    case (Cons r rs)
    from Cons.IH [OF dedupe_step_ok [OF Cons.prems, of r]] show ?case by simp
  qed simp
  from this [of "[]" "{}"] have ok: "dedupe_ok (foldl dedupe_step [] rs) (set rs)"
    by (simp add: dedupe_ok_def)
  define m where "m = foldl dedupe_step [] rs"
  have d: "distinct (map fst m)" and k: "\<forall>kr \<in> set m. fst kr = rr_content (snd kr) \<and> snd kr \<in> set rs"
    and c: "\<forall>r \<in> set rs. \<exists>q. map_of m (rr_content r) = Some q
          \<and> (rr_disabled q = Some True \<longrightarrow> rr_disabled r = Some True)"
    using ok unfolding m_def dedupe_ok_def by blast+
  have e: "map rr_content (map snd m) = map fst m" using k by simp
  have "distinct (map rr_content (map snd m))" unfolding e by (rule d)
  moreover have "snd ` set m \<subseteq> set rs" using k by auto
  moreover have "\<exists>q \<in> snd ` set m. rr_content q = rr_content r
        \<and> (rr_disabled q = Some True \<longrightarrow> rr_disabled r = Some True)" if "r \<in> set rs" for r
  proof -
    obtain q where q: "map_of m (rr_content r) = Some q"
      "rr_disabled q = Some True \<longrightarrow> rr_disabled r = Some True" using c \<open>r \<in> set rs\<close> by blast
    then have "(rr_content r, q) \<in> set m" by (simp add: map_of_SomeD)
    with k q(2) show ?thesis by force
  qed
  ultimately show ?thesis
    unfolding dedupeRecordsByContent_def m_def [symmetric] set_map by blast
qed

subsection \<open>From the changes to the patches\<close>

lemma is_alnum_not_ws: "is_alnum c \<Longrightarrow> \<not> is_ws c"
  by (auto simp: is_alnum_def is_digit_def is_ws_def)

lemma name_char_plain: "c \<in> set ''._-*/'' \<Longrightarrow> \<not> is_ws c"
  by (auto simp: is_ws_def)

lemma name_ok_plain: "name_ok n \<Longrightarrow> n \<noteq> [] \<and> (\<forall>c \<in> set n. \<not> is_ws c)"
  using is_alnum_not_ws name_char_plain by (auto simp: name_ok_def list_all_iff simp del: set_simps)

lemma name_ok_lower:
  assumes "name_ok n"
  shows "js_lower (js_trim n) \<noteq> []" "js_lower (js_trim n) \<noteq> ''@''"
    "\<forall>c \<in> set (js_lower (js_trim n)). \<not> is_ws c"
proof -
  have t: "js_trim n = n" using name_ok_plain [OF assms] by (intro js_trim_no_ws) blast
  show "js_lower (js_trim n) \<noteq> []" using name_ok_plain [OF assms] unfolding t by simp
  show "\<forall>c \<in> set (js_lower (js_trim n)). \<not> is_ws c"
    using name_ok_plain [OF assms] unfolding t js_lower_def by auto
  show "js_lower (js_trim n) \<noteq> ''@''"
  proof
    assume "js_lower (js_trim n) = ''@''"
    then have "map lower_char n = [CHR ''@'']" unfolding t js_lower_def .
    then obtain c where c: "n = [c]" "lower_char c = CHR ''@''" by auto
    then have "is_alnum c \<or> c \<in> set ''._-*/''" using assms by (simp add: name_ok_def)
    moreover have "c = CHR ''@''" using c(2) lower_char_eq_low [of "CHR ''@''" c] by simp
    ultimately show False by (simp add: is_alnum_def is_digit_def)
  qed
qed

lemma trim_dotted: "s \<noteq> [] \<Longrightarrow> \<not> is_ws (hd s) \<Longrightarrow> ends_with s ''.'' \<Longrightarrow> js_trim s = s"
  by (rule js_trim_id) (auto simp: ends_with_dot)

text \<open>The owner name a validated change resolves to is a dotted name the builders keep.\<close>

lemma normalized_dotted:
  assumes "name_ok n" "zone = canonicalZoneName z"
  shows "ensureTrailingDot (normalizeName n zone) = Inr (normalizeName n zone)"
proof -
  let ?t = "js_lower (js_trim n)"
  have ne: "?t \<noteq> []" "?t \<noteq> ''@''" and ws: "\<not> is_ws (hd ?t)"
    using name_ok_lower [OF assms(1)] hd_in_set by blast+
  show ?thesis
  proof (cases "ends_with ?t ''.''")
    case True
    then show ?thesis
      using ne ws by (simp add: normalizeName_def ensureTrailingDot_dotted trim_dotted)
  next
    case False
    have e: "ends_with (?t @ ''.'' @ zone) ''.''"
    proof (cases "zone = []")
      case zne: False
      then have "ends_with zone ''.''" using canonicalZoneName_dot assms(2) by metis
      with zne show ?thesis by (simp add: ends_with_dot)
    qed (simp add: ends_with_dot)
    have "normalizeName n zone = ?t @ ''.'' @ zone" using ne False by (simp add: normalizeName_def)
    moreover have "js_trim (?t @ ''.'' @ zone) = ?t @ ''.'' @ zone"
      using ne ws e by (intro trim_dotted) (simp_all add: hd_append)
    ultimately show ?thesis using e by (simp add: ensureTrailingDot_dotted)
  qed
qed

lemma type_ok_upper:
  assumes "rr_type_ok t"
  shows "js_upper t = t" "js_trim t = t"
proof -
  have c: "is_digit c \<or> 65 \<le> code c \<and> code c \<le> 90" if "c \<in> set t" for c
    using assms that by (simp add: rr_type_ok_def list_all_iff)
  have "upper_char c = [c]" if "c \<in> set t" for c
    using c [OF that] by (auto simp: upper_char_def is_digit_def)
  then show "js_upper t = t" unfolding js_upper_def by (induction t) simp_all
  show "js_trim t = t"
  proof (rule js_trim_no_ws)
    fix x assume "x \<in> set t"
    from c [OF this] show "\<not> is_ws x" by (auto simp: is_digit_def is_ws_def)
  qed
qed

text \<open>What the patch of a change is.\<close>

definition patch_for :: "string \<Rightarrow> rrset_change \<Rightarrow> rrset_patch \<Rightarrow> bool" where
  "patch_for zone c p \<longleftrightarrow> pt_name p = normalizeName (ch_name c) zone \<and> pt_type p = ch_type c
     \<and> (case ch_upsert c of
          Some body \<Rightarrow> pt_changetype p = REPLACE \<and> pt_ttl p = Some (ub_ttl body)
            \<and> pt_records p = Some (dedupeRecordsByContent (ub_records body))
            \<and> dedupeRecordsByContent (ub_records body) \<noteq> []
        | None \<Rightarrow> pt_changetype p = DELETE \<and> pt_records p = None)"

lemma dedupe_ne: "rs \<noteq> [] \<Longrightarrow> dedupeRecordsByContent rs \<noteq> []"
  using dedupe_correct [of rs] by (cases rs) auto

lemma change_patch_ok:
  assumes "change_ok c" "zone = canonicalZoneName z"
  shows "\<exists>p. change_patch env user zone before c = Inr p \<and> patch_for zone c p"
proof -
  note n = normalized_dotted [OF _ assms(2)] and t = type_ok_upper
  from assms(1) have ok: "name_ok (ch_name c)" "rr_type_ok (ch_type c)"
    "\<forall>b. ch_upsert c = Some b \<longrightarrow> ub_records b \<noteq> []" by (simp_all add: change_ok_def)
  show ?thesis
  proof (cases "ch_upsert c")
    case None
    then show ?thesis
      using n [OF ok(1)] t [OF ok(2)]
      by (simp add: change_patch_def Let_def deleteRRset_def patch_for_def)
  next
    case (Some body)
    then have ne: "dedupeRecordsByContent (ub_records body) \<noteq> []" using ok(3) dedupe_ne by blast
    then show ?thesis
      using Some n [OF ok(1)] t [OF ok(2)]
      by (simp add: change_patch_def Let_def replaceRRset_def patch_for_def)
  qed
qed

lemma patches_ok:
  assumes "\<forall>c \<in> set changes. change_ok c" "zone = canonicalZoneName z"
  shows "\<exists>ps. sum_all (change_patch env user zone before) changes = Inr ps
     \<and> list_all2 (patch_for zone) changes ps"
  using assms(1)
proof (induction changes)
  case (Cons c changes)
  obtain p where "change_patch env user zone before c = Inr p" "patch_for zone c p"
    using change_patch_ok [OF _ assms(2)] Cons.prems by (metis list.set_intros(1))
  moreover obtain ps where "sum_all (change_patch env user zone before) changes = Inr ps"
    "list_all2 (patch_for zone) changes ps" using Cons by auto
  ultimately show ?case by simp
qed simp

subsection \<open>What reaches PowerDNS\<close>

lemma announce_effects [simp]:
  "EPatchZone z ps \<notin> set (announce server zone zd changes)"
  "EAutoPtr ptrs \<notin> set (announce server zone zd changes)"
  "\<exists>slug. EPublish zone slug \<in> set (announce server zone zd changes)"
  by (auto simp: announce_def audit_action_def Let_def)

lemma maintain_ptr_effects [simp]: "EPatchZone z ps \<notin> set (snd (maintain_ptr env zone before changes))"
  by (auto simp: maintain_ptr_def split: sum.splits)

lemma maintain_ptr_fails:
  assumes "fst (maintain_ptr env zone before changes) = Inl e"
  shows "e_zoneAutoPtr env = Inl e \<and> snd (maintain_ptr env zone before changes) = []
       \<and> (\<exists>c \<in> set changes. isAddressType (ch_type c) \<and> ch_ptr c = None)
     \<or> (\<exists>ptrs. snd (maintain_ptr env zone before changes) = [EAutoPtr ptrs] \<and> e_autoPtr env ptrs = Inl e)"
proof (cases "enabled_ptr_changes env zone before changes")
  case (Inl e')
  then have "e' = e" "list_ex (\<lambda>c. ch_ptr c = None) (filter (\<lambda>c. isAddressType (ch_type c)) changes)"
    "e_zoneAutoPtr env = Inl e"
    using assms by (auto simp: maintain_ptr_def enabled_ptr_changes_def sbind_def Let_def
        split: sum.splits if_splits)
  then show ?thesis using Inl by (auto simp: maintain_ptr_def list_ex_iff)
next
  case (Inr ptrs)
  then show ?thesis using assms by (auto simp: maintain_ptr_def split: if_splits sum.splits)
qed

lemma send_patch_accepted:
  assumes "e_patchZone env patches = Returned u"
  shows "snd (send_patch env server zone zd changes patches)
       = EPatchZone zone patches # announce server zone zd changes
           @ snd (maintain_ptr env zone (before_map zd) changes)"
    and "fst (send_patch env server zone zd changes patches)
       = sbind (fst (maintain_ptr env zone (before_map zd) changes))
           (\<lambda>ran. Inr (Applied (length changes) ran))"
  using assms by (cases "maintain_ptr env zone (before_map zd) changes",
      simp add: send_patch_def after_write_def)+

lemma send_patch_refused:
  assumes "\<And>u. e_patchZone env patches \<noteq> Returned u"
  shows "snd (send_patch env server zone zd changes patches) = [EPatchZone zone patches]"
    and "\<exists>e. fst (send_patch env server zone zd changes patches) = Inl e"
  using assms by (cases "e_patchZone env patches"; simp add: send_patch_def)+

lemma send_patch_effect:
  "EPatchZone z ps \<in> set (snd (send_patch env server zone zd changes patches)) \<Longrightarrow> z = zone \<and> ps = patches"
  by (cases "e_patchZone env patches") (auto simp: send_patch_accepted send_patch_refused)

lemma patched_obtain:
  assumes "EPatchZone z ps \<in> set (snd (patchRRsets env zoneParam body))"
  obtains user server changes zd where
    "z = canonicalZoneName zoneParam" "admit env body = Inr (user, server, changes)"
    "checked env z user server changes = Inr zd"
    "conflicts_of env z (before_map zd) changes = []"
    "sum_all (change_patch env user z (before_map zd)) changes = Inr ps"
proof -
  let ?z = "canonicalZoneName zoneParam"
  obtain user server changes where a: "admit env body = Inr (user, server, changes)"
    using assms by (cases "admit env body") (auto simp: patchRRsets_def Let_def)
  obtain zd where c: "checked env ?z user server changes = Inr zd"
    using assms a by (cases "checked env ?z user server changes") (auto simp: patchRRsets_def Let_def)
  have m: "EPatchZone z ps \<in> set (snd (apply_changes env ?z user server zd changes))"
    using assms a c by (simp add: patchRRsets_def Let_def)
  have n: "conflicts_of env ?z (before_map zd) changes = []"
    using m by (auto simp: apply_changes_def Let_def split: if_splits)
  obtain patches where p: "sbind (sum_all (change_patch env user ?z (before_map zd)) changes) zonePatchBody = Inr patches"
    using m n by (cases "sbind (sum_all (change_patch env user ?z (before_map zd)) changes) zonePatchBody")
      (auto simp: apply_changes_def Let_def)
  then have "EPatchZone z ps \<in> set (snd (send_patch env server ?z zd changes patches))"
    using m n by (simp add: apply_changes_def Let_def)
  from send_patch_effect [OF this] have "z = ?z" "ps = patches" by simp_all
  moreover have "sum_all (change_patch env user ?z (before_map zd)) changes = Inr patches"
    using p by (auto simp: sbind_Inr zonePatchBody_def split: if_splits)
  ultimately show ?thesis using that a c n by metis
qed

lemma authorize_iff:
  "authorize has zone changes = Inr () \<longleftrightarrow>
     (\<forall>c \<in> set changes.
        (\<forall>extra. snd (classify_change zone c) = Some extra \<longrightarrow> has extra)
        \<and> (snd (classify_change zone c) \<noteq> Some ''soa.update'' \<longrightarrow>
             (if ch_upsert c \<noteq> None then has ''record.create'' \<or> has ''record.update'' else has ''record.delete'')))"
proof -
  let ?P = "\<lambda>c. case snd c of Some extra \<Rightarrow> \<not> has extra | None \<Rightarrow> False"
  let ?cl = "map (classify_change zone) changes"
  have f: "find ?P ?cl = None \<longleftrightarrow> (\<forall>c \<in> set changes. \<forall>extra. snd (classify_change zone c) = Some extra \<longrightarrow> has extra)"
    by (auto simp: find_None_ball split: option.splits)
  have some: "\<exists>k extra. find ?P ?cl = Some (k, Some extra)" if "find ?P ?cl \<noteq> None"
  proof -
    obtain x where "find ?P ?cl = Some x" using \<open>find ?P ?cl \<noteq> None\<close> by blast
    with find_SomeD [OF this] show ?thesis by (cases x; cases "snd x") auto
  qed
  have k: "fst (classify_change zone c) \<longleftrightarrow> ch_upsert c \<noteq> None" for c
    by (simp add: classify_change_def)
  show ?thesis
  proof (cases "find ?P ?cl")
    case None
    then show ?thesis
      using f by (auto simp: authorize_def Let_def list_ex_iff k)
  next
    case (Some x)
    with some obtain kk extra where "find ?P ?cl = Some (kk, Some extra)" by blast
    then have "authorize has zone changes \<noteq> Inr ()" by (simp add: authorize_def Let_def)
    with f Some show ?thesis by auto
  qed
qed

lemma checked_iff:
  "checked env zone user server changes = Inr zd \<longleftrightarrow>
     authorize (canActOnZone user (sv_id server) zone) zone changes = Inr ()
     \<and> load_before env zone changes = Inr zd \<and> assertEditableZoneKind (zd_kind zd) = Inr ()
     \<and> lua_gate env changes = Inr ()"
  by (auto simp: checked_def sbind_Inr)

text \<open>
  C1. Whatever the route sends to PowerDNS was authorized, for the very name and type it sends:
  an SOA only for a caller who may update the SOA, an apex NS only with its extra permission, and
  everything but the SOA only with the record permission of the kind of change.  The zone is one
  whose records may be edited, and each patch replaces with at least one record or deletes.
\<close>

theorem patch_authorized:
  assumes "EPatchZone z ps \<in> set (snd (patchRRsets env zoneParam body))"
  shows "\<exists>user server changes zd. admit env body = Inr (user, server, changes)
     \<and> e_user env = Inr user \<and> e_csrf env = Inr () \<and> load_before env z changes = Inr zd
     \<and> op_rrsets (zoneCapabilities (zd_kind zd)) \<and> length ps = length changes
     \<and> (\<forall>p \<in> set ps. let has = canActOnZone user (sv_id server) z;
            extra = protectedRRsetPermission (pt_name p) (pt_type p) z in
          (\<forall>e. extra = Some e \<longrightarrow> has e)
          \<and> (pt_changetype p = REPLACE \<and> (\<exists>rs. pt_records p = Some rs \<and> rs \<noteq> [])
               \<and> (extra \<noteq> Some ''soa.update'' \<longrightarrow> has ''record.create'' \<or> has ''record.update'')
             \<or> pt_changetype p = DELETE \<and> (extra \<noteq> Some ''soa.update'' \<longrightarrow> has ''record.delete'')))"
proof -
  obtain user server changes zd where z: "z = canonicalZoneName zoneParam"
    and a: "admit env body = Inr (user, server, changes)"
    and c: "checked env z user server changes = Inr zd"
    and s: "sum_all (change_patch env user z (before_map zd)) changes = Inr ps"
    using patched_obtain [OF assms] .
  note ok = admit_ok [OF a]
  obtain qs where "sum_all (change_patch env user z (before_map zd)) changes = Inr qs"
    and l: "list_all2 (patch_for z) changes qs"
    using patches_ok [OF _ z] ok by blast
  with s have l: "list_all2 (patch_for z) changes ps" by simp
  let ?has = "canActOnZone user (sv_id server) z"
  have auth: "authorize ?has z changes = Inr ()" and load: "load_before env z changes = Inr zd"
    and edit: "assertEditableZoneKind (zd_kind zd) = Inr ()" using c by (simp_all add: checked_iff)
  have one: "\<exists>ch \<in> set changes. patch_for z ch p" if "p \<in> set ps" for p
    using l that by (metis list_all2_conv_all_nth in_set_conv_nth)
  have "let extra = protectedRRsetPermission (pt_name p) (pt_type p) z in
          (\<forall>e. extra = Some e \<longrightarrow> ?has e)
          \<and> (pt_changetype p = REPLACE \<and> (\<exists>rs. pt_records p = Some rs \<and> rs \<noteq> [])
               \<and> (extra \<noteq> Some ''soa.update'' \<longrightarrow> ?has ''record.create'' \<or> ?has ''record.update'')
             \<or> pt_changetype p = DELETE \<and> (extra \<noteq> Some ''soa.update'' \<longrightarrow> ?has ''record.delete''))"
    if "p \<in> set ps" for p
  proof -
    obtain ch where ch: "ch \<in> set changes" "patch_for z ch p" using one \<open>p \<in> set ps\<close> by blast
    have e: "protectedRRsetPermission (pt_name p) (pt_type p) z = snd (classify_change z ch)"
      using ch(2) by (simp add: patch_for_def classify_change_def)
    have per: "(\<forall>extra. snd (classify_change z ch) = Some extra \<longrightarrow> ?has extra)
        \<and> (snd (classify_change z ch) \<noteq> Some ''soa.update'' \<longrightarrow>
             (if ch_upsert ch \<noteq> None then ?has ''record.create'' \<or> ?has ''record.update'' else ?has ''record.delete''))"
      using auth ch(1) unfolding authorize_iff by blast
    show ?thesis
      unfolding e Let_def using per ch(2)
      by (cases "ch_upsert ch") (simp_all add: patch_for_def)
  qed
  then show ?thesis
    using a ok load edit l unfolding editable_iff_rrsets [symmetric]
    by (intro exI [of _ user] exI [of _ server] exI [of _ changes] exI [of _ zd])
      (simp add: Let_def list_all2_lengthD)
qed

lemma answered_obtain:
  assumes "patchRRsets env zoneParam body = (answer, effects)" "effects \<noteq> [] \<or> (\<forall>e. answer \<noteq> Inl e)"
  obtains user server changes zd where
    "admit env body = Inr (user, server, changes)"
    "load_before env (canonicalZoneName zoneParam) changes = Inr zd"
    "apply_changes env (canonicalZoneName zoneParam) user server zd changes = (answer, effects)"
proof -
  let ?z = "canonicalZoneName zoneParam"
  obtain user server changes where a: "admit env body = Inr (user, server, changes)"
    using assms by (cases "admit env body") (auto simp: patchRRsets_def Let_def)
  obtain zd where c: "checked env ?z user server changes = Inr zd"
    using assms a by (cases "checked env ?z user server changes") (auto simp: patchRRsets_def Let_def)
  show ?thesis
    using that [OF a, of zd] assms(1) a c by (simp add: patchRRsets_def Let_def checked_iff)
qed

lemma apply_changes_cases:
  assumes "apply_changes env z user server zd changes = (answer, effects)"
    and "\<forall>c \<in> set changes. change_ok c" "z = canonicalZoneName zoneParam"
  obtains
    (conflict) "conflicts_of env z (before_map zd) changes \<noteq> []"
      "answer = Inr (Conflicts (conflicts_of env z (before_map zd) changes))" "effects = []"
  | (invalid) e where "answer = Inl e" "effects = []"
  | (refused) ps e where "conflicts_of env z (before_map zd) changes = []"
      "list_all2 (patch_for z) changes ps" "e_patchZone env ps \<noteq> Returned ()"
      "answer = Inl e" "effects = [EPatchZone z ps]"
  | (accepted) ps where "conflicts_of env z (before_map zd) changes = []"
      "list_all2 (patch_for z) changes ps" "e_patchZone env ps = Returned ()"
      "answer = sbind (fst (maintain_ptr env z (before_map zd) changes))
         (\<lambda>ran. Inr (Applied (length changes) ran))"
      "effects = EPatchZone z ps # announce server z zd changes
         @ snd (maintain_ptr env z (before_map zd) changes)"
proof -
  obtain ps where ps: "sum_all (change_patch env user z (before_map zd)) changes = Inr ps"
    and l: "list_all2 (patch_for z) changes ps"
    using patches_ok [OF assms(2,3)] by blast
  show ?thesis
  proof (cases "conflicts_of env z (before_map zd) changes = []")
    case False
    then show ?thesis using assms(1) conflict by (simp add: apply_changes_def Let_def)
  next
    case none: True
    show ?thesis
    proof (cases "zonePatchBody ps")
      case (Inl e)
      then have "answer = Inl e \<and> effects = []"
        using assms(1) ps none by (auto simp: apply_changes_def Let_def)
      with invalid show ?thesis by blast
    next
      case (Inr qs)
      then have "qs = ps" by (simp add: zonePatchBody_def split: if_splits)
      with Inr have send: "send_patch env server z zd changes ps = (answer, effects)"
        using assms(1) ps none by (simp add: apply_changes_def Let_def)
      show ?thesis
      proof (cases "e_patchZone env ps = Returned ()")
        case True
        from send_patch_accepted [OF this, of server z zd changes] show ?thesis
          using accepted [OF none l True] send by simp
      next
        case False
        then have r: "\<And>u. e_patchZone env ps \<noteq> Returned u" by simp
        from send_patch_refused [OF r, of server z zd changes] show ?thesis
          using refused [OF none l False] send by auto
      qed
    qed
  qed
qed


text \<open>A request that goes through: one address record for a new name.\<close>

definition demo_env :: patch_env where
  "demo_env = \<lparr>
     e_user = Inr \<lparr>globalPermissions = [''record.update''], zoneGrants = [], zoneScopedPermissions = [],
                 u_id = ''u1'', u_email = None\<rparr>,
     e_csrf = Inr (),
     e_findBySlug = (\<lambda>s. Some \<lparr>sv_id = ''s1'', sv_slug = s, sv_disabledAt = None\<rparr>),
     e_findDefault = None, e_supportsFilter = False,
     e_getZone = (\<lambda>_. Returned \<lparr>zd_kind = ''Native'', zd_rrsets = Some []\<rparr>),
     e_metadata = Returned [], e_config = Returned [], e_patchZone = (\<lambda>_. Returned ()),
     e_zoneAutoPtr = Inr False, e_autoPtr = (\<lambda>_. Inr ()), e_redact = (\<lambda>s. s), e_lc = unit_compare, e_sha = (\<lambda>s. s), e_now = 0\<rparr>"

definition demo_body :: json where
  "demo_body = JObj [(''serverSlug'', JStr ''main''), (''changes'', JArr [JObj
     [(''kind'', JStr ''upsert''), (''name'', JStr ''WWW''), (''type'', JStr ''a''), (''ttl'', JNum 300),
      (''records'', JArr [JObj [(''content'', JStr ''192.0.2.1'')]])]])]"

definition demo_patch :: rrset_patch where
  "demo_patch = \<lparr>pt_name = ''www.example.com.'', pt_type = ''A'', pt_ttl = Some 300,
     pt_changetype = REPLACE,
     pt_records = Some [\<lparr>rr_content = ''192.0.2.1'', rr_disabled = None\<rparr>], pt_comments = Some []\<rparr>"

definition demo_request :: rrset_change where
  "demo_request = \<lparr>ch_name = ''WWW'', ch_type = ''A'',
     ch_upsert = Some \<lparr>ub_ttl = 300,
       ub_records = [\<lparr>rr_content = ''192.0.2.1'', rr_disabled = None\<rparr>], ub_comment = None\<rparr>,
     ch_expected = None, ch_ptr = None, ch_ptrTakeover = None\<rparr>"

definition demo_user :: zone_user where
  "demo_user = \<lparr>globalPermissions = [''record.update''], zoneGrants = [], zoneScopedPermissions = [],
     u_id = ''u1'', u_email = None\<rparr>"

definition demo_server :: server_row where
  "demo_server = \<lparr>sv_id = ''s1'', sv_slug = ''main'', sv_disabledAt = None\<rparr>"

lemma demo_parse: "parse_patch demo_body = Some \<lparr>pi_serverSlug = ''main'', pi_changes = [demo_request]\<rparr>"
proof -
  have u: "js_upper ''a'' = ''A''" by code_simp
  have "parse_change (JObj [(''kind'', JStr ''upsert''), (''name'', JStr ''WWW''), (''type'', JStr ''a''),
      (''ttl'', JNum 300), (''records'', JArr [JObj [(''content'', JStr ''192.0.2.1'')]])]) = Some demo_request"
    by (simp add: demo_request_def parse_change_def jget_def parse_name_def name_ok_def is_alnum_def
        is_digit_def parse_type_def rr_type_ok_def u parse_ttl_def parse_records_def parse_record_def
        optional_def has_control_def Let_def)
  then show ?thesis by (simp add: demo_body_def parse_patch_def jget_def)
qed

lemma demo_patched: "patchRRsets demo_env ''Example.com'' demo_body = (Inr (Applied 1 False),
    [EPatchZone ''example.com.'' [demo_patch], EPublish ''example.com.'' ''main'', EPoll,
     EAudit ''record.create'' ''www.example.com.|A'', EInvalidate])"
proof -
  let ?zd = "\<lparr>zd_kind = ''Native'', zd_rrsets = Some []\<rparr>"
  have a: "admit demo_env demo_body = Inr (demo_user, demo_server, [demo_request])"
    by (simp add: admit_def demo_parse demo_env_def demo_user_def demo_server_def)
  have z: "canonicalZoneName ''Example.com'' = ''example.com.''" by code_simp
  have c: "checked demo_env ''example.com.'' demo_user demo_server [demo_request] = Inr ?zd"
    by code_simp
  have "apply_changes demo_env ''example.com.'' demo_user demo_server ?zd [demo_request] = (Inr (Applied 1 False),
    [EPatchZone ''example.com.'' [demo_patch], EPublish ''example.com.'' ''main'', EPoll,
     EAudit ''record.create'' ''www.example.com.|A'', EInvalidate])"
    by code_simp
  then show ?thesis by (simp add: patchRRsets_def Let_def a z c)
qed

lemma demo_patch_sent:
  "EPatchZone ''example.com.'' [demo_patch] \<in> set (snd (patchRRsets demo_env ''Example.com'' demo_body))"
  by (simp add: demo_patched)

theorem patch_authorized_witness:
  "\<exists>user server changes. admit demo_env demo_body = Inr (user, server, changes)
     \<and> (canActOnZone user (sv_id server) ''example.com.'' ''record.create''
        \<or> canActOnZone user (sv_id server) ''example.com.'' ''record.update'')"
proof -
  have "protectedRRsetPermission (pt_name demo_patch) (pt_type demo_patch) ''example.com.'' = None"
    "pt_changetype demo_patch = REPLACE" by code_simp+
  then show ?thesis using patch_authorized [OF demo_patch_sent] by (auto simp: Let_def)
qed


text \<open>The comment above the automatic PTR part says that it never fails the request.  It can, when
  the list of backends cannot be read: the records are written and the answer is an error.\<close>

lemma applied_batch_answered_with_error:
  "\<exists>ptrs. patchRRsets (demo_env\<lparr>e_zoneAutoPtr := Inr True, e_autoPtr := \<lambda>_. Inl (ErrorThrown ''db'')\<rparr>)
       ''Example.com'' demo_body =
     (Inl (ErrorThrown ''db''),
      [EPatchZone ''example.com.'' [demo_patch], EPublish ''example.com.'' ''main'', EPoll,
       EAudit ''record.create'' ''www.example.com.|A'', EAutoPtr ptrs])"
proof -
  let ?env = "demo_env\<lparr>e_zoneAutoPtr := Inr True, e_autoPtr := \<lambda>_. Inl (ErrorThrown ''db'')\<rparr>"
  let ?zd = "\<lparr>zd_kind = ''Native'', zd_rrsets = Some []\<rparr>"
  have a: "admit ?env demo_body = Inr (demo_user, demo_server, [demo_request])"
    by (simp add: admit_def demo_parse demo_env_def demo_user_def demo_server_def)
  have z: "canonicalZoneName ''Example.com'' = ''example.com.''" by code_simp
  have c: "checked ?env ''example.com.'' demo_user demo_server [demo_request] = Inr ?zd"
    by code_simp
  have "apply_changes ?env ''example.com.'' demo_user demo_server ?zd [demo_request] =
     (Inl (ErrorThrown ''db''),
      [EPatchZone ''example.com.'' [demo_patch], EPublish ''example.com.'' ''main'', EPoll,
       EAudit ''record.create'' ''www.example.com.|A'',
       EAutoPtr [ptr_change_of ''example.com.'' [] demo_request]])"
    by code_simp
  then show ?thesis by (simp add: patchRRsets_def Let_def a z c)
qed

end
