(* ===== verification/RateLimit.thy ===== *)
theory RateLimit
  imports Complex_Main Prelude
begin

text \<open>
  The token-bucket limiter of \<open>lib/auth/rate-limit.ts\<close>: the in-process buckets, the eviction of
  the oldest, the Redis script that does the same on a shared bucket, and the fallback between
  them.  Times are milliseconds.  Tokens and rates are JavaScript numbers in the code; here they
  are exact rationals.
\<close>

section \<open>Buckets\<close>

record bucket =
  bk_tokens :: rat
  bk_lastRefill :: int

record limiter_options =
  lo_capacity :: rat
  lo_refillPerSec :: rat

datatype rate_result = Allowed | Limited int

type_synonym buckets = "(string \<times> bucket) list"

definition MAX_KEYS :: nat where "MAX_KEYS = 50000"

definition refill :: "limiter_options \<Rightarrow> int \<Rightarrow> bucket \<Rightarrow> bucket" where
  "refill opts now b =
     (let elapsedSec = of_int (now - bk_lastRefill b) / 1000 in
      \<lparr>bk_tokens = min (lo_capacity opts) (bk_tokens b + elapsedSec * lo_refillPerSec opts),
       bk_lastRefill = now\<rparr>)"

definition spend :: "limiter_options \<Rightarrow> bucket \<Rightarrow> rate_result \<times> bucket" where
  "spend opts b =
     (if bk_tokens b \<ge> 1 then (Allowed, b\<lparr>bk_tokens := bk_tokens b - 1\<rparr>)
      else (Limited \<lceil>(1 - bk_tokens b) / lo_refillPerSec opts\<rceil>, b))"

text \<open>The scan of \<open>evictOldest\<close>: the first key with the least refill time.\<close>

fun oldest :: "(string \<times> int) option \<Rightarrow> buckets \<Rightarrow> (string \<times> int) option" where
  "oldest best [] = best"
| "oldest best ((k, b) # rest) =
     oldest (case best of
               None \<Rightarrow> Some (k, bk_lastRefill b)
             | Some (_, oldestTime) \<Rightarrow>
                 if bk_lastRefill b < oldestTime then Some (k, bk_lastRefill b) else best) rest"

definition evictOldest :: "buckets \<Rightarrow> buckets" where
  "evictOldest bs =
     (case oldest None bs of
        None \<Rightarrow> bs
      | Some (oldestKey, _) \<Rightarrow> if oldestKey \<noteq> [] then AList.delete oldestKey bs else bs)"

definition takeLocal :: "limiter_options \<Rightarrow> int \<Rightarrow> string \<Rightarrow> buckets \<Rightarrow> rate_result \<times> buckets" where
  "takeLocal opts now key bs =
     (case map_of bs key of
        None \<Rightarrow>
          let room = (if length bs \<ge> MAX_KEYS then evictOldest bs else bs);
              (r, b) = spend opts \<lparr>bk_tokens = lo_capacity opts, bk_lastRefill = now\<rparr>
          in (r, AList.update key b room)
      | Some bucket \<Rightarrow>
          let (r, b) = spend opts (refill opts now bucket) in (r, AList.update key b bs))"

section \<open>The shared bucket\<close>

text \<open>
  \<open>TOKEN_BUCKET_LUA\<close>: the stored hash is the bucket, \<open>None\<close> when the key is absent or expired; the
  result is \<open>{allowed, retry}\<close>, the hash written back and the expiry in milliseconds.
\<close>

definition lua_expiry :: "limiter_options \<Rightarrow> int" where
  "lua_expiry opts = \<lceil>lo_capacity opts / lo_refillPerSec opts * 1000\<rceil> + 1000"

definition lua_take :: "limiter_options \<Rightarrow> int \<Rightarrow> bucket option \<Rightarrow> (int \<times> int) \<times> bucket" where
  "lua_take opts now stored =
     (let b = (case stored of
                 None \<Rightarrow> \<lparr>bk_tokens = lo_capacity opts, bk_lastRefill = now\<rparr> | Some b \<Rightarrow> b);
          elapsed = of_int (now - bk_lastRefill b) / 1000;
          tokens = min (lo_capacity opts) (bk_tokens b + elapsed * lo_refillPerSec opts)
      in if tokens \<ge> 1 then ((1, 0), \<lparr>bk_tokens = tokens - 1, bk_lastRefill = now\<rparr>)
         else ((0, \<lceil>(1 - tokens) / lo_refillPerSec opts\<rceil>),
               \<lparr>bk_tokens = tokens, bk_lastRefill = now\<rparr>))"

text \<open>
  \<open>takeShared\<close>.  What \<open>redis.eval\<close> gives is \<open>Some\<close> of the reply; \<open>None\<close> stands for Redis unset or
  a command that fails, which the code answers alike.
\<close>

definition takeShared :: "limiter_options \<Rightarrow> int \<Rightarrow> string \<Rightarrow> (int \<times> int) option \<Rightarrow> buckets \<Rightarrow>
    rate_result \<times> buckets" where
  "takeShared opts now key reply bs =
     (case reply of
        Some (ok, retry) \<Rightarrow> (if ok = 1 then Allowed else Limited retry, bs)
      | None \<Rightarrow> takeLocal opts now key bs)"

definition loginLimiter :: limiter_options where
  "loginLimiter = \<lparr>lo_capacity = 5, lo_refillPerSec = 1 / 60\<rparr>"

definition sensitiveLimiter :: limiter_options where
  "sensitiveLimiter = \<lparr>lo_capacity = 3, lo_refillPerSec = 1 / 300\<rparr>"

definition searchLimiter :: limiter_options where
  "searchLimiter = \<lparr>lo_capacity = 60, lo_refillPerSec = 1\<rparr>"

section \<open>Well-formed buckets\<close>

definition bucket_ok :: "limiter_options \<Rightarrow> int \<Rightarrow> bucket \<Rightarrow> bool" where
  "bucket_ok opts now b \<longleftrightarrow> 0 \<le> bk_tokens b \<and> bk_tokens b \<le> lo_capacity opts \<and> bk_lastRefill b \<le> now"

definition buckets_ok :: "limiter_options \<Rightarrow> int \<Rightarrow> buckets \<Rightarrow> bool" where
  "buckets_ok opts now bs \<longleftrightarrow> distinct (map fst bs) \<and> length bs \<le> MAX_KEYS \<and> [] \<notin> fst ` set bs
     \<and> (\<forall>b \<in> snd ` set bs. bucket_ok opts now b)"

lemma refill_ok:
  assumes "bucket_ok opts t b" "t \<le> now" "0 \<le> lo_refillPerSec opts" "0 \<le> lo_capacity opts"
  shows "bucket_ok opts now (refill opts now b)"
  using assms by (simp add: bucket_ok_def refill_def Let_def)

lemma fresh_ok: "0 \<le> lo_capacity opts \<Longrightarrow> bucket_ok opts now \<lparr>bk_tokens = lo_capacity opts, bk_lastRefill = now\<rparr>"
  by (simp add: bucket_ok_def)

lemma spend_ok: "bucket_ok opts now b \<Longrightarrow> bucket_ok opts now (snd (spend opts b))"
  by (auto simp: bucket_ok_def spend_def)

lemma bucket_ok_later: "bucket_ok opts t b \<Longrightarrow> t \<le> now \<Longrightarrow> bucket_ok opts now b"
  by (simp add: bucket_ok_def)

lemma oldest_Some: "best \<noteq> None \<Longrightarrow> oldest best bs \<noteq> None"
  by (induction best bs rule: oldest.induct) (auto split: option.splits)

lemma oldest_in: "oldest best bs = Some p \<Longrightarrow> best = Some p \<or> fst p \<in> fst ` set bs"
  by (induction best bs rule: oldest.induct) (auto split: option.splits if_splits)

lemma length_delete_le: "length (AList.delete k bs) \<le> length bs"
  by (simp add: AList.delete_eq)

lemma length_delete_in: "k \<in> fst ` set bs \<Longrightarrow> length (AList.delete k bs) < length bs"
proof (induction bs)
  case (Cons p bs)
  then show ?case using length_delete_le [of k bs] by (cases "fst p = k") auto
qed simp

lemma evict_room:
  assumes "bs \<noteq> []" "[] \<notin> fst ` set bs"
  shows "length (evictOldest bs) < length bs"
proof -
  obtain k b rest where bs: "bs = (k, b) # rest" using assms(1) by (cases bs) auto
  have "oldest None bs \<noteq> None" by (simp add: bs oldest_Some)
  then obtain k' t where o: "oldest None bs = Some (k', t)" by auto
  from oldest_in [OF o] have "k' \<in> fst ` set bs" by simp
  moreover from this assms(2) have "k' \<noteq> []" by metis
  ultimately show ?thesis by (simp add: evictOldest_def o length_delete_in)
qed

lemma evict_sub: "set (evictOldest bs) \<subseteq> set bs"
  by (auto simp: evictOldest_def AList.delete_eq split: option.splits)

lemma evict_distinct: "distinct (map fst bs) \<Longrightarrow> distinct (map fst (evictOldest bs))"
  by (auto simp: evictOldest_def distinct_delete split: option.splits)

lemma length_update: "length (AList.update k v bs) = (if k \<in> fst ` set bs then length bs else Suc (length bs))"
  by (induction bs) auto

lemma update_values: "snd ` set (AList.update k v bs) \<subseteq> insert v (snd ` set bs)"
  using set_update_subset [of k v bs] by auto

lemma buckets_ok_update:
  assumes "buckets_ok opts now bs" "bucket_ok opts now b" "k \<noteq> []"
    and "k \<in> fst ` set bs \<or> length bs < MAX_KEYS"
  shows "buckets_ok opts now (AList.update k b bs)"
proof -
  have "\<forall>x \<in> snd ` set (AList.update k b bs). bucket_ok opts now x"
    using assms(1,2) update_values [of k b bs] unfolding buckets_ok_def by blast
  with assms show ?thesis
    by (auto simp: buckets_ok_def distinct_update length_update dom_update)
qed

lemma buckets_ok_evict:
  assumes "buckets_ok opts now bs" "length bs \<ge> MAX_KEYS"
  shows "buckets_ok opts now (evictOldest bs) \<and> length (evictOldest bs) < MAX_KEYS"
proof -
  from assms have n: "length bs = MAX_KEYS" "[] \<notin> fst ` set bs" "distinct (map fst bs)"
    "\<forall>b \<in> snd ` set bs. bucket_ok opts now b" by (auto simp: buckets_ok_def)
  then have "bs \<noteq> []" by (auto simp: MAX_KEYS_def)
  with n(2) evict_room have "length (evictOldest bs) < MAX_KEYS" by (metis n(1))
  moreover have "fst ` set (evictOldest bs) \<subseteq> fst ` set bs" "snd ` set (evictOldest bs) \<subseteq> snd ` set bs"
    using evict_sub by (rule image_mono)+
  ultimately show ?thesis
    using n(2,4) evict_distinct [OF n(3)] unfolding buckets_ok_def by (metis (no_types) less_imp_le subset_iff)
qed

lemma buckets_ok_later: "buckets_ok opts t bs \<Longrightarrow> t \<le> now \<Longrightarrow> buckets_ok opts now bs"
  by (auto simp: buckets_ok_def intro: bucket_ok_later)

lemma takeLocal_ok:
  assumes "buckets_ok opts t bs" "t \<le> now" "key \<noteq> []" "0 \<le> lo_capacity opts" "0 \<le> lo_refillPerSec opts"
  shows "buckets_ok opts now (snd (takeLocal opts now key bs))"
proof (cases "map_of bs key")
  case None
  define room where "room = (if length bs \<ge> MAX_KEYS then evictOldest bs else bs)"
  from assms(1,2) have "buckets_ok opts now bs" by (rule buckets_ok_later)
  with buckets_ok_evict have r: "buckets_ok opts now room" "length room < MAX_KEYS"
    by (auto simp: room_def)
  have "bucket_ok opts now (snd (spend opts \<lparr>bk_tokens = lo_capacity opts, bk_lastRefill = now\<rparr>))"
    by (intro spend_ok fresh_ok assms)
  from buckets_ok_update [OF r(1) this assms(3)] r(2) None show ?thesis
    by (simp add: takeLocal_def Let_def room_def case_prod_beta)
next
  case (Some b)
  then have b: "(key, b) \<in> set bs" by (rule map_of_SomeD)
  with assms(1) have "bucket_ok opts t b" by (force simp: buckets_ok_def)
  with assms have "bucket_ok opts now (snd (spend opts (refill opts now b)))"
    by (intro spend_ok refill_ok)
  from buckets_ok_update [OF buckets_ok_later [OF assms(1,2)] this assms(3)] b Some show ?thesis
    by (force simp: takeLocal_def case_prod_beta)
qed

section \<open>The rate\<close>

text \<open>Calls one after the other: the time and the key of each.\<close>

fun run_takes :: "limiter_options \<Rightarrow> buckets \<Rightarrow> (int \<times> string) list \<Rightarrow> rate_result list \<times> buckets" where
  "run_takes opts bs [] = ([], bs)"
| "run_takes opts bs ((now, key) # calls) =
     (let (r, bs1) = takeLocal opts now key bs; (rs, bs2) = run_takes opts bs1 calls in (r # rs, bs2))"

definition admitted :: "string \<Rightarrow> (int \<times> string) list \<Rightarrow> rate_result list \<Rightarrow> nat" where
  "admitted key calls results =
     length (filter (\<lambda>(c, r). snd c = key \<and> r = Allowed) (zip calls results))"

text \<open>What a key could spend at a time: its tokens with the refill due, a full bucket if it has none.\<close>

definition available :: "limiter_options \<Rightarrow> int \<Rightarrow> string \<Rightarrow> buckets \<Rightarrow> rat" where
  "available opts now key bs =
     (case map_of bs key of None \<Rightarrow> lo_capacity opts | Some b \<Rightarrow> bk_tokens (refill opts now b))"

lemma available_later:
  assumes "t \<le> now" "0 \<le> lo_refillPerSec opts"
  shows "available opts now key bs \<le> available opts t key bs + of_int (now - t) / 1000 * lo_refillPerSec opts"
proof (cases "map_of bs key")
  case None
  with assms show ?thesis by (simp add: available_def)
next
  case (Some b)
  have e: "of_int (now - bk_lastRefill b) / 1000 * lo_refillPerSec opts
    = of_int (t - bk_lastRefill b) / 1000 * lo_refillPerSec opts + of_int (now - t) / 1000 * lo_refillPerSec opts"
    by (simp add: field_simps)
  have "0 \<le> of_int (now - t) / 1000 * lo_refillPerSec opts" using assms by simp
  then show ?thesis unfolding available_def Some option.case refill_def Let_def e by simp
qed

lemma available_bounds:
  assumes "buckets_ok opts t bs" "t \<le> now" "0 \<le> lo_refillPerSec opts" "0 \<le> lo_capacity opts"
  shows "0 \<le> available opts now key bs \<and> available opts now key bs \<le> lo_capacity opts"
proof (cases "map_of bs key")
  case None
  with assms show ?thesis by (simp add: available_def)
next
  case (Some b)
  then have "(key, b) \<in> set bs" by (rule map_of_SomeD)
  with assms have "bucket_ok opts now (refill opts now b)" by (intro refill_ok) (force simp: buckets_ok_def)+
  with Some show ?thesis by (simp add: available_def bucket_ok_def)
qed

text \<open>With a bucket, or room for one, a call evicts nothing: it spends from what is available.\<close>

abbreviation has_room :: "string \<Rightarrow> buckets \<Rightarrow> bool" where
  "has_room key bs \<equiv> map_of bs key \<noteq> None \<or> length bs < MAX_KEYS"

lemma takeLocal_steady:
  assumes "has_room key bs"
  obtains b where "takeLocal opts now key bs = (fst (spend opts b), AList.update key (snd (spend opts b)) bs)"
    "bk_tokens b = available opts now key bs" "bk_lastRefill b = now"
proof (cases "map_of bs key")
  case None
  with assms have "length bs < MAX_KEYS" by simp
  with None show ?thesis
    by (intro that [of "\<lparr>bk_tokens = lo_capacity opts, bk_lastRefill = now\<rparr>"])
      (simp_all add: takeLocal_def available_def case_prod_beta)
next
  case (Some b)
  then show ?thesis
    by (intro that [of "refill opts now b"])
      (simp_all add: takeLocal_def available_def case_prod_beta refill_def Let_def)
qed

lemma available_update:
  "available opts now k (AList.update key b bs)
     = (if k = key then bk_tokens (refill opts now b) else available opts now k bs)"
  by (simp add: available_def AList.update_conv')

lemma take_spends:
  assumes "has_room key bs"
  shows "(if fst (takeLocal opts now key bs) = Allowed then 1 else 0)
      + available opts now key (snd (takeLocal opts now key bs)) \<le> available opts now key bs"
proof -
  obtain b where "takeLocal opts now key bs = (fst (spend opts b), AList.update key (snd (spend opts b)) bs)"
    "bk_tokens b = available opts now key bs" "bk_lastRefill b = now"
    using takeLocal_steady [OF assms] by blast
  then show ?thesis by (auto simp: available_update spend_def refill_def Let_def)
qed

lemma take_other:
  assumes "has_room key bs" "k \<noteq> key"
  shows "available opts now k (snd (takeLocal opts now key bs)) = available opts now k bs"
proof -
  obtain b where "takeLocal opts now key bs = (fst (spend opts b), AList.update key (snd (spend opts b)) bs)"
    using takeLocal_steady [OF assms(1)] by blast
  with assms(2) show ?thesis by (simp add: available_update)
qed

lemma take_keys:
  assumes "has_room key bs"
  shows "fst ` set (snd (takeLocal opts now key bs)) = insert key (fst ` set bs)"
proof -
  obtain b where "takeLocal opts now key bs = (fst (spend opts b), AList.update key (snd (spend opts b)) bs)"
    using takeLocal_steady [OF assms(1)] by blast
  then show ?thesis by (simp add: dom_update)
qed

lemma few_keys_room:
  assumes "buckets_ok opts t bs" "card (insert key (fst ` set bs)) \<le> MAX_KEYS"
  shows "has_room key bs"
proof (cases "key \<in> fst ` set bs")
  case True
  then show ?thesis by (metis map_of_eq_None_iff)
next
  case False
  from assms(1) have "card (fst ` set bs) = length bs"
    by (metis buckets_ok_def distinct_card image_set length_map)
  with False assms(2) show ?thesis by simp
qed

lemma admitted_Cons:
  "admitted k ((now, key) # calls) (r # rs)
     = (if key = k \<and> r = Allowed then 1 else 0) + admitted k calls rs"
  by (simp add: admitted_def)

lemma admitted_bound:
  assumes "buckets_ok opts t bs" "0 \<le> lo_capacity opts" "0 \<le> lo_refillPerSec opts"
    and "sorted (map fst calls)" "\<forall>c \<in> set calls. t \<le> fst c \<and> fst c \<le> end_t \<and> snd c \<noteq> []"
    and "card (fst ` set bs \<union> snd ` set calls) \<le> MAX_KEYS" "t \<le> end_t"
  shows "of_nat (admitted key calls (fst (run_takes opts bs calls)))
    \<le> available opts t key bs + of_int (end_t - t) / 1000 * lo_refillPerSec opts"
  using assms
proof (induction calls arbitrary: bs t)
  case Nil
  have "0 \<le> of_int (end_t - t) / 1000 * lo_refillPerSec opts" using Nil.prems by simp
  with available_bounds [OF Nil.prems(1) order_refl Nil.prems(3,2), of key] show ?case
    by (simp add: admitted_def)
next
  case (Cons c calls)
  obtain now k where c: "c = (now, k)" by (cases c)
  define bs1 where "bs1 = snd (takeLocal opts now k bs)"
  have now: "t \<le> now" "now \<le> end_t" "k \<noteq> []" using Cons.prems(5) c by auto
  have keys: "fst ` set bs \<union> snd ` set (c # calls) = insert k (fst ` set bs) \<union> snd ` set calls"
    by (auto simp: c)
  have "card (insert k (fst ` set bs)) \<le> card (insert k (fst ` set bs) \<union> snd ` set calls)"
    by (intro card_mono) auto
  with Cons.prems(6) have "card (insert k (fst ` set bs)) \<le> MAX_KEYS" unfolding keys by simp
  with Cons.prems(1) have room: "has_room k bs" by (rule few_keys_room)
  have ok: "buckets_ok opts now bs1"
    unfolding bs1_def using Cons.prems(1) now Cons.prems(2,3) by (intro takeLocal_ok)
  have rest: "of_nat (admitted key calls (fst (run_takes opts bs1 calls)))
      \<le> available opts now key bs1 + of_int (end_t - now) / 1000 * lo_refillPerSec opts"
  proof (rule Cons.IH [OF ok Cons.prems(2,3)])
    show "sorted (map fst calls)" "\<forall>c \<in> set calls. now \<le> fst c \<and> fst c \<le> end_t \<and> snd c \<noteq> []"
      using Cons.prems(4,5) c by auto
    show "card (fst ` set bs1 \<union> snd ` set calls) \<le> MAX_KEYS"
      using Cons.prems(6) unfolding keys by (simp add: bs1_def take_keys [OF room])
    show "now \<le> end_t" by (rule now)
  qed
  have spent: "(if k = key \<and> fst (takeLocal opts now k bs) = Allowed then 1 else 0) + available opts now key bs1
      \<le> available opts now key bs"
    using take_spends [OF room, of opts now] take_other [OF room, of key opts now]
    by (cases "k = key") (auto simp: bs1_def)
  have "of_nat (admitted key (c # calls) (fst (run_takes opts bs (c # calls))))
      = (if k = key \<and> fst (takeLocal opts now k bs) = Allowed then 1 else 0)
        + of_nat (admitted key calls (fst (run_takes opts bs1 calls)))"
    by (cases "k = key") (simp_all add: c bs1_def case_prod_beta admitted_Cons)
  also have "\<dots> \<le> available opts now key bs + of_int (end_t - now) / 1000 * lo_refillPerSec opts"
    using rest spent by simp
  also have "\<dots> \<le> available opts t key bs + of_int (now - t) / 1000 * lo_refillPerSec opts
      + of_int (end_t - now) / 1000 * lo_refillPerSec opts"
    using available_later [OF now(1) Cons.prems(3)] by simp
  also have "\<dots> = available opts t key bs + of_int (end_t - t) / 1000 * lo_refillPerSec opts"
    by (simp add: field_simps)
  finally show ?case .
qed

lemma lua_expired:
  assumes "0 \<le> bk_tokens b" "now - bk_lastRefill b \<ge> lua_expiry opts" "0 < lo_refillPerSec opts"
  shows "lua_take opts now (Some b) = lua_take opts now None"
proof -
  have "lo_capacity opts / lo_refillPerSec opts * 1000 \<le> of_int \<lceil>lo_capacity opts / lo_refillPerSec opts * 1000\<rceil>"
    by (rule le_of_int_ceiling)
  also have "\<dots> \<le> of_int (now - bk_lastRefill b)"
    using assms(2) by (intro of_int_le_iff [THEN iffD2]) (simp add: lua_expiry_def)
  finally have "lo_capacity opts / lo_refillPerSec opts \<le> of_int (now - bk_lastRefill b) / 1000" by simp
  then have "lo_capacity opts \<le> of_int (now - bk_lastRefill b) / 1000 * lo_refillPerSec opts"
    using assms(3) by (simp add: pos_divide_le_eq)
  then have m: "min (lo_capacity opts) (bk_tokens b + of_int (now - bk_lastRefill b) / 1000 * lo_refillPerSec opts)
    = lo_capacity opts" using assms(1) by simp
  show ?thesis unfolding lua_take_def Let_def option.case m by simp
qed

section \<open>Properties\<close>

text \<open>
  C29. However the calls for a key are timed, and whatever other keys are called in between, a limiter
  admits at most its capacity plus the refill of the time that passed, counted from any moment on;
  as long as fewer keys are in play than the map holds (an evicted key starts again with a full
  bucket).
\<close>

theorem limiter_rate:
  assumes "buckets_ok opts t bs" "0 \<le> lo_capacity opts" "0 \<le> lo_refillPerSec opts"
    and "sorted (map fst calls)" "\<forall>c \<in> set calls. t \<le> fst c \<and> fst c \<le> end_t \<and> snd c \<noteq> []"
    and "card (fst ` set bs \<union> snd ` set calls) \<le> MAX_KEYS" "t \<le> end_t"
  shows "of_nat (admitted key calls (fst (run_takes opts bs calls)))
    \<le> lo_capacity opts + of_int (end_t - t) / 1000 * lo_refillPerSec opts"
  using admitted_bound [OF assms, of key] available_bounds [OF assms(1) order_refl assms(3,2), of key]
  by linarith

definition demo_calls :: "(int \<times> string) list" where
  "demo_calls = map (\<lambda>i. (1000 * int i, ''ip:192.0.2.1'')) [0..<8]"

theorem limiter_rate_witness:
  "of_nat (admitted ''ip:192.0.2.1'' demo_calls (fst (run_takes loginLimiter [] demo_calls)))
     \<le> (5 + 7 / 60 :: rat)"
proof -
  have u: "[0..<8] = [0, 1, 2, 3, 4, 5, 6, 7 :: nat]" by (simp add: upt_rec)
  have c: "demo_calls = map (\<lambda>n. (n, ''ip:192.0.2.1'')) [0, 1000, 2000, 3000, 4000, 5000, 6000, 7000]"
    by (simp add: demo_calls_def u)
  have "snd ` set demo_calls = {''ip:192.0.2.1''}" unfolding c by auto
  then have k: "card (fst ` set ([] :: buckets) \<union> snd ` set demo_calls) \<le> MAX_KEYS"
    by (simp add: MAX_KEYS_def)
  have s: "sorted (map fst demo_calls)" unfolding c by simp
  have b: "\<forall>c \<in> set demo_calls. 0 \<le> fst c \<and> fst c \<le> 7000 \<and> snd c \<noteq> []" unfolding c by simp
  have "buckets_ok loginLimiter 0 []" by (simp add: buckets_ok_def)
  from limiter_rate [OF this _ _ s b k, of "''ip:192.0.2.1''"] show ?thesis
    by (simp add: loginLimiter_def)
qed

text \<open>
  The state of the limiter stays well formed: at most 50000 buckets, one for each key, each with
  between no tokens and a full bucket; making room evicts a bucket whenever the map is full.
\<close>

theorem limiter_state_bounded:
  assumes "buckets_ok opts t bs" "t \<le> now" "key \<noteq> []" "0 \<le> lo_capacity opts" "0 \<le> lo_refillPerSec opts"
  shows "buckets_ok opts now (snd (takeLocal opts now key bs))"
  by (rule takeLocal_ok [OF assms])

theorem limiter_state_bounded_witness:
  "buckets_ok loginLimiter 5 (snd (takeLocal loginLimiter 5 ''ip:x'' []))"
  by (rule limiter_state_bounded [of loginLimiter 0]) (simp_all add: buckets_ok_def loginLimiter_def)

text \<open>
  The wait a refusal announces is positive and long enough: a caller that comes back after it, with
  no call for its key in between, is admitted.
\<close>

theorem retry_after_suffices:
  assumes "fst (takeLocal opts now key bs) = Limited s"
    and "1 \<le> lo_capacity opts" "0 < lo_refillPerSec opts" "has_room key bs"
    and "now' \<ge> now + 1000 * s"
  shows "0 < s \<and> fst (takeLocal opts now' key (snd (takeLocal opts now key bs))) = Allowed"
proof -
  obtain b where t: "takeLocal opts now key bs = (fst (spend opts b), AList.update key (snd (spend opts b)) bs)"
    and b: "bk_lastRefill b = now" using takeLocal_steady [OF assms(4)] by blast
  from assms(1) t have l: "bk_tokens b < 1" and s: "s = \<lceil>(1 - bk_tokens b) / lo_refillPerSec opts\<rceil>"
    by (auto simp: spend_def split: if_splits)
  have pos: "0 < (1 - bk_tokens b) / lo_refillPerSec opts" using l assms(3) by simp
  have "(1 - bk_tokens b) / lo_refillPerSec opts \<le> of_int s" unfolding s by (rule le_of_int_ceiling)
  then have enough: "1 - bk_tokens b \<le> of_int s * lo_refillPerSec opts"
    using assms(3) by (simp add: pos_divide_le_eq)
  have "of_int (1000 * s) \<le> (of_int (now' - now) :: rat)" using assms(5) by (intro of_int_le_iff [THEN iffD2]) simp
  then have "of_int s \<le> (of_int (now' - now) / 1000 :: rat)" by simp
  then have "of_int s * lo_refillPerSec opts \<le> of_int (now' - now) / 1000 * lo_refillPerSec opts"
    using assms(3) by (intro mult_right_mono) simp_all
  with enough have "1 \<le> bk_tokens b + of_int (now' - now) / 1000 * lo_refillPerSec opts" by linarith
  with assms(2) l have "fst (takeLocal opts now' key (AList.update key b bs)) = Allowed"
    by (simp add: takeLocal_def AList.update_conv' case_prod_beta spend_def refill_def Let_def b)
  moreover have "snd (spend opts b) = b" using l by (simp add: spend_def)
  ultimately show ?thesis using pos by (simp add: t s)
qed

theorem retry_after_suffices_witness:
  "fst (takeLocal searchLimiter 2000 ''u''
     (snd (takeLocal searchLimiter 1000 ''u'' [(''u'', \<lparr>bk_tokens = 0, bk_lastRefill = 1000\<rparr>)]))) = Allowed"
proof -
  have "fst (takeLocal searchLimiter 1000 ''u'' [(''u'', \<lparr>bk_tokens = 0, bk_lastRefill = 1000\<rparr>)]) = Limited 1"
    by (simp add: takeLocal_def searchLimiter_def refill_def spend_def)
  from retry_after_suffices [OF this, of 2000] show ?thesis by (simp add: searchLimiter_def)
qed

text \<open>
  The Redis script and the in-process path are the same bucket: on the same stored bucket they
  give the same answer and leave the same bucket behind; and the expiry set on the Redis key loses
  nothing, since a bucket idle that long answers like a fresh one.
\<close>

theorem lua_bucket_agrees:
  assumes "has_room key bs" "buckets_ok opts now bs" "0 < lo_refillPerSec opts" "0 \<le> lo_capacity opts"
    and "lua_take opts now (map_of bs key) = (reply, b)"
  shows "fst (takeShared opts now key (Some reply) bs') = fst (takeShared opts now key None bs)
    \<and> map_of (snd (takeShared opts now key None bs)) key = Some b
    \<and> (now' \<ge> now + lua_expiry opts \<longrightarrow> lua_take opts now' (Some b) = lua_take opts now' None)"
proof -
  obtain c where t: "takeLocal opts now key bs = (fst (spend opts c), AList.update key (snd (spend opts c)) bs)"
    and c: "bk_tokens c = available opts now key bs" "bk_lastRefill c = now"
    using takeLocal_steady [OF assms(1)] by blast
  have sp: "reply = (case fst (spend opts c) of Allowed \<Rightarrow> (1, 0) | Limited s \<Rightarrow> (0, s)) \<and> b = snd (spend opts c)"
    using assms(5) c by (cases c) (auto simp: lua_take_def available_def spend_def refill_def Let_def
      split: option.splits if_splits)
  then have b: "b = snd (spend opts c)" by simp
  have "0 \<le> bk_tokens c"
    using available_bounds [OF assms(2) order_refl _ assms(4), of key] assms(3) c(1) by simp
  then have nn: "0 \<le> bk_tokens b" "bk_lastRefill b = now" using c(2) by (auto simp: b spend_def)
  have "lua_take opts now' (Some b) = lua_take opts now' None" if "now' \<ge> now + lua_expiry opts"
    using lua_expired [OF nn(1), of opts now'] that nn(2) assms(3) by simp
  with t sp show ?thesis
    by (auto simp: takeShared_def AList.update_conv' split: rate_result.splits)
qed

theorem lua_bucket_agrees_witness:
  "fst (takeShared searchLimiter 1000 ''u'' (Some (0, 1)) []) = Limited 1"
proof -
  let ?bs = "[(''u'', \<lparr>bk_tokens = 0, bk_lastRefill = 1000\<rparr>)]"
  have l: "lua_take searchLimiter 1000 (map_of ?bs ''u'') = ((0, 1), \<lparr>bk_tokens = 0, bk_lastRefill = 1000\<rparr>)"
    by (simp add: lua_take_def searchLimiter_def)
  have ok: "buckets_ok searchLimiter 1000 ?bs"
    by (simp add: buckets_ok_def bucket_ok_def searchLimiter_def MAX_KEYS_def)
  have "fst (takeShared searchLimiter 1000 ''u'' (Some (0, 1)) []) = fst (takeShared searchLimiter 1000 ''u'' None ?bs)"
    using lua_bucket_agrees [OF _ ok _ _ l] by (simp add: searchLimiter_def)
  then show ?thesis by (simp add: takeShared_def takeLocal_def searchLimiter_def refill_def spend_def)
qed

end
