(* ===== verification/UrlSafety.thy ===== *)
theory UrlSafety
  imports Serials ReverseName
begin

text \<open>
  Outbound URLs and redirects: the SSRF guard of \<open>lib/net/url-safety.ts\<close> with its two policies
  (\<open>lib/pdns/url-safety.ts\<close>, \<open>lib/auth/providers/oidc-url-safety.ts\<close>), the pinned fetch of
  \<open>lib/net/pinned-fetch.ts\<close>, the redirect guard of
  \<open>lib/auth/safe-redirect.ts\<close> and the e-mail domains of \<open>lib/auth/email-domain-allowlist.ts\<close>.
  The WHATWG URL parser, Node's \<open>isIP\<close> and the resolver are parameters.  An IPv4 address is a
  \<open>32 word\<close>, as the code's bit operations have it, an IPv6 address a list of bytes.
\<close>

unbundle bit_operations_syntax

section \<open>IPv4\<close>

fun ipv4_loop :: "32 word \<Rightarrow> string list \<Rightarrow> 32 word option" where
  "ipv4_loop n [] = Some n"
| "ipv4_loop n (part # parts) =
     (case js_integer part of
        None \<Rightarrow> None
      | Some oct \<Rightarrow> if oct < 0 \<or> oct > 255 then None else ipv4_loop (push_bit 8 n + word_of_int oct) parts)"

definition ipv4ToInt :: "string \<Rightarrow> 32 word option" where
  "ipv4ToInt ip =
     (let parts = split_on (CHR ''.'') ip in if length parts \<noteq> 4 then None else ipv4_loop 0 parts)"

record v4_range =
  rg_net :: "32 word"
  rg_prefix :: nat

definition v4InRange :: "32 word \<Rightarrow> v4_range \<Rightarrow> bool" where
  "v4InRange addr rg \<longleftrightarrow>
     (if rg_prefix rg = 0 then True
      else let m = push_bit (32 - rg_prefix rg) (0xffffffff :: 32 word)
           in (addr AND m) = (rg_net rg AND m))"

definition v4_range_of :: "string \<Rightarrow> nat \<Rightarrow> v4_range" where
  "v4_range_of net p = \<lparr>rg_net = the (ipv4ToInt net), rg_prefix = p\<rparr>"

definition ALWAYS_BLOCKED_V4 :: "v4_range list" where
  "ALWAYS_BLOCKED_V4 = [v4_range_of ''169.254.0.0'' 16, v4_range_of ''0.0.0.0'' 8, v4_range_of ''224.0.0.0'' 4,
     v4_range_of ''255.255.255.255'' 32, v4_range_of ''240.0.0.0'' 4]"

definition PRIVATE_V4 :: "v4_range list" where
  "PRIVATE_V4 = [v4_range_of ''127.0.0.0'' 8, v4_range_of ''10.0.0.0'' 8, v4_range_of ''172.16.0.0'' 12,
     v4_range_of ''192.168.0.0'' 16, v4_range_of ''100.64.0.0'' 10]"

datatype address_class = AddrOk | AlwaysBlocked | Private

definition classifyV4 :: "string \<Rightarrow> address_class" where
  "classifyV4 addr =
     (case ipv4ToInt addr of
        None \<Rightarrow> AlwaysBlocked
      | Some n \<Rightarrow> if list_ex (v4InRange n) ALWAYS_BLOCKED_V4 then AlwaysBlocked
                  else if list_ex (v4InRange n) PRIVATE_V4 then Private else AddrOk)"

section \<open>IPv6\<close>

text \<open>The text up to and with the last colon, and what follows it.\<close>

definition after_colon :: "string \<Rightarrow> string" where
  "after_colon s = rev (takeWhile (\<lambda>c. c \<noteq> CHR '':'') (rev s))"

definition upto_colon :: "string \<Rightarrow> string" where
  "upto_colon s = rev (dropWhile (\<lambda>c. c \<noteq> CHR '':'') (rev s))"

definition v6_groups :: "string \<Rightarrow> string list option" where
  "v6_groups head =
     (let expandable = split_dcolon head in
      if length expandable > 2 then None
      else let left = (if expandable ! 0 = [] then [] else split_on (CHR '':'') (expandable ! 0)) in
        if length expandable = 1 then (if length left \<noteq> 8 then None else Some left)
        else let right = (if expandable ! 1 = [] then [] else split_on (CHR '':'') (expandable ! 1)) in
          if length left + length right > 8 then None
          else Some (left @ replicate (8 - length left - length right) ''0'' @ right))"

definition v6_group_ok :: "string \<Rightarrow> bool" where
  "v6_group_ok g \<longleftrightarrow> \<not> (length g = 0 \<or> length g > 4) \<and> list_all (\<lambda>c. is_hex (lower_char c)) g"

definition group_bytes :: "string \<Rightarrow> 8 word list" where
  "group_bytes g = (let v = nat_of_hex (js_lower g) in [word_of_nat (drop_bit 8 v), word_of_nat v])"

definition v4_bytes :: "32 word \<Rightarrow> 8 word list" where
  "v4_bytes n = [ucast (drop_bit 24 n), ucast (drop_bit 16 n), ucast (drop_bit 8 n), ucast n]"

definition ipv6ToBytes :: "string \<Rightarrow> 8 word list option" where
  "ipv6ToBytes ip =
     (let bare = hd (split_on (CHR ''%'') ip);
          mapped = (CHR '':'' \<in> set bare \<and> CHR ''.'' \<in> set (after_colon bare))
      in if mapped \<and> ipv4ToInt (after_colon bare) = None then None
         else let head = (if mapped then upto_colon bare @ ''0:0'' else bare) in
           case v6_groups head of
             None \<Rightarrow> None
           | Some groups \<Rightarrow>
               if \<not> list_all v6_group_ok groups then None
               else let bytes = concat (map group_bytes groups) in
                 Some (if mapped then take 12 bytes @ v4_bytes (the (ipv4ToInt (after_colon bare)))
                       else bytes))"

definition byte_at :: "8 word list \<Rightarrow> 8 word option" where
  "byte_at xs = (case xs of [] \<Rightarrow> None | x # _ \<Rightarrow> Some x)"

fun v6HasPrefix :: "8 word list \<Rightarrow> 8 word list \<Rightarrow> nat \<Rightarrow> bool" where
  "v6HasPrefix addr pre bitsLeft =
     (if bitsLeft \<ge> 8 then
        (if byte_at addr \<noteq> byte_at pre then False else v6HasPrefix (tl addr) (tl pre) (bitsLeft - 8))
      else if bitsLeft = 0 then True
      else let m = push_bit (8 - bitsLeft) (0xff :: 8 word) in
        ((case byte_at addr of Some b \<Rightarrow> b | None \<Rightarrow> 0) AND m)
          = ((case byte_at pre of Some b \<Rightarrow> b | None \<Rightarrow> 0) AND m))"

declare v6HasPrefix.simps [simp del]

definition V6_LINK_LOCAL :: "8 word list" where "V6_LINK_LOCAL = the (ipv6ToBytes ''fe80::'')"
definition V6_LOOPBACK :: "8 word list" where "V6_LOOPBACK = the (ipv6ToBytes ''::1'')"
definition V6_ULA :: "8 word list" where "V6_ULA = the (ipv6ToBytes ''fc00::'')"
definition V6_MULTICAST :: "8 word list" where "V6_MULTICAST = the (ipv6ToBytes ''ff00::'')"
definition V6_V4MAPPED :: "8 word list" where "V6_V4MAPPED = the (ipv6ToBytes ''::ffff:0:0'')"

definition byte_text :: "8 word \<Rightarrow> string" where "byte_text b = dec_of_nat (unat b)"

definition classifyV6 :: "string \<Rightarrow> address_class" where
  "classifyV6 addr =
     (case ipv6ToBytes addr of
        None \<Rightarrow> AlwaysBlocked
      | Some bytes \<Rightarrow>
          if v6HasPrefix bytes V6_V4MAPPED 96 then
            classifyV4 (join ''.'' (map byte_text [bytes ! 12, bytes ! 13, bytes ! 14, bytes ! 15]))
          else if v6HasPrefix bytes V6_LINK_LOCAL 10 then AlwaysBlocked
          else if v6HasPrefix bytes V6_MULTICAST 8 then AlwaysBlocked
          else if list_all (\<lambda>b. b = 0) bytes then AlwaysBlocked
          else if v6HasPrefix bytes V6_LOOPBACK 128 then Private
          else if v6HasPrefix bytes V6_ULA 7 then Private
          else AddrOk)"

definition stripBrackets :: "string \<Rightarrow> string" where
  "stripBrackets host =
     (if starts_with host ''['' \<and> ends_with host '']'' then butlast (tl host) else host)"

definition classifyAddress :: "string \<Rightarrow> address_class" where
  "classifyAddress ip =
     (let bare = stripBrackets (js_trim ip) in if CHR '':'' \<in> set bare then classifyV6 bare else classifyV4 bare)"

section \<open>The guard\<close>

datatype url_safety = Safe "string list" | Unsafe string

record outbound_policy =
  op_allowPrivateNetworks :: bool
  op_allowInsecureHttp :: bool
  op_treatUnresolvableAsSafe :: bool
  op_label :: string
  op_insecureHttpHint :: string
  op_privateNetworkHint :: string

record url_parts =
  url_protocol :: string
  url_hostname :: string

record net_env =
  ne_parseUrl :: "string \<Rightarrow> url_parts option"
  ne_isIP :: "string \<Rightarrow> nat"
  ne_lookup :: "string \<Rightarrow> string + string list"
  ne_production :: bool

definition classify_resolved :: "net_env \<Rightarrow> string \<Rightarrow> address_class" where
  "classify_resolved env addr =
     (if ne_isIP env addr = 4 then classifyV4 addr
      else if ne_isIP env addr = 6 then classifyV6 addr else AlwaysBlocked)"

definition quoted :: "string \<Rightarrow> string" where
  "quoted host = [CHR 0x27] @ host @ [CHR 0x27]"

definition resolved_reason :: "string \<Rightarrow> string \<Rightarrow> string" where
  "resolved_reason host addr = ''Host '' @ quoted host @ '' resolves to '' @ addr"

fun check_addresses :: "net_env \<Rightarrow> outbound_policy \<Rightarrow> string \<Rightarrow> string list \<Rightarrow> string option" where
  "check_addresses env policy host [] = None"
| "check_addresses env policy host (addr # addrs) =
     (let classification = classify_resolved env addr in
      if classification = AlwaysBlocked then
        Some (resolved_reason host addr @ '', which is in a network that is never allowed (loopback metadata, link-local, multicast, or unspecified).'')
      else if classification = Private \<and> \<not> op_allowPrivateNetworks policy then
        Some (resolved_reason host addr @ '', which is a private address. '' @ op_privateNetworkHint policy)
      else check_addresses env policy host addrs)"

definition resolve_host :: "net_env \<Rightarrow> outbound_policy \<Rightarrow> string \<Rightarrow> url_safety + string list" where
  "resolve_host env policy host =
     (let literalKind = (if ne_isIP env host \<noteq> 0 then ne_isIP env host else ne_isIP env (stripBrackets host)) in
      if literalKind = 4 \<or> literalKind = 6 then Inr [stripBrackets host]
      else case ne_lookup env host of
        Inr addresses \<Rightarrow>
          if addresses \<noteq> [] then Inr addresses
          else if op_treatUnresolvableAsSafe policy then Inl (Safe [])
          else Inl (Unsafe (''Host '' @ quoted host @ '' did not resolve to any addresses.''))
      | Inl ecode \<Rightarrow>
          if op_treatUnresolvableAsSafe policy then Inl (Safe [])
          else Inl (Unsafe (''Could not resolve '' @ quoted host
            @ (if ecode = [] then [] else '' ('' @ ecode @ '')'') @ ''.'')))"

definition checkOutboundUrlSafe :: "net_env \<Rightarrow> outbound_policy \<Rightarrow> string \<Rightarrow> url_safety" where
  "checkOutboundUrlSafe env policy urlString =
     (case ne_parseUrl env urlString of
        None \<Rightarrow> Unsafe (op_label policy @ '' is not a valid URL.'')
      | Some url \<Rightarrow>
          if url_protocol url \<noteq> ''http:'' \<and> url_protocol url \<noteq> ''https:''
          then Unsafe (op_label policy @ '' must use http:// or https://.'')
          else if url_hostname url = [] then Unsafe (op_label policy @ '' has no host.'')
          else case resolve_host env policy (url_hostname url) of
            Inl r \<Rightarrow> r
          | Inr addresses \<Rightarrow>
              (case check_addresses env policy (url_hostname url) addresses of
                 Some reason \<Rightarrow> Unsafe reason
               | None \<Rightarrow>
                   if ne_production env \<and> url_protocol url \<noteq> ''https:'' \<and> \<not> op_allowInsecureHttp policy
                   then Unsafe (op_label policy @ '' must use https:// in production. '' @ op_insecureHttpHint policy)
                   else Safe addresses))"

section \<open>The two policies\<close>

record safety_flags =
  fl_allowPrivateNetworks :: "bool option"
  fl_allowInsecureHttp :: "bool option"

definition pdnsPolicy :: "bool option \<Rightarrow> safety_flags \<Rightarrow> bool \<Rightarrow> outbound_policy" where
  "pdnsPolicy override flags production =
     \<lparr>op_allowPrivateNetworks = (case override of Some b \<Rightarrow> b
        | None \<Rightarrow> (case fl_allowPrivateNetworks flags of Some b \<Rightarrow> b | None \<Rightarrow> \<not> production)),
      op_allowInsecureHttp = (fl_allowInsecureHttp flags = Some True),
      op_treatUnresolvableAsSafe = False,
      op_label = ''Base URL'',
      op_insecureHttpHint = ''Set APP_PDNS_ALLOW_INSECURE_HTTP=true to allow http:// when PDNS lives on a private network without TLS.'',
      op_privateNetworkHint = ''Set APP_PDNS_ALLOW_PRIVATE_NETWORKS=true to allow this in your environment.''\<rparr>"

definition assertSafePdnsUrl :: "net_env \<Rightarrow> bool option \<Rightarrow> safety_flags \<Rightarrow> string \<Rightarrow> thrown + unit" where
  "assertSafePdnsUrl env override flags urlString =
     (case checkOutboundUrlSafe env (pdnsPolicy override flags (ne_production env)) urlString of
        Safe _ \<Rightarrow> Inr () | Unsafe reason \<Rightarrow> Inl (validation reason))"

definition oidcPolicy :: "safety_flags \<Rightarrow> bool \<Rightarrow> outbound_policy" where
  "oidcPolicy flags production =
     \<lparr>op_allowPrivateNetworks = (case fl_allowPrivateNetworks flags of Some b \<Rightarrow> b | None \<Rightarrow> \<not> production),
      op_allowInsecureHttp = (fl_allowInsecureHttp flags = Some True),
      op_treatUnresolvableAsSafe = True,
      op_label = ''Issuer URL'',
      op_insecureHttpHint = ''Set APP_OIDC_ALLOW_INSECURE_HTTP=true to allow http:// for an internal IdP without TLS.'',
      op_privateNetworkHint = ''Set APP_OIDC_ALLOW_PRIVATE_NETWORKS=true to allow this in your environment.''\<rparr>"

definition assertSafeOidcIssuerUrl :: "net_env \<Rightarrow> safety_flags \<Rightarrow> string \<Rightarrow> thrown + unit" where
  "assertSafeOidcIssuerUrl env flags urlString =
     (case checkOutboundUrlSafe env (oidcPolicy flags (ne_production env)) urlString of
        Safe _ \<Rightarrow> Inr () | Unsafe reason \<Rightarrow> Inl (validation reason))"

section \<open>The pinned fetch\<close>

text \<open>
  \<open>lib/net/pinned-fetch.ts\<close> runs the guard and makes the request over a dispatcher whose \<open>lookup\<close>
  answers with an address of the guard's.  A request is its URL, the address and family the
  connection is given, and whether redirects are followed.
\<close>

datatype guarded_fetch =
    Refused string
  | NoAddress string
  | Requested (rq_url: string) (rq_address: string) (rq_family: nat) (rq_follow: bool)

definition pinned_address :: "net_env \<Rightarrow> string list \<Rightarrow> string option" where
  "pinned_address env addresses =
     (case find (\<lambda>addr. ne_isIP env addr = 4) addresses of
        Some a \<Rightarrow> Some a
      | None \<Rightarrow> (case addresses of [] \<Rightarrow> None | a # _ \<Rightarrow> Some a))"

definition buildPinnedDispatcher :: "net_env \<Rightarrow> string list \<Rightarrow> string + string \<times> nat" where
  "buildPinnedDispatcher env addresses =
     (case pinned_address env addresses of
        None \<Rightarrow> Inl ''no validated address to pin''
      | Some pinned \<Rightarrow> Inr (pinned, ne_isIP env pinned))"

definition makeGuardedFetch :: "net_env \<Rightarrow> (string \<Rightarrow> url_safety) \<Rightarrow> (string \<Rightarrow> string) option \<Rightarrow> string \<Rightarrow> guarded_fetch" where
  "makeGuardedFetch env guard onUnsafe url =
     (case guard url of
        Unsafe reason \<Rightarrow>
          Refused (case onUnsafe of Some f \<Rightarrow> f reason | None \<Rightarrow> ''Refusing to call unsafe URL: '' @ reason)
      | Safe addresses \<Rightarrow>
          (case buildPinnedDispatcher env addresses of
             Inl e \<Rightarrow> NoAddress e
           | Inr (pinned, family) \<Rightarrow> Requested url pinned family False))"

section \<open>Redirects and e-mail domains\<close>

definition DEFAULT_DESTINATION :: string where "DEFAULT_DESTINATION = ''/dashboard''"

definition safeNextPath :: "string option \<Rightarrow> string" where
  "safeNextPath next' =
     (case next' of
        None \<Rightarrow> DEFAULT_DESTINATION
      | Some n \<Rightarrow>
          if n = [] then DEFAULT_DESTINATION
          else if \<not> starts_with n ''/'' \<or> starts_with n ''//'' \<or> starts_with n [CHR ''/'', CHR 0x5C]
          then DEFAULT_DESTINATION
          else if n = ''/login'' \<or> starts_with n ''/login?'' \<or> starts_with n ''/login/''
          then DEFAULT_DESTINATION
          else n)"

definition emailDomain :: "string \<Rightarrow> string" where
  "emailDomain email =
     (let domain = rev (takeWhile (\<lambda>c. c \<noteq> CHR ''@'') (rev email)) in
      if CHR ''@'' \<in> set email \<and> domain \<noteq> [] then js_lower domain else ''(no-@-in-email)'')"

definition emailDomainAllowed :: "string \<Rightarrow> string list \<Rightarrow> bool \<times> string" where
  "emailDomainAllowed email allowedDomains =
     (let domain = emailDomain email in
      if length allowedDomains = 0 then (True, domain)
      else (domain \<in> set allowedDomains, domain))"

definition resolveAllowedDomains :: "string list option \<Rightarrow> string list \<Rightarrow> string list" where
  "resolveAllowedDomains providerOverride envDefault =
     (case providerOverride of None \<Rightarrow> envDefault | Some l \<Rightarrow> l)"

section \<open>Ranges as arithmetic\<close>

definition quad :: "nat \<Rightarrow> nat \<Rightarrow> nat \<Rightarrow> nat \<Rightarrow> string" where
  "quad a b c d = join ''.'' (map dec_of_nat [a, b, c, d])"

definition quad_value :: "nat \<Rightarrow> nat \<Rightarrow> nat \<Rightarrow> nat \<Rightarrow> nat" where
  "quad_value a b c d = ((a * 256 + b) * 256 + c) * 256 + d"

lemma push_add: "push_bit 8 (word_of_nat n) + word_of_int (int m) = (word_of_nat (n * 256 + m) :: 32 word)"
  by (simp add: push_bit_eq_mult)

lemma ipv4_loop_dec:
  assumes "m \<le> 255"
  shows "ipv4_loop (word_of_nat n) (dec_of_nat m # ps) = ipv4_loop (word_of_nat (n * 256 + m)) ps"
proof -
  have "\<not> (int m < 0 \<or> int m > 255)" using assms by simp
  then show ?thesis unfolding ipv4_loop.simps js_integer_dec option.case if_False push_add by (simp only: if_False)
qed

lemma ipv4ToInt_quad:
  assumes "a \<le> 255" "b \<le> 255" "c \<le> 255" "d \<le> 255"
  shows "ipv4ToInt (quad a b c d) = Some (word_of_nat (quad_value a b c d))"
proof -
  have s: "split_on (CHR ''.'') (quad a b c d) = [dec_of_nat a, dec_of_nat b, dec_of_nat c, dec_of_nat d]"
    unfolding quad_def using split_join [of "map dec_of_nat [a, b, c, d]" "CHR ''.''"]
    by (simp add: dec_no_char is_digit_def)
  have "ipv4_loop (word_of_nat 0) [dec_of_nat a, dec_of_nat b, dec_of_nat c, dec_of_nat d]
      = Some (word_of_nat (quad_value a b c d))"
    unfolding ipv4_loop_dec [OF assms(1)] ipv4_loop_dec [OF assms(2)] ipv4_loop_dec [OF assms(3)]
      ipv4_loop_dec [OF assms(4)] by (simp only: ipv4_loop.simps quad_value_def mult_0 add_0)
  then show ?thesis by (simp add: ipv4ToInt_def s)
qed

lemma mask_eq:
  fixes x y :: "'a::len word"
  shows "x AND NOT (mask k) = y AND NOT (mask k) \<longleftrightarrow> drop_bit k x = drop_bit k y"
proof
  assume e: "x AND NOT (mask k) = y AND NOT (mask k)"
  show "drop_bit k x = drop_bit k y"
  proof (rule bit_word_eqI)
    fix n assume "n < LENGTH('a)"
    have "bit (x AND NOT (mask k)) (k + n) = bit (y AND NOT (mask k)) (k + n)" by (simp only: e)
    then show "bit (drop_bit k x) n = bit (drop_bit k y) n"
      by (auto simp: bit_simps dest: bit_imp_le_length)
  qed
next
  assume e: "drop_bit k x = drop_bit k y"
  show "x AND NOT (mask k) = y AND NOT (mask k)"
  proof (rule bit_word_eqI)
    fix n assume "n < LENGTH('a)"
    have "bit (drop_bit k x) (n - k) = bit (drop_bit k y) (n - k)" by (simp only: e)
    then show "bit (x AND NOT (mask k)) n = bit (y AND NOT (mask k)) n"
      by (auto simp: bit_simps)
  qed
qed

lemma mask_div:
  fixes x y :: "'a::len word"
  shows "x AND NOT (mask k) = y AND NOT (mask k) \<longleftrightarrow> unat x div 2 ^ k = unat y div 2 ^ k"
  by (simp only: mask_eq) (simp only: word_unat_eq_iff unat_drop_bit_eq, simp only: drop_bit_eq_div)

lemma v4InRange_div:
  assumes "n < 2 ^ 32" "m < 2 ^ 32" "0 < p" "p \<le> 32"
  shows "v4InRange (word_of_nat n) \<lparr>rg_net = word_of_nat m, rg_prefix = p\<rparr>
    \<longleftrightarrow> n div 2 ^ (32 - p) = m div 2 ^ (32 - p)"
proof -
  have u: "unat (word_of_nat n :: 32 word) = n" "unat (word_of_nat m :: 32 word) = m"
    using assms(1,2) by (simp_all add: unat_of_nat)
  have m: "(0xffffffff :: 32 word) = - 1" by simp
  show ?thesis using assms(3) by (simp only: v4InRange_def Let_def v4_range.select_convs m
      push_bit_minus_one_eq_not_mask mask_div u) simp
qed

text \<open>The ranges the header lists, by the octets of the address.\<close>

definition never_v4 :: "nat \<Rightarrow> nat \<Rightarrow> bool" where
  "never_v4 a b \<longleftrightarrow> (a = 169 \<and> b = 254) \<or> a = 0 \<or> a \<ge> 224"

definition private_v4 :: "nat \<Rightarrow> nat \<Rightarrow> bool" where
  "private_v4 a b \<longleftrightarrow> a = 127 \<or> a = 10 \<or> (a = 172 \<and> 16 \<le> b \<and> b \<le> 31) \<or> (a = 192 \<and> b = 168)
     \<or> (a = 100 \<and> 64 \<le> b \<and> b \<le> 127)"

lemma range_of_quad:
  assumes "a \<le> 255" "b \<le> 255" "c \<le> 255" "d \<le> 255"
  shows "v4_range_of (quad a b c d) p = \<lparr>rg_net = word_of_nat (quad_value a b c d), rg_prefix = p\<rparr>"
  by (simp add: v4_range_of_def ipv4ToInt_quad assms)

lemma quad_value_less: "a \<le> 255 \<Longrightarrow> b \<le> 255 \<Longrightarrow> c \<le> 255 \<Longrightarrow> d \<le> 255 \<Longrightarrow> quad_value a b c d < 2 ^ 32"
  by (simp add: quad_value_def)

lemma in_range_quad:
  assumes "a \<le> 255" "b \<le> 255" "c \<le> 255" "d \<le> 255" "e \<le> 255" "f \<le> 255" "g \<le> 255" "h \<le> 255" "0 < p" "p \<le> 32"
  shows "v4InRange (word_of_nat (quad_value a b c d)) (v4_range_of (quad e f g h) p)
    \<longleftrightarrow> quad_value a b c d div 2 ^ (32 - p) = quad_value e f g h div 2 ^ (32 - p)"
  unfolding range_of_quad [OF assms(5-8)]
  by (rule v4InRange_div [OF quad_value_less [OF assms(1-4)] quad_value_less [OF assms(5-8)] assms(9,10)])

lemma quad_texts:
  "''169.254.0.0'' = quad 169 254 0 0" "''0.0.0.0'' = quad 0 0 0 0" "''224.0.0.0'' = quad 224 0 0 0"
  "''255.255.255.255'' = quad 255 255 255 255" "''240.0.0.0'' = quad 240 0 0 0"
  "''127.0.0.0'' = quad 127 0 0 0" "''10.0.0.0'' = quad 10 0 0 0" "''172.16.0.0'' = quad 172 16 0 0"
  "''192.168.0.0'' = quad 192 168 0 0" "''100.64.0.0'' = quad 100 64 0 0"
  by (simp_all add: quad_def dec_of_nat.simps char_of_def bit_0)

lemma ranges_quad:
  "ALWAYS_BLOCKED_V4 = [v4_range_of (quad 169 254 0 0) 16, v4_range_of (quad 0 0 0 0) 8, v4_range_of (quad 224 0 0 0) 4,
     v4_range_of (quad 255 255 255 255) 32, v4_range_of (quad 240 0 0 0) 4]"
  "PRIVATE_V4 = [v4_range_of (quad 127 0 0 0) 8, v4_range_of (quad 10 0 0 0) 8, v4_range_of (quad 172 16 0 0) 12,
     v4_range_of (quad 192 168 0 0) 16, v4_range_of (quad 100 64 0 0) 10]"
  by (simp_all only: ALWAYS_BLOCKED_V4_def PRIVATE_V4_def quad_texts [symmetric])

lemma quad_div:
  assumes "b \<le> 255" "c \<le> 255" "d \<le> 255"
  shows "quad_value a b c d div 2 ^ 24 = a" "quad_value a b c d div 2 ^ 16 = a * 256 + b"
    "quad_value a b c d div 2 ^ 28 = a div 16" "quad_value a b c d div 2 ^ 20 = (a * 256 + b) div 16"
    "quad_value a b c d div 2 ^ 22 = (a * 256 + b) div 64"
proof -
  have d8: "quad_value a b c d div 2 ^ 16 = a * 256 + b" using assms by (simp add: quad_value_def)
  then show "quad_value a b c d div 2 ^ 16 = a * 256 + b" .
  have e: "quad_value a b c d div 2 ^ (16 + k) = (a * 256 + b) div 2 ^ k" for k
    unfolding power_add div_mult2_eq d8 ..
  from e [of 8] assms show "quad_value a b c d div 2 ^ 24 = a" by simp
  from e [of 12] assms have "quad_value a b c d div 2 ^ 28 = (a * 256 + b) div (256 * 16)" by simp
  also have "\<dots> = a div 16" unfolding div_mult2_eq using assms by simp
  finally show "quad_value a b c d div 2 ^ 28 = a div 16" .
  from e [of 4] show "quad_value a b c d div 2 ^ 20 = (a * 256 + b) div 16" by simp
  from e [of 6] show "quad_value a b c d div 2 ^ 22 = (a * 256 + b) div 64" by simp
qed

lemma two_part: 
  fixes a :: nat
  assumes "x < m" "y < m"
  shows "a * m + x = e * m + y \<longleftrightarrow> a = e \<and> x = y"
proof
  assume h: "a * m + x = e * m + y"
  have "(a * m + x) div m = a" "(e * m + y) div m = e" using assms by simp_all
  with h have "a = e" by simp
  with h show "a = e \<and> x = y" by simp
qed simp
lemma sub_range:
  fixes a :: nat
  assumes "b \<le> 255" "f \<le> 255"
  shows "a * 256 + b = e * 256 + f \<longleftrightarrow> a = e \<and> b = f"
    and "(a * 256 + b) div 16 = (e * 256 + f) div 16 \<longleftrightarrow> a = e \<and> b div 16 = f div 16"
    and "(a * 256 + b) div 64 = (e * 256 + f) div 64 \<longleftrightarrow> a = e \<and> b div 64 = f div 64"
proof -
  show "a * 256 + b = e * 256 + f \<longleftrightarrow> a = e \<and> b = f"
    by (rule two_part) (use assms in simp_all)
  have d: "(x * 256 + y) div 16 = x * 16 + y div 16" "(x * 256 + y) div 64 = x * 4 + y div 64" for x y :: nat
    using div_mult_self3 [of 16 "x * 16" y] div_mult_self3 [of 64 "x * 4" y] by (simp_all add: algebra_simps)
  show "(a * 256 + b) div 16 = (e * 256 + f) div 16 \<longleftrightarrow> a = e \<and> b div 16 = f div 16"
    unfolding d by (rule two_part) (use assms in simp_all)
  show "(a * 256 + b) div 64 = (e * 256 + f) div 64 \<longleftrightarrow> a = e \<and> b div 64 = f div 64"
    unfolding d by (rule two_part) (use assms in simp_all)
qed
lemma div_ones: "(b::nat) div 16 = 1 \<longleftrightarrow> 16 \<le> b \<and> b \<le> 31" "(b::nat) div 64 = 1 \<longleftrightarrow> 64 \<le> b \<and> b \<le> 127"
  by auto

lemma in_range_cases:
  assumes le: "a \<le> 255" "b \<le> 255" "c \<le> 255" "d \<le> 255" and ef: "e \<le> 255" "f \<le> 255"
  shows "v4InRange (word_of_nat (quad_value a b c d)) (v4_range_of (quad e f 0 0) 16) \<longleftrightarrow> a * 256 + b = e * 256 + f"
    and "v4InRange (word_of_nat (quad_value a b c d)) (v4_range_of (quad e 0 0 0) 8) \<longleftrightarrow> a = e"
    and "v4InRange (word_of_nat (quad_value a b c d)) (v4_range_of (quad e 0 0 0) 4) \<longleftrightarrow> a div 16 = e div 16"
    and "v4InRange (word_of_nat (quad_value a b c d)) (v4_range_of (quad e f 0 0) 12)
      \<longleftrightarrow> (a * 256 + b) div 16 = (e * 256 + f) div 16"
    and "v4InRange (word_of_nat (quad_value a b c d)) (v4_range_of (quad e f 0 0) 10)
      \<longleftrightarrow> (a * 256 + b) div 64 = (e * 256 + f) div 64"
proof -
  have z: "(0::nat) \<le> 255" by simp
  note r = in_range_quad [OF le] and q = quad_div [OF le(2-4), of a] and q' = quad_div [OF ef(2) z z, of e]
    and q0 = quad_div [OF z z z, of e]
  have m: "(32::nat) - 16 = 16" "(32::nat) - 8 = 24" "(32::nat) - 4 = 28" "(32::nat) - 12 = 20" "(32::nat) - 10 = 22"
    by simp_all
  show "v4InRange (word_of_nat (quad_value a b c d)) (v4_range_of (quad e f 0 0) 16) \<longleftrightarrow> a * 256 + b = e * 256 + f"
    using r [OF ef z z, of 16] unfolding m q q' by simp
  show "v4InRange (word_of_nat (quad_value a b c d)) (v4_range_of (quad e 0 0 0) 8) \<longleftrightarrow> a = e"
    using r [OF ef(1) z z z, of 8] unfolding m q q0 by simp
  show "v4InRange (word_of_nat (quad_value a b c d)) (v4_range_of (quad e 0 0 0) 4) \<longleftrightarrow> a div 16 = e div 16"
    using r [OF ef(1) z z z, of 4] unfolding m q q0 by simp
  show "v4InRange (word_of_nat (quad_value a b c d)) (v4_range_of (quad e f 0 0) 12)
      \<longleftrightarrow> (a * 256 + b) div 16 = (e * 256 + f) div 16"
    using r [OF ef z z, of 12] unfolding m q q' by simp
  show "v4InRange (word_of_nat (quad_value a b c d)) (v4_range_of (quad e f 0 0) 10)
      \<longleftrightarrow> (a * 256 + b) div 64 = (e * 256 + f) div 64"
    using r [OF ef z z, of 10] unfolding m q q' by simp
qed

lemma broadcast_high:
  assumes le: "a \<le> 255" "b \<le> 255" "c \<le> 255" "d \<le> 255"
    and "v4InRange (word_of_nat (quad_value a b c d)) (v4_range_of (quad 255 255 255 255) 32)"
  shows "224 \<le> a"
proof -
  have e: "quad_value a b c d = quad_value 255 255 255 255"
    using in_range_quad [OF le, of 255 255 255 255 32] assms(5) by simp
  have "a = quad_value 255 255 255 255 div 2 ^ 24" using quad_div(1) [OF le(2-4), of a] e by metis
  then show ?thesis by (simp add: quad_value_def)
qed

lemma never_v4_iff:
  assumes le: "a \<le> 255" "b \<le> 255" "c \<le> 255" "d \<le> 255"
  shows "list_ex (v4InRange (word_of_nat (quad_value a b c d))) ALWAYS_BLOCKED_V4 \<longleftrightarrow> never_v4 a b"
proof -
  note i = in_range_cases [OF le]
  let ?w = "word_of_nat (quad_value a b c d) :: 32 word"
  have h: "a div 16 = 14 \<or> a div 16 = 15 \<longleftrightarrow> 224 \<le> a" using le(1) by auto
  have i1: "v4InRange ?w (v4_range_of (quad 169 254 0 0) 16) \<longleftrightarrow> a = 169 \<and> b = 254"
    using i(1) [of 169 254] sub_range(1) [OF le(2), of 254 a 169] by simp
  have i3: "v4InRange ?w (v4_range_of (quad 224 0 0 0) 4) \<longleftrightarrow> a div 16 = 14"
    "v4InRange ?w (v4_range_of (quad 240 0 0 0) 4) \<longleftrightarrow> a div 16 = 15"
    using i(3) [of 224 0] i(3) [of 240 0] by simp_all
  have i2: "v4InRange ?w (v4_range_of (quad 0 0 0 0) 8) \<longleftrightarrow> a = 0" using i(2) [of 0 0] by simp
  show ?thesis
    unfolding ranges_quad using i1 i2 i3 broadcast_high [OF le] h
    by (auto simp: never_v4_def)
qed

lemma private_v4_iff:
  assumes le: "a \<le> 255" "b \<le> 255" "c \<le> 255" "d \<le> 255"
  shows "list_ex (v4InRange (word_of_nat (quad_value a b c d))) PRIVATE_V4 \<longleftrightarrow> private_v4 a b"
proof -
  note i = in_range_cases [OF le] and s = sub_range [OF le(2)]
  let ?w = "word_of_nat (quad_value a b c d) :: 32 word"
  have i1: "v4InRange ?w (v4_range_of (quad 192 168 0 0) 16) \<longleftrightarrow> a = 192 \<and> b = 168"
    using i(1) [of 192 168] s(1) [of 168 a 192] by simp
  have i2: "v4InRange ?w (v4_range_of (quad 127 0 0 0) 8) \<longleftrightarrow> a = 127"
    "v4InRange ?w (v4_range_of (quad 10 0 0 0) 8) \<longleftrightarrow> a = 10"
    using i(2) [of 127 0] i(2) [of 10 0] by simp_all
  have i4: "v4InRange ?w (v4_range_of (quad 172 16 0 0) 12) \<longleftrightarrow> a = 172 \<and> 16 \<le> b \<and> b \<le> 31"
    using i(4) [of 172 16] s(2) [of 16 a 172] div_ones(1) [of b] by simp
  have i5: "v4InRange ?w (v4_range_of (quad 100 64 0 0) 10) \<longleftrightarrow> a = 100 \<and> 64 \<le> b \<and> b \<le> 127"
    using i(5) [of 100 64] s(3) [of 64 a 100] div_ones(2) [of b] by simp
  show ?thesis
    unfolding ranges_quad using i1 i2 i4 i5 by (simp add: private_v4_def)
qed

lemma classifyV4_quad:
  assumes le: "a \<le> 255" "b \<le> 255" "c \<le> 255" "d \<le> 255"
  shows "classifyV4 (quad a b c d) =
    (if never_v4 a b then AlwaysBlocked else if private_v4 a b then Private else AddrOk)"
  by (simp add: classifyV4_def ipv4ToInt_quad [OF le] never_v4_iff [OF le] private_v4_iff [OF le])

section \<open>IPv6 ranges\<close>

lemma v6HasPrefix_bytes:
  "k \<le> length addr \<Longrightarrow> k \<le> length pre \<Longrightarrow>
     v6HasPrefix addr pre (8 * k + r) \<longleftrightarrow> take k addr = take k pre \<and> v6HasPrefix (drop k addr) (drop k pre) r"
proof (induction k arbitrary: addr pre)
  case (Suc k)
  then obtain x xs y ys where "addr = x # xs" "pre = y # ys" by (cases addr; cases pre) auto
  with Suc show ?case by (subst v6HasPrefix.simps) (auto simp: byte_at_def)
qed simp

lemma v6HasPrefix_0: "v6HasPrefix addr pre 0"
  by (simp add: v6HasPrefix.simps)

lemma v6HasPrefix_bits:
  assumes "0 < r" "r < 8"
  shows "v6HasPrefix (x # xs) (y # ys) r \<longleftrightarrow> unat x div 2 ^ (8 - r) = unat y div 2 ^ (8 - r)"
proof -
  have m: "(0xff :: 8 word) = - 1" by simp
  show ?thesis using assms by (subst v6HasPrefix.simps) (simp only: byte_at_def m push_bit_minus_one_eq_not_mask Let_def list.case option.case mask_div, simp)
qed

lemma replicate_57: "replicate 7 x = [x, x, x, x, x, x, x]" "replicate 5 x = [x, x, x, x, x]"
  by (simp_all add: numeral_eq_Suc)

lemma v6_constants:
  "V6_LINK_LOCAL = [0xfe, 0x80, 0, 0, 0, 0, 0, 0, 0, 0, 0, 0, 0, 0, 0, 0]"
  "V6_LOOPBACK = [0, 0, 0, 0, 0, 0, 0, 0, 0, 0, 0, 0, 0, 0, 0, 1]"
  "V6_ULA = [0xfc, 0, 0, 0, 0, 0, 0, 0, 0, 0, 0, 0, 0, 0, 0, 0]"
  "V6_MULTICAST = [0xff, 0, 0, 0, 0, 0, 0, 0, 0, 0, 0, 0, 0, 0, 0, 0]"
  "V6_V4MAPPED = [0, 0, 0, 0, 0, 0, 0, 0, 0, 0, 0xff, 0xff, 0, 0, 0, 0]"
  by (simp_all add: V6_LINK_LOCAL_def V6_LOOPBACK_def V6_ULA_def V6_MULTICAST_def V6_V4MAPPED_def
      ipv6ToBytes_def v6_groups_def Let_def v6_group_ok_def group_bytes_def is_hex_def is_digit_def replicate_57
      after_colon_def lower_char_def is_upper_def js_lower_def nat_of_hex_def hex_val_def drop_bit_eq_div)

text \<open>The same for IPv6, on the sixteen bytes; a mapped address counts as the IPv4 address it holds.\<close>

definition mapped_v6 :: "8 word list \<Rightarrow> bool" where
  "mapped_v6 bs \<longleftrightarrow> take 12 bs = [0, 0, 0, 0, 0, 0, 0, 0, 0, 0, 0xff, 0xff]"

definition never_v6 :: "8 word list \<Rightarrow> bool" where
  "never_v6 bs \<longleftrightarrow>
     (if mapped_v6 bs then never_v4 (unat (bs ! 12)) (unat (bs ! 13))
      else unat (bs ! 0) = 254 \<and> unat (bs ! 1) div 64 = 2 \<or> unat (bs ! 0) = 255 \<or> (\<forall>b \<in> set bs. b = 0))"

definition private_v6 :: "8 word list \<Rightarrow> bool" where
  "private_v6 bs \<longleftrightarrow>
     (if mapped_v6 bs then private_v4 (unat (bs ! 12)) (unat (bs ! 13))
      else bs = replicate 15 0 @ [1] \<or> unat (bs ! 0) div 2 = 126)"

lemma group_bytes_length: "length (group_bytes g) = 2"
  by (simp add: group_bytes_def Let_def)

lemma groups_length: "v6_groups h = Some gs \<Longrightarrow> length gs = 8"
  by (auto simp: v6_groups_def Let_def split: if_splits)

lemma length_bytes: "ipv6ToBytes a = Some bs \<Longrightarrow> length bs = 16"
proof -
  have "length (concat (map group_bytes gs)) = 2 * length gs" for gs
    by (induction gs) (simp_all add: group_bytes_length)
  then show "ipv6ToBytes a = Some bs \<Longrightarrow> length bs = 16"
    by (auto simp: ipv6ToBytes_def Let_def v4_bytes_def dest: groups_length split: if_splits option.splits)
qed

lemma unat_byte: "unat (b :: 8 word) \<le> 255"
proof -
  have "unat b < 2 ^ LENGTH(8)" by (rule unsigned_less)
  then show ?thesis by simp
qed

lemma classifyV4_bytes:
  "classifyV4 (join ''.'' (map byte_text [a, b, c, d])) =
     (if never_v4 (unat a) (unat b) then AlwaysBlocked
      else if private_v4 (unat a) (unat b) then Private else AddrOk)"
  using classifyV4_quad [OF unat_byte [of a] unat_byte [of b] unat_byte [of c] unat_byte [of d]]
  by (simp add: quad_def byte_text_def)

lemma classifyV6_bytes:
  assumes "ipv6ToBytes a = Some bs"
  shows "classifyV6 a = (if never_v6 bs then AlwaysBlocked else if private_v6 bs then Private else AddrOk)"
proof -
  have len: "length bs = 16" by (rule length_bytes [OF assms])
  then obtain x y zs where bs: "bs = x # y # zs" by (cases bs; cases "tl bs") auto
  have m: "v6HasPrefix bs V6_V4MAPPED 96 \<longleftrightarrow> mapped_v6 bs"
    using v6HasPrefix_bytes [of 12 bs V6_V4MAPPED 0] len by (simp add: v6_constants v6HasPrefix_0 mapped_v6_def)
  have l: "v6HasPrefix bs V6_LINK_LOCAL 10 \<longleftrightarrow> unat (bs ! 0) = 254 \<and> unat (bs ! 1) div 64 = 2"
    using v6HasPrefix_bytes [of 1 bs V6_LINK_LOCAL 2] v6HasPrefix_bits [of 2 y zs "0x80"]
    by (simp add: v6_constants bs word_unat_eq_iff)
  have c: "v6HasPrefix bs V6_MULTICAST 8 \<longleftrightarrow> unat (bs ! 0) = 255"
    using v6HasPrefix_bytes [of 1 bs V6_MULTICAST 0] by (simp add: v6_constants bs v6HasPrefix_0 word_unat_eq_iff)
  have o: "v6HasPrefix bs V6_LOOPBACK 128 \<longleftrightarrow> bs = replicate 15 0 @ [1]"
    using v6HasPrefix_bytes [of 16 bs V6_LOOPBACK 0] len
    by (simp add: v6_constants v6HasPrefix_0 numeral_eq_Suc)
  have u: "v6HasPrefix bs V6_ULA 7 \<longleftrightarrow> unat (bs ! 0) div 2 = 126"
    using v6HasPrefix_bits [of 7 x "y # zs" "0xfc"] by (simp add: v6_constants bs)
  show ?thesis
    unfolding classifyV6_def assms option.case m l c o u never_v6_def private_v6_def list_all_iff
      classifyV4_bytes by auto
qed

section \<open>Properties\<close>

text \<open>
  The classification of an IPv4 address by shifts and masks on 32-bit integers is the one by its
  octets: link-local, zero, multicast, reserved and broadcast addresses are never allowed;
  loopback, RFC 1918 and carrier-grade NAT addresses are private; all others are routable.
\<close>

theorem classifyV4_by_octets:
  assumes "a \<le> 255" "b \<le> 255" "c \<le> 255" "d \<le> 255"
  shows "classifyV4 (quad a b c d) =
    (if never_v4 a b then AlwaysBlocked else if private_v4 a b then Private else AddrOk)"
  by (rule classifyV4_quad [OF assms])

theorem classifyV4_by_octets_witness:
  "classifyV4 (quad 169 254 169 254) = AlwaysBlocked \<and> classifyV4 (quad 172 31 0 1) = Private
   \<and> classifyV4 (quad 172 32 0 1) = AddrOk"
  by (simp add: classifyV4_by_octets never_v4_def private_v4_def)

lemma check_addresses_None:
  "check_addresses env policy host addrs = None \<Longrightarrow> a \<in> set addrs \<Longrightarrow>
     classify_resolved env a \<noteq> AlwaysBlocked
     \<and> (classify_resolved env a = Private \<longrightarrow> op_allowPrivateNetworks policy)"
  by (induction addrs) (auto simp: Let_def split: if_splits)

lemma resolve_host_Safe: "resolve_host env policy host = Inl (Safe addrs) \<Longrightarrow> addrs = []"
  by (auto simp: resolve_host_def Let_def split: if_splits sum.splits)

lemma outbound_safe:
  assumes "checkOutboundUrlSafe env policy u = Safe addrs"
  shows "\<exists>url. ne_parseUrl env u = Some url \<and> url_protocol url \<in> {''http:'', ''https:''}
    \<and> (addrs = [] \<or> (ne_production env \<longrightarrow> url_protocol url = ''https:'' \<or> op_allowInsecureHttp policy))
    \<and> (\<forall>a \<in> set addrs. classify_resolved env a \<noteq> AlwaysBlocked
         \<and> (classify_resolved env a = Private \<longrightarrow> op_allowPrivateNetworks policy))"
proof -
  obtain url where url: "ne_parseUrl env u = Some url" "url_protocol url \<in> {''http:'', ''https:''}"
    "url_hostname url \<noteq> []"
    using assms by (auto simp: checkOutboundUrlSafe_def split: option.splits if_splits)
  show ?thesis
  proof (cases "resolve_host env policy (url_hostname url)")
    case (Inl r)
    with assms url have "r = Safe addrs" by (auto simp: checkOutboundUrlSafe_def)
    with Inl resolve_host_Safe url show ?thesis by fastforce
  next
    case (Inr as)
    with assms url have c: "check_addresses env policy (url_hostname url) as = None" "as = addrs"
      "ne_production env \<longrightarrow> url_protocol url = ''https:'' \<or> op_allowInsecureHttp policy"
      by (auto simp: checkOutboundUrlSafe_def split: option.splits if_splits)
    with url check_addresses_None [OF c(1)] show ?thesis by blast
  qed
qed

text \<open>
  C30. A URL the guard lets through uses HTTP or HTTPS, and every address it is resolved to is outside the
  networks that are never allowed, private only where the policy allows private networks: for an
  IPv4 address by its octets, and for an IPv6 address in any spelling by its sixteen bytes, where an
  IPv4-mapped one counts as the IPv4 address it maps.
\<close>

theorem outbound_guard_sound:
  assumes "checkOutboundUrlSafe env policy u = Safe addrs" "addr \<in> set addrs"
    and "a \<le> 255" "b \<le> 255" "c \<le> 255" "d \<le> 255"
  shows "(ne_isIP env addr = 4 \<or> ne_isIP env addr = 6)
    \<and> (ne_isIP env addr = 4 \<and> addr = quad a b c d \<longrightarrow>
         \<not> never_v4 a b \<and> (private_v4 a b \<longrightarrow> op_allowPrivateNetworks policy))
    \<and> (ne_isIP env addr = 6 \<longrightarrow>
         (\<exists>bs. ipv6ToBytes addr = Some bs \<and> \<not> never_v6 bs \<and> (private_v6 bs \<longrightarrow> op_allowPrivateNetworks policy)))
    \<and> (\<exists>url. ne_parseUrl env u = Some url \<and> url_protocol url \<in> {''http:'', ''https:''}
         \<and> (ne_production env \<longrightarrow> url_protocol url = ''https:'' \<or> op_allowInsecureHttp policy))"
proof -
  from outbound_safe [OF assms(1)] assms(2) have cls: "classify_resolved env addr \<noteq> AlwaysBlocked"
    "classify_resolved env addr = Private \<longrightarrow> op_allowPrivateNetworks policy"
    and url: "\<exists>url. ne_parseUrl env u = Some url \<and> url_protocol url \<in> {''http:'', ''https:''}
         \<and> (ne_production env \<longrightarrow> url_protocol url = ''https:'' \<or> op_allowInsecureHttp policy)" by auto
  have ip: "ne_isIP env addr = 4 \<or> ne_isIP env addr = 6"
    using cls(1) by (auto simp: classify_resolved_def split: if_splits)
  have v4: "\<not> never_v4 a b \<and> (private_v4 a b \<longrightarrow> op_allowPrivateNetworks policy)"
    if "ne_isIP env addr = 4 \<and> addr = quad a b c d"
    using cls that classifyV4_quad [OF assms(3-6)] by (auto simp: classify_resolved_def split: if_splits)
  have v6: "\<exists>bs. ipv6ToBytes addr = Some bs \<and> \<not> never_v6 bs \<and> (private_v6 bs \<longrightarrow> op_allowPrivateNetworks policy)"
    if "ne_isIP env addr = 6"
  proof -
    have c6: "classify_resolved env addr = classifyV6 addr" using that by (simp add: classify_resolved_def)
    then obtain bs where bs: "ipv6ToBytes addr = Some bs" using cls(1)
      by (cases "ipv6ToBytes addr") (simp_all add: classifyV6_def)
    with cls c6 classifyV6_bytes [OF bs] show ?thesis by (auto split: if_splits)
  qed
  from ip v4 v6 url show ?thesis by blast
qed

theorem outbound_guard_sound_witness:
  "\<exists>env policy. checkOutboundUrlSafe env policy ''https://ns1/'' = Safe [quad 93 184 215 14]
     \<and> ne_isIP env (quad 93 184 215 14) = 4 \<and> ne_production env \<and> \<not> never_v4 93 184 \<and> \<not> private_v4 93 184
     \<and> (\<exists>url. ne_parseUrl env ''https://ns1/'' = Some url \<and> url_protocol url \<in> {''http:'', ''https:''})"
proof -
  define env where "env = \<lparr>ne_parseUrl = (\<lambda>_. Some \<lparr>url_protocol = ''https:'', url_hostname = ''ns1''\<rparr>),
    ne_isIP = (\<lambda>s. if s = ''ns1'' then 0 else 4), ne_lookup = (\<lambda>_. Inr [quad 93 184 215 14]), ne_production = True\<rparr>"
  define policy where "policy = pdnsPolicy None \<lparr>fl_allowPrivateNetworks = None, fl_allowInsecureHttp = None\<rparr> True"
  have n: "quad 93 184 215 14 \<noteq> ''ns1''" by (simp add: quad_def dec_of_nat.simps char_of_def bit_0)
  have b: "stripBrackets ''ns1'' = ''ns1''" by (simp add: stripBrackets_def starts_with_def)
  have safe: "checkOutboundUrlSafe env policy ''https://ns1/'' = Safe [quad 93 184 215 14]"
    by (simp add: checkOutboundUrlSafe_def resolve_host_def env_def n b classify_resolved_def
        classifyV4_quad never_v4_def private_v4_def Let_def)
  have p: "op_allowPrivateNetworks policy = False" by (simp add: policy_def pdnsPolicy_def)
  have i: "ne_isIP env (quad 93 184 215 14) = 4" by (simp add: env_def n)
  have pr: "ne_production env" by (simp add: env_def)
  from outbound_guard_sound [OF safe, of "quad 93 184 215 14" 93 184 215 14] safe p i pr
  show ?thesis by auto
qed

lemma pinned_in: "pinned_address env addresses = Some a \<Longrightarrow> a \<in> set addresses"
  by (auto simp: pinned_address_def find_Some_iff split: option.splits list.splits)

text \<open>
  C31. A guarded fetch connects, if it connects at all, to an address the guard itself classified, of a
  known family: never in a network that is always blocked, private only under a policy that allows
  it, without following redirects.  No second resolution of the name takes part.
\<close>

theorem guarded_fetch_pins_checked_address:
  assumes "makeGuardedFetch env (checkOutboundUrlSafe env policy) onUnsafe u = Requested v addr fam follow"
  shows "v = u \<and> \<not> follow \<and> fam = ne_isIP env addr \<and> fam \<in> {4, 6}
    \<and> classify_resolved env addr \<noteq> AlwaysBlocked
    \<and> (op_allowPrivateNetworks policy \<or> classify_resolved env addr = AddrOk)
    \<and> (\<exists>addrs. checkOutboundUrlSafe env policy u = Safe addrs \<and> addr \<in> set addrs)"
proof -
  from assms obtain addrs where s: "checkOutboundUrlSafe env policy u = Safe addrs"
    and p: "pinned_address env addrs = Some addr" and e: "v = u" "fam = ne_isIP env addr" "\<not> follow"
    by (auto simp: makeGuardedFetch_def buildPinnedDispatcher_def split: url_safety.splits option.splits sum.splits)
  have i: "addr \<in> set addrs" by (rule pinned_in [OF p])
  from outbound_safe [OF s] i have c: "classify_resolved env addr \<noteq> AlwaysBlocked"
    "classify_resolved env addr = Private \<Longrightarrow> op_allowPrivateNetworks policy" by auto
  have f: "ne_isIP env addr = 4 \<or> ne_isIP env addr = 6"
    using c(1) by (auto simp: classify_resolved_def split: if_splits)
  have a: "op_allowPrivateNetworks policy \<or> classify_resolved env addr = AddrOk"
    using c by (cases "classify_resolved env addr") auto
  from e f c(1) a s i show ?thesis by blast
qed

theorem guarded_fetch_pins_checked_address_witness:
  "\<exists>env policy addr fam. makeGuardedFetch env (checkOutboundUrlSafe env policy) None ''https://ns1/''
       = Requested ''https://ns1/'' addr fam False
     \<and> addr = quad 93 184 215 14 \<and> fam \<in> {4, 6} \<and> classify_resolved env addr \<noteq> AlwaysBlocked
     \<and> \<not> op_allowPrivateNetworks policy \<and> classify_resolved env addr = AddrOk"
proof -
  define env where "env = \<lparr>ne_parseUrl = (\<lambda>_. Some \<lparr>url_protocol = ''https:'', url_hostname = ''ns1''\<rparr>),
    ne_isIP = (\<lambda>s. if s = ''ns1'' then 0 else 4), ne_lookup = (\<lambda>_. Inr [quad 93 184 215 14]), ne_production = True\<rparr>"
  define policy where "policy = pdnsPolicy None \<lparr>fl_allowPrivateNetworks = None, fl_allowInsecureHttp = None\<rparr> True"
  have n: "quad 93 184 215 14 \<noteq> ''ns1''" by (simp add: quad_def dec_of_nat.simps char_of_def bit_0)
  have b: "stripBrackets ''ns1'' = ''ns1''" by (simp add: stripBrackets_def starts_with_def)
  have fetched: "makeGuardedFetch env (checkOutboundUrlSafe env policy) None ''https://ns1/''
      = Requested ''https://ns1/'' (quad 93 184 215 14) 4 False"
    by (simp add: checkOutboundUrlSafe_def resolve_host_def env_def n b classify_resolved_def makeGuardedFetch_def
        buildPinnedDispatcher_def pinned_address_def classifyV4_quad never_v4_def private_v4_def Let_def)
  have p: "\<not> op_allowPrivateNetworks policy" by (simp add: policy_def pdnsPolicy_def)
  from guarded_fetch_pins_checked_address [OF fetched] fetched p show ?thesis by blast
qed

section \<open>Redirects and e-mail domains: properties\<close>

text \<open>
  What the sign-in pages redirect to is a path of this site: it begins with exactly one slash, which
  neither a slash nor a backslash follows.
\<close>

theorem safeNextPath_root_relative:
  "\<exists>rest. safeNextPath next' = CHR ''/'' # rest
     \<and> (case rest of [] \<Rightarrow> True | ch # _ \<Rightarrow> ch \<noteq> CHR ''/'' \<and> ch \<noteq> CHR 0x5C)
     \<and> safeNextPath next' \<in> {DEFAULT_DESTINATION, case next' of None \<Rightarrow> [] | Some n \<Rightarrow> n}"
proof -
  have d: "DEFAULT_DESTINATION = CHR ''/'' # ''dashboard''" by (simp add: DEFAULT_DESTINATION_def)
  show ?thesis
  proof (cases next')
    case None
    then show ?thesis by (simp add: safeNextPath_def d)
  next
    case (Some n)
    show ?thesis
    proof (cases n)
      case Nil
      with Some show ?thesis by (simp add: safeNextPath_def d)
    next
      case (Cons a rest)
      show ?thesis unfolding Some Cons safeNextPath_def
        by (cases rest) (auto simp: starts_with_def d)
    qed
  qed
qed

text \<open>
  A browser drops tabs and line feeds from a URL before it parses it.  The guard does not: a slash,
  a tab and a slash pass, and what the browser reads begins with two slashes, the mark of another
  host.
\<close>

definition browser_reads :: "string \<Rightarrow> string" where
  "browser_reads = filter (\<lambda>c. c \<notin> {CHR 0x09, CHR 0x0A, CHR 0x0D})"

lemma safeNextPath_tab:
  "safeNextPath (Some ([CHR ''/'', CHR 0x09] @ ''/evil.example''))
     = [CHR ''/'', CHR 0x09] @ ''/evil.example''"
  "browser_reads ([CHR ''/'', CHR 0x09] @ ''/evil.example'') = ''//evil.example''"
  by (simp_all add: safeNextPath_def starts_with_def browser_reads_def)

text \<open>
  An allowlist of e-mail domains admits an address exactly when the lower-cased text after its last
  at sign is on the list, never a subdomain or a suffix of a listed domain; an address without one
  is admitted by no list of proper domains, and the empty list admits every address.
\<close>

theorem emailDomainAllowed_exact:
  assumes "CHR ''@'' \<notin> set domain" "domain \<noteq> []" "allowed \<noteq> []"
  shows "fst (emailDomainAllowed (local @ CHR ''@'' # domain) allowed) = (js_lower domain \<in> set allowed)"
proof -
  have "takeWhile (\<lambda>c. c \<noteq> CHR ''@'') (rev domain @ CHR ''@'' # rev local) = rev domain"
    using assms(1) by (subst takeWhile_append2) auto
  then show ?thesis using assms by (simp add: emailDomainAllowed_def emailDomain_def Let_def)
qed

theorem emailDomainAllowed_exact_witness:
  "fst (emailDomainAllowed ''a@x.b@Corp.com'' [''corp.com'']) = True
   \<and> fst (emailDomainAllowed ''a@eu.corp.com'' [''corp.com'']) = False"
  using emailDomainAllowed_exact [of "''Corp.com''" "[''corp.com'']" "''a@x.b''"]
    emailDomainAllowed_exact [of "''eu.corp.com''" "[''corp.com'']" "''a''"]
  by (simp add: js_lower_def lower_char_def is_upper_def char_of_def bit_0)

end
