(* ===== verification/AutoPtrRun.thy ===== *)
theory AutoPtrRun
  imports RrsetRoute
begin

text \<open>
  Models \<open>app/api/admin/pdns/zones/[zoneId]/rrsets/_auto-ptr.ts\<close>: after an address change was
  written, the PTR RRsets in the hosted reverse zones are read, planned (AutoPtr), gated by the
  caller's permissions in each reverse zone, and written, one PATCH per zone.  The answers of the
  backends are functions in \<open>ptr_deps\<close>; concurrent requests are taken in the order of the list.
  The outcome objects the code mutates after a failed write are addressed by their index in the
  list of outcomes.  The dry run of \<open>rrsets/ptr-plan/route.ts\<close> follows.
\<close>

section \<open>The world\<close>

record backend_row = server_row +
  bk_writeMode :: string
  bk_clusterId :: "string option"

record zone_listing =
  zl_name :: string
  zl_kind :: string

type_synonym zone_host = "backend_row \<times> string"

record ptr_deps =
  pd_backends :: "thrown + backend_row list"
  pd_listZones :: "backend_row \<Rightarrow> zone_listing list pdns_call"
  pd_cachedZones :: "string \<Rightarrow> zone_listing list option"
  pd_supportsFilter :: "backend_row \<Rightarrow> bool"
  pd_getZone :: "backend_row \<Rightarrow> string \<Rightarrow> zone_get \<Rightarrow> zone_detail pdns_call"
  pd_patchZone :: "backend_row \<Rightarrow> string \<Rightarrow> rrset_patch list \<Rightarrow> unit pdns_call"
  pd_redact :: "string \<Rightarrow> string"

record auto_ptr_request =
  ar_server :: backend_row
  ar_zone :: string
  ar_changes :: "ptr_change list"
  ar_canOnZone :: "string \<Rightarrow> string \<Rightarrow> string \<Rightarrow> bool"
  ar_dryRun :: bool
  ar_reverseSummary :: bool

datatype ptr_effect =
    PPatch backend_row string "rrset_patch list"
  | PAfterWrite string string
  | PAudit string string "live_rrset option" "live_rrset option"
  | PNotify string string
  | PSummary string "auto_ptr_outcome list"

section \<open>Finding the reverse zones\<close>

definition backend_zones :: "ptr_deps \<Rightarrow> backend_row \<Rightarrow> zone_listing list" where
  "backend_zones deps server =
     (case pd_listZones deps server of
        Returned zs \<Rightarrow> zs
      | _ \<Rightarrow> (case pd_cachedZones deps (sv_id server) of None \<Rightarrow> [] | Some zs \<Rightarrow> zs))"

definition hosts_of :: "(string \<times> zone_host list) list \<Rightarrow> string \<Rightarrow> zone_host list" where
  "hosts_of zones name = (case map_of zones name of None \<Rightarrow> [] | Some hs \<Rightarrow> hs)"

definition add_hosted :: "backend_row \<Rightarrow> (string \<times> zone_host list) list \<Rightarrow> zone_listing \<Rightarrow>
    (string \<times> zone_host list) list" where
  "add_hosted server out z =
     (if \<not> isReverseZone (zl_name z) then out
      else let name = canonicalZone (zl_name z)
           in AList.update name (hosts_of out name @ [(server, zl_kind z)]) out)"

definition discoverReverseZones :: "ptr_deps \<Rightarrow> backend_row list \<Rightarrow> (string \<times> zone_host list) list" where
  "discoverReverseZones deps servers =
     foldl (\<lambda>out server. foldl (add_hosted server) out (backend_zones deps server)) [] servers"

definition writable_host :: "zone_host \<Rightarrow> bool" where
  "writable_host h \<longleftrightarrow> bk_writeMode (fst h) \<noteq> ''read_only'' \<and> \<not> isReadOnlyZoneKind (snd h)"

definition chooseHost :: "zone_host list \<Rightarrow> backend_row \<Rightarrow> zone_host option" where
  "chooseHost hosts forwardServer =
     (let writable = filter writable_host hosts in
      if length writable = 0 then None
      else case find (\<lambda>h. sv_id (fst h) = sv_id forwardServer) writable of
        Some h \<Rightarrow> Some h
      | None \<Rightarrow>
          (case find (\<lambda>h. bk_clusterId forwardServer \<noteq> None
                  \<and> bk_clusterId (fst h) = bk_clusterId forwardServer) writable of
             Some h \<Rightarrow> Some h
           | None \<Rightarrow> Some (hd writable)))"

section \<open>Reading the existing PTRs\<close>

definition loadRRsets :: "bool \<Rightarrow> (zone_get \<Rightarrow> zone_detail pdns_call) \<Rightarrow> (string \<times> string) list \<Rightarrow>
    (string \<times> live_rrset) list pdns_call" where
  "loadRRsets supportsFilter getZone keys =
     (if length keys = 0 then Returned []
      else case (if \<not> supportsFilter \<or> length keys > MAX_FILTERED_RRSET_FETCHES
                 then all_calls [getZone GetFull]
                 else all_calls (map (\<lambda>k. getZone (GetRRset (fst k) (snd k))) keys)) of
        Returned zs \<Rightarrow>
          Returned (foldl (\<lambda>out rr. AList.update (rrset_key (rs_name rr) (rs_type rr)) rr out) []
            (concat (map (\<lambda>p. case zd_rrsets p of Some rs \<Rightarrow> rs | None \<Rightarrow> []) zs)))
      | NotFoundRaised m \<Rightarrow> NotFoundRaised m
      | PdnsRaised s m \<Rightarrow> PdnsRaised s m
      | OtherRaised m \<Rightarrow> OtherRaised m)"

definition owners_of_change :: "string list \<Rightarrow> (string \<times> string list) list \<Rightarrow> ptr_change \<Rightarrow>
    (string \<times> string list) list" where
  "owners_of_change hosted m c =
     (case c of (change, before, _) \<Rightarrow>
        foldl (\<lambda>m oz. AList.update (snd oz)
            (jset_add (fst oz) (case map_of m (snd oz) of None \<Rightarrow> [] | Some s \<Rightarrow> s)) m)
          m (candidatePtrOwners change (map_option v_records before) hosted))"

definition ownersByZone :: "string list \<Rightarrow> ptr_change list \<Rightarrow> (string \<times> string list) list" where
  "ownersByZone hosted changes = foldl (owners_of_change hosted) [] changes"

record ptr_reads =
  pr_existing :: "(string \<times> live_rrset) list"
  pr_hostFor :: "(string \<times> zone_host) list"
  pr_unreadable :: "string list"
  pr_unwritable :: "string list"

definition read_zone :: "ptr_deps \<Rightarrow> backend_row \<Rightarrow> (string \<times> zone_host list) list \<Rightarrow> ptr_reads \<Rightarrow>
    string \<times> string list \<Rightarrow> ptr_reads" where
  "read_zone deps forwardServer zones r zo =
     (case zo of (zone, owners) \<Rightarrow>
        case chooseHost (hosts_of zones zone) forwardServer of
          None \<Rightarrow> r\<lparr>pr_unwritable := jset_add zone (pr_unwritable r)\<rparr>
        | Some host \<Rightarrow>
            let r' = r\<lparr>pr_hostFor := AList.update zone host (pr_hostFor r)\<rparr> in
            case loadRRsets (pd_supportsFilter deps (fst host)) (pd_getZone deps (fst host) zone)
                   (map (\<lambda>name. (name, ''PTR'')) owners) of
              Returned rrsets \<Rightarrow>
                r'\<lparr>pr_existing := foldl (\<lambda>ex kr. if \<not> ends_with (fst kr) ''|PTR'' then ex
                       else AList.update (rs_name (snd kr)) (snd kr) ex) (pr_existing r') rrsets\<rparr>
            | _ \<Rightarrow> r'\<lparr>pr_unreadable := jset_add zone (pr_unreadable r')\<rparr>)"

definition read_existing :: "ptr_deps \<Rightarrow> backend_row \<Rightarrow> (string \<times> zone_host list) list \<Rightarrow>
    ptr_change list \<Rightarrow> ptr_reads" where
  "read_existing deps forwardServer zones changes =
     foldl (read_zone deps forwardServer zones)
       \<lparr>pr_existing = [], pr_hostFor = [], pr_unreadable = [], pr_unwritable = []\<rparr>
       (ownersByZone (map fst zones) changes)"

section \<open>Planning and gating\<close>

definition value_of_live :: "live_rrset \<Rightarrow> rrset_value" where
  "value_of_live rr = \<lparr>v_ttl = rs_ttl rr, v_records = map address_of_record (rs_records rr)\<rparr>"

definition ptr_ctx :: "string list \<Rightarrow> ptr_reads \<Rightarrow> bool \<Rightarrow> ptr_context" where
  "ptr_ctx hosted reads force =
     \<lparr>hostedReverseZones = hosted,
      existing = (\<lambda>own. map_option value_of_live (map_of (pr_existing reads) own)),
      takeover = Some force\<rparr>"

definition outcome_base :: "address_change \<Rightarrow> ptr_plan_item \<Rightarrow> zone_host option \<Rightarrow> auto_ptr_outcome" where
  "outcome_base c item host =
     \<lparr>o_name = c_name c, o_type = c_type c, o_kind = c_kind c, o_ip = i_ip item, o_owner = i_owner item,
      o_reverseZone = i_reverseZone item, o_server = map_option (\<lambda>h. sv_slug (fst h)) host,
      o_action = Planned (i_action item), o_reason = map_option SkipReason (i_reason item),
      o_message = None, o_currentTargets = i_currentTargets item\<rparr>"

definition ptr_allowed :: "auto_ptr_request \<Rightarrow> zone_host \<Rightarrow> string \<Rightarrow> ptr_action \<Rightarrow> bool" where
  "ptr_allowed input host zone action =
     (if action = PtrDelete then ar_canOnZone input (sv_id (fst host)) zone ''record.delete''
      else ar_canOnZone input (sv_id (fst host)) zone ''record.create''
         \<or> ar_canOnZone input (sv_id (fst host)) zone ''record.update'')"

definition needs_write :: "ptr_action \<Rightarrow> bool" where
  "needs_write action \<longleftrightarrow> action \<in> {PtrCreate, PtrUpdate, PtrDelete, PtrConflict}"

text \<open>The outcome of one planned item and, when it is to be written, the zone and its backend.\<close>

definition gate_item :: "auto_ptr_request \<Rightarrow> ptr_reads \<Rightarrow> address_change \<Rightarrow> ptr_plan_item \<Rightarrow>
    auto_ptr_outcome \<times> (string \<times> zone_host) option" where
  "gate_item input reads c item =
     (let host = (case i_reverseZone item of None \<Rightarrow> None | Some z \<Rightarrow> map_of (pr_hostFor reads) z);
          base = outcome_base c item host
      in case i_reverseZone item of
        None \<Rightarrow> (base, None)
      | Some zone \<Rightarrow>
          if zone \<in> set (pr_unwritable reads)
          then (base\<lparr>o_action := Planned PtrSkip, o_reason := Some ReverseZoneNotWritable,
                     o_currentTargets := None\<rparr>, None)
          else if zone \<in> set (pr_unreadable reads)
          then (base\<lparr>o_action := Failed, o_reason := Some ReadFailed, o_currentTargets := None\<rparr>, None)
          else case host of
            None \<Rightarrow> (base, None)
          | Some h \<Rightarrow>
              if \<not> ptr_allowed input h zone (i_action item)
              then (if needs_write (i_action item)
                    then base\<lparr>o_action := Planned PtrSkip, o_reason := Some NoPermission,
                              o_currentTargets := None\<rparr>
                    else base\<lparr>o_currentTargets := None\<rparr>, None)
              else if \<not> needs_write (i_action item) \<or> i_action item = PtrConflict then (base, None)
              else (base, Some (zone, h)))"

record ptr_write =
  wi_index :: nat
  wi_patch :: rrset_patch
  wi_before :: "live_rrset option"
  wi_after :: "live_rrset option"

definition record_of_address :: "address_record \<Rightarrow> rr_record" where
  "record_of_address r = \<lparr>rr_content = a_content r, rr_disabled = a_disabled r\<rparr>"

definition ptr_rrset :: "string \<Rightarrow> nat \<Rightarrow> rr_record list \<Rightarrow> json list \<Rightarrow> live_rrset" where
  "ptr_rrset owner ttl records comments =
     \<lparr>rs_name = owner, rs_type = ''PTR'', rs_ttl = ttl, rs_records = records,
      lr_comments = Some (JArr comments)\<rparr>"

definition ptr_patch :: "live_rrset option \<Rightarrow> ptr_plan_item \<Rightarrow> thrown + rrset_patch" where
  "ptr_patch current item =
     (if i_action item = PtrDelete then deleteRRset (i_owner item) ''PTR''
      else case i_rrset item of
        None \<Rightarrow> deleteRRset (i_owner item) ''PTR''
      | Some w \<Rightarrow> replaceRRset (i_owner item) ''PTR'' (v_ttl w) (map record_of_address (v_records w))
                    (Some (readComments current)))"

definition ptr_write_of :: "ptr_reads \<Rightarrow> nat \<Rightarrow> ptr_plan_item \<Rightarrow> thrown + ptr_write" where
  "ptr_write_of reads i item =
     (let current = map_of (pr_existing reads) (i_owner item);
          comments = readComments current
      in sbind (ptr_patch current item) (\<lambda>patch.
        Inr \<lparr>wi_index = i, wi_patch = patch,
             wi_before = map_option (\<lambda>rr. ptr_rrset (i_owner item) (rs_ttl rr) (rs_records rr) comments) current,
             wi_after = (if i_action item = PtrDelete then None
                else map_option (\<lambda>w. ptr_rrset (i_owner item) (v_ttl w)
                       (map record_of_address (v_records w)) comments) (i_rrset item))\<rparr>))"

type_synonym zone_writes = "(string \<times> zone_host \<times> ptr_write list) list"
type_synonym gate_state = "auto_ptr_outcome list \<times> zone_writes"

definition add_write :: "string \<Rightarrow> zone_host \<Rightarrow> ptr_write \<Rightarrow> zone_writes \<Rightarrow> zone_writes" where
  "add_write zone host w writes =
     (case map_of writes zone of
        None \<Rightarrow> AList.update zone (host, [w]) writes
      | Some (h, items) \<Rightarrow> AList.update zone (h, items @ [w]) writes)"

definition gate_step :: "auto_ptr_request \<Rightarrow> ptr_reads \<Rightarrow> address_change \<Rightarrow> ptr_plan_item \<Rightarrow>
    gate_state \<Rightarrow> thrown + gate_state" where
  "gate_step input reads c item st =
     (case st of (outcomes, writes) \<Rightarrow>
        case gate_item input reads c item of
          (outcome, None) \<Rightarrow> Inr (outcomes @ [outcome], writes)
        | (outcome, Some (zone, host)) \<Rightarrow>
            if ar_dryRun input then Inr (outcomes @ [outcome], writes)
            else sbind (ptr_write_of reads (length outcomes) item) (\<lambda>w.
              Inr (outcomes @ [outcome], add_write zone host w writes)))"

fun gate_items :: "auto_ptr_request \<Rightarrow> ptr_reads \<Rightarrow> address_change \<Rightarrow> ptr_plan_item list \<Rightarrow>
    gate_state \<Rightarrow> thrown + gate_state" where
  "gate_items input reads c [] st = Inr st"
| "gate_items input reads c (item # items) st =
     sbind (gate_step input reads c item st) (gate_items input reads c items)"

fun gate_changes :: "auto_ptr_request \<Rightarrow> string list \<Rightarrow> ptr_reads \<Rightarrow> ptr_change list \<Rightarrow>
    gate_state \<Rightarrow> thrown + gate_state" where
  "gate_changes input hosted reads [] st = Inr st"
| "gate_changes input hosted reads ((change, before, force) # cs) st =
     sbind (gate_items input reads change
              (p_items (planPtrChanges change before (ptr_ctx hosted reads force))) st)
       (gate_changes input hosted reads cs)"

section \<open>Writing\<close>

definition call_failure :: "'a pdns_call \<Rightarrow> string option" where
  "call_failure c =
     (case c of Returned _ \<Rightarrow> None | NotFoundRaised m \<Rightarrow> Some m | PdnsRaised s m \<Rightarrow> Some m | OtherRaised m \<Rightarrow> Some m)"

definition mark_failed :: "string \<Rightarrow> auto_ptr_outcome list \<Rightarrow> nat \<Rightarrow> auto_ptr_outcome list" where
  "mark_failed message outcomes i =
     outcomes[i := (outcomes ! i)\<lparr>o_action := Failed, o_reason := Some WriteFailed, o_message := Some message\<rparr>]"

definition write_audit :: "zone_host \<Rightarrow> string \<Rightarrow> auto_ptr_outcome list \<Rightarrow> ptr_write \<Rightarrow> ptr_effect" where
  "write_audit host zone outcomes i =
     PAudit (if o_action (outcomes ! wi_index i) = Planned PtrDelete then ''record.delete''
             else if wi_before i = None then ''record.create'' else ''record.update'')
       (sv_slug (fst host) @ '':'' @ zone @ '':'' @ o_owner (outcomes ! wi_index i) @ ''|PTR'')
       (wi_before i) (wi_after i)"

definition write_zone :: "ptr_deps \<Rightarrow> auto_ptr_outcome list \<times> ptr_effect list \<Rightarrow>
    string \<times> zone_host \<times> ptr_write list \<Rightarrow> auto_ptr_outcome list \<times> ptr_effect list" where
  "write_zone deps st w =
     (case st of (outcomes, effects) \<Rightarrow> case w of (zone, host, items) \<Rightarrow>
        case zonePatchBody (map wi_patch items) of
          Inl _ \<Rightarrow> (foldl (mark_failed (pd_redact deps ''zonePatchBody requires at least one RRset patch.''))
                     outcomes (map wi_index items), effects)
        | Inr patches \<Rightarrow>
            (case call_failure (pd_patchZone deps (fst host) zone patches) of
               Some m \<Rightarrow> (foldl (mark_failed (pd_redact deps m)) outcomes (map wi_index items),
                          effects @ [PPatch (fst host) zone patches])
             | None \<Rightarrow>
                 (outcomes,
                  effects @ [PPatch (fst host) zone patches, PAfterWrite zone (sv_slug (fst host))]
                    @ map (write_audit host zone outcomes) items
                    @ (if isTransferredKind (snd host) then [PNotify (sv_slug (fst host)) zone] else []))))"

definition reverse_summaries :: "auto_ptr_request \<Rightarrow> auto_ptr_outcome list \<Rightarrow> ptr_effect list" where
  "reverse_summaries input outcomes =
     map (\<lambda>oc. PSummary ((case o_server oc of Some s \<Rightarrow> s | None \<Rightarrow> sv_slug (ar_server input)) @ '':''
             @ (case o_reverseZone oc of Some z \<Rightarrow> z | None \<Rightarrow> []) @ '':'' @ o_owner oc @ ''|PTR'') [oc])
       (filter (\<lambda>oc. o_action oc \<noteq> Planned PtrUnchanged \<and> o_reverseZone oc \<noteq> None) outcomes)"

definition forward_summary :: "auto_ptr_request \<Rightarrow> auto_ptr_outcome list \<Rightarrow> ptr_change \<Rightarrow> ptr_effect list" where
  "forward_summary input outcomes c =
     (let mine = filter (\<lambda>oc. o_name oc = c_name (fst c) \<and> o_type oc = c_type (fst c)
                           \<and> o_kind oc = c_kind (fst c)) outcomes
      in if length mine = 0 \<or> list_all (\<lambda>oc. o_action oc = Planned PtrUnchanged) mine then []
         else [PSummary (sv_slug (ar_server input) @ '':'' @ ar_zone input @ '':'' @ c_name (fst c) @ ''|''
                 @ (if c_type (fst c) = TypeA then ''A'' else ''AAAA'')) mine])"

definition runAutoPtr :: "ptr_deps \<Rightarrow> auto_ptr_request \<Rightarrow>
    (thrown + auto_ptr_outcome list) \<times> ptr_effect list" where
  "runAutoPtr deps input =
     (if length (ar_changes input) = 0 then (Inr [], [])
      else case pd_backends deps of
        Inl e \<Rightarrow> (Inl e, [])
      | Inr servers \<Rightarrow>
          let zones = discoverReverseZones deps servers;
              hosted = map fst zones;
              reads = read_existing deps (ar_server input) zones (ar_changes input)
          in case gate_changes input hosted reads (ar_changes input) ([], []) of
               Inl e \<Rightarrow> (Inl e, [])
             | Inr (outcomes, writes) \<Rightarrow>
                 if ar_dryRun input then (Inr outcomes, [])
                 else case foldl (write_zone deps) (outcomes, []) writes of
                   (outcomes', effects) \<Rightarrow>
                     (Inr outcomes',
                      effects @ (if ar_reverseSummary input then reverse_summaries input outcomes'
                                 else concat (map (forward_summary input outcomes') (ar_changes input)))))"

definition resolveZoneAutoPtr :: "metadata_entry list pdns_call \<Rightarrow> bool \<Rightarrow> bool \<Rightarrow> bool \<times> auto_ptr_source" where
  "resolveZoneAutoPtr metadata autoPtrConfigured autoPtr =
     resolveAutoPtr None
       (case metadata of Returned ms \<Rightarrow> zoneAutoPtrFromMetadata ms | _ \<Rightarrow> None)
       (if autoPtrConfigured then Some autoPtr else None)"

section \<open>Hosts\<close>

declare map_of_eq_Some_iff [simp del]

lemma chooseHost_Some: "chooseHost hosts fwd = Some h \<Longrightarrow> h \<in> set hosts \<and> writable_host h"
  using hd_in_set [of "filter writable_host hosts"]
  by (auto simp: chooseHost_def Let_def find_Some_iff split: if_splits option.splits dest!: nth_mem)

definition hosted_by :: "ptr_deps \<Rightarrow> backend_row list \<Rightarrow> string \<Rightarrow> zone_host \<Rightarrow> bool" where
  "hosted_by deps servers zone h \<longleftrightarrow> fst h \<in> set servers
     \<and> (\<exists>z \<in> set (backend_zones deps (fst h)). isReverseZone (zl_name z)
          \<and> canonicalZone (zl_name z) = zone \<and> zl_kind z = snd h)"

definition discovered :: "ptr_deps \<Rightarrow> backend_row list \<Rightarrow> (string \<times> zone_host list) list \<Rightarrow> bool" where
  "discovered deps servers out \<longleftrightarrow> (\<forall>zone. \<forall>h \<in> set (hosts_of out zone). hosted_by deps servers zone h)"

lemma hosts_of_update:
  "hosts_of (AList.update k v out) z = (if z = k then v else hosts_of out z)"
  by (simp add: hosts_of_def map_of_update)

lemma discovered_add:
  assumes "discovered deps servers out" "server \<in> set servers" "z \<in> set (backend_zones deps server)"
  shows "discovered deps servers (add_hosted server out z)"
  using assms by (auto simp: discovered_def add_hosted_def Let_def hosts_of_update hosted_by_def)

lemma discovered_zones:
  "discovered deps servers out \<Longrightarrow> server \<in> set servers \<Longrightarrow> set zs \<subseteq> set (backend_zones deps server) \<Longrightarrow>
     discovered deps servers (foldl (add_hosted server) out zs)"
  by (induction zs arbitrary: out) (auto intro: discovered_add)

lemma discovered_servers:
  "discovered deps servers out \<Longrightarrow> set ss \<subseteq> set servers \<Longrightarrow>
     discovered deps servers (foldl (\<lambda>out server. foldl (add_hosted server) out (backend_zones deps server)) out ss)"
  by (induction ss arbitrary: out) (auto intro: discovered_zones)

lemma discoverReverseZones_hosted:
  "h \<in> set (hosts_of (discoverReverseZones deps servers) zone) \<Longrightarrow> hosted_by deps servers zone h"
proof -
  have "discovered deps servers []" by (simp add: discovered_def hosts_of_def)
  from discovered_servers [OF this subset_refl] have "discovered deps servers (discoverReverseZones deps servers)"
    by (simp only: discoverReverseZones_def)
  then show "h \<in> set (hosts_of (discoverReverseZones deps servers) zone) \<Longrightarrow> hosted_by deps servers zone h"
    unfolding discovered_def by blast
qed

lemma foldl_inv: "P st \<Longrightarrow> (\<And>st x. P st \<Longrightarrow> P (f st x)) \<Longrightarrow> P (foldl f st xs)"
  by (induction xs arbitrary: st) auto

text \<open>What the reads recorded: a host for a zone is the one that was chosen for it.\<close>

definition hosts_chosen :: "backend_row \<Rightarrow> (string \<times> zone_host list) list \<Rightarrow> ptr_reads \<Rightarrow> bool" where
  "hosts_chosen fwd zones r \<longleftrightarrow>
     (\<forall>z h. map_of (pr_hostFor r) z = Some h \<longrightarrow> chooseHost (hosts_of zones z) fwd = Some h)"

lemma read_zone_chosen: "hosts_chosen fwd zones r \<Longrightarrow> hosts_chosen fwd zones (read_zone deps fwd zones r zo)"
proof (cases zo)
  case (Pair zone owners)
  assume c: "hosts_chosen fwd zones r"
  show ?thesis
  proof (cases "chooseHost (hosts_of zones zone) fwd")
    case None
    with Pair c show ?thesis by (simp add: hosts_chosen_def read_zone_def)
  next
    case (Some h)
    have "map_of (pr_hostFor (read_zone deps fwd zones r zo)) = (map_of (pr_hostFor r))(zone \<mapsto> h)"
      unfolding Pair read_zone_def prod.case Some option.case Let_def
      by (simp add: map_of_update split: pdns_call.split)
    with Some c show ?thesis by (simp add: hosts_chosen_def)
  qed
qed

lemma read_existing_chosen: "hosts_chosen fwd zones (read_existing deps fwd zones changes)"
proof -
  have "hosts_chosen fwd zones \<lparr>pr_existing = [], pr_hostFor = [], pr_unreadable = [], pr_unwritable = []\<rparr>"
    by (simp add: hosts_chosen_def)
  then show ?thesis unfolding read_existing_def by (rule foldl_inv) (rule read_zone_chosen)
qed

text \<open>Every zone that is read has a host afterwards, or is recorded as not writable.\<close>

definition settled :: "ptr_reads \<Rightarrow> string \<Rightarrow> bool" where
  "settled r z \<longleftrightarrow> map_of (pr_hostFor r) z \<noteq> None \<or> z \<in> set (pr_unwritable r)"

lemma read_zone_settled:
  assumes "settled r z \<or> z = fst zo"
  shows "settled (read_zone deps fwd zones r zo) z"
proof (cases zo)
  case (Pair zone owners)
  show ?thesis
  proof (cases "chooseHost (hosts_of zones zone) fwd")
    case None
    with Pair assms show ?thesis by (auto simp: settled_def read_zone_def)
  next
    case (Some h)
    have "map_of (pr_hostFor (read_zone deps fwd zones r zo)) = (map_of (pr_hostFor r))(zone \<mapsto> h)
        \<and> pr_unwritable (read_zone deps fwd zones r zo) = pr_unwritable r"
      unfolding Pair read_zone_def prod.case Some option.case Let_def
      by (simp add: map_of_update split: pdns_call.split)
    with Pair assms show ?thesis by (auto simp: settled_def)
  qed
qed

lemma read_zones_settled:
  "settled r z \<or> z \<in> fst ` set os \<Longrightarrow> settled (foldl (read_zone deps fwd zones) r os) z"
proof (induction os arbitrary: r)
  case (Cons o' os)
  then have "(settled r z \<or> z = fst o') \<or> z \<in> fst ` set os" by auto
  with read_zone_settled [of r z o' deps fwd zones]
  have "settled (read_zone deps fwd zones r o') z \<or> z \<in> fst ` set os" by blast
  with Cons.IH show ?case by simp
qed simp

lemma owners_of_change_dom:
  "fst ` set (owners_of_change hosted m c) =
     fst ` set m \<union> snd ` set (candidatePtrOwners (fst c) (map_option v_records (fst (snd c))) hosted)"
proof -
  let ?step = "\<lambda>m oz. AList.update (snd oz)
            (jset_add (fst oz) (case map_of m (snd oz) of None \<Rightarrow> [] | Some s \<Rightarrow> s)) m"
  have "fst ` set (foldl ?step m ozs) = fst ` set m \<union> snd ` set ozs" for ozs
    by (induction ozs arbitrary: m) (auto simp: dom_update)
  then show ?thesis by (cases c) (simp only: owners_of_change_def prod.case fst_conv snd_conv)
qed

lemma ownersByZone_dom:
  "c \<in> set changes \<Longrightarrow> snd ` set (candidatePtrOwners (fst c) (map_option v_records (fst (snd c))) hosted)
     \<subseteq> fst ` set (ownersByZone hosted changes)"
proof -
  have "fst ` set (foldl (owners_of_change hosted) m cs) = fst ` set m
      \<union> (\<Union>c \<in> set cs. snd ` set (candidatePtrOwners (fst c) (map_option v_records (fst (snd c))) hosted))" for m cs
    by (induction cs arbitrary: m) (auto simp: owners_of_change_dom)
  then show "c \<in> set changes \<Longrightarrow> snd ` set (candidatePtrOwners (fst c) (map_option v_records (fst (snd c))) hosted)
     \<subseteq> fst ` set (ownersByZone hosted changes)"
    unfolding ownersByZone_def by blast
qed

section \<open>An owner name lies in one zone\<close>

lemma split_classless_owner:
  assumes "block_covers os z b"
  shows "length (split_on (CHR ''.'') (dec_of_nat n @ ''.'' @ z)) = 8"
proof -
  from assms have "parseClasslessZone z = Some b" by (simp add: block_covers_def)
  from parseClasslessZone_Some [OF this] have z: "length (split_on (CHR ''.'') z) = 7" by auto
  have "split_on (CHR ''.'') (dec_of_nat n @ CHR ''.'' # z) = dec_of_nat n # split_on (CHR ''.'') z"
    by (rule split_on_append) (rule dec_no_dot)
  with z show ?thesis by simp
qed

lemma split_plain_owner:
  assumes "parseIpv4 ip = Some os" "reverseOwnerName ip = Some owner"
  shows "length (split_on (CHR ''.'') owner) = 7"
proof -
  let ?ls = "rev (map dec_of_nat os) @ [''in-addr'', ''arpa'']"
  have "join ''.'' (?ls @ [[]]) = join ''.'' ?ls @ ''.''" by (subst join_append) simp_all
  with assms reverseOwnerName_v4 [OF assms(1)] have o': "owner = join ''.'' (?ls @ [[]])" by simp
  have "split_on (CHR ''.'') owner = ?ls @ [[]]"
    unfolding o' by (rule split_join) (auto simp: dec_no_dot)
  moreover have "length os = 4" using assms(1) by (simp add: parseIpv4_iff)
  ultimately show ?thesis by simp
qed

lemma classless_ends:
  assumes "block_covers os z b"
  shows "ends_with (p @ z) ''.in-addr.arpa.''"
proof -
  from assms obtain lbl where "z = join ''.'' ([lbl] @ map dec_of_nat [os ! 2, os ! 1, os ! 0]
      @ [''in-addr'', ''arpa'']) @ ''.''" by (rule block_covers_labels)
  then have "p @ z = (p @ lbl @ ''.'' @ join ''.'' (map dec_of_nat [os ! 2, os ! 1, os ! 0])) @ ''.in-addr.arpa.''"
    by simp
  then show ?thesis unfolding ends_with_iff by blast
qed

lemma v6_owner_ends:
  "parseIpv4 ip = None \<Longrightarrow> reverseOwnerName ip = Some owner \<Longrightarrow> ends_with owner ''.ip6.arpa.''"
  by (auto simp: reverseOwnerName_def parseIp_def ends_with_iff split: option.splits if_splits)

lemma plain_match:
  assumes "findReverseZone ip hosted = Some m" "\<not> m_classless m"
  shows "suffix_match (m_owner m) (hosted_names hosted) = Some m \<and> reverseOwnerName ip = Some (m_owner m)"
proof -
  obtain owner where o': "reverseOwnerName ip = Some owner" using findReverseZone_owner [OF assms(1)] by blast
  have s: "suffix_match owner (hosted_names hosted) = Some m"
  proof (cases "parseIpv4 ip")
    case None
    with findReverseZone_v6 [OF None o'] assms(1) show ?thesis by simp
  next
    case (Some os)
    show ?thesis
    proof (cases "foldl (classless_step os) None (hosted_names hosted)")
      case None
      with findReverseZone_v4 [OF Some o', of hosted] assms(1) show ?thesis by simp
    next
      case (Some m')
      with findReverseZone_v4 [OF \<open>parseIpv4 ip = Some os\<close> o', of hosted] assms(1) have "m' = m" by simp
      with best_inv_foldl [of os "hosted_names hosted"] Some have "m_classless m" by (auto simp: best_inv_def)
      with assms(2) show ?thesis by simp
    qed
  qed
  with suffix_match_Some [OF s] o' show ?thesis by simp
qed

lemma classless_match:
  assumes "findReverseZone ip hosted = Some m" "m_classless m"
  obtains os b where "parseIpv4 ip = Some os" "block_covers os (m_zone m) b"
    "m_owner m = dec_of_nat (os ! 3) @ ''.'' @ m_zone m"
  using findReverseZone_sound [OF assms(1)] assms(2) by auto

lemma mixed_owners:
  assumes "findReverseZone ip hosted = Some m" "\<not> m_classless m"
    and "findReverseZone ip' hosted = Some m'" "m_classless m'"
  shows "m_owner m \<noteq> m_owner m'"
proof
  assume eq: "m_owner m = m_owner m'"
  obtain os b where c: "parseIpv4 ip' = Some os" "block_covers os (m_zone m') b"
    "m_owner m' = dec_of_nat (os ! 3) @ ''.'' @ m_zone m'" using classless_match [OF assms(3,4)] .
  have r: "reverseOwnerName ip = Some (m_owner m)" using plain_match [OF assms(1,2)] by blast
  show False
  proof (cases "parseIpv4 ip")
    case None
    from v6_owner_ends [OF None r] classless_ends [OF c(2), of "dec_of_nat (os ! 3) @ ''.''"] eq c(3)
    show False by (auto simp: ends_with_iff append_eq_append_conv2 Cons_eq_append_conv append_eq_Cons_conv)
  next
    case (Some os')
    from split_plain_owner [OF Some r] split_classless_owner [OF c(2), of "os ! 3"] eq c(3)
    show False by simp
  qed
qed

lemma classless_zone_eq:
  assumes "dec_of_nat a @ ''.'' @ z = dec_of_nat b @ ''.'' @ z'"
  shows "z = z'"
proof -
  have t: "dropWhile (\<lambda>c. c \<noteq> CHR ''.'') (dec_of_nat n @ ''.'' @ y) = CHR ''.'' # y" for n y
    by (subst dropWhile_append2) (use dec_no_dot [of n] in auto)
  from t [of a z] t [of b z'] assms show ?thesis by simp
qed

lemma owner_determines_zone:
  assumes m: "findReverseZone ip hosted = Some m" and m': "findReverseZone ip' hosted = Some m'"
    and eq: "m_owner m = m_owner m'"
  shows "m_zone m = m_zone m'"
proof (cases "m_classless m"; cases "m_classless m'")
  assume c: "m_classless m" "m_classless m'"
  obtain os b where 1: "m_owner m = dec_of_nat (os ! 3) @ ''.'' @ m_zone m" using classless_match [OF m c(1)] .
  obtain os' b' where 2: "m_owner m' = dec_of_nat (os' ! 3) @ ''.'' @ m_zone m'" using classless_match [OF m' c(2)] .
  from 1 2 eq show ?thesis by (metis classless_zone_eq)
next
  assume n: "\<not> m_classless m" "\<not> m_classless m'"
  from plain_match [OF m n(1)] plain_match [OF m' n(2)]
  have 1: "suffix_match (m_owner m) (hosted_names hosted) = Some m"
    and 2: "suffix_match (m_owner m') (hosted_names hosted) = Some m'" by blast+
  have "Some m = Some m'" by (rule trans [OF 1 [unfolded eq, symmetric] 2])
  then show ?thesis by (simp only: option.inject)
next
  assume "m_classless m" "\<not> m_classless m'"
  from mixed_owners [OF m' this(2) m this(1)] eq show ?thesis by (rule notE [OF _ sym])
next
  assume "\<not> m_classless m" "m_classless m'"
  from mixed_owners [OF m this(1) m' this(2)] eq show ?thesis by (rule notE)
qed

lemma candidate_entries:
  "oz \<in> set (candidatePtrOwners change before hosted) \<Longrightarrow>
     \<exists>ip m. findReverseZone ip hosted = Some m \<and> oz = (m_owner m, m_zone m)"
proof -
  let ?P = "\<lambda>out. \<forall>oz \<in> set out. \<exists>ip m. findReverseZone ip hosted = Some m \<and> oz = (m_owner m, m_zone m)"
  have "?P (foldl (\<lambda>out rec. case findReverseZone (a_content rec) hosted of None \<Rightarrow> out
                 | Some match \<Rightarrow> AList.update (m_owner match) (m_zone match) out) [] rs)" for rs
  proof (rule foldl_inv)
    fix out r assume "?P out"
    then show "?P (case findReverseZone (a_content r) hosted of None \<Rightarrow> out
                 | Some match \<Rightarrow> AList.update (m_owner match) (m_zone match) out)"
    proof (cases "findReverseZone (a_content r) hosted")
      case (Some m)
      have "?P (AList.update (m_owner m) (m_zone m) out)"
      proof
        fix oz assume "oz \<in> set (AList.update (m_owner m) (m_zone m) out)"
        then have "oz \<in> insert (m_owner m, m_zone m) (set out)" by (rule subsetD [OF set_update_subset])
        then show "\<exists>ip m. findReverseZone ip hosted = Some m \<and> oz = (m_owner m, m_zone m)"
        proof (rule insertE)
          assume "oz = (m_owner m, m_zone m)"
          with Some show ?thesis by (intro exI conjI)
        next
          assume "oz \<in> set out"
          with \<open>?P out\<close> show ?thesis by (rule bspec)
        qed
      qed
      with Some show ?thesis by simp
    qed simp
  qed simp
  then show "oz \<in> set (candidatePtrOwners change before hosted) \<Longrightarrow> ?thesis"
    unfolding candidatePtrOwners_def Let_def by blast
qed

lemma plan_zone_candidate:
  assumes "item \<in> set (p_items (planPtrChanges change before ctx))" "i_reverseZone item = Some z"
  shows "z \<in> snd ` set (candidatePtrOwners change (map_option v_records before) (hostedReverseZones ctx))"
proof -
  obtain r where r: "r \<in> set (desired_records change) \<union> set (previous_records before)"
    "item_at (hostedReverseZones ctx) (a_content r) item" using plan_item_at [OF assms(1)] .
  with assms(2) obtain m where m: "findReverseZone (a_content r) (hostedReverseZones ctx) = Some m" "m_zone m = z"
    by (auto simp: item_at_def split: option.splits)
  from candidate_owner [OF m(1) r(1)] obtain z' where
    e: "(m_owner m, z') \<in> set (candidatePtrOwners change (map_option v_records before) (hostedReverseZones ctx))"
    by auto
  from candidate_entries [OF e] owner_determines_zone [OF m(1)] m(2) have "z' = z" by auto
  with e show ?thesis by force
qed

section \<open>What the gate lets through\<close>

definition planned :: "auto_ptr_request \<Rightarrow> string list \<Rightarrow> ptr_reads \<Rightarrow> ptr_change \<Rightarrow> ptr_plan_item \<Rightarrow> bool" where
  "planned input hosted reads c item \<longleftrightarrow> c \<in> set (ar_changes input)
     \<and> item \<in> set (p_items (planPtrChanges (fst c) (fst (snd c)) (ptr_ctx hosted reads (snd (snd c)))))"

lemma gate_item_write:
  assumes "gate_item input reads c item = (oc, Some (zone, host))"
  shows "i_reverseZone item = Some zone" "map_of (pr_hostFor reads) zone = Some host"
    "ptr_allowed input host zone (i_action item)" "i_action item \<in> {PtrCreate, PtrUpdate, PtrDelete}"
    "oc = outcome_base c item (Some host)"
  using assms by (auto simp: gate_item_def Let_def needs_write_def split: option.splits if_splits)

lemma trim_dot_ne: "js_trim (u @ ''.'') \<noteq> []"
proof -
  have "\<not> is_ws (CHR ''.'')" by (simp add: is_ws_def)
  then show ?thesis by (simp add: js_trim_def dropWhile_append)
qed

lemma planned_owner_ne:
  assumes "planned input hosted reads c item"
  shows "js_trim (i_owner item) \<noteq> []"
proof -
  have dot: "ends_with own ''.'' \<Longrightarrow> js_trim own \<noteq> []" for own
    using trim_dot_ne by (auto simp only: ends_with_iff)
  have item: "item \<in> set (p_items (planPtrChanges (fst c) (fst (snd c)) (ptr_ctx hosted reads (snd (snd c)))))"
    using assms by (simp add: planned_def)
  obtain r :: address_record where it: "item_at (hostedReverseZones (ptr_ctx hosted reads (snd (snd c)))) (a_content r) item"
    by (rule plan_item_at [OF item]) (rule that)
  show ?thesis
  proof (cases "findReverseZone (a_content r) (hostedReverseZones (ptr_ctx hosted reads (snd (snd c))))")
    case None
    with it have "reverseOwnerName (a_content r) = Some (i_owner item)" by (simp add: item_at_def)
    then show ?thesis by (intro dot reverseOwnerName_dot)
  next
    case (Some m)
    then have o': "i_owner item = m_owner m" using it by (simp add: item_at_def)
    show ?thesis
    proof (cases "m_classless m")
      case False
      with plain_match [OF Some] have "reverseOwnerName (a_content r) = Some (i_owner item)" by (simp add: o')
      then show ?thesis by (intro dot reverseOwnerName_dot)
    next
      case True
      obtain os b where c: "block_covers os (m_zone m) b" "m_owner m = dec_of_nat (os ! 3) @ ''.'' @ m_zone m"
        using classless_match [OF Some True] .
      have "ends_with (m_owner m) ''.in-addr.arpa.''"
        using classless_ends [OF c(1), of "dec_of_nat (os ! 3) @ ''.''"] c(2) by simp
      then have "ends_with (m_owner m) ''.''" by (auto simp: ends_with_iff)
      then show ?thesis unfolding o' by (rule dot)
    qed
  qed
qed

lemma planned_respects:
  "planned input hosted reads c item \<Longrightarrow>
     item_respects (fst c) (snd (snd c)) (map_option value_of_live (map_of (pr_existing reads) (i_owner item))) item"
  using plan_respects [of item "fst c" "fst (snd c)" "ptr_ctx hosted reads (snd (snd c))"]
  by (auto simp: planned_def ptr_ctx_def)

lemma ptr_write_total:
  assumes "planned input hosted reads c item"
  shows "\<exists>w. ptr_write_of reads i item = Inr w"
proof -
  have "v_records w \<noteq> []" if "i_rrset item = Some w" for w
    using planned_respects [OF assms] that by (simp add: item_respects_def)
  with planned_owner_ne [OF assms] show ?thesis
    by (auto simp: ptr_write_of_def ptr_patch_def deleteRRset_def replaceRRset_def ensureTrailingDot_def
        sbind_def Let_def split: option.splits)
qed

text \<open>The states the loop passes through.\<close>

definition outcome_ok :: "auto_ptr_request \<Rightarrow> string list \<Rightarrow> ptr_reads \<Rightarrow> auto_ptr_outcome \<Rightarrow> bool" where
  "outcome_ok input hosted reads oc \<longleftrightarrow>
     (\<exists>c item. planned input hosted reads c item \<and> oc = fst (gate_item input reads (fst c) item))"

definition write_ok :: "auto_ptr_request \<Rightarrow> string list \<Rightarrow> ptr_reads \<Rightarrow> string \<Rightarrow> zone_host \<Rightarrow> ptr_write \<Rightarrow> bool" where
  "write_ok input hosted reads zone host w \<longleftrightarrow>
     (\<exists>c item oc. planned input hosted reads c item \<and> gate_item input reads (fst c) item = (oc, Some (zone, host))
        \<and> ptr_write_of reads (wi_index w) item = Inr w)"

definition zone_writes_ok :: "auto_ptr_request \<Rightarrow> string list \<Rightarrow> ptr_reads \<Rightarrow>
    string \<times> zone_host \<times> ptr_write list \<Rightarrow> bool" where
  "zone_writes_ok input hosted reads b \<longleftrightarrow>
     map_of (pr_hostFor reads) (fst b) = Some (fst (snd b))
     \<and> list_all (write_ok input hosted reads (fst b) (fst (snd b))) (snd (snd b))"

definition gate_inv :: "auto_ptr_request \<Rightarrow> string list \<Rightarrow> ptr_reads \<Rightarrow> gate_state \<Rightarrow> bool" where
  "gate_inv input hosted reads st \<longleftrightarrow>
     list_all (outcome_ok input hosted reads) (fst st) \<and> distinct (map fst (snd st))
     \<and> list_all (zone_writes_ok input hosted reads) (snd st)"

lemma bucket_update:
  assumes "list_all (zone_writes_ok input hosted reads) writes" "zone_writes_ok input hosted reads (k, v)"
  shows "list_all (zone_writes_ok input hosted reads) (AList.update k v writes)"
  using assms set_update_subset [of k v writes] unfolding list_all_iff by blast

lemma add_write_ok:
  assumes "list_all (zone_writes_ok input hosted reads) writes" "write_ok input hosted reads zone host w"
  shows "list_all (zone_writes_ok input hosted reads) (add_write zone host w writes)"
proof -
  have h: "map_of (pr_hostFor reads) zone = Some host"
    using assms(2) unfolding write_ok_def by (blast dest: gate_item_write(2))
  show ?thesis
  proof (cases "map_of writes zone")
    case None
    have "zone_writes_ok input hosted reads (zone, host, [w])" using h assms(2) by (simp add: zone_writes_ok_def)
    with None bucket_update [OF assms(1)] show ?thesis by (simp add: add_write_def)
  next
    case (Some hi)
    then have "(zone, hi) \<in> set writes" by (rule map_of_SomeD)
    with assms(1) have "zone_writes_ok input hosted reads (zone, hi)" by (simp add: list_all_iff)
    with h assms(2) have "zone_writes_ok input hosted reads (zone, fst hi, snd hi @ [w])" by (simp add: zone_writes_ok_def)
    from bucket_update [OF assms(1) this] Some show ?thesis by (cases hi) (simp add: add_write_def)
  qed
qed

lemma add_write_distinct: "distinct (map fst writes) \<Longrightarrow> distinct (map fst (add_write zone host w writes))"
  by (simp add: add_write_def distinct_update split: option.split)

lemma gate_step_inv:
  assumes "gate_inv input hosted reads st" "planned input hosted reads c item"
  shows "\<exists>st'. gate_step input reads (fst c) item st = Inr st' \<and> gate_inv input hosted reads st'"
proof -
  obtain outcomes writes where st: "st = (outcomes, writes)" by (cases st)
  obtain oc tgt where g: "gate_item input reads (fst c) item = (oc, tgt)" by (cases "gate_item input reads (fst c) item")
  have oc: "outcome_ok input hosted reads oc" unfolding outcome_ok_def using assms(2) g by (metis fst_conv)
  then have kept: "gate_inv input hosted reads (outcomes @ [oc], writes)"
    using assms(1) st by (simp add: gate_inv_def)
  show ?thesis
  proof (cases tgt)
    case None
    with g st kept show ?thesis by (simp add: gate_step_def)
  next
    case (Some zh)
    obtain zone host where zh: "zh = (zone, host)" by (cases zh)
    obtain w where w: "ptr_write_of reads (length outcomes) item = Inr w" using ptr_write_total [OF assms(2)] by blast
    then have i: "wi_index w = length outcomes" by (auto simp: ptr_write_of_def sbind_def Let_def split: sum.splits)
    have "write_ok input hosted reads zone host w"
      unfolding write_ok_def i using assms(2) g [unfolded Some zh] w by blast
    with assms(1) oc st have "gate_inv input hosted reads (outcomes @ [oc], add_write zone host w writes)"
      by (simp add: gate_inv_def add_write_ok add_write_distinct)
    with g st Some zh w kept show ?thesis by (cases "ar_dryRun input") (simp_all add: gate_step_def sbind_def)
  qed
qed

lemma gate_items_inv:
  "gate_inv input hosted reads st \<Longrightarrow> (\<And>item. item \<in> set items \<Longrightarrow> planned input hosted reads c item) \<Longrightarrow>
     \<exists>st'. gate_items input reads (fst c) items st = Inr st' \<and> gate_inv input hosted reads st'"
proof (induction items arbitrary: st)
  case (Cons item items)
  obtain st1 where st1: "gate_step input reads (fst c) item st = Inr st1" "gate_inv input hosted reads st1"
    using gate_step_inv [OF Cons.prems(1) Cons.prems(2) [of item]] by auto
  from Cons.IH [OF st1(2)] Cons.prems(2) st1(1) show ?case by (simp add: sbind_def)
qed simp

lemma gate_changes_inv:
  "gate_inv input hosted reads st \<Longrightarrow> set cs \<subseteq> set (ar_changes input) \<Longrightarrow>
     \<exists>st'. gate_changes input hosted reads cs st = Inr st' \<and> gate_inv input hosted reads st'"
proof (induction cs arbitrary: st)
  case (Cons c cs)
  obtain change before force where c: "c = (change, before, force)" by (cases c)
  obtain st1 where st1: "gate_items input reads (fst c)
      (p_items (planPtrChanges change before (ptr_ctx hosted reads force))) st = Inr st1" "gate_inv input hosted reads st1"
    using gate_items_inv [OF Cons.prems(1), of "p_items (planPtrChanges change before (ptr_ctx hosted reads force))" c]
      Cons.prems(2) c by (auto simp: planned_def)
  from Cons.IH [OF st1(2)] Cons.prems(2) st1(1) c show ?case by (simp add: sbind_def)
qed simp

text \<open>The outcomes are those of the items, in order, whether or not anything is written.\<close>

definition item_outcomes :: "auto_ptr_request \<Rightarrow> string list \<Rightarrow> ptr_reads \<Rightarrow> ptr_change \<Rightarrow> auto_ptr_outcome list" where
  "item_outcomes input hosted reads c =
     map (\<lambda>item. fst (gate_item input reads (fst c) item))
       (p_items (planPtrChanges (fst c) (fst (snd c)) (ptr_ctx hosted reads (snd (snd c)))))"

lemma gate_step_outcomes:
  "gate_step input reads c item st = Inr st' \<Longrightarrow> fst st' = fst st @ [fst (gate_item input reads c item)]"
  by (auto simp: gate_step_def sbind_def split: prod.splits option.splits if_splits sum.splits)

lemma gate_items_outcomes:
  "gate_items input reads c items st = Inr st' \<Longrightarrow>
     fst st' = fst st @ map (\<lambda>item. fst (gate_item input reads c item)) items"
proof (induction items arbitrary: st)
  case (Cons item items)
  then obtain st1 where "gate_step input reads c item st = Inr st1" "gate_items input reads c items st1 = Inr st'"
    by (auto simp: sbind_def split: sum.splits)
  with Cons.IH [OF this(2)] gate_step_outcomes [OF this(1)] show ?case by simp
qed simp

lemma gate_changes_outcomes:
  "gate_changes input hosted reads cs st = Inr st' \<Longrightarrow>
     fst st' = fst st @ concat (map (item_outcomes input hosted reads) cs)"
proof (induction cs arbitrary: st)
  case (Cons c cs)
  obtain change before force where c: "c = (change, before, force)" by (cases c)
  with Cons.prems obtain st1 where "gate_items input reads change
      (p_items (planPtrChanges change before (ptr_ctx hosted reads force))) st = Inr st1"
    "gate_changes input hosted reads cs st1 = Inr st'"
    by (auto simp: sbind_def split: sum.splits)
  with Cons.IH [OF this(2)] gate_items_outcomes [OF this(1)] c show ?case by (simp add: item_outcomes_def)
qed simp

lemma gate_item_dry [simp]: "gate_item (input\<lparr>ar_dryRun := d\<rparr>) reads c item = gate_item input reads c item"
proof -
  have "ptr_allowed (input\<lparr>ar_dryRun := d\<rparr>) = ptr_allowed input" by (intro ext) (simp add: ptr_allowed_def)
  then show ?thesis by (simp only: gate_item_def)
qed

lemma item_outcomes_dry [simp]:
  "item_outcomes (input\<lparr>ar_dryRun := d\<rparr>) hosted reads = item_outcomes input hosted reads"
  by (simp add: item_outcomes_def fun_eq_iff)

section \<open>What is written\<close>

definition patched_zones :: "ptr_effect list \<Rightarrow> string list" where
  "patched_zones effects = concat (map (\<lambda>e. case e of PPatch _ z _ \<Rightarrow> [z] | _ \<Rightarrow> []) effects)"

lemma patched_zones_append [simp]: "patched_zones (xs @ ys) = patched_zones xs @ patched_zones ys"
  by (simp add: patched_zones_def)

lemma patched_zones_quiet: "(\<And>e. e \<in> set xs \<Longrightarrow> \<nexists>b z ps. e = PPatch b z ps) \<Longrightarrow> patched_zones xs = []"
  by (auto simp: patched_zones_def split: ptr_effect.splits)

lemma write_zone_effects:
  "\<exists>rest. snd (write_zone deps st (zone, host, items)) = snd st
       @ (if items = [] then [] else PPatch (fst host) zone (map wi_patch items) # rest)
     \<and> (\<forall>e \<in> set rest. \<nexists>b z ps. e = PPatch b z ps)"
proof (cases "items = [] \<or> call_failure (pd_patchZone deps (fst host) zone (map wi_patch items)) \<noteq> None")
  case True
  then show ?thesis
    by (intro exI [of _ "[]"]) (auto simp: write_zone_def zonePatchBody_def split: prod.split)
next
  case False
  then show ?thesis
    by (intro exI [of _ "PAfterWrite zone (sv_slug (fst host)) # map (write_audit host zone (fst st)) items
          @ (if isTransferredKind (snd host) then [PNotify (sv_slug (fst host)) zone] else [])"])
      (auto simp: write_zone_def zonePatchBody_def write_audit_def split: prod.split)
qed

lemma write_zones_patches:
  "PPatch b z ps \<in> set (snd (foldl (write_zone deps) st ws)) \<Longrightarrow>
     PPatch b z ps \<in> set (snd st) \<or> (\<exists>host items. (z, host, items) \<in> set ws \<and> b = fst host \<and> ps = map wi_patch items)"
proof (induction ws arbitrary: st)
  case (Cons w ws)
  obtain zone host items where w: "w = (zone, host, items)" by (cases w)
  from Cons.IH [of "write_zone deps st w"] Cons.prems
  consider "PPatch b z ps \<in> set (snd (write_zone deps st w))"
    | "\<exists>host items. (z, host, items) \<in> set ws \<and> b = fst host \<and> ps = map wi_patch items" by auto
  then show ?case
  proof cases
    case 1
    obtain rest where r: "snd (write_zone deps st w) = snd st
         @ (if items = [] then [] else PPatch (fst host) zone (map wi_patch items) # rest)"
      "\<forall>e \<in> set rest. \<nexists>b z ps. e = PPatch b z ps"
      using write_zone_effects [of deps st zone host items] w by blast
    have "PPatch b z ps \<notin> set rest" using r(2) by blast
    with 1 have "PPatch b z ps \<in> set (snd st) \<or> b = fst host \<and> z = zone \<and> ps = map wi_patch items"
      unfolding r(1) by (simp split: if_splits)
    then show ?thesis unfolding w by (metis list.set_intros(1))
  next
    case 2
    then show ?thesis by auto
  qed
qed simp

lemma write_zones_zones:
  "patched_zones (snd (foldl (write_zone deps) st ws)) =
     patched_zones (snd st) @ map fst (filter (\<lambda>w. snd (snd w) \<noteq> []) ws)"
proof (induction ws arbitrary: st)
  case (Cons w ws)
  obtain zone host items where w: "w = (zone, host, items)" by (cases w)
  obtain rest where r: "snd (write_zone deps st w) = snd st
       @ (if items = [] then [] else PPatch (fst host) zone (map wi_patch items) # rest)"
    "\<forall>e \<in> set rest. \<nexists>b z ps. e = PPatch b z ps"
    using write_zone_effects [of deps st zone host items] w by blast
  have q: "patched_zones rest = []" using r(2) by (intro patched_zones_quiet) blast
  have "patched_zones (snd (write_zone deps st w)) = patched_zones (snd st) @ (if items = [] then [] else [zone])"
    using q by (simp add: r(1)) (simp add: patched_zones_def)
  with Cons.IH [of "write_zone deps st w"] w show ?case by simp
qed simp

definition failed_or_same :: "auto_ptr_outcome \<Rightarrow> auto_ptr_outcome \<Rightarrow> bool" where
  "failed_or_same a b \<longleftrightarrow> b = a
     \<or> (\<exists>m. b = a\<lparr>o_action := Failed, o_reason := Some WriteFailed, o_message := Some m\<rparr>)"

lemma mark_failed_rel:
  assumes "list_all2 failed_or_same os os'"
  shows "list_all2 failed_or_same os (mark_failed m os' i)"
proof (cases "i < length os'")
  case True
  then have "failed_or_same (os ! i) (os' ! i)" by (rule list_all2_nthD2 [OF assms])
  then have "failed_or_same (os ! i)
      ((os' ! i)\<lparr>o_action := Failed, o_reason := Some WriteFailed, o_message := Some m\<rparr>)"
    by (auto simp: failed_or_same_def)
  from list_all2_update_cong [OF assms this, of i] show ?thesis by (simp add: mark_failed_def)
qed (use assms in \<open>simp add: mark_failed_def list_update_beyond\<close>)

lemma write_zones_rel:
  assumes "list_all2 failed_or_same os (fst st)"
  shows "list_all2 failed_or_same os (fst (foldl (write_zone deps) st ws))"
proof (rule foldl_inv [where P = "\<lambda>st. list_all2 failed_or_same os (fst st)", OF assms])
  fix st :: "auto_ptr_outcome list \<times> ptr_effect list" and w
  assume r: "list_all2 failed_or_same os (fst st)"
  have "list_all2 failed_or_same os (foldl (mark_failed m) (fst st) is)" for m "is"
    by (rule foldl_inv [where P = "list_all2 failed_or_same os", OF r]) (rule mark_failed_rel)
  with r show "list_all2 failed_or_same os (fst (write_zone deps st w))"
    by (auto simp: write_zone_def split: prod.split sum.split option.split)
qed

section \<open>The run\<close>

definition run_reads :: "ptr_deps \<Rightarrow> auto_ptr_request \<Rightarrow> backend_row list \<Rightarrow> ptr_reads" where
  "run_reads deps input servers =
     read_existing deps (ar_server input) (discoverReverseZones deps servers) (ar_changes input)"

definition run_hosted :: "ptr_deps \<Rightarrow> backend_row list \<Rightarrow> string list" where
  "run_hosted deps servers = map fst (discoverReverseZones deps servers)"

lemma run_cases:
  assumes "pd_backends deps = Inr servers" "ar_changes input \<noteq> []"
  obtains outcomes writes where
    "gate_inv input (run_hosted deps servers) (run_reads deps input servers) (outcomes, writes)"
    "outcomes = concat (map (item_outcomes input (run_hosted deps servers) (run_reads deps input servers)) (ar_changes input))"
    "ar_dryRun input \<longrightarrow> runAutoPtr deps input = (Inr outcomes, [])"
    "\<not> ar_dryRun input \<longrightarrow> (\<exists>summaries. (\<forall>e \<in> set summaries. \<exists>i os. e = PSummary i os) \<and>
       runAutoPtr deps input = (Inr (fst (foldl (write_zone deps) (outcomes, []) writes)),
         snd (foldl (write_zone deps) (outcomes, []) writes) @ summaries))"
proof -
  let ?h = "run_hosted deps servers" and ?r = "run_reads deps input servers"
  have "gate_inv input ?h ?r ([], [])" by (simp add: gate_inv_def)
  from gate_changes_inv [OF this subset_refl] obtain outcomes writes where
    g: "gate_changes input ?h ?r (ar_changes input) ([], []) = Inr (outcomes, writes)"
    and inv: "gate_inv input ?h ?r (outcomes, writes)" by auto
  from gate_changes_outcomes [OF g]
  have oc: "outcomes = concat (map (item_outcomes input ?h ?r) (ar_changes input))" by simp
  let ?w = "foldl (write_zone deps) (outcomes, []) writes"
  let ?s = "if ar_reverseSummary input then reverse_summaries input (fst ?w)
            else concat (map (forward_summary input (fst ?w)) (ar_changes input))"
  have run: "runAutoPtr deps input = (if ar_dryRun input then (Inr outcomes, []) else (Inr (fst ?w), snd ?w @ ?s))"
    using assms g by (simp add: runAutoPtr_def Let_def run_hosted_def run_reads_def split: prod.split)
  have "\<forall>e \<in> set ?s. \<exists>i os. e = PSummary i os"
    by (auto simp: reverse_summaries_def forward_summary_def Let_def split: if_splits)
  with run have "\<not> ar_dryRun input \<longrightarrow> (\<exists>summaries. (\<forall>e \<in> set summaries. \<exists>i os. e = PSummary i os) \<and>
       runAutoPtr deps input = (Inr (fst ?w), snd ?w @ summaries))" by auto
  with that [OF inv oc] run show ?thesis by simp
qed

lemma run_trivial: "ar_changes input = [] \<Longrightarrow> runAutoPtr deps input = (Inr [], [])"
  "ar_changes input \<noteq> [] \<Longrightarrow> pd_backends deps = Inl e \<Longrightarrow> runAutoPtr deps input = (Inl e, [])"
  by (simp_all add: runAutoPtr_def)

lemma ptr_write_patch:
  "ptr_write_of reads i item = Inr w \<Longrightarrow>
     ptr_patch (map_of (pr_existing reads) (i_owner item)) item = Inr (wi_patch w)"
  by (auto simp: ptr_write_of_def sbind_def Let_def split: sum.splits)

text \<open>A patch of a run, traced back to the reads, the change and the planned item.\<close>

lemma run_patch:
  assumes "PPatch server zone patches \<in> set (snd (runAutoPtr deps input))"
  obtains servers kind where "\<not> ar_dryRun input" "pd_backends deps = Inr servers"
    "chooseHost (hosts_of (discoverReverseZones deps servers) zone) (ar_server input) = Some (server, kind)"
    "\<And>p. p \<in> set patches \<Longrightarrow> \<exists>c item. planned input (run_hosted deps servers) (run_reads deps input servers) c item
       \<and> i_reverseZone item = Some zone
       \<and> ptr_allowed input (server, kind) zone (i_action item) \<and> i_action item \<in> {PtrCreate, PtrUpdate, PtrDelete}
       \<and> ptr_patch (map_of (pr_existing (run_reads deps input servers)) (i_owner item)) item = Inr p"
proof -
  have ne: "ar_changes input \<noteq> []" using assms run_trivial(1) by force
  obtain servers where sv: "pd_backends deps = Inr servers"
    using assms run_trivial(2) [OF ne] by (cases "pd_backends deps") auto
  let ?h = "run_hosted deps servers" and ?r = "run_reads deps input servers"
  obtain outcomes writes where inv: "gate_inv input ?h ?r (outcomes, writes)"
    and "outcomes = concat (map (item_outcomes input ?h ?r) (ar_changes input))"
    and dry: "ar_dryRun input \<longrightarrow> runAutoPtr deps input = (Inr outcomes, [])"
    and wet: "\<not> ar_dryRun input \<longrightarrow> (\<exists>summaries. (\<forall>e \<in> set summaries. \<exists>i os. e = PSummary i os) \<and>
       runAutoPtr deps input = (Inr (fst (foldl (write_zone deps) (outcomes, []) writes)),
         snd (foldl (write_zone deps) (outcomes, []) writes) @ summaries))"
    by (rule run_cases [OF sv ne])
  have nd: "\<not> ar_dryRun input" using assms dry by auto
  from wet nd assms have "PPatch server zone patches \<in> set (snd (foldl (write_zone deps) (outcomes, []) writes))"
    by auto
  from write_zones_patches [OF this] obtain host items where
    w: "(zone, host, items) \<in> set writes" "server = fst host" "patches = map wi_patch items" by auto
  with inv have b: "zone_writes_ok input ?h ?r (zone, host, items)" by (auto simp: gate_inv_def list_all_iff)
  then have "map_of (pr_hostFor ?r) zone = Some host" by (simp add: zone_writes_ok_def)
  with read_existing_chosen have ch: "chooseHost (hosts_of (discoverReverseZones deps servers) zone) (ar_server input)
      = Some (server, snd host)"
    unfolding hosts_chosen_def run_reads_def w(2) prod.collapse by blast
  have "\<exists>c item. planned input ?h ?r c item \<and> i_reverseZone item = Some zone
       \<and> ptr_allowed input (server, snd host) zone (i_action item) \<and> i_action item \<in> {PtrCreate, PtrUpdate, PtrDelete}
       \<and> ptr_patch (map_of (pr_existing ?r) (i_owner item)) item = Inr p" if "p \<in> set patches" for p
  proof -
    from that w(3) obtain i where i: "i \<in> set items" "p = wi_patch i" by auto
    with b have "write_ok input ?h ?r zone host i" by (simp add: zone_writes_ok_def list_all_iff)
    then obtain c item oc where x: "planned input ?h ?r c item"
      "gate_item input ?r (fst c) item = (oc, Some (zone, host))" "ptr_write_of ?r (wi_index i) item = Inr i"
      unfolding write_ok_def by blast
    have "ptr_patch (map_of (pr_existing ?r) (i_owner item)) item = Inr p"
      using ptr_write_patch [OF x(3)] i(2) by simp
    with x(1) gate_item_write [OF x(2)] show ?thesis unfolding w(2) prod.collapse by blast
  qed
  from that [OF nd sv ch this] show ?thesis .
qed

lemma ptr_patch_shape:
  assumes "ptr_patch cur item = Inr p" "item_respects change force v item"
    "i_action item \<in> {PtrCreate, PtrUpdate, PtrDelete}"
  shows "pt_type p = ''PTR'' \<and> (pt_changetype p = DELETE \<longleftrightarrow> i_action item = PtrDelete)
    \<and> (i_action item \<noteq> PtrDelete \<longrightarrow> pt_changetype p = REPLACE \<and>
         (\<exists>w. i_rrset item = Some w \<and> pt_records p = Some (map record_of_address (v_records w))))
    \<and> ensureTrailingDot (i_owner item) = Inr (pt_name p)"
proof -
  have u: "js_upper ''PTR'' = ''PTR''" by code_simp
  from assms(2) have i: "i_rrset item \<noteq> None \<longleftrightarrow> i_action item = PtrCreate \<or> i_action item = PtrUpdate"
    by (simp add: item_respects_def)
  show ?thesis
  proof (cases "i_action item = PtrDelete")
    case True
    with assms(1) u show ?thesis
      by (auto simp: ptr_patch_def deleteRRset_def sbind_def split: sum.splits)
  next
    case False
    with i assms(3) obtain w where "i_rrset item = Some w" by auto
    with False assms(1) u show ?thesis
      by (auto simp: ptr_patch_def replaceRRset_def sbind_def split: sum.splits if_splits)
  qed
qed

section \<open>Properties\<close>

lemma auto_ptr_patch_authorized:
  assumes "PPatch server zone patches \<in> set (snd (runAutoPtr deps input))"
  shows "\<not> ar_dryRun input \<and> bk_writeMode server \<noteq> ''read_only''
    \<and> (\<exists>servers kind. pd_backends deps = Inr servers \<and> hosted_by deps servers zone (server, kind)
         \<and> \<not> isReadOnlyZoneKind kind)
    \<and> (\<forall>p \<in> set patches. pt_type p = ''PTR'' \<and>
         (pt_changetype p = DELETE \<and> ar_canOnZone input (sv_id server) zone ''record.delete''
          \<or> pt_changetype p = REPLACE \<and> (ar_canOnZone input (sv_id server) zone ''record.create''
                                        \<or> ar_canOnZone input (sv_id server) zone ''record.update'')))"
proof -
  obtain servers kind where nd: "\<not> ar_dryRun input" and sv: "pd_backends deps = Inr servers"
    and ch: "chooseHost (hosts_of (discoverReverseZones deps servers) zone) (ar_server input) = Some (server, kind)"
    and ps: "\<And>p. p \<in> set patches \<Longrightarrow> \<exists>c item. planned input (run_hosted deps servers) (run_reads deps input servers) c item
       \<and> i_reverseZone item = Some zone
       \<and> ptr_allowed input (server, kind) zone (i_action item) \<and> i_action item \<in> {PtrCreate, PtrUpdate, PtrDelete}
       \<and> ptr_patch (map_of (pr_existing (run_reads deps input servers)) (i_owner item)) item = Inr p"
    using run_patch [OF assms] by blast
  from chooseHost_Some [OF ch] discoverReverseZones_hosted [of "(server, kind)" deps servers zone]
  have h: "hosted_by deps servers zone (server, kind)" "bk_writeMode server \<noteq> ''read_only''"
    "\<not> isReadOnlyZoneKind kind" by (simp_all add: writable_host_def)
  have "pt_type p = ''PTR'' \<and>
         (pt_changetype p = DELETE \<and> ar_canOnZone input (sv_id server) zone ''record.delete''
          \<or> pt_changetype p = REPLACE \<and> (ar_canOnZone input (sv_id server) zone ''record.create''
                                        \<or> ar_canOnZone input (sv_id server) zone ''record.update''))"
    if "p \<in> set patches" for p
  proof -
    from ps [OF that] obtain c item where x: "planned input (run_hosted deps servers) (run_reads deps input servers) c item"
      "ptr_allowed input (server, kind) zone (i_action item)" "i_action item \<in> {PtrCreate, PtrUpdate, PtrDelete}"
      "ptr_patch (map_of (pr_existing (run_reads deps input servers)) (i_owner item)) item = Inr p" by blast
    from ptr_patch_shape [OF x(4) planned_respects [OF x(1)] x(3)] x(2) show ?thesis
      unfolding ptr_allowed_def fst_conv by (cases "i_action item = PtrDelete") simp_all
  qed
  with nd sv h show ?thesis by blast
qed

text \<open>
  C6. Every PATCH an automatic PTR run sends goes to an active backend that lists the zone, that is
  neither read-only nor a secondary for it, and consists of PTR RRsets the caller is allowed to
  write in that very zone: deleting needs the permission to delete there, creating and changing the
  one to create or update.  A dry run sends none.
\<close>

theorem auto_ptr_writes_authorized:
  assumes "runAutoPtr deps input = (r, effects)" "PPatch server zone patches \<in> set effects"
  shows "\<not> ar_dryRun input \<and> bk_writeMode server \<noteq> ''read_only''
    \<and> (\<exists>servers kind. pd_backends deps = Inr servers \<and> hosted_by deps servers zone (server, kind)
         \<and> \<not> isReadOnlyZoneKind kind)
    \<and> (\<forall>p \<in> set patches. pt_type p = ''PTR'' \<and>
         (pt_changetype p = DELETE \<and> ar_canOnZone input (sv_id server) zone ''record.delete''
          \<or> pt_changetype p = REPLACE \<and> (ar_canOnZone input (sv_id server) zone ''record.create''
                                        \<or> ar_canOnZone input (sv_id server) zone ''record.update'')))"
  by (rule auto_ptr_patch_authorized) (use assms in simp)

lemma auto_ptr_patch_keeps:
  assumes "PPatch server zone patches \<in> set (snd (runAutoPtr deps input))" "p \<in> set patches"
    and "pd_backends deps = Inr servers"
  shows "\<exists>c own. c \<in> set (ar_changes input) \<and> ensureTrailingDot own = Inr (pt_name p)
    \<and> (snd (snd c) \<or> (\<forall>rr r. map_of (pr_existing (run_reads deps input servers)) own = Some rr \<longrightarrow> r \<in> set (rs_records rr) \<longrightarrow>
          \<not> sameName (rr_content r) (c_name (fst c)) \<longrightarrow>
          pt_changetype p = REPLACE \<and> (\<exists>rs. pt_records p = Some rs \<and> r \<in> set rs)))"
proof -
  let ?ex = "pr_existing (run_reads deps input servers)"
  from run_patch [OF assms(1)] assms(2,3) obtain c item where
    x: "planned input (run_hosted deps servers) (run_reads deps input servers) c item"
      "i_action item \<in> {PtrCreate, PtrUpdate, PtrDelete}"
      "ptr_patch (map_of ?ex (i_owner item)) item = Inr p" by (metis sum.inject(2))
  note resp = planned_respects [OF x(1)]
  note shape = ptr_patch_shape [OF x(3) resp x(2)]
  have inverse: "record_of_address (address_of_record r) = r" for r
    by (simp add: record_of_address_def address_of_record_def)
  have "pt_changetype p = REPLACE \<and> (\<exists>rs. pt_records p = Some rs \<and> r \<in> set rs)"
    if "\<not> snd (snd c)" "map_of ?ex (i_owner item) = Some rr" "r \<in> set (rs_records rr)"
      "\<not> sameName (rr_content r) (c_name (fst c))" for rr r
  proof -
    have "address_of_record r \<in> set (v_records (value_of_live rr))" using that(3) by (simp add: value_of_live_def)
    with resp that(1,2,4) have "i_action item \<in> {PtrUnchanged, PtrConflict, PtrSkip}
        \<or> i_action item = PtrUpdate \<and> (\<exists>w. i_rrset item = Some w \<and> address_of_record r \<in> set (v_records w))"
      by (simp add: item_respects_def address_of_record_def)
    with x(2) obtain w where w: "i_action item = PtrUpdate" "i_rrset item = Some w"
      "address_of_record r \<in> set (v_records w)" by auto
    from imageI [OF w(3), of record_of_address] inverse have "r \<in> set (map record_of_address (v_records w))" by simp
    with shape w(1,2) show ?thesis by simp
  qed
  with shape x(1) show ?thesis unfolding planned_def by blast
qed



lemma plan_targets_zone:
  assumes "item \<in> set (p_items (planPtrChanges change before ctx))" "i_reverseZone item = None"
  shows "i_currentTargets item = None"
proof -
  have d: "i_currentTargets item = None"
    if "item \<in> set (plan_desired change before ctx r)" "i_reverseZone item = None" for r
  proof (cases "findReverseZone (a_content r) (hostedReverseZones ctx)")
    case None
    with that show ?thesis by (auto simp: plan_desired_def Let_def skip_item_def split: option.splits)
  next
    case (Some m)
    with plan_desired_single [of r change before ctx] that show ?thesis by (auto simp: item_at_def split: if_splits)
  qed
  have q: "i_currentTargets item = None"
    if "item \<in> set (plan_previous change ds ctx r)" "i_reverseZone item = None" for r ds
  proof (cases "findReverseZone (a_content r) (hostedReverseZones ctx)")
    case None
    with that show ?thesis
      by (auto simp: plan_previous_def Let_def skip_item_def split: option.splits if_splits)
  next
    case (Some m)
    with plan_previous_single [of r ds change ctx] that show ?thesis by (auto simp: item_at_def split: if_splits)
  qed
  from assms d q show ?thesis unfolding plan_items_set by blast
qed

lemma run_settled:
  assumes "planned input (run_hosted deps servers) (run_reads deps input servers) c item" "i_reverseZone item = Some z"
  shows "settled (run_reads deps input servers) z"
proof -
  have c: "c \<in> set (ar_changes input)"
    and i: "item \<in> set (p_items (planPtrChanges (fst c) (fst (snd c))
        (ptr_ctx (run_hosted deps servers) (run_reads deps input servers) (snd (snd c)))))"
    using assms(1) by (simp_all add: planned_def)
  from plan_zone_candidate [OF i assms(2)]
  have "z \<in> snd ` set (candidatePtrOwners (fst c) (map_option v_records (fst (snd c))) (run_hosted deps servers))"
    by (simp add: ptr_ctx_def)
  with ownersByZone_dom [OF c] have "z \<in> fst ` set (ownersByZone (run_hosted deps servers) (ar_changes input))" by blast
  then show ?thesis unfolding run_reads_def read_existing_def run_hosted_def
    by (intro read_zones_settled disjI2)
qed

lemma gate_targets:
  assumes p: "planned input (run_hosted deps servers) (run_reads deps input servers) c item"
    and oc: "oc = fst (gate_item input (run_reads deps input servers) (fst c) item)" "o_currentTargets oc \<noteq> None"
  shows "\<exists>zone host. o_reverseZone oc = Some zone \<and> o_server oc = Some (sv_slug (fst host))
    \<and> ptr_allowed input host zone (i_action item)"
proof (cases "i_reverseZone item")
  case None
  with p plan_targets_zone have "i_currentTargets item = None" by (auto simp: planned_def)
  with None oc show ?thesis by (simp add: gate_item_def outcome_base_def)
next
  case (Some zone)
  let ?r = "run_reads deps input servers"
  note gate = gate_item_def [of input ?r "fst c" item, unfolded Some option.case Let_def]
  have nw: "zone \<notin> set (pr_unwritable ?r)"
  proof
    assume "zone \<in> set (pr_unwritable ?r)"
    with oc show False unfolding gate by simp
  qed
  have nr: "zone \<notin> set (pr_unreadable ?r)"
  proof
    assume "zone \<in> set (pr_unreadable ?r)"
    with oc nw show False unfolding gate by simp
  qed
  from run_settled [OF p Some] nw obtain h where h: "map_of (pr_hostFor ?r) zone = Some h"
    unfolding settled_def by blast
  note gate' = gate [unfolded h option.case, simplified nw nr if_False simp_thms]
  have a: "ptr_allowed input h zone (i_action item)"
  proof (rule ccontr)
    assume "\<not> ptr_allowed input h zone (i_action item)"
    with oc show False unfolding gate' by (simp split: if_splits)
  qed
  with oc(1) have "oc = outcome_base (fst c) item (Some h)" unfolding gate' by simp
  then have "o_reverseZone oc = Some zone" "o_server oc = Some (sv_slug (fst h))"
    using Some by (simp_all add: outcome_base_def)
  with a show ?thesis by blast
qed


section \<open>A concrete run\<close>

definition demo_backend :: backend_row where
  "demo_backend = \<lparr>sv_id = ''1'', sv_slug = ''ns1'', sv_disabledAt = None, bk_writeMode = ''read_write'',
     bk_clusterId = None\<rparr>"

definition demo_ptr :: "string list \<Rightarrow> live_rrset" where
  "demo_ptr targets = ptr_rrset ''5.1.168.192.in-addr.arpa.'' 300
     (map (\<lambda>t. \<lparr>rr_content = t, rr_disabled = None\<rparr>) targets) []"

definition demo_deps :: "live_rrset list \<Rightarrow> ptr_deps" where
  "demo_deps rrsets = \<lparr>pd_backends = Inr [demo_backend],
     pd_listZones = (\<lambda>_. Returned [\<lparr>zl_name = ''1.168.192.in-addr.arpa.'', zl_kind = ''Native''\<rparr>]),
     pd_cachedZones = (\<lambda>_. None), pd_supportsFilter = (\<lambda>_. False),
     pd_getZone = (\<lambda>_ _ _. Returned \<lparr>zd_kind = ''Native'', zd_rrsets = Some rrsets\<rparr>),
     pd_patchZone = (\<lambda>_ _ _. Returned ()), pd_redact = (\<lambda>m. m)\<rparr>"

definition demo_batch :: "ptr_change list \<Rightarrow> auto_ptr_request" where
  "demo_batch changes = \<lparr>ar_server = demo_backend, ar_zone = ''example.com.'', ar_changes = changes,
     ar_canOnZone = (\<lambda>_ _ p. p = ''record.create''), ar_dryRun = False, ar_reverseSummary = False\<rparr>"

definition demo_upsert :: "string \<Rightarrow> ptr_change" where
  "demo_upsert name = (\<lparr>c_kind = Upsert, c_name = name, c_type = TypeA, c_ttl = Some 300,
     c_records = Some [\<lparr>a_content = ''192.168.1.5'', a_disabled = None\<rparr>]\<rparr>, None, False)"

definition demo_delete :: "string \<Rightarrow> ptr_change" where
  "demo_delete name = (\<lparr>c_kind = Delete, c_name = name, c_type = TypeA, c_ttl = None, c_records = None\<rparr>,
     Some \<lparr>v_ttl = 300, v_records = [\<lparr>a_content = ''192.168.1.5'', a_disabled = None\<rparr>]\<rparr>, False)"

definition demo_ptr_patch :: "string list \<Rightarrow> rrset_patch" where
  "demo_ptr_patch targets = \<lparr>pt_name = ''5.1.168.192.in-addr.arpa.'', pt_type = ''PTR'', pt_ttl = Some 300,
     pt_changetype = REPLACE, pt_records = Some (map (\<lambda>t. \<lparr>rr_content = t, rr_disabled = None\<rparr>) targets),
     pt_comments = Some []\<rparr>"

lemma demo_prune:
  "list_ex (\<lambda>e. e = PPatch demo_backend ''1.168.192.in-addr.arpa.'' [demo_ptr_patch [''mail.example.com.'']])
     (snd (runAutoPtr (demo_deps [demo_ptr [''www.example.com.'', ''mail.example.com.'']])
             (demo_batch [demo_delete ''www.example.com.''])))"
  by code_simp

lemma demo_prune_in:
  "PPatch demo_backend ''1.168.192.in-addr.arpa.'' [demo_ptr_patch [''mail.example.com.'']]
     \<in> set (snd (runAutoPtr (demo_deps [demo_ptr [''www.example.com.'', ''mail.example.com.'']])
             (demo_batch [demo_delete ''www.example.com.''])))"
  using demo_prune by (auto simp: list_ex_iff)

theorem auto_ptr_writes_authorized_witness:
  "ar_canOnZone (demo_batch [demo_delete ''www.example.com.'']) (sv_id demo_backend) ''1.168.192.in-addr.arpa.''
      ''record.create''
   \<and> pt_type (demo_ptr_patch [''mail.example.com.'']) = ''PTR''
   \<and> bk_writeMode demo_backend \<noteq> ''read_only''"
  using auto_ptr_writes_authorized [OF surjective_pairing demo_prune_in]
  by (simp add: demo_ptr_patch_def demo_batch_def)

lemma demo_read:
  "map_of (pr_existing (run_reads (demo_deps [demo_ptr [''www.example.com.'', ''mail.example.com.'']])
      (demo_batch [demo_delete ''www.example.com.'']) [demo_backend])) ''5.1.168.192.in-addr.arpa.''
    = Some (demo_ptr [''www.example.com.'', ''mail.example.com.''])"
  by code_simp


lemma demo_conflict:
  "map_option (map o_currentTargets) (case fst (runAutoPtr (demo_deps [demo_ptr [''mail.example.com.'']])
      (demo_batch [demo_upsert ''www.example.com.''])) of Inr os \<Rightarrow> Some os | Inl _ \<Rightarrow> None)
    = Some [Some [''mail.example.com.'']]"
  by code_simp


text \<open>
  Two changes of one batch are planned against the same reading of the reverse zone.  When two names
  are given the same new address, both plans create its PTR, and one PATCH carries two replacements
  of one RRset.
\<close>

lemma auto_ptr_same_owner_twice:
  "list_ex (\<lambda>e. e = PPatch demo_backend ''1.168.192.in-addr.arpa.''
        [demo_ptr_patch [''www.example.com.''], demo_ptr_patch [''mail.example.com.'']])
     (snd (runAutoPtr (demo_deps []) (demo_batch [demo_upsert ''www.example.com.'', demo_upsert ''mail.example.com.''])))"
  by code_simp

end
