(* ===== verification/Wire.thy ===== *)
theory Wire
  imports UrlSafety
begin

text \<open>
  The DNS wire format of \<open>lib/dns/wire.ts\<close>: names with compression pointers, queries, whole messages,
  the reassembly of messages from a TCP stream, and the exchanges built from them.  A buffer is a list
  of bytes.  \<open>readName\<close> is a loop that a hostile server feeds: each iteration is \<open>name_step\<close>, and the
  number of iterations is bounded by the length of the message.  Decoding UTF-8 text (of TXT values)
  is a parameter, since a string here holds code units below 256.
\<close>

section \<open>Buffers\<close>

type_synonym buffer = "8 word list"

datatype wire_error = WireError string | OutOfRange

type_synonym 'a wire = "wire_error + 'a"

definition wbind :: "'a wire \<Rightarrow> ('a \<Rightarrow> 'b wire) \<Rightarrow> 'b wire" where
  "wbind m f = (case m of Inl e \<Rightarrow> Inl e | Inr a \<Rightarrow> f a)"

definition byte_nat :: "buffer \<Rightarrow> nat \<Rightarrow> nat" where
  "byte_nat buf i = unat (buf ! i)"

definition readUInt16BE :: "buffer \<Rightarrow> nat \<Rightarrow> nat wire" where
  "readUInt16BE buf pos =
     (if pos + 2 \<le> length buf then Inr (byte_nat buf pos * 256 + byte_nat buf (pos + 1)) else Inl OutOfRange)"

definition readUInt32BE :: "buffer \<Rightarrow> nat \<Rightarrow> nat wire" where
  "readUInt32BE buf pos =
     (if pos + 4 \<le> length buf
      then Inr (((byte_nat buf pos * 256 + byte_nat buf (pos + 1)) * 256 + byte_nat buf (pos + 2)) * 256
                + byte_nat buf (pos + 3))
      else Inl OutOfRange)"

definition subarray :: "buffer \<Rightarrow> nat \<Rightarrow> nat \<Rightarrow> buffer" where
  "subarray buf start end' = take (end' - start) (drop start buf)"

definition u16_bytes :: "nat \<Rightarrow> buffer" where
  "u16_bytes n = [word_of_nat (n div 256), word_of_nat n]"

definition u32_bytes :: "nat \<Rightarrow> buffer" where
  "u32_bytes n = [word_of_nat (n div 16777216), word_of_nat (n div 65536), word_of_nat (n div 256), word_of_nat n]"

text \<open>\<open>toString("ascii")\<close> drops the high bit; \<open>Buffer.from(s, "ascii")\<close> keeps the low byte.\<close>

definition ascii_text :: "buffer \<Rightarrow> string" where
  "ascii_text bs = map (\<lambda>b. char_of (unat b mod 128)) bs"

definition ascii_bytes :: "string \<Rightarrow> buffer" where
  "ascii_bytes s = map (\<lambda>c. word_of_nat (code c)) s"

definition hex_text :: "buffer \<Rightarrow> string" where
  "hex_text bs = concat (map (\<lambda>b. [hex_digit (unat b div 16), hex_digit (unat b mod 16)]) bs)"

definition base64_char :: "nat \<Rightarrow> char" where
  "base64_char n = (''ABCDEFGHIJKLMNOPQRSTUVWXYZabcdefghijklmnopqrstuvwxyz0123456789+/'' ! (n mod 64))"

fun base64_text :: "buffer \<Rightarrow> string" where
  "base64_text [] = []"
| "base64_text [a] = [base64_char (unat a div 4), base64_char (unat a mod 4 * 16), CHR ''='', CHR ''='']"
| "base64_text [a, b] =
     [base64_char (unat a div 4), base64_char (unat a mod 4 * 16 + unat b div 16),
      base64_char (unat b mod 16 * 4), CHR ''='']"
| "base64_text (a # b # c # bs) =
     [base64_char (unat a div 4), base64_char (unat a mod 4 * 16 + unat b div 16),
      base64_char (unat b mod 16 * 4 + unat c div 64), base64_char (unat c mod 64)] @ base64_text bs"

section \<open>Types and records\<close>

definition RRTYPE :: "(string \<times> nat) list" where
  "RRTYPE = [(''A'', 1), (''NS'', 2), (''CNAME'', 5), (''SOA'', 6), (''PTR'', 12), (''MX'', 15), (''TXT'', 16),
     (''AAAA'', 28), (''DS'', 43), (''RRSIG'', 46), (''NSEC'', 47), (''DNSKEY'', 48), (''NSEC3'', 50),
     (''OPT'', 41), (''AXFR'', 252), (''ANY'', 255)]"

definition TYPE_NAME :: "(nat \<times> string) list" where
  "TYPE_NAME = map (\<lambda>kv. (snd kv, fst kv)) RRTYPE"

definition type_text :: "nat \<Rightarrow> string" where
  "type_text t = (case map_of TYPE_NAME t of Some n \<Rightarrow> n | None \<Rightarrow> dec_of_nat t)"

definition RCODE :: "(nat \<times> string) list" where
  "RCODE = [(0, ''NOERROR''), (1, ''FORMERR''), (2, ''SERVFAIL''), (3, ''NXDOMAIN''), (4, ''NOTIMP''),
     (5, ''REFUSED''), (9, ''NOTAUTH'')]"

definition rcode_text :: "nat \<Rightarrow> string" where
  "rcode_text r = (case map_of RCODE r of Some n \<Rightarrow> n | None \<Rightarrow> ''RCODE'' @ dec_of_nat r)"

record soa_rdata =
  so_mname :: string
  so_rname :: string
  so_serial :: nat
  so_refresh :: nat
  so_retry :: nat
  so_expire :: nat
  so_minimum :: nat

record ds_rdata =
  dr_keyTag :: nat
  dr_algorithm :: "nat option"
  dr_digestType :: "nat option"
  dr_digest :: string

record dnskey_rdata =
  dk_flags :: nat
  dk_protocol :: "nat option"
  dk_algorithm :: "nat option"
  dk_key :: string
  dk_keyTag :: nat

record decoded_rdata =
  dd_data :: string
  dd_soa :: "soa_rdata option"
  dd_ds :: "ds_rdata option"
  dd_dnskey :: "dnskey_rdata option"
  dd_rrsigCovers :: "string option"

record wire_record = decoded_rdata +
  wr_name :: string
  wr_type :: string
  wr_class :: nat
  wr_ttl :: nat

record wire_message =
  wm_id :: nat
  wm_rcode :: nat
  wm_rcodeName :: string
  wm_aa :: bool
  wm_tc :: bool
  wm_rd :: bool
  wm_ra :: bool
  wm_ad :: bool
  wm_question :: "(string \<times> string) option"
  wm_answer :: "wire_record list"
  wm_authority :: "wire_record list"
  wm_additional :: "wire_record list"

section \<open>Encoding\<close>

definition name_labels :: "string \<Rightarrow> string list" where
  "name_labels name = filter (\<lambda>l. l \<noteq> []) (split_on (CHR ''.'') (strip_dot name))"

fun encode_labels :: "string list \<Rightarrow> buffer option" where
  "encode_labels [] = Some [0]"
| "encode_labels (l # ls) =
     (if length l > 63 then None
      else map_option (\<lambda>bs. word_of_nat (length l) # ascii_bytes l @ bs) (encode_labels ls))"

definition encodeName :: "string \<Rightarrow> buffer wire" where
  "encodeName name =
     (case encode_labels (name_labels name) of
        None \<Rightarrow> Inl (WireError (''dns: label too long in '' @ name)) | Some bs \<Rightarrow> Inr bs)"

record query_flags =
  qf_id :: nat
  qf_recursion :: bool
  qf_dnssec :: bool
  qf_udpSize :: "nat option"

definition query_header :: "query_flags \<Rightarrow> buffer" where
  "query_header opts =
     u16_bytes (qf_id opts) @ u16_bytes (if qf_recursion opts then 256 else 0)
     @ u16_bytes 1 @ u16_bytes 0 @ u16_bytes 0 @ u16_bytes 1"

definition opt_record :: "query_flags \<Rightarrow> buffer" where
  "opt_record opts =
     0 # u16_bytes 41 @ u16_bytes (case qf_udpSize opts of Some n \<Rightarrow> n | None \<Rightarrow> 1232)
     @ u32_bytes (if qf_dnssec opts then 32768 else 0) @ [0, 0]"

definition encodeQuery :: "string \<Rightarrow> string \<Rightarrow> query_flags \<Rightarrow> (nat \<times> buffer) wire" where
  "encodeQuery name type opts =
     (case map_of RRTYPE (js_upper type) of
        None \<Rightarrow> Inl (WireError (''dns: unsupported qtype '' @ type))
      | Some qtype \<Rightarrow>
          if qf_id opts > 65535 then Inl OutOfRange
          else wbind (encodeName name) (\<lambda>qname.
            if (case qf_udpSize opts of Some n \<Rightarrow> n > 65535 | None \<Rightarrow> False) then Inl OutOfRange
            else Inr (qf_id opts,
              query_header opts @ qname @ [word_of_nat (qtype div 256), word_of_nat qtype, 0, 1] @ opt_record opts)))"

section \<open>Names\<close>

record name_config =
  nc_pos :: nat
  nc_labels :: "string list"
  nc_next :: "nat option"
  nc_hops :: nat

definition name_result :: "name_config \<Rightarrow> string \<times> nat" where
  "name_result c =
     (if nc_labels c \<noteq> [] then js_lower (join ''.'' (nc_labels c)) @ ''.'' else ''.'',
      case nc_next c of None \<Rightarrow> nc_pos c + 1 | Some n \<Rightarrow> n)"

text \<open>One iteration: it leaves the loop with a result, or goes on with a new configuration.\<close>

definition name_step :: "buffer \<Rightarrow> name_config \<Rightarrow> (string \<times> nat) wire + name_config" where
  "name_step buf c =
     (let pos = nc_pos c in
      if pos \<ge> length buf then Inl (Inl (WireError ''dns: truncated name''))
      else let len = buf ! pos in
        if len = 0 then Inl (Inr (name_result c))
        else if len AND 0xc0 = 0xc0 then
          (if pos + 1 \<ge> length buf then Inl (Inl (WireError ''dns: truncated pointer''))
           else let ptr = unat (len AND 0x3f) * 256 + byte_nat buf (pos + 1);
                    next' = (case nc_next c of None \<Rightarrow> pos + 2 | Some n \<Rightarrow> n)
             in if ptr \<ge> pos \<or> nc_hops c + 1 > 64 then Inl (Inl (WireError ''dns: bad compression pointer''))
                else Inr (c\<lparr>nc_pos := ptr, nc_next := Some next', nc_hops := nc_hops c + 1\<rparr>))
        else if len AND 0xc0 \<noteq> 0 then Inl (Inl (WireError ''dns: unsupported label type''))
        else Inr (c\<lparr>nc_pos := pos + 1 + unat len,
                    nc_labels := nc_labels c @ [ascii_text (subarray buf (pos + 1) (pos + 1 + unat len))]\<rparr>))"

lemma name_step_decreases:
  assumes "name_step buf c = Inr c'"
  shows "nc_hops c < nc_hops c' \<and> nc_hops c' \<le> 64 \<and> nc_pos c' < length buf
    \<or> nc_hops c' = nc_hops c \<and> nc_pos c < nc_pos c' \<and> nc_pos c < length buf"
  using assms by (auto simp: name_step_def Let_def split: if_splits)

function readName_loop :: "buffer \<Rightarrow> name_config \<Rightarrow> (string \<times> nat) wire" where
  "readName_loop buf c = (case name_step buf c of Inl r \<Rightarrow> r | Inr c' \<Rightarrow> readName_loop buf c')"
  by pat_completeness auto

termination
proof (relation "measures [\<lambda>(buf, c). 64 - nc_hops c, \<lambda>(buf, c). length buf - nc_pos c]")
  show "wf (measures [\<lambda>(buf :: buffer, c). 64 - nc_hops c, \<lambda>(buf, c). length buf - nc_pos c])" by simp
  fix buf :: buffer and c c'
  assume "name_step buf c = Inr c'"
  from name_step_decreases [OF this]
  show "((buf, c'), buf, c) \<in> measures [\<lambda>(buf, c). 64 - nc_hops c, \<lambda>(buf, c). length buf - nc_pos c]" by auto
qed

declare readName_loop.simps [simp del]

definition name_start :: "nat \<Rightarrow> name_config" where
  "name_start pos = \<lparr>nc_pos = pos, nc_labels = [], nc_next = None, nc_hops = 0\<rparr>"

definition readName :: "buffer \<Rightarrow> nat \<Rightarrow> (string \<times> nat) wire" where
  "readName buf pos = readName_loop buf (name_start pos)"

section \<open>Record data\<close>

definition dnskey_sum :: "buffer \<Rightarrow> nat" where
  "dnskey_sum rdata = fold (\<lambda>i ac. ac + (if odd i then byte_nat rdata i else byte_nat rdata i * 256)) [0..<length rdata] 0"

definition dnskeyKeyTag :: "buffer \<Rightarrow> nat" where
  "dnskeyKeyTag rdata =
     (let ac = dnskey_sum rdata in (ac + ac div 65536 mod 65536) mod 65536)"

definition plain_data :: "string \<Rightarrow> decoded_rdata" where
  "plain_data s = \<lparr>dd_data = s, dd_soa = None, dd_ds = None, dd_dnskey = None, dd_rrsigCovers = None\<rparr>"

text \<open>An index read past the buffer gives \<open>undefined\<close>.\<close>

definition byte_opt :: "buffer \<Rightarrow> nat \<Rightarrow> nat option" where
  "byte_opt buf i = (if i < length buf then Some (byte_nat buf i) else None)"

definition opt_text :: "nat option \<Rightarrow> string" where
  "opt_text n = (case n of Some m \<Rightarrow> dec_of_nat m | None \<Rightarrow> ''undefined'')"

definition escape_txt :: "string \<Rightarrow> string" where
  "escape_txt s = concat (map (\<lambda>c. if c = CHR 0x22 \<or> c = CHR 0x5C then [CHR 0x5C, c] else [c]) s)"

function txt_chunks :: "(buffer \<Rightarrow> string) \<Rightarrow> buffer \<Rightarrow> nat \<Rightarrow> nat \<Rightarrow> string list" where
  "txt_chunks utf8 buf p end' =
     (if p < end' then
        (let l = byte_nat buf p in
         ([CHR 0x22] @ escape_txt (utf8 (subarray buf (p + 1) (p + 1 + l))) @ [CHR 0x22])
           # txt_chunks utf8 buf (p + 1 + l) end')
      else [])"
  by pat_completeness auto

termination by (relation "measure (\<lambda>(_, _, p, end'). end' - p)") auto

declare txt_chunks.simps [simp del]

definition soa_text :: "soa_rdata \<Rightarrow> string" where
  "soa_text s = join '' '' [so_mname s, so_rname s, dec_of_nat (so_serial s), dec_of_nat (so_refresh s),
     dec_of_nat (so_retry s), dec_of_nat (so_expire s), dec_of_nat (so_minimum s)]"

definition decode_soa :: "buffer \<Rightarrow> nat \<Rightarrow> decoded_rdata wire" where
  "decode_soa buf start =
     wbind (readName buf start) (\<lambda>m.
     wbind (readName buf (snd m)) (\<lambda>r.
     let p = snd r in
     wbind (readUInt32BE buf p) (\<lambda>serial.
     wbind (readUInt32BE buf (p + 4)) (\<lambda>refresh.
     wbind (readUInt32BE buf (p + 8)) (\<lambda>retry.
     wbind (readUInt32BE buf (p + 12)) (\<lambda>expire.
     wbind (readUInt32BE buf (p + 16)) (\<lambda>minimum.
       let soa = \<lparr>so_mname = fst m, so_rname = fst r, so_serial = serial, so_refresh = refresh,
                  so_retry = retry, so_expire = expire, so_minimum = minimum\<rparr>
       in Inr ((plain_data (soa_text soa))\<lparr>dd_soa := Some soa\<rparr>))))))))"

definition decode_ds :: "buffer \<Rightarrow> nat \<Rightarrow> nat \<Rightarrow> decoded_rdata wire" where
  "decode_ds buf start end' =
     wbind (readUInt16BE buf start) (\<lambda>tag.
       let ds = \<lparr>dr_keyTag = tag, dr_algorithm = byte_opt buf (start + 2), dr_digestType = byte_opt buf (start + 3),
                 dr_digest = js_upper (hex_text (subarray buf (start + 4) end'))\<rparr>
       in Inr ((plain_data (join '' '' [dec_of_nat (dr_keyTag ds), opt_text (dr_algorithm ds),
                   opt_text (dr_digestType ds), dr_digest ds]))\<lparr>dd_ds := Some ds\<rparr>))"

definition decode_dnskey :: "buffer \<Rightarrow> nat \<Rightarrow> nat \<Rightarrow> decoded_rdata wire" where
  "decode_dnskey buf start end' =
     wbind (readUInt16BE buf start) (\<lambda>flags.
       let k = \<lparr>dk_flags = flags, dk_protocol = byte_opt buf (start + 2), dk_algorithm = byte_opt buf (start + 3),
                dk_key = base64_text (subarray buf (start + 4) end'),
                dk_keyTag = dnskeyKeyTag (subarray buf start end')\<rparr>
       in Inr ((plain_data (join '' '' [dec_of_nat (dk_flags k), opt_text (dk_protocol k),
                   opt_text (dk_algorithm k), dk_key k]))\<lparr>dd_dnskey := Some k\<rparr>))"

definition decode_aaaa :: "buffer \<Rightarrow> string" where
  "decode_aaaa part =
     join '':'' (map (\<lambda>i. hex_of_nat (byte_nat part (2 * i) * 256 + byte_nat part (2 * i + 1))) [0..<8])"

definition decodeRdata :: "(buffer \<Rightarrow> string) \<Rightarrow> buffer \<Rightarrow> nat \<Rightarrow> nat \<Rightarrow> nat \<Rightarrow> decoded_rdata wire" where
  "decodeRdata utf8 buf type start len =
     (let end' = start + len; part = subarray buf start end' in
      if type = 1 then
        Inr (plain_data (if len = 4 then join ''.'' (map (\<lambda>b. dec_of_nat (unat b)) part) else hex_text part))
      else if type = 28 then
        Inr (plain_data (if len \<noteq> 16 then hex_text part else decode_aaaa part))
      else if type = 2 \<or> type = 5 \<or> type = 12 then
        wbind (readName buf start) (\<lambda>n. Inr (plain_data (fst n)))
      else if type = 15 then
        wbind (readUInt16BE buf start) (\<lambda>pref.
        wbind (readName buf (start + 2)) (\<lambda>n. Inr (plain_data (dec_of_nat pref @ '' '' @ fst n))))
      else if type = 16 then
        Inr (plain_data (join '' '' (txt_chunks utf8 buf start end')))
      else if type = 6 then decode_soa buf start
      else if type = 43 then decode_ds buf start end'
      else if type = 48 then decode_dnskey buf start end'
      else if type = 46 then
        wbind (readUInt16BE buf start) (\<lambda>covered.
          Inr ((plain_data (hex_text part))\<lparr>dd_rrsigCovers := Some (type_text covered)\<rparr>))
      else Inr (plain_data (hex_text part)))"

section \<open>Messages\<close>

fun read_questions :: "buffer \<Rightarrow> nat \<Rightarrow> nat \<Rightarrow> (string \<times> string) option \<Rightarrow> ((string \<times> string) option \<times> nat) wire" where
  "read_questions buf 0 pos question = Inr (question, pos)"
| "read_questions buf (Suc n) pos question =
     wbind (readName buf pos) (\<lambda>q.
     wbind (readUInt16BE buf (snd q)) (\<lambda>qtype.
       read_questions buf n (snd q + 4)
         (case question of Some x \<Rightarrow> Some x | None \<Rightarrow> Some (fst q, type_text qtype))))"

definition make_record :: "string \<Rightarrow> nat \<Rightarrow> nat \<Rightarrow> nat \<Rightarrow> decoded_rdata \<Rightarrow> wire_record" where
  "make_record name type klass ttl d =
     \<lparr>dd_data = dd_data d, dd_soa = dd_soa d, dd_ds = dd_ds d, dd_dnskey = dd_dnskey d,
      dd_rrsigCovers = dd_rrsigCovers d, wr_name = name, wr_type = type_text type, wr_class = klass, wr_ttl = ttl\<rparr>"

text \<open>One record of a section: what is pushed, and where the next one starts.\<close>

definition read_record :: "(buffer \<Rightarrow> string) \<Rightarrow> buffer \<Rightarrow> nat \<Rightarrow> (wire_record option \<times> nat) wire" where
  "read_record utf8 buf start =
     wbind (readName buf start) (\<lambda>n.
     let pos = snd n in
     wbind (readUInt16BE buf pos) (\<lambda>type.
     wbind (readUInt16BE buf (pos + 2)) (\<lambda>klass.
     wbind (readUInt32BE buf (pos + 4)) (\<lambda>ttl.
     wbind (readUInt16BE buf (pos + 8)) (\<lambda>rdlen.
       let pos' = pos + 10 in
       if pos' + rdlen > length buf then Inl (WireError ''dns: truncated rdata'')
       else if type = 41 then Inr (None, pos' + rdlen)
       else wbind (decodeRdata utf8 buf type pos' rdlen) (\<lambda>d.
         Inr (Some (make_record (fst n) type klass ttl d), pos' + rdlen)))))))"

fun read_section :: "(buffer \<Rightarrow> string) \<Rightarrow> buffer \<Rightarrow> nat \<Rightarrow> nat \<Rightarrow> (wire_record list \<times> nat) wire" where
  "read_section utf8 buf 0 pos = Inr ([], pos)"
| "read_section utf8 buf (Suc n) pos =
     wbind (read_record utf8 buf pos) (\<lambda>r.
     wbind (read_section utf8 buf n (snd r)) (\<lambda>rs.
       Inr ((case fst r of Some x \<Rightarrow> x # fst rs | None \<Rightarrow> fst rs), snd rs)))"

definition flag_bit :: "nat \<Rightarrow> nat \<Rightarrow> bool" where
  "flag_bit flags m \<longleftrightarrow> odd (flags div m)"

definition decodeMessage :: "(buffer \<Rightarrow> string) \<Rightarrow> buffer \<Rightarrow> wire_message wire" where
  "decodeMessage utf8 buf =
     (if length buf < 12 then Inl (WireError ''dns: message too short'')
      else
        wbind (readUInt16BE buf 0) (\<lambda>id'.
        wbind (readUInt16BE buf 2) (\<lambda>flags.
        wbind (readUInt16BE buf 4) (\<lambda>qd.
        wbind (readUInt16BE buf 6) (\<lambda>an.
        wbind (readUInt16BE buf 8) (\<lambda>ns.
        wbind (readUInt16BE buf 10) (\<lambda>ar.
        wbind (read_questions buf qd 12 None) (\<lambda>q.
        wbind (read_section utf8 buf an (snd q)) (\<lambda>answer.
        wbind (read_section utf8 buf ns (snd answer)) (\<lambda>authority.
        wbind (read_section utf8 buf ar (snd authority)) (\<lambda>additional.
          Inr \<lparr>wm_id = id', wm_rcode = flags mod 16, wm_rcodeName = rcode_text (flags mod 16),
               wm_aa = flag_bit flags 1024, wm_tc = flag_bit flags 512, wm_rd = flag_bit flags 256,
               wm_ra = flag_bit flags 128, wm_ad = flag_bit flags 32, wm_question = fst q,
               wm_answer = fst answer, wm_authority = fst authority, wm_additional = fst additional\<rparr>)))))))))))"

section \<open>The TCP stream\<close>

text \<open>
  \<open>sendTcp\<close> keeps the bytes not yet consumed, the number received and whether it has finished.  The
  listener of \<open>data\<close> appends a chunk and takes complete messages off the front; \<open>onMessage\<close> says of each
  whether to go on, or throws.
\<close>

datatype tcp_end = Resolved | Rejected wire_error

record tcp_state =
  ts_pending :: buffer
  ts_total :: nat
  ts_finished :: "tcp_end option"
  ts_messages :: "buffer list"

definition next_frame :: "buffer \<Rightarrow> (buffer \<times> buffer) option" where
  "next_frame pending =
     (if length pending \<ge> 2 then
        (let len = byte_nat pending 0 * 256 + byte_nat pending 1 in
         if length pending < 2 + len then None
         else Some (take len (drop 2 pending), drop (2 + len) pending))
      else None)"

lemma next_frame_shorter: "next_frame pending = Some (msg, rest) \<Longrightarrow> length rest < length pending"
  by (auto simp: next_frame_def Let_def split: if_splits)

function drain :: "(buffer \<Rightarrow> bool wire) \<Rightarrow> tcp_state \<Rightarrow> tcp_state" where
  "drain onMessage s =
     (case next_frame (ts_pending s) of
        None \<Rightarrow> s
      | Some (msg, rest) \<Rightarrow>
          let s' = s\<lparr>ts_pending := rest, ts_messages := ts_messages s @ [msg]\<rparr> in
          (case onMessage msg of
             Inl e \<Rightarrow> s'\<lparr>ts_finished := Some (Rejected e)\<rparr>
           | Inr again \<Rightarrow> if again then drain onMessage s' else s'\<lparr>ts_finished := Some Resolved\<rparr>))"
  by pat_completeness auto

termination
  by (relation "measure (\<lambda>(_, s). length (ts_pending s))") (auto dest: next_frame_shorter)

declare drain.simps [simp del]

definition on_data :: "nat \<Rightarrow> (buffer \<Rightarrow> bool wire) \<Rightarrow> tcp_state \<Rightarrow> buffer \<Rightarrow> tcp_state" where
  "on_data maxBytes onMessage s chunk =
     (if ts_finished s \<noteq> None then s
      else let s1 = s\<lparr>ts_total := ts_total s + length chunk\<rparr> in
        if ts_total s1 > maxBytes
        then s1\<lparr>ts_finished := Some (Rejected (WireError (''response larger than '' @ dec_of_nat maxBytes @ '' bytes'')))\<rparr>
        else drain onMessage (s1\<lparr>ts_pending := ts_pending s1 @ chunk\<rparr>))"

definition tcp_start :: "tcp_state" where
  "tcp_start = \<lparr>ts_pending = [], ts_total = 0, ts_finished = None, ts_messages = []\<rparr>"

text \<open>The stream ends or fails: \<open>end\<close> resolves, \<open>error\<close> and the timeout reject.\<close>

definition sendTcp :: "nat \<Rightarrow> (buffer \<Rightarrow> bool wire) \<Rightarrow> buffer list \<Rightarrow> string option \<Rightarrow> tcp_state" where
  "sendTcp maxBytes onMessage chunks failure =
     (let s = foldl (on_data maxBytes onMessage) tcp_start chunks in
      if ts_finished s \<noteq> None then s
      else s\<lparr>ts_finished := Some (case failure of Some m \<Rightarrow> Rejected (WireError m) | None \<Rightarrow> Resolved)\<rparr>)"

section \<open>Exchanges\<close>

definition MAX_TCP_RESPONSE :: nat where "MAX_TCP_RESPONSE = 4 * 1024 * 1024"

text \<open>What the network answers: up to two datagrams (or errors), and one TCP stream with how it ended.\<close>

record wire_net =
  wn_udp1 :: "string + buffer"
  wn_udp2 :: "string + buffer"
  wn_chunks :: "buffer list"
  wn_tcpFailure :: "string option"

definition first_message :: "(buffer \<Rightarrow> string) \<Rightarrow> nat \<Rightarrow> wire_net \<Rightarrow> wire_message option wire" where
  "first_message utf8 maxBytes net =
     (let s = sendTcp maxBytes (\<lambda>m. wbind (decodeMessage utf8 m) (\<lambda>_. Inr False)) (wn_chunks net) (wn_tcpFailure net)
      in case ts_finished s of
           Some (Rejected e) \<Rightarrow> Inl e
         | _ \<Rightarrow> (case ts_messages s of
                  [] \<Rightarrow> Inr None
                | m # _ \<Rightarrow> wbind (decodeMessage utf8 m) (\<lambda>x. Inr (Some x))))"

definition via_tcp :: "(buffer \<Rightarrow> string) \<Rightarrow> wire_net \<Rightarrow> wire_message wire" where
  "via_tcp utf8 net =
     wbind (first_message utf8 MAX_TCP_RESPONSE net) (\<lambda>out.
       case out of None \<Rightarrow> Inl (WireError ''empty TCP response'') | Some m \<Rightarrow> Inr m)"

definition udp_reply :: "wire_net \<Rightarrow> buffer wire" where
  "udp_reply net =
     (case wn_udp1 net of
        Inr raw \<Rightarrow> Inr raw
      | Inl m \<Rightarrow>
          if \<not> starts_with m ''timeout'' then Inl (WireError m)
          else (case wn_udp2 net of Inr raw \<Rightarrow> Inr raw | Inl m' \<Rightarrow> Inl (WireError m')))"

definition query :: "(buffer \<Rightarrow> string) \<Rightarrow> wire_net \<Rightarrow> string \<Rightarrow> string \<Rightarrow> query_flags \<Rightarrow> bool \<Rightarrow> wire_message wire" where
  "query utf8 net name type opts tcp =
     wbind (encodeQuery name type opts) (\<lambda>q.
       if tcp then via_tcp utf8 net
       else wbind (udp_reply net) (\<lambda>raw.
            wbind (decodeMessage utf8 raw) (\<lambda>msg.
              if wm_id msg \<noteq> fst q then Inl (WireError ''mismatched DNS message id'')
              else if wm_tc msg then via_tcp utf8 net else Inr msg)))"

datatype axfr_result = AxfrOpen | AxfrRefused | AxfrError

definition probeAxfr :: "(buffer \<Rightarrow> string) \<Rightarrow> wire_net \<Rightarrow> string \<Rightarrow> query_flags \<Rightarrow> (axfr_result \<times> nat) wire" where
  "probeAxfr utf8 net zone opts =
     wbind (encodeQuery zone ''AXFR'' opts) (\<lambda>_.
       case first_message utf8 (256 * 1024) net of
         Inl _ \<Rightarrow> Inr (AxfrError, 0)
       | Inr None \<Rightarrow> Inr (AxfrError, 0)
       | Inr (Some m) \<Rightarrow>
           if wm_rcode m \<noteq> 0 then Inr (AxfrRefused, 0)
           else (let answers = wm_answer m in
             Inr (if length answers > 0 \<and> wr_type (answers ! 0) = ''SOA'' then AxfrOpen else AxfrRefused,
                  length answers)))"

section \<open>Names end\<close>

fun name_fuel :: "nat \<Rightarrow> buffer \<Rightarrow> name_config \<Rightarrow> (string \<times> nat) wire option" where
  "name_fuel 0 buf c = None"
| "name_fuel (Suc n) buf c =
     (case name_step buf c of Inl r \<Rightarrow> Some r | Inr c' \<Rightarrow> name_fuel n buf c')"

definition name_budget :: "buffer \<Rightarrow> name_config \<Rightarrow> nat" where
  "name_budget buf c = (64 - nc_hops c) * (length buf + 1) + (length buf - nc_pos c)"

lemma name_budget_decreases:
  assumes "name_step buf c = Inr c'"
  shows "name_budget buf c' < name_budget buf c"
proof -
  from name_step_decreases [OF assms]
  consider "nc_hops c < nc_hops c'" "nc_hops c' \<le> 64"
    | "nc_hops c' = nc_hops c" "nc_pos c < nc_pos c'" "nc_pos c < length buf" by blast
  then show ?thesis
  proof cases
    case 1
    then have "Suc (64 - nc_hops c') \<le> 64 - nc_hops c" by arith
    then have "Suc (64 - nc_hops c') * (length buf + 1) \<le> (64 - nc_hops c) * (length buf + 1)" by (rule mult_le_mono1)
    moreover have "name_budget buf c' < Suc (64 - nc_hops c') * (length buf + 1)"
      unfolding name_budget_def mult_Suc by linarith
    ultimately show ?thesis unfolding name_budget_def by linarith
  next
    case 2
    then show ?thesis unfolding name_budget_def by simp
  qed
qed

lemma name_fuel_enough:
  "name_budget buf c < n \<Longrightarrow> name_fuel n buf c = Some (readName_loop buf c)"
proof (induction n arbitrary: c)
  case (Suc n)
  show ?case
  proof (cases "name_step buf c")
    case (Inl r)
    then show ?thesis by (simp add: readName_loop.simps [of buf c])
  next
    case (Inr c')
    with name_budget_decreases [OF Inr] Suc.prems have "name_budget buf c' < n" by simp
    from Suc.IH [OF this] Inr show ?thesis by (simp add: readName_loop.simps [of buf c])
  qed
qed simp

text \<open>
  C18. Reading a name from any bytes whatever, at any position, takes at most 65 times the length of the
  message in iterations, however its compression pointers are laid out: no reply can hold the reader.
\<close>

theorem readName_terminates:
  "name_fuel (65 * (length buf + 1)) buf (name_start pos) = Some (readName buf pos)"
  unfolding readName_def by (rule name_fuel_enough) (simp add: name_budget_def name_start_def)

section \<open>Records stay inside the message\<close>

definition name_bounded :: "buffer \<Rightarrow> nat \<Rightarrow> name_config \<Rightarrow> bool" where
  "name_bounded buf pos c \<longleftrightarrow>
     (case nc_next c of
        None \<Rightarrow> pos \<le> nc_pos c
      | Some n \<Rightarrow> pos < n \<and> n \<le> length buf)"

lemma name_step_bounded:
  "name_step buf c = Inr c' \<Longrightarrow> name_bounded buf pos c \<Longrightarrow> name_bounded buf pos c'"
  by (auto simp: name_step_def name_bounded_def Let_def split: if_splits option.splits)

lemma name_step_result:
  "name_step buf c = Inl (Inr r) \<Longrightarrow> name_bounded buf pos c \<Longrightarrow> pos < snd r \<and> snd r \<le> length buf"
  by (auto simp: name_step_def name_bounded_def name_result_def Let_def split: if_splits option.splits)

lemma readName_loop_bounded:
  "readName_loop buf c = Inr r \<Longrightarrow> name_bounded buf pos c \<Longrightarrow> pos < snd r \<and> snd r \<le> length buf"
proof (induction buf c rule: readName_loop.induct)
  case (1 buf c)
  show ?case
  proof (cases "name_step buf c")
    case (Inl x)
    with 1(2,3) name_step_result show ?thesis by (simp add: readName_loop.simps [of buf c])
  next
    case (Inr c')
    with 1(2) have "readName_loop buf c' = Inr r" by (simp add: readName_loop.simps [of buf c])
    from 1(1) [OF Inr this name_step_bounded [OF Inr 1(3)]] show ?thesis .
  qed
qed

lemma readName_bounded: "readName buf pos = Inr r \<Longrightarrow> pos < snd r \<and> snd r \<le> length buf"
  unfolding readName_def by (erule readName_loop_bounded) (simp add: name_bounded_def name_start_def)

lemma wbind_Inr: "wbind m f = Inr r \<longleftrightarrow> (\<exists>a. m = Inr a \<and> f a = Inr r)"
  by (simp add: wbind_def split: sum.split)

lemma read_record_advances:
  "read_record utf8 buf pos = Inr r \<Longrightarrow> pos + 11 \<le> snd r \<and> snd r \<le> length buf"
  by (auto simp: read_record_def wbind_Inr Let_def dest!: readName_bounded split: if_splits)

lemma read_section_advances:
  "read_section utf8 buf n pos = Inr r \<Longrightarrow>
     length (fst r) \<le> n \<and> pos + 11 * length (fst r) \<le> snd r \<and> snd r \<le> max pos (length buf)"
proof (induction n arbitrary: pos r)
  case (Suc n)
  then obtain x rs where x: "read_record utf8 buf pos = Inr x" "read_section utf8 buf n (snd x) = Inr rs"
    "r = ((case fst x of Some x \<Rightarrow> x # fst rs | None \<Rightarrow> fst rs), snd rs)" by (auto simp: wbind_Inr)
  from read_record_advances [OF x(1)] Suc.IH [OF x(2)] x(3) show ?case by (auto split: option.split)
qed simp

lemma read_questions_advances: "read_questions buf n pos qn = Inr r \<Longrightarrow> pos \<le> snd r"
proof (induction n arbitrary: pos qn)
  case (Suc n)
  then obtain q qn' where q: "readName buf pos = Inr q" "read_questions buf n (snd q + 4) qn' = Inr r"
    by (auto simp: wbind_Inr)
  from readName_bounded [OF q(1)] Suc.IH [OF q(2)] show ?case by simp
qed auto


section \<open>Round trip\<close>

lemma low_label:
  fixes w :: "8 word"
  assumes "unat w \<le> 63"
  shows "w AND 0xc0 = 0"
proof -
  have m: "(0xc0 :: 8 word) = NOT (mask 6)" by (simp add: mask_eq_decr_exp)
  have "w AND NOT (mask 6) = 0 AND NOT (mask 6) \<longleftrightarrow> unat w div 2 ^ 6 = unat (0 :: 8 word) div 2 ^ 6" by (rule mask_div)
  with assms show ?thesis by (simp add: m)
qed

definition ascii :: "string \<Rightarrow> bool" where
  "ascii s \<longleftrightarrow> list_all (\<lambda>c. code c < 128) s"

lemma ascii_roundtrip: "ascii s \<Longrightarrow> ascii_text (ascii_bytes s) = s"
  by (induction s) (simp_all add: ascii_def ascii_text_def ascii_bytes_def unat_of_nat)

lemma subarray_middle: "subarray (xs @ ys @ zs) (length xs) (length xs + length ys) = ys"
  by (simp add: subarray_def)

lemma read_label:
  assumes "l \<noteq> []" "length l \<le> 63" "ascii l"
  shows "name_step (pre @ (word_of_nat (length l) # ascii_bytes l) @ post) \<lparr>nc_pos = length pre, nc_labels = acc, nc_next = nx, nc_hops = h\<rparr>
    = Inr \<lparr>nc_pos = length pre + 1 + length l, nc_labels = acc @ [l], nc_next = nx, nc_hops = h\<rparr>"
proof -
  let ?buf = "pre @ (word_of_nat (length l) # ascii_bytes l) @ post"
  let ?w = "word_of_nat (length l) :: 8 word"
  have u: "unat ?w = length l" using assms(2) by (simp add: unat_of_nat)
  have nz: "?w \<noteq> 0" using assms(1) u by (metis length_0_conv unat_0)
  have low: "?w AND 0xc0 = 0" by (rule low_label) (simp add: u assms(2))
  have b: "?buf ! length pre = ?w" by (simp add: nth_append)
  have s: "subarray ?buf (length pre + 1) (length pre + 1 + length l) = ascii_bytes l"
    using subarray_middle [of "pre @ [?w]" "ascii_bytes l" post] by (simp add: ascii_bytes_def)
  then have s': "subarray ?buf (Suc (length pre)) (Suc (length pre + length l)) = ascii_bytes l" by simp
  show ?thesis
    using nz low by (simp add: name_step_def Let_def b u s' ascii_roundtrip [OF assms(3)] del: append_Cons)
qed

lemma readName_encoded:
  "encode_labels ls = Some enc \<Longrightarrow> list_all (\<lambda>l. l \<noteq> [] \<and> ascii l) ls \<Longrightarrow>
   readName_loop (pre @ enc @ post) \<lparr>nc_pos = length pre, nc_labels = acc, nc_next = None, nc_hops = 0\<rparr>
     = Inr (if acc @ ls \<noteq> [] then js_lower (join ''.'' (acc @ ls)) @ ''.'' else ''.'', length pre + length enc)"
proof (induction ls arbitrary: pre acc enc)
  case Nil
  then show ?case
    by (subst readName_loop.simps) (auto simp: name_step_def Let_def nth_append name_result_def)
next
  case (Cons l ls)
  from Cons.prems(1) obtain e where e: "length l \<le> 63" "encode_labels ls = Some e"
    "enc = word_of_nat (length l) # ascii_bytes l @ e" by (auto split: if_splits)
  have l: "l \<noteq> []" "ascii l" using Cons.prems(2) by simp_all
  let ?pre = "pre @ word_of_nat (length l) # ascii_bytes l"
  have b: "pre @ enc @ post = ?pre @ e @ post" using e(3) by simp
  have n: "length ?pre = length pre + 1 + length l" by (simp add: ascii_bytes_def)
  have step: "name_step (pre @ enc @ post) \<lparr>nc_pos = length pre, nc_labels = acc, nc_next = None, nc_hops = 0\<rparr>
      = Inr \<lparr>nc_pos = length ?pre, nc_labels = acc @ [l], nc_next = None, nc_hops = 0\<rparr>"
    using read_label [OF l(1) e(1) l(2), of pre "e @ post" acc None 0] e(3) n by simp
  have "readName_loop (pre @ enc @ post) \<lparr>nc_pos = length pre, nc_labels = acc, nc_next = None, nc_hops = 0\<rparr>
      = readName_loop (?pre @ e @ post) \<lparr>nc_pos = length ?pre, nc_labels = acc @ [l], nc_next = None, nc_hops = 0\<rparr>"
    by (subst readName_loop.simps) (simp only: step sum.case, simp only: b)
  also have "\<dots> = Inr (if (acc @ [l]) @ ls \<noteq> [] then js_lower (join ''.'' ((acc @ [l]) @ ls)) @ ''.'' else ''.'', length ?pre + length e)"
    using Cons.IH [OF e(2), of ?pre "acc @ [l]"] Cons.prems(2) by simp
  also have "length ?pre + length e = length pre + length enc" using e(3) by simp
  finally show ?case by simp
qed

lemma unat_byte_of: "unat (word_of_nat n :: 8 word) = n mod 256"
  by (simp add: unat_of_nat)

lemma read16: "n < 65536 \<Longrightarrow> p = length pre \<Longrightarrow> readUInt16BE (pre @ u16_bytes n @ post) p = Inr n"
  by (simp add: readUInt16BE_def u16_bytes_def byte_nat_def nth_append unat_byte_of)

lemma nth_at: "p = length pre + i \<Longrightarrow> i < length ys \<Longrightarrow> (pre @ ys @ post) ! p = ys ! i"
  by (simp add: nth_append)

lemma u32_nat:
  fixes n :: nat
  assumes "n < 4294967296"
  shows "((n div 16777216 mod 256 * 256 + n div 65536 mod 256) * 256 + n div 256 mod 256) * 256 + n mod 256 = n"
proof -
  have d: "n div 65536 = n div 256 div 256" "n div 16777216 = n div 256 div 256 div 256"
    by (simp_all add: div_mult2_eq [symmetric])
  have "n div 256 div 256 div 256 mod 256 = n div 256 div 256 div 256"
    using assms unfolding div_mult2_eq [symmetric] by simp
  then show ?thesis unfolding d by (simp only: div_mult_mod_eq)
qed

lemma read32:
  assumes "n < 4294967296" "p = length pre"
  shows "readUInt32BE (pre @ u32_bytes n @ post) p = Inr n"
proof -
  let ?b = "pre @ u32_bytes n @ post"
  have l: "length (u32_bytes n) = 4" by (simp add: u32_bytes_def)
  have "?b ! p = u32_bytes n ! 0" "?b ! (p + 1) = u32_bytes n ! 1" "?b ! (p + 2) = u32_bytes n ! 2"
    "?b ! (p + 3) = u32_bytes n ! 3"
    by (rule nth_at; simp add: l assms(2))+
  then have "byte_nat ?b p = n div 16777216 mod 256" "byte_nat ?b (p + 1) = n div 65536 mod 256"
    "byte_nat ?b (p + 2) = n div 256 mod 256" "byte_nat ?b (p + 3) = n mod 256"
    by (simp_all add: byte_nat_def u32_bytes_def unat_byte_of)
  then show ?thesis using u32_nat [OF assms(1)] assms(2) l by (simp add: readUInt32BE_def)
qed

lemma type_text_RRTYPE: "map_of RRTYPE t = Some n \<Longrightarrow> type_text n = t \<and> n < 65536"
proof -
  have "list_all (\<lambda>kv. type_text (snd kv) = fst kv \<and> snd kv < 65536) RRTYPE"
    by (simp add: RRTYPE_def TYPE_NAME_def type_text_def)
  then show "map_of RRTYPE t = Some n \<Longrightarrow> type_text n = t \<and> n < 65536"
    unfolding list_all_iff by (metis map_of_SomeD fst_conv snd_conv)
qed

lemma readName_root: "readName (pre @ 0 # post) (length pre) = Inr (''.'', length pre + 1)"
  unfolding readName_def name_start_def
  by (subst readName_loop.simps) (simp add: name_step_def name_result_def)

lemma read_opt:
  assumes "case qf_udpSize opts of Some n \<Rightarrow> n \<le> 65535 | None \<Rightarrow> True"
  shows "read_record utf8 (pre @ opt_record opts) (length pre) = Inr (None, length pre + 11)"
proof -
  let ?sz = "case qf_udpSize opts of Some n \<Rightarrow> n | None \<Rightarrow> 1232"
  let ?fl = "if qf_dnssec opts then 32768 else 0"
  let ?buf = "pre @ opt_record opts"
  have sz: "?sz < 65536" using assms by (auto split: option.splits)
  define p where "p = length pre + 1"
  have n: "readName ?buf (length pre) = Inr (''.'', p)" by (simp add: opt_record_def readName_root p_def)
  have t: "readUInt16BE ?buf p = Inr 41"
    using read16 [of 41 p "pre @ [0]" "u16_bytes ?sz @ u32_bytes ?fl @ [0, 0]"] by (simp add: opt_record_def p_def)
  have k: "readUInt16BE ?buf (p + 2) = Inr ?sz"
    using read16 [OF sz, of "p + 2" "pre @ 0 # u16_bytes 41" "u32_bytes ?fl @ [0, 0]"]
    by (simp add: opt_record_def u16_bytes_def p_def)
  have l: "readUInt32BE ?buf (p + 4) = Inr ?fl"
    using read32 [of ?fl "p + 4" "pre @ 0 # u16_bytes 41 @ u16_bytes ?sz" "[0, 0]"]
    by (simp add: opt_record_def u16_bytes_def p_def)
  have r: "readUInt16BE ?buf (p + 8) = Inr 0"
    using read16 [of 0 "p + 8" "pre @ 0 # u16_bytes 41 @ u16_bytes ?sz @ u32_bytes ?fl" "[]"]
    by (simp add: opt_record_def u16_bytes_def u32_bytes_def p_def)
  have len: "length ?buf = p + 10" by (simp add: opt_record_def u16_bytes_def u32_bytes_def p_def)
  have "read_record utf8 ?buf (length pre) = Inr (None, p + 10)"
    using n t k l r len by (simp add: read_record_def wbind_def Let_def del: length_append)
  then show ?thesis by (simp add: p_def)
qed

lemma encode_labels_append:
  "encode_labels ls = Some enc \<Longrightarrow> list_all (\<lambda>l. l \<noteq> [] \<and> ascii l) ls \<Longrightarrow>
   readName (pre @ enc @ post) (length pre)
     = Inr (if ls \<noteq> [] then js_lower (join ''.'' ls) @ ''.'' else ''.'', length pre + length enc)"
  unfolding readName_def name_start_def using readName_encoded [of ls enc pre post "[]"] by simp

lemma name_labels_ok: "ascii name \<Longrightarrow> list_all (\<lambda>l. l \<noteq> [] \<and> ascii l) (name_labels name)"
proof -
  assume a: "ascii name"
  have sub: "set (strip_dot name) \<subseteq> set name" by (auto simp: strip_dot_def dest: in_set_butlastD)
  have "ascii l" if "l \<in> set (split_on (CHR ''.'') (strip_dot name))" for l
    using a set_split_on_subset [OF that] sub unfolding ascii_def list_all_iff by blast
  then show ?thesis by (simp add: name_labels_def list_all_iff)
qed

definition sent_name :: "string \<Rightarrow> string" where
  "sent_name name =
     (if name_labels name = [] then ''.'' else js_lower (join ''.'' (name_labels name)) @ ''.'')"

definition sent_query :: "string \<Rightarrow> string \<Rightarrow> query_flags \<Rightarrow> wire_message" where
  "sent_query name type opts =
     \<lparr>wm_id = qf_id opts, wm_rcode = 0, wm_rcodeName = ''NOERROR'', wm_aa = False, wm_tc = False,
      wm_rd = qf_recursion opts, wm_ra = False, wm_ad = False,
      wm_question = Some (sent_name name, js_upper type), wm_answer = [], wm_authority = [], wm_additional = []\<rparr>"

lemma encodeQuery_parts:
  assumes "encodeQuery name type opts = Inr q"
  obtains qtype enc where "map_of RRTYPE (js_upper type) = Some qtype" "encode_labels (name_labels name) = Some enc"
    "qf_id opts \<le> 65535" "case qf_udpSize opts of Some n \<Rightarrow> n \<le> 65535 | None \<Rightarrow> True"
    "q = (qf_id opts, query_header opts @ enc @ [word_of_nat (qtype div 256), word_of_nat qtype, 0, 1] @ opt_record opts)"
proof -
  obtain qtype where t: "map_of RRTYPE (js_upper type) = Some qtype"
    using assms by (cases "map_of RRTYPE (js_upper type)") (simp_all add: encodeQuery_def)
  have i: "qf_id opts \<le> 65535" using assms t by (simp add: encodeQuery_def split: if_splits)
  obtain enc where e: "encode_labels (name_labels name) = Some enc"
    using assms t i by (cases "encode_labels (name_labels name)") (simp_all add: encodeQuery_def encodeName_def wbind_def)
  show ?thesis
    using assms t i e that [OF t e i]
    by (cases "qf_udpSize opts") (simp_all add: encodeQuery_def encodeName_def wbind_def split: if_splits)
qed

lemma decode_sent_query:
  assumes q: "encodeQuery name type opts = Inr q" and a: "ascii name"
  shows "decodeMessage utf8 (snd q) = Inr (sent_query name type opts)"
proof -
  obtain qtype enc where p: "map_of RRTYPE (js_upper type) = Some qtype" "encode_labels (name_labels name) = Some enc"
    "qf_id opts \<le> 65535" "case qf_udpSize opts of Some n \<Rightarrow> n \<le> 65535 | None \<Rightarrow> True"
    "q = (qf_id opts, query_header opts @ enc @ [word_of_nat (qtype div 256), word_of_nat qtype, 0, 1] @ opt_record opts)"
    using encodeQuery_parts [OF q] .
  define rest where "rest = [0, 1] @ opt_record opts"
  define body where "body = enc @ u16_bytes qtype @ rest"
  define fl where "fl = (if qf_recursion opts then 256 else 0 :: nat)"
  define buf where "buf = u16_bytes (qf_id opts) @ u16_bytes fl @ u16_bytes 1 @ u16_bytes 0 @ u16_bytes 0 @ u16_bytes 1 @ body"
  have b: "snd q = buf" unfolding p(5) buf_def body_def rest_def fl_def query_header_def by (simp add: u16_bytes_def)
  have l2 [simp]: "length (u16_bytes n) = 2" for n by (simp add: u16_bytes_def)
  have h: "readUInt16BE buf 0 = Inr (qf_id opts)" "readUInt16BE buf 2 = Inr fl" "readUInt16BE buf 4 = Inr 1"
    "readUInt16BE buf 6 = Inr 0" "readUInt16BE buf 8 = Inr 0" "readUInt16BE buf 10 = Inr 1"
    unfolding buf_def
    using read16 [of "qf_id opts" 0 "[]"] read16 [of fl 2 "u16_bytes (qf_id opts)"]
      read16 [of 1 4 "u16_bytes (qf_id opts) @ u16_bytes fl"]
      read16 [of 0 6 "u16_bytes (qf_id opts) @ u16_bytes fl @ u16_bytes 1"]
      read16 [of 0 8 "u16_bytes (qf_id opts) @ u16_bytes fl @ u16_bytes 1 @ u16_bytes 0"]
      read16 [of 1 10 "u16_bytes (qf_id opts) @ u16_bytes fl @ u16_bytes 1 @ u16_bytes 0 @ u16_bytes 0"] p(3)
    by (simp_all add: fl_def)
  define hd' where "hd' = query_header opts"
  have lh: "length hd' = 12" by (simp add: hd'_def query_header_def)
  have bh: "buf = hd' @ enc @ u16_bytes qtype @ rest"
    by (simp add: buf_def body_def hd'_def query_header_def fl_def)
  have n: "readName buf 12 = Inr (sent_name name, 12 + length enc)"
    using encode_labels_append [OF p(2) name_labels_ok [OF a], of hd' "u16_bytes qtype @ rest"]
    by (simp add: bh lh sent_name_def)
  have ty: "type_text qtype = js_upper type" "qtype < 65536" using type_text_RRTYPE [OF p(1)] by simp_all
  have t: "readUInt16BE buf (12 + length enc) = Inr qtype"
    using read16 [OF ty(2), of "12 + length enc" "hd' @ enc" rest] by (simp add: bh lh)
  have qs: "read_questions buf 1 12 None = Inr (Some (sent_name name, js_upper type), 12 + length enc + 4)"
    by (simp add: n t ty(1) wbind_def)
  have o: "read_record utf8 buf (12 + length enc + 4) = Inr (None, 12 + length enc + 4 + 11)"
    using read_opt [OF p(4), of utf8 "hd' @ enc @ u16_bytes qtype @ [0, 1]"] by (simp add: bh lh rest_def)
  have ln: "\<not> length buf < 12" by (simp add: bh lh)
  have f: "fl mod 16 = 0" "\<not> flag_bit fl 1024" "\<not> flag_bit fl 512" "flag_bit fl 256 = qf_recursion opts"
    "\<not> flag_bit fl 128" "\<not> flag_bit fl 32" by (simp_all add: fl_def flag_bit_def)
  have r: "rcode_text 0 = ''NOERROR''" by (simp add: rcode_text_def RCODE_def)
  have s1: "read_section utf8 buf 1 (12 + length enc + 4) = Inr ([], 12 + length enc + 4 + 11)"
    using o by (simp add: wbind_def)
  have "decodeMessage utf8 buf = Inr (sent_query name type opts)"
    unfolding decodeMessage_def if_not_P [OF ln] h qs wbind_def sum.case snd_conv fst_conv read_section.simps(1) s1 f(1) r
    by (simp add: f sent_query_def)
  then show ?thesis by (simp add: b)
qed



section \<open>What a stream delivers\<close>

text \<open>
  The contract of \<open>sendTcp\<close>: the messages are the complete frames of the whole stream, in order, up to
  the first one that \<open>onMessage\<close> does not want to go on after.
\<close>

function frames :: "buffer \<Rightarrow> buffer list" where
  "frames bs = (case next_frame bs of None \<Rightarrow> [] | Some (msg, rest) \<Rightarrow> msg # frames rest)"
  by pat_completeness auto

termination by (relation "measure length") (auto dest: next_frame_shorter)

function residue :: "buffer \<Rightarrow> buffer" where
  "residue bs = (case next_frame bs of None \<Rightarrow> bs | Some (msg, rest) \<Rightarrow> residue rest)"
  by pat_completeness auto

termination by (relation "measure length") (auto dest: next_frame_shorter)

declare frames.simps [simp del] residue.simps [simp del]

fun deliver :: "(buffer \<Rightarrow> bool wire) \<Rightarrow> buffer list \<Rightarrow> buffer list \<times> tcp_end option" where
  "deliver f [] = ([], None)"
| "deliver f (m # ms) =
     (case f m of
        Inl e \<Rightarrow> ([m], Some (Rejected e))
      | Inr again \<Rightarrow> if again then (m # fst (deliver f ms), snd (deliver f ms)) else ([m], Some Resolved))"

lemma next_frame_append: "next_frame bs = Some (m, r) \<Longrightarrow> next_frame (bs @ c) = Some (m, r @ c)"
  by (auto simp: next_frame_def Let_def byte_nat_def nth_append split: if_splits)

lemma frames_append: "frames (bs @ c) = frames bs @ frames (residue bs @ c)"
proof (induction bs rule: frames.induct)
  case (1 bs)
  show ?case
  proof (cases "next_frame bs")
    case None
    then show ?thesis by (simp add: frames.simps [of bs] residue.simps [of bs])
  next
    case (Some mr)
    then obtain m r where mr: "next_frame bs = Some (m, r)" by (cases mr) auto
    show ?thesis using 1 [OF mr refl] next_frame_append [OF mr, of c] mr
      by (simp add: frames.simps [of bs] residue.simps [of bs] frames.simps [of "bs @ c"])
  qed
qed

lemma residue_append: "residue (bs @ c) = residue (residue bs @ c)"
proof (induction bs rule: frames.induct)
  case (1 bs)
  show ?case
  proof (cases "next_frame bs")
    case None
    then show ?thesis by (simp add: residue.simps [of bs])
  next
    case (Some mr)
    then obtain m r where mr: "next_frame bs = Some (m, r)" by (cases mr) auto
    show ?thesis using 1 [OF mr refl] next_frame_append [OF mr, of c] mr
      by (simp add: residue.simps [of bs] residue.simps [of "bs @ c"])
  qed
qed

lemma deliver_append:
  "deliver f (xs @ ys) =
     (if snd (deliver f xs) = None then (fst (deliver f xs) @ fst (deliver f ys), snd (deliver f ys)) else deliver f xs)"
  by (induction xs) (auto split: sum.split)

lemma drain_delivers:
  "ts_finished s = None \<Longrightarrow>
   ts_messages (drain f s) = ts_messages s @ fst (deliver f (frames (ts_pending s)))
   \<and> ts_finished (drain f s) = snd (deliver f (frames (ts_pending s)))
   \<and> (ts_finished (drain f s) = None \<longrightarrow> ts_pending (drain f s) = residue (ts_pending s))
   \<and> ts_total (drain f s) = ts_total s"
proof (induction f s rule: drain.induct)
  case (1 f s)
  show ?case
  proof (cases "next_frame (ts_pending s)")
    case None
    with "1.prems" show ?thesis
      by (simp add: drain.simps [of f s] frames.simps [of "ts_pending s"] residue.simps [of "ts_pending s"])
  next
    case (Some mr)
    then obtain m r where mr: "next_frame (ts_pending s) = Some (m, r)" by (cases mr) auto
    show ?thesis
    proof (cases "f m")
      case (Inl e)
      with mr show ?thesis
        by (simp add: drain.simps [of f s] frames.simps [of "ts_pending s"] Let_def)
    next
      case (Inr again)
      show ?thesis
      proof (cases again)
        case True
        let ?s = "s\<lparr>ts_pending := r, ts_messages := ts_messages s @ [m]\<rparr>"
        have "drain f s = drain f ?s" using mr Inr True by (subst drain.simps) (simp add: Let_def)
        moreover have "frames (ts_pending s) = m # frames r" "residue (ts_pending s) = residue r"
          using mr by (simp_all add: frames.simps [of "ts_pending s"] residue.simps [of "ts_pending s"])
        ultimately show ?thesis using 1(1) [OF mr refl refl Inr True] "1.prems" Inr True by simp
      next
        case False
        with mr Inr show ?thesis
          by (simp add: drain.simps [of f s] frames.simps [of "ts_pending s"] Let_def)
      qed
    qed
  qed
qed

definition stream_inv :: "(buffer \<Rightarrow> bool wire) \<Rightarrow> buffer \<Rightarrow> tcp_state \<Rightarrow> bool" where
  "stream_inv f bs s \<longleftrightarrow>
     (ts_messages s, ts_finished s) = deliver f (frames bs)
     \<and> (ts_finished s = None \<longrightarrow> ts_pending s = residue bs \<and> ts_total s = length bs)"

lemma on_data_stream_inv:
  assumes i: "stream_inv f bs s" and l: "length (bs @ chunk) \<le> maxBytes"
  shows "stream_inv f (bs @ chunk) (on_data maxBytes f s chunk)"
proof (cases "ts_finished s")
  case (Some e)
  with i have "snd (deliver f (frames bs)) = Some e" by (simp add: stream_inv_def prod_eq_iff)
  with i Some show ?thesis by (simp add: stream_inv_def on_data_def frames_append [of bs chunk] deliver_append)
next
  case None
  let ?s = "s\<lparr>ts_total := ts_total s + length chunk, ts_pending := residue bs @ chunk\<rparr>"
  have p: "ts_pending s = residue bs" "ts_total s = length bs" "ts_messages s = fst (deliver f (frames bs))"
    "snd (deliver f (frames bs)) = None"
    using i None by (simp_all add: stream_inv_def prod_eq_iff)
  have o: "on_data maxBytes f s chunk = drain f ?s"
    using None p l by (simp add: on_data_def Let_def)
  define s1 where "s1 = ?s"
  have s1: "ts_finished s1 = None" "ts_pending s1 = residue bs @ chunk" "ts_total s1 = ts_total s + length chunk"
    "ts_messages s1 = ts_messages s"
    using None by (simp_all add: s1_def)
  note d = drain_delivers [OF s1(1), of f, unfolded s1(2-4)]
  have e: "deliver f (frames (bs @ chunk))
      = (fst (deliver f (frames bs)) @ fst (deliver f (frames (residue bs @ chunk))),
         snd (deliver f (frames (residue bs @ chunk))))"
    unfolding frames_append [of bs chunk] deliver_append if_P [OF p(4)] ..
  show ?thesis
    unfolding stream_inv_def o e residue_append [of bs chunk] s1_def [symmetric] length_append p(2,3) [symmetric]
    using d by auto
qed

lemma chunks_stream_inv:
  "stream_inv f bs s \<Longrightarrow> length (bs @ concat chunks) \<le> maxBytes \<Longrightarrow>
   stream_inv f (bs @ concat chunks) (foldl (on_data maxBytes f) s chunks)"
proof (induction chunks arbitrary: bs s)
  case (Cons c cs)
  from Cons.IH [OF on_data_stream_inv [OF Cons.prems(1)], of c] Cons.prems(2) show ?case by simp
qed simp

lemma sendTcp_frames:
  assumes "length (concat chunks) \<le> maxBytes"
  shows "(ts_messages (sendTcp maxBytes f chunks failure), ts_finished (sendTcp maxBytes f chunks failure))
    = (fst (deliver f (frames (concat chunks))),
       case snd (deliver f (frames (concat chunks))) of
         Some e \<Rightarrow> Some e
       | None \<Rightarrow> Some (case failure of Some m \<Rightarrow> Rejected (WireError m) | None \<Rightarrow> Resolved))"
proof -
  have "stream_inv f [] tcp_start"
    by (simp add: stream_inv_def tcp_start_def frames.simps [of "[]"] residue.simps [of "[]"] next_frame_def)
  from chunks_stream_inv [OF this, of chunks maxBytes] assms
  have "stream_inv f (concat chunks) (foldl (on_data maxBytes f) tcp_start chunks)" by simp
  then show ?thesis by (auto simp: stream_inv_def sendTcp_def Let_def prod_eq_iff split: option.split)
qed

definition frame :: "buffer \<Rightarrow> buffer" where
  "frame m = u16_bytes (length m) @ m"

lemma next_frame_frame: "length m \<le> 65535 \<Longrightarrow> next_frame (frame m @ rest) = Some (m, rest)"
  by (simp add: next_frame_def frame_def u16_bytes_def byte_nat_def unat_byte_of Let_def)

lemma frames_framed: "list_all (\<lambda>m. length m \<le> 65535) ms \<Longrightarrow> frames (concat (map frame ms)) = ms"
proof (induction ms)
  case Nil
  show ?case by (simp add: frames.simps [of "[]"] next_frame_def)
next
  case (Cons m ms)
  then show ?case by (simp add: frames.simps [of "frame m @ concat (map frame ms)"] next_frame_frame)
qed

definition incomplete :: "buffer \<Rightarrow> bool" where
  "incomplete ending \<longleftrightarrow> length ending < 2 \<or> length ending < 2 + (unat (ending ! 0) * 256 + unat (ending ! 1))"

lemma frames_incomplete: "incomplete ending \<Longrightarrow> frames ending = []"
  by (auto simp: frames.simps [of ending] next_frame_def incomplete_def byte_nat_def Let_def)

lemma frames_framed_tail:
  "list_all (\<lambda>m. length m \<le> 65535) ms \<Longrightarrow> incomplete ending \<Longrightarrow> frames (concat (map frame ms) @ ending) = ms"
proof (induction ms)
  case (Cons m ms)
  then show ?case
    by (simp add: frames.simps [of "frame m @ concat (map frame ms) @ ending"] next_frame_frame)
qed (simp add: frames_incomplete)

text \<open>
  C20. A stream that carries messages, each behind its two-byte length, delivers exactly those messages in
  order, up to the first one after which \<open>onMessage\<close> stops, and settles accordingly, however the network
  ending the stream into chunks: a length prefix or a message may be split anywhere, and a truncated last
  message is never delivered.
\<close>

theorem sendTcp_delivers_messages:
  assumes "concat chunks = concat (map frame ms) @ ending" "list_all (\<lambda>m. length m \<le> 65535) ms" "incomplete ending"
    and "length (concat chunks) \<le> maxBytes"
  shows "(ts_messages (sendTcp maxBytes f chunks failure), ts_finished (sendTcp maxBytes f chunks failure))
    = (fst (deliver f ms),
       case snd (deliver f ms) of
         Some e \<Rightarrow> Some e
       | None \<Rightarrow> Some (case failure of Some m \<Rightarrow> Rejected (WireError m) | None \<Rightarrow> Resolved))"
  using sendTcp_frames [OF assms(4), of f failure] unfolding assms(1) frames_framed_tail [OF assms(2,3)] .

lemma sendTcp_delivers_messages_witness:
  "(ts_messages (sendTcp 100 (\<lambda>_. Inr True) [[0], [2, 7], [8, 0, 1], [9, 0]] None),
    ts_finished (sendTcp 100 (\<lambda>_. Inr True) [[0], [2, 7], [8, 0, 1], [9, 0]] None)) = ([[7, 8], [9]], Some Resolved)"
  using sendTcp_delivers_messages [of "[[0], [2, 7], [8, 0, 1], [9, 0]]" "[[7, 8], [9]]" "[0]" 100 "\<lambda>_. Inr True" None]
  by (simp add: frame_def u16_bytes_def incomplete_def)

lemma first_message_frames:
  assumes "length (concat (wn_chunks net)) \<le> maxBytes"
  shows "first_message utf8 maxBytes net =
    (case frames (concat (wn_chunks net)) of
       [] \<Rightarrow> (case wn_tcpFailure net of Some m \<Rightarrow> Inl (WireError m) | None \<Rightarrow> Inr None)
     | m # _ \<Rightarrow> wbind (decodeMessage utf8 m) (\<lambda>x. Inr (Some x)))"
proof (cases "frames (concat (wn_chunks net))")
  case Nil
  then show ?thesis
    using sendTcp_frames [OF assms, of "\<lambda>m. wbind (decodeMessage utf8 m) (\<lambda>_. Inr False)" "wn_tcpFailure net"]
    by (cases "wn_tcpFailure net") (simp_all add: first_message_def Let_def)
next
  case (Cons m ms)
  then show ?thesis
    using sendTcp_frames [OF assms, of "\<lambda>m. wbind (decodeMessage utf8 m) (\<lambda>_. Inr False)" "wn_tcpFailure net"]
    by (cases "decodeMessage utf8 m") (simp_all add: first_message_def Let_def wbind_def)
qed

text \<open>
  The transfer probe calls a nameserver open exactly when the first complete message of its stream
  decodes to a NOERROR reply whose answer begins with an SOA record.
\<close>

theorem probeAxfr_open_iff:
  assumes "encodeQuery zone ''AXFR'' opts = Inr q" "length (concat (wn_chunks net)) \<le> 256 * 1024"
  shows "(\<exists>n. probeAxfr utf8 net zone opts = Inr (AxfrOpen, n)) \<longleftrightarrow>
    (case frames (concat (wn_chunks net)) of
       [] \<Rightarrow> False
     | m # _ \<Rightarrow> (case decodeMessage utf8 m of
         Inl _ \<Rightarrow> False
       | Inr r \<Rightarrow> wm_rcode r = 0 \<and> wm_answer r \<noteq> [] \<and> wr_type (hd (wm_answer r)) = ''SOA''))"
proof (cases "frames (concat (wn_chunks net))")
  case Nil
  then show ?thesis
    using assms(1) first_message_frames [OF assms(2), of utf8]
    by (cases "wn_tcpFailure net") (simp_all add: probeAxfr_def wbind_def)
next
  case (Cons m ms)
  then have fm: "first_message utf8 (256 * 1024) net = wbind (decodeMessage utf8 m) (\<lambda>x. Inr (Some x))"
    using first_message_frames [OF assms(2), of utf8] by simp
  show ?thesis
    unfolding probeAxfr_def assms(1) fm using Cons
    by (cases "decodeMessage utf8 m") (auto simp: wbind_def Let_def hd_conv_nth)
qed

definition soa_reply :: buffer where
  "soa_reply = [0, 9, 0x84, 0, 0, 0, 0, 1, 0, 0, 0, 0] @ [0, 0, 6, 0, 1, 0, 0, 0, 60, 0, 22]
     @ [0, 0, 0, 0, 0, 1, 0, 0, 0, 0, 0, 0, 0, 0, 0, 0, 0, 0, 0, 0, 0, 0]"

lemma readName_zero: "pos < length buf \<Longrightarrow> buf ! pos = 0 \<Longrightarrow> readName buf pos = Inr (''.'', pos + 1)"
  unfolding readName_def name_start_def
  by (subst readName_loop.simps) (simp add: name_step_def name_result_def)

lemma soa_reply_reads:
  "readUInt16BE soa_reply 0 = Inr 9" "readUInt16BE soa_reply 2 = Inr 33792" "readUInt16BE soa_reply 4 = Inr 0"
  "readUInt16BE soa_reply 6 = Inr 1" "readUInt16BE soa_reply 8 = Inr 0" "readUInt16BE soa_reply 10 = Inr 0"
  "readUInt16BE soa_reply 13 = Inr 6" "readUInt16BE soa_reply 15 = Inr 1" "readUInt32BE soa_reply 17 = Inr 60"
  "readUInt16BE soa_reply 21 = Inr 22" "readUInt32BE soa_reply 25 = Inr 1" "readUInt32BE soa_reply 29 = Inr 0"
  "readUInt32BE soa_reply 33 = Inr 0" "readUInt32BE soa_reply 37 = Inr 0" "readUInt32BE soa_reply 41 = Inr 0"
  by (simp_all add: soa_reply_def readUInt16BE_def readUInt32BE_def byte_nat_def)

lemma soa_reply_names:
  "readName soa_reply 12 = Inr (''.'', 13)" "readName soa_reply 23 = Inr (''.'', 24)" "readName soa_reply 24 = Inr (''.'', 25)"
  by (subst readName_zero; simp add: soa_reply_def)+

lemma decode_soa_reply:
  "case decodeMessage (\<lambda>_. []) soa_reply of
     Inl _ \<Rightarrow> False
   | Inr r \<Rightarrow> wm_id r = 9 \<and> wm_rcode r = 0 \<and> wm_answer r \<noteq> [] \<and> wr_type (hd (wm_answer r)) = ''SOA''"
proof -
  have l: "length soa_reply = 45" by (simp add: soa_reply_def)
  have t: "type_text 6 = ''SOA''" by code_simp
  obtain d where "decodeRdata (\<lambda>_. []) soa_reply 6 23 22 = Inr d"
    by (simp add: decodeRdata_def decode_soa_def wbind_def soa_reply_reads soa_reply_names Let_def)
  then have "read_record (\<lambda>_. []) soa_reply 12 = Inr (Some (make_record ''.'' 6 1 60 d), 45)"
    by (simp add: read_record_def wbind_def soa_reply_reads soa_reply_names Let_def l)
  then have "read_section (\<lambda>_. []) soa_reply (Suc 0) 12 = Inr ([make_record ''.'' 6 1 60 d], 45)"
    by (simp add: wbind_def)
  then show ?thesis
    by (simp add: decodeMessage_def l soa_reply_reads wbind_def make_record_def t)
qed

lemma probeAxfr_open_iff_witness:
  "\<exists>n. probeAxfr (\<lambda>_. []) \<lparr>wn_udp1 = Inl ''timeout'', wn_udp2 = Inl ''timeout'',
     wn_chunks = [frame soa_reply], wn_tcpFailure = None\<rparr> ''org''
     \<lparr>qf_id = 1, qf_recursion = False, qf_dnssec = False, qf_udpSize = None\<rparr> = Inr (AxfrOpen, n)"
proof -
  let ?o = "\<lparr>qf_id = 1, qf_recursion = False, qf_dnssec = False, qf_udpSize = None\<rparr>"
  let ?n = "\<lparr>wn_udp1 = Inl ''timeout'', wn_udp2 = Inl ''timeout'', wn_chunks = [frame soa_reply], wn_tcpFailure = None\<rparr>"
  have "js_upper ''AXFR'' = ''AXFR''" "map_of RRTYPE ''AXFR'' = Some 252" "name_labels ''org'' = [''org'']" by code_simp+
  then obtain q where q: "encodeQuery ''org'' ''AXFR'' ?o = Inr q"
    by (simp add: encodeQuery_def encodeName_def wbind_def)
  have l: "length soa_reply = 45" by (simp add: soa_reply_def)
  then have "length (concat (wn_chunks ?n)) \<le> 256 * 1024" by (simp add: frame_def u16_bytes_def)
  from probeAxfr_open_iff [OF q this, of "\<lambda>_. []"] frames_framed [of "[soa_reply]"] l decode_soa_reply
  show ?thesis by (auto split: sum.splits)
qed


definition servfail_net :: "wire_net" where
  "servfail_net = \<lparr>wn_udp1 = Inl ''timeout'', wn_udp2 = Inl ''timeout'',
     wn_chunks = [[0, 12], [0, 0, 0x80, 2, 0, 0, 0, 0, 0, 0, 0, 0]], wn_tcpFailure = None\<rparr>"

lemma frames_servfail: "frames (concat (wn_chunks servfail_net)) = [[0, 0, 0x80, 2, 0, 0, 0, 0, 0, 0, 0, 0]]"
  using frames_framed [of "[[0, 0, 0x80, 2, 0, 0, 0, 0, 0, 0, 0, 0]]"]
  by (simp add: servfail_net_def frame_def u16_bytes_def)

lemma probeAxfr_servfail_is_refused:
  assumes "encodeQuery zone ''AXFR'' opts = Inr q"
  shows "probeAxfr utf8 servfail_net zone opts = Inr (AxfrRefused, 0)"
proof -
  have "length (concat (wn_chunks servfail_net)) \<le> 256 * 1024" by (simp add: servfail_net_def)
  from first_message_frames [OF this, of utf8] assms show ?thesis
    by (simp add: probeAxfr_def frames_servfail wbind_def decodeMessage_def readUInt16BE_def byte_nat_def)
qed

section \<open>Key tags\<close>

lemma dnskey_sum_upto:
  "fold (\<lambda>i ac. ac + (if odd i then byte_nat r i else byte_nat r i * 256)) [0..<n] 0
     \<le> 65280 * ((n + 1) div 2) + 255 * (n div 2)"
proof (induction n)
  case (Suc n)
  have b: "byte_nat r n \<le> 255" using unsigned_less [of "r ! n", where ?'a = nat] by (simp add: byte_nat_def)
  show ?case
  proof (cases "odd n")
    case True
    then have "(Suc n + 1) div 2 = (n + 1) div 2" "Suc n div 2 = n div 2 + 1" by (auto elim!: oddE)
    with Suc b True show ?thesis by simp
  next
    case False
    then have "(Suc n + 1) div 2 = (n + 1) div 2 + 1" "Suc n div 2 = n div 2" by (auto elim!: evenE)
    with Suc b False show ?thesis by simp
  qed
qed simp

text \<open>The sum of a key of any RDATA length stays below \<open>2^31\<close>, so the 32-bit shift of the code reads it unchanged.\<close>

lemma dnskey_sum_bound:
  assumes "length rdata \<le> 65535"
  shows "dnskey_sum rdata < 2 ^ 31"
proof -
  have "dnskey_sum rdata \<le> 65280 * ((length rdata + 1) div 2) + 255 * (length rdata div 2)"
    unfolding dnskey_sum_def by (rule dnskey_sum_upto)
  moreover have "(length rdata + 1) div 2 \<le> 32768" "length rdata div 2 \<le> 32767" using assms by auto
  ultimately show ?thesis by simp
qed

end
