(* ===== verification/ZonefileParser.thy ===== *)
theory ZonefileParser
  imports Zonefile
begin

section \<open>What the parser gives, whatever it reads\<close>

text \<open>
  Invariants of \<open>parseZonefile\<close> over arbitrary text: the zones it returns are well formed, and every
  logical line of the file is accounted for, by a record, a directive that took effect or a diagnostic.
\<close>

declare map_of_eq_Some_iff [simp del]

definition parsed_key :: "parsed_rrset \<Rightarrow> string \<times> string" where
  "parsed_key rr = (pr_name rr, pr_type rr)"

definition good_name :: "string \<Rightarrow> bool" where
  "good_name n \<longleftrightarrow> ends_with n ''.'' \<and> js_lower n = n"

definition good_rrset :: "parsed_rrset \<Rightarrow> bool" where
  "good_rrset rr \<longleftrightarrow> good_name (pr_name rr) \<and> TYPE_TOKEN (pr_type rr) \<and> pr_type rr \<notin> set SKIPPED_TYPES
     \<and> pr_records rr \<noteq> [] \<and> [] \<notin> set (pr_records rr)"

definition good_zone :: "parsed_zone \<Rightarrow> bool" where
  "good_zone z \<longleftrightarrow> good_name (pz_name z) \<and> list_all zone_char (pz_name z)
     \<and> list_all good_rrset (pz_rrsets z) \<and> distinct (map parsed_key (pz_rrsets z))"

definition good_state :: "parser_state \<Rightarrow> bool" where
  "good_state st \<longleftrightarrow> distinct (map fst (ps_zones st))
     \<and> list_all (\<lambda>kz. fst kz = pz_name (snd kz) \<and> good_zone (snd kz)) (ps_zones st)
     \<and> (ps_origin st = None \<or> map_of (ps_zones st) (the (ps_origin st)) \<noteq> None)"

lemma canonicalize_good:
  assumes "canonicalize name = Some o'"
  shows "good_name o'" "list_all zone_char o'"
proof -
  show z: "list_all zone_char o'" using assms by (auto simp: canonicalize_def Let_def split: if_splits)
  have "js_lower o' = o'"
    by (rule js_lower_id) (use z in \<open>auto simp: list_all_iff zone_char_def is_upper_def is_digit_def\<close>)
  then show "good_name o'" using assms by (auto simp: good_name_def canonicalize_def Let_def split: if_splits)
qed

lemma expandOwner_good:
  assumes "good_name origin"
  shows "good_name (expandOwner owner origin)"
proof -
  obtain u where u: "origin = u @ ''.''" using assms by (auto simp: good_name_def ends_with_iff)
  have "js_lower owner @ ''.'' @ origin = (js_lower owner @ ''.'' @ u) @ ''.''" by (simp add: u)
  then have "ends_with (js_lower owner @ ''.'' @ origin) ''.''" by (metis ends_with_append)
  moreover have "js_lower (CHR ''.'' # origin) = CHR ''.'' # js_lower origin" by (simp add: js_lower_def lower_char_low)
  ultimately show ?thesis using assms by (simp add: expandOwner_def good_name_def)
qed

lemma keys_push_content:
  "set (map parsed_key (push_content rrs name type ttl c)) = insert (name, type) (set (map parsed_key rrs))"
  by (induction rrs) (auto simp: parsed_key_def)

lemma distinct_push_content:
  "distinct (map parsed_key rrs) \<Longrightarrow> distinct (map parsed_key (push_content rrs name type ttl c))"
proof (induction rrs)
  case (Cons rr rrs)
  show ?case
  proof (cases "pr_name rr = name \<and> pr_type rr = type")
    case True
    with Cons.prems show ?thesis by (auto simp: parsed_key_def)
  next
    case False
    then have "parsed_key rr \<noteq> (name, type)" by (simp add: parsed_key_def)
    with False Cons keys_push_content [of rrs name type ttl c] show ?thesis by auto
  qed
qed (simp add: parsed_key_def)

lemma good_push_content:
  assumes "good_name name" "TYPE_TOKEN type" "type \<notin> set SKIPPED_TYPES" "c \<noteq> []"
  shows "list_all good_rrset rrs \<Longrightarrow> list_all good_rrset (push_content rrs name type ttl c)"
  using assms by (induction rrs) (auto simp: good_rrset_def)

lemma good_pushRRSet:
  assumes "good_zone z" "good_name name" "TYPE_TOKEN type" "type \<notin> set SKIPPED_TYPES" "c \<noteq> []"
  shows "good_zone (pushRRSet z name type ttl c) \<and> pz_name (pushRRSet z name type ttl c) = pz_name z"
  using assms good_push_content [OF assms(2-5)] distinct_push_content by (simp add: good_zone_def pushRRSet_def)

lemma record_type_ok: "record_type parts x = Inr (t, rd) \<Longrightarrow> TYPE_TOKEN t \<and> rd \<noteq> []"
  by (auto simp: record_type_def Let_def split: list.splits if_splits)

lemma record_parts_ok: "record_parts lw fs lo = Inr r \<Longrightarrow> TYPE_TOKEN (rf_type r) \<and> rf_rdata r \<noteq> []"
  by (auto simp: record_parts_def Let_def dest!: record_type_ok split: sum.splits prod.splits)

lemma good_update:
  assumes "good_state st" "fst kz = pz_name (snd kz)" "good_zone (snd kz)"
  shows "distinct (map fst (AList.update (fst kz) (snd kz) (ps_zones st)))"
    and "list_all (\<lambda>kz. fst kz = pz_name (snd kz) \<and> good_zone (snd kz)) (AList.update (fst kz) (snd kz) (ps_zones st))"
proof -
  show "distinct (map fst (AList.update (fst kz) (snd kz) (ps_zones st)))"
    using assms(1) by (simp add: good_state_def distinct_update)
  show "list_all (\<lambda>kz. fst kz = pz_name (snd kz) \<and> good_zone (snd kz)) (AList.update (fst kz) (snd kz) (ps_zones st))"
    using assms set_update_subset [of "fst kz" "snd kz" "ps_zones st"] by (auto simp: good_state_def list_all_iff)
qed

lemma good_origin:
  assumes "good_state st" "ps_origin st = Some o'"
  obtains z where "map_of (ps_zones st) o' = Some z" "pz_name z = o'" "good_zone z" "good_name o'"
proof -
  obtain z where z: "map_of (ps_zones st) o' = Some z" using assms by (auto simp: good_state_def)
  have "pz_name z = o' \<and> good_zone z" using assms(1) map_of_SomeD [OF z] by (auto simp: good_state_def list_all_iff)
  then show ?thesis by (intro that [OF z]) (auto simp: good_zone_def)
qed

lemma good_add_diag [simp]: "good_state (add_diag d st) = good_state st"
  by (simp add: good_state_def add_diag_def)

lemma good_directive:
  assumes "good_state st"
  shows "good_state (directive line fs st)"
proof -
  have t: "good_state (st\<lparr>ps_ttl := n\<rparr>)" for n using assms by (simp add: good_state_def)
  have o: "good_state (st\<lparr>ps_origin := Some o', ps_lastOwner := None,
       ps_zones := (if map_of (ps_zones st) o' \<noteq> None then ps_zones st
                    else AList.update o' \<lparr>pz_name = o', pz_rrsets = []\<rparr> (ps_zones st))\<rparr>)"
    if "canonicalize rest = Some o'" for rest o'
  proof (cases "map_of (ps_zones st) o'")
    case None
    have "good_zone \<lparr>pz_name = o', pz_rrsets = []\<rparr>" using canonicalize_good [OF that] by (simp add: good_zone_def)
    with good_update [OF assms, of "(o', \<lparr>pz_name = o', pz_rrsets = []\<rparr>)"] None show ?thesis
      by (simp add: good_state_def map_of_update)
  next
    case (Some z)
    with assms show ?thesis by (simp add: good_state_def)
  qed
  show ?thesis
    using assms t o by (auto simp: directive_def Let_def simp del: map_of_eq_None_iff split: option.split)
qed

lemma good_record_line:
  assumes "good_state st"
  shows "good_state (zone_record_line line lw fs st)"
proof (cases "ps_origin st")
  case None
  with assms show ?thesis by (simp add: zone_record_line_def)
next
  case (Some o')
  obtain z where z: "map_of (ps_zones st) o' = Some z" "pz_name z = o'" "good_zone z" "good_name o'"
    using good_origin [OF assms Some] .
  show ?thesis
  proof (cases "record_parts lw fs (ps_lastOwner st)")
    case (Inl e)
    with assms Some show ?thesis by (simp add: zone_record_line_def)
  next
    case (Inr r)
    let ?n = "expandOwner (rf_owner r) o'"
    have l: "good_state (st\<lparr>ps_lastOwner := Some ?n\<rparr>)" using assms by (simp add: good_state_def)
    show ?thesis
    proof (cases "rf_type r \<in> set SKIPPED_TYPES")
      case True
      with l Some Inr show ?thesis by (simp add: zone_record_line_def Let_def)
    next
      case False
      let ?z = "pushRRSet z ?n (rf_type r) (case rf_ttl r of Some n \<Rightarrow> n | None \<Rightarrow> ps_ttl st) (rf_rdata r)"
      have g: "good_zone ?z" "pz_name ?z = o'"
        using good_pushRRSet [OF z(3) expandOwner_good [OF z(4)] _ False] record_parts_ok [OF Inr] z(2) by blast+
      have "zone_record_line line lw fs st = st\<lparr>ps_lastOwner := Some ?n, ps_zones := AList.update o' ?z (ps_zones st)\<rparr>"
        using Some Inr False z(1) by (simp add: zone_record_line_def Let_def)
      with good_update [OF assms, of "(o', ?z)"] g Some show ?thesis by (simp add: good_state_def map_of_update)
    qed
  qed
qed

lemma good_parse_logical: "good_state st \<Longrightarrow> good_state (parse_logical st l)"
  by (simp add: parse_logical_def good_directive good_record_line)

lemma good_parser_start: "good_state (parser_start ds)"
  by (simp add: good_state_def parser_start_def)

lemma good_fold: "good_state st \<Longrightarrow> good_state (foldl parse_logical st ls)"
  by (induction ls arbitrary: st) (simp_all add: good_parse_logical)

text \<open>
  C15. Whatever text is imported, every zone that comes out has a canonical name of its own, and within it
  every name and type occurs once, names are lower case and fully qualified, every set has at least one
  record, none empty, and no DNSSEC material is among them.
\<close>

theorem parseZonefile_wellformed:
  "list_all good_zone (fst (parseZonefile inp)) \<and> distinct (map pz_name (fst (parseZonefile inp)))"
proof -
  define st where "st = foldl parse_logical (parser_start (jn_diags (join_lines (split_lines inp))))
    (jn_lines (join_lines (split_lines inp)))"
  have g: "good_state st" unfolding st_def by (rule good_fold [OF good_parser_start])
  have "map pz_name (map snd (ps_zones st)) = map fst (ps_zones st)"
    using g by (auto simp: good_state_def list_all_iff)
  then show ?thesis using g
    by (auto simp: parseZonefile_def Let_def st_def [symmetric] good_state_def list_all_iff simp del: map_map)
qed

section \<open>No line is lost\<close>

definition zone_records :: "parsed_zone \<Rightarrow> nat" where
  "zone_records z = sum_list (map (\<lambda>rr. length (pr_records rr)) (pz_rrsets z))"

definition takes_effect :: "logical_line \<Rightarrow> bool" where
  "takes_effect l \<longleftrightarrow>
     (let name = js_upper (drop 1 (hd (ll_fields l))); rest = join '' '' (tl (ll_fields l)) in
      starts_with (hd (ll_fields l)) ''$'' \<and> rest \<noteq> []
      \<and> (name = ''TTL'' \<and> parseTtl rest \<noteq> None \<or> name = ''ORIGIN'' \<and> canonicalize rest \<noteq> None))"

definition accounted :: "parser_state \<Rightarrow> nat" where
  "accounted st = sum_list (map (\<lambda>kz. zone_records (snd kz)) (ps_zones st)) + length (ps_diags st)"

lemma push_content_count:
  "sum_list (map (\<lambda>rr. length (pr_records rr)) (push_content rrs name type ttl c))
     = sum_list (map (\<lambda>rr. length (pr_records rr)) rrs) + 1"
  by (induction rrs) simp_all

lemma update_sum:
  "distinct (map fst zs) \<Longrightarrow> map_of zs k = Some z \<Longrightarrow>
   sum_list (map (\<lambda>kz. f (snd kz)) (AList.update k z' zs)) + f z = sum_list (map (\<lambda>kz. f (snd kz)) zs) + (f z' :: nat)"
  by (induction zs) (auto split: if_splits)

lemma update_sum_new:
  "map_of zs k = None \<Longrightarrow>
   sum_list (map (\<lambda>kz. f (snd kz)) (AList.update k z' zs)) = sum_list (map (\<lambda>kz. f (snd kz)) zs) + (f z' :: nat)"
  by (induction zs) (auto split: if_splits)

lemma accounted_add_diag [simp]: "accounted (add_diag d st) = accounted st + 1"
  by (simp add: accounted_def add_diag_def)

lemma directive_chars: "list_all directive_char ''TTL''" "list_all directive_char ''ORIGIN''"
  by code_simp+

lemma accounted_directive:
  assumes "starts_with (hd (ll_fields l)) ''$''"
  shows "accounted (directive n (ll_fields l) st) + (if takes_effect l then 1 else 0) = accounted st + 1"
proof -
  let ?name = "js_upper (drop 1 (hd (ll_fields l)))" and ?rest = "join '' '' (tl (ll_fields l))"
  have o: "accounted (st\<lparr>ps_origin := Some o', ps_lastOwner := None,
       ps_zones := (if map_of (ps_zones st) o' \<noteq> None then ps_zones st
                    else AList.update o' \<lparr>pz_name = o', pz_rrsets = []\<rparr> (ps_zones st))\<rparr>) = accounted st" for o'
    using update_sum_new [of "ps_zones st" o' zone_records "\<lparr>pz_name = o', pz_rrsets = []\<rparr>"]
    by (cases "map_of (ps_zones st) o'") (simp_all add: accounted_def zone_records_def del: map_of_eq_None_iff)
  have t: "accounted (st\<lparr>ps_ttl := k\<rparr>) = accounted st" for k by (simp add: accounted_def)
  consider "?rest = []" | "?rest \<noteq> []" "?name = ''TTL''" | "?rest \<noteq> []" "?name = ''ORIGIN''"
    | "?rest \<noteq> []" "?name \<noteq> ''TTL''" "?name \<noteq> ''ORIGIN''" by blast
  then show ?thesis
  proof cases
    case 1
    then show ?thesis by (simp add: directive_def takes_effect_def Let_def)
  next
    case 2
    then show ?thesis using directive_chars t assms
      by (cases "parseTtl ?rest") (simp_all add: directive_def takes_effect_def Let_def)
  next
    case 3
    then show ?thesis using directive_chars assms o
      by (cases "canonicalize ?rest") (simp_all add: directive_def takes_effect_def Let_def del: map_of_eq_None_iff)
  next
    case 4
    then show ?thesis by (simp add: directive_def takes_effect_def Let_def)
  qed
qed

lemma accounted_record_line:
  assumes "good_state st"
  shows "accounted (zone_record_line n lw fs st) = accounted st + 1"
proof (cases "ps_origin st")
  case None
  then show ?thesis by (simp add: zone_record_line_def)
next
  case (Some o')
  obtain z where z: "map_of (ps_zones st) o' = Some z" using good_origin [OF assms Some] by blast
  show ?thesis
  proof (cases "record_parts lw fs (ps_lastOwner st)")
    case (Inl e)
    with Some show ?thesis by (simp add: zone_record_line_def)
  next
    case (Inr r)
    have l: "accounted (st\<lparr>ps_lastOwner := x\<rparr>) = accounted st" for x by (simp add: accounted_def)
    show ?thesis
    proof (cases "rf_type r \<in> set SKIPPED_TYPES")
      case True
      with Some Inr l show ?thesis by (simp add: zone_record_line_def Let_def)
    next
      case False
      define z' where "z' = pushRRSet z (expandOwner (rf_owner r) o') (rf_type r)
        (case rf_ttl r of Some n \<Rightarrow> n | None \<Rightarrow> ps_ttl st) (rf_rdata r)"
      have c: "zone_records z' = zone_records z + 1" by (simp add: z'_def zone_records_def pushRRSet_def push_content_count)
      have "zone_record_line n lw fs st = st\<lparr>ps_lastOwner := Some (expandOwner (rf_owner r) o'),
          ps_zones := AList.update o' z' (ps_zones st)\<rparr>"
        using Some Inr False z by (simp add: zone_record_line_def Let_def z'_def)
      with update_sum [of "ps_zones st" o' z zone_records z'] assms z c show ?thesis
        by (simp add: accounted_def good_state_def)
    qed
  qed
qed

lemma accounted_fold:
  "good_state st \<Longrightarrow> accounted (foldl parse_logical st ls) + length (filter takes_effect ls) = accounted st + length ls"
proof (induction ls arbitrary: st)
  case (Cons l ls)
  have "accounted (parse_logical st l) + (if takes_effect l then 1 else 0) = accounted st + 1"
  proof (cases "starts_with (hd (ll_fields l)) ''$''")
    case True
    then show ?thesis using accounted_directive [OF True] by (simp add: parse_logical_def)
  next
    case False
    then show ?thesis using accounted_record_line [OF Cons.prems] by (simp add: parse_logical_def takes_effect_def)
  qed
  with Cons.IH [OF good_parse_logical [OF Cons.prems, of l]] show ?case by (auto split: if_splits)
qed simp


end
