(* ===== verification/ZonefileRoundtrip.thy ===== *)
theory ZonefileRoundtrip
  imports ZonefileParser
begin

section \<open>What is exported can be imported\<close>

text \<open>
  The proof that \<open>parseZonefile\<close> reads back what \<open>serializeZonefile\<close> wrote, under the conditions the
  printed columns need (\<open>rrset_ok\<close>).  The lemmas go by layers, as the parser does: the physical lines
  of the printed text, the fields of a line, the logical lines, the records.
\<close>

subsection \<open>Physical lines\<close>

definition strip_cr :: "string \<Rightarrow> string" where
  "strip_cr l = (if l \<noteq> [] \<and> last l = CR then butlast l else l)"

lemma split_lines_ne [simp]: "split_lines s \<noteq> []"
  by (induction s) (auto split: list.split)

lemma split_lines_append:
  "LF \<notin> set l \<Longrightarrow> split_lines (l @ LF # s) = strip_cr l # split_lines s"
proof (induction l)
  case (Cons c cs)
  then have IH: "split_lines (cs @ LF # s) = strip_cr cs # split_lines s" and c: "c \<noteq> LF" "LF \<noteq> c" by auto
  show ?case
  proof (cases "c = CR \<and> hd (cs @ LF # s) = LF")
    case True
    then have "cs = []" using Cons.prems by (cases cs) auto
    with True show ?thesis by (simp add: strip_cr_def)
  next
    case False
    then have "split_lines ((c # cs) @ LF # s) = (c # strip_cr cs) # split_lines s"
      using IH c(1) by (simp del: split_lines.simps add: split_lines.simps(2))
    moreover have "c # strip_cr cs = strip_cr (c # cs)" using False by (cases cs) (auto simp: strip_cr_def)
    ultimately show ?thesis by simp
  qed
qed (simp add: strip_cr_def)

lemma join_newlines: "ls \<noteq> [] \<Longrightarrow> join [LF] ls @ [LF] = concat (map (\<lambda>l. l @ [LF]) ls)"
  by (induction ls rule: induct_list012) simp_all

lemma split_lines_printed:
  "ls \<noteq> [] \<Longrightarrow> list_all (\<lambda>l. LF \<notin> set l) ls \<Longrightarrow> split_lines (join [LF] ls @ [LF]) = map strip_cr ls @ [[]]"
proof -
  have "list_all (\<lambda>l. LF \<notin> set l) ls \<Longrightarrow> split_lines (concat (map (\<lambda>l. l @ [LF]) ls)) = map strip_cr ls @ [[]]"
    by (induction ls) (simp_all add: split_lines_append del: split_lines.simps(2))
  then show "ls \<noteq> [] \<Longrightarrow> list_all (\<lambda>l. LF \<notin> set l) ls \<Longrightarrow> split_lines (join [LF] ls @ [LF]) = map strip_cr ls @ [[]]"
    using join_newlines by metis
qed

lemma split_lines_no_LF: "l \<in> set (split_lines s) \<Longrightarrow> LF \<notin> set l"
proof (induction s arbitrary: l)
  case (Cons c cs)
  obtain p ps where p: "split_lines cs = p # ps" by (cases "split_lines cs") auto
  then have "LF \<notin> set p" "\<And>l. l \<in> set ps \<Longrightarrow> LF \<notin> set l" using Cons.IH by auto
  with Cons.prems p show ?case by (auto split: if_splits)
qed simp

subsection \<open>Fields of a line\<close>

definition plain_char :: "char \<Rightarrow> bool" where
  "plain_char c \<longleftrightarrow> c \<noteq> BACKSLASH \<and> c \<noteq> QUOTE \<and> c \<noteq> CHR '';'' \<and> c \<noteq> CHR ''('' \<and> c \<noteq> CHR '')''
     \<and> \<not> is_blank c \<and> c \<noteq> LF"

definition bare_word :: "string \<Rightarrow> bool" where
  "bare_word w \<longleftrightarrow> w \<noteq> [] \<and> list_all plain_char w"

definition scanning :: "string list \<Rightarrow> string \<Rightarrow> nat \<Rightarrow> scan_state" where
  "scanning fs x d = \<lparr>sc_fields = fs, sc_field = x, sc_inQuotes = False, sc_escaped = False, sc_depth = d\<rparr>"

lemma scan_start_scanning: "scan_start d = scanning [] [] d"
  by (simp add: scan_start_def scanning_def)

lemma scan_plain: "list_all plain_char w \<Longrightarrow> scan_chars (w @ rest) (scanning fs x d) = scan_chars rest (scanning fs (x @ w) d)"
  by (induction w arbitrary: x)
    (simp_all add: plain_char_def scan_char_def scanning_def add_char_def)

lemma flush_scanning: "flush (scanning fs x d) = (if x = [] then scanning fs [] d else scanning (fs @ [x]) [] d)"
  by (simp add: flush_def scanning_def)

lemma scan_spaces:
  "scan_chars (replicate n SPACE @ rest) (scanning fs x d)
     = scan_chars rest (if n = 0 then scanning fs x d else flush (scanning fs x d))"
proof (induction n arbitrary: fs x)
  case (Suc n)
  have "scan_char SPACE (scanning fs x d) = Some (flush (scanning fs x d))"
    by (simp add: scan_char_def scanning_def is_blank_def)
  with Suc show ?case by (simp add: flush_scanning)
qed simp

lemma scan_word:
  "bare_word w \<Longrightarrow> 0 < n \<Longrightarrow>
   scan_chars (w @ replicate n SPACE @ rest) (scanning fs [] d) = scan_chars rest (scanning (fs @ [w]) [] d)"
  by (simp add: bare_word_def scan_plain scan_spaces flush_scanning)

lemma scan_padded:
  "bare_word w \<Longrightarrow> length w < n \<Longrightarrow>
   scan_chars (padEnd n w @ rest) (scanning fs [] d) = scan_chars rest (scanning (fs @ [w]) [] d)"
  unfolding padEnd_def append_assoc by (rule scan_word) simp_all

definition prepend :: "string list \<Rightarrow> scan_state \<Rightarrow> scan_state" where
  "prepend fs s = s\<lparr>sc_fields := fs @ sc_fields s\<rparr>"

lemma prepend_simps [simp]:
  "sc_fields (prepend fs s) = fs @ sc_fields s" "sc_field (prepend fs s) = sc_field s"
  "sc_inQuotes (prepend fs s) = sc_inQuotes s" "sc_escaped (prepend fs s) = sc_escaped s"
  "sc_depth (prepend fs s) = sc_depth s" "prepend fs (scanning gs x d) = scanning (fs @ gs) x d"
  by (simp_all add: prepend_def scanning_def)

lemma flush_prepend: "flush (prepend fs s) = prepend fs (flush s)"
  by (simp add: flush_def prepend_def)

lemma scan_char_prepend: "scan_char c (prepend fs s) = map_option (prepend fs) (scan_char c s)"
  by (simp add: scan_char_def flush_def add_char_def prepend_def)

lemma scan_prepend: "scan_chars cs (prepend fs s) = prepend fs (scan_chars cs s)"
  by (induction cs arbitrary: s) (simp_all add: scan_char_prepend split: option.split)

lemma scan_from: "scan_chars cs (scanning fs [] d) = prepend fs (scan_chars cs (scan_start d))"
  using scan_prepend [of cs fs "scanning [] [] d"] by (simp add: scan_start_scanning)


text \<open>Text that scans to fields whose join is the text again: what the parser keeps unchanged.\<close>

definition tidy_fields :: "string \<Rightarrow> string list" where
  "tidy_fields c = sc_fields (flush (scan_chars c (scan_start 0)))"

definition tidy :: "string \<Rightarrow> bool" where
  "tidy c \<longleftrightarrow> c \<noteq> [] \<and> LF \<notin> set c \<and> js_trim c = c
     \<and> (let s = flush (scan_chars c (scan_start 0)) in
          join '' '' (sc_fields s) = c \<and> \<not> sc_inQuotes s \<and> sc_depth s = 0)"

lemma tidyD:
  assumes "tidy c"
  shows "c \<noteq> []" "LF \<notin> set c" "js_trim c = c" "join '' '' (tidy_fields c) = c" "last c \<noteq> CR" "tidy_fields c \<noteq> []"
proof -
  show *: "c \<noteq> []" "LF \<notin> set c" "js_trim c = c" "join '' '' (tidy_fields c) = c"
    using assms by (simp_all add: tidy_def tidy_fields_def Let_def)
  then show "tidy_fields c \<noteq> []" by (cases "tidy_fields c") auto
  have "\<not> is_ws (last c)" using *(1,3) js_trim_ends [of c] by auto
  then show "last c \<noteq> CR" by (auto simp: is_ws_def)
qed

lemma strip_cr_id: "l \<noteq> [] \<Longrightarrow> last l \<noteq> CR \<Longrightarrow> strip_cr l = l"
  by (simp add: strip_cr_def)

lemma scan_tidy:
  assumes "tidy c"
  shows "let s = flush (scan_chars c (scanning fs [] 0)) in
    sc_fields s = fs @ tidy_fields c \<and> \<not> sc_inQuotes s \<and> sc_depth s = 0"
  using assms by (simp add: scan_from flush_prepend tidy_def tidy_fields_def Let_def)

definition line_of :: "string \<Rightarrow> string list \<Rightarrow> bool" where
  "line_of l fs \<longleftrightarrow> scanLine l 0
     = \<lparr>sl_fields = fs, sl_parenDepth = 0, sl_unterminatedQuote = False, sl_leadingWhitespace = False\<rparr>"

lemma plain_not_blank: "bare_word w \<Longrightarrow> w \<noteq> [] \<and> \<not> is_blank (hd w)"
  by (cases w) (auto simp: bare_word_def plain_char_def)

lemma hd_padEnd: "w \<noteq> [] \<Longrightarrow> hd (padEnd n w @ rest) = hd w"
  by (simp add: padEnd_def)

lemma scan_line_of:
  assumes "bare_word w" "l = w @ rest" "tidy c"
    and "scan_chars l (scanning [] [] 0) = scan_chars c (scanning fs [] 0)"
  shows "line_of l (fs @ tidy_fields c)"
  using scan_tidy [OF assms(3), of fs] plain_not_blank [OF assms(1)] assms(2,4)
  by (simp add: line_of_def scanLine_def scan_start_scanning Let_def)

lemma plain_IN: "bare_word ''IN''"
  by (simp add: bare_word_def plain_char_def is_blank_def)

lemma IN_column: "''IN      '' = padEnd 8 ''IN''"
  by (simp add: padEnd_def numeral_eq_Suc)

lemma padEnd_short: "length w < n \<Longrightarrow> padEnd n w = w @ replicate (n - length w) SPACE"
  by (simp add: padEnd_def)

lemma padEnd_Nil: "padEnd n [] = replicate n SPACE"
  by (simp add: padEnd_def)

lemma plain_digits: "bare_word (dec_of_nat n)"
proof -
  have "plain_char c" if "is_digit c" for c
    using that by (auto simp: is_digit_def plain_char_def is_blank_def)
  then show ?thesis using dec_of_nat_digits [of _ n] by (auto simp: bare_word_def list_all_iff)
qed

text \<open>The columns before the data of a record separate its fields, when none of them runs into the next.\<close>

definition head_columns :: "string \<Rightarrow> nat \<Rightarrow> nat \<Rightarrow> string \<Rightarrow> string" where
  "head_columns owner ttl defaultTtl t =
     padEnd 20 owner @ padEnd 8 (if ttl = defaultTtl then [] else dec_of_nat ttl) @ ''IN      '' @ padEnd 8 t"

definition head_fields :: "string \<Rightarrow> nat \<Rightarrow> nat \<Rightarrow> string \<Rightarrow> string list" where
  "head_fields owner ttl defaultTtl t =
     owner # (if ttl = defaultTtl then [] else [dec_of_nat ttl]) @ [''IN'', t]"

lemma head_columns_owner: "\<exists>rest. head_columns owner ttl defaultTtl t = owner @ rest"
  by (simp add: head_columns_def padEnd_def)

lemma scan_columns:
  assumes "bare_word owner" "ttl = defaultTtl \<or> length owner < 20 \<and> ttl < 10 ^ 7" "bare_word t" "length t < 8"
  shows "scan_chars (head_columns owner ttl defaultTtl t @ s) (scanning [] [] 0)
    = scan_chars s (scanning (head_fields owner ttl defaultTtl t) [] 0)"
proof -
  have i: "length ''IN'' < 8" by simp
  have it: "scan_chars (''IN      '' @ padEnd 8 t @ s) (scanning fs [] 0) = scan_chars s (scanning (fs @ [''IN'', t]) [] 0)"
    for fs unfolding IN_column scan_padded [OF plain_IN i] scan_padded [OF assms(3,4)] by simp
  show ?thesis
  proof (cases "ttl = defaultTtl")
    case True
    have o: "padEnd 20 owner @ padEnd 8 [] @ rest = owner @ replicate (20 - length owner + 8) SPACE @ rest" for rest
      by (simp add: padEnd_def replicate_add)
    have n: "0 < 20 - length owner + 8" by simp
    show ?thesis
      unfolding head_columns_def head_fields_def if_P [OF True] append_assoc o scan_word [OF assms(1) n] it by simp
  next
    case False
    with assms(2) have l: "length owner < 20" "ttl < 10 ^ 7" by simp_all
    have d: "length (dec_of_nat ttl) < 8" using dec_of_nat_length_le [OF l(2)] by simp
    show ?thesis
      unfolding head_columns_def head_fields_def if_not_P [OF False] append_assoc scan_padded [OF assms(1) l(1)]
        scan_padded [OF plain_digits d] it by simp
  qed
qed

lemma comment_line: "line_of (CHR '';'' # s) []"
  by (simp add: line_of_def scanLine_def scan_start_def scan_char_def is_blank_def flush_def)

lemma empty_line: "line_of [] []"
  by (simp add: line_of_def scanLine_def scan_start_def flush_def)

lemma two_words:
  assumes "bare_word v" "bare_word w"
  shows "line_of (v @ '' '' @ w) [v, w]"
proof -
  have "scan_chars (v @ replicate 1 SPACE @ w @ []) (scanning [] [] 0) = scanning [v] w 0"
    unfolding scan_word [OF assms(1) zero_less_one] using assms(2) by (subst scan_plain) (simp_all add: bare_word_def)
  then show ?thesis using plain_not_blank [OF assms(1)] assms(2)
    by (simp add: line_of_def scanLine_def scan_start_scanning Let_def flush_scanning bare_word_def)
      (simp add: scanning_def)
qed


subsection \<open>Logical lines\<close>

definition joins :: "string list \<Rightarrow> string list list \<Rightarrow> bool" where
  "joins ls fss \<longleftrightarrow>
     (\<forall>k st. jn_buffer st = [] \<longrightarrow> jn_depth st = 0 \<longrightarrow>
        (let st' = foldl join_line st (List.enumerate k ls) in
         jn_buffer st' = [] \<and> jn_depth st' = 0 \<and> jn_diags st' = jn_diags st
         \<and> (\<exists>lls. jn_lines st' = jn_lines st @ lls \<and> map ll_fields lls = fss
                \<and> list_all (\<lambda>l. \<not> ll_leadingWhitespace l) lls)))"

lemma joinsI:
  assumes "\<And>k st. jn_buffer st = [] \<Longrightarrow> jn_depth st = 0 \<Longrightarrow>
      jn_buffer (foldl join_line st (List.enumerate k ls)) = [] \<and> jn_depth (foldl join_line st (List.enumerate k ls)) = 0
      \<and> jn_diags (foldl join_line st (List.enumerate k ls)) = jn_diags st
      \<and> (\<exists>lls. jn_lines (foldl join_line st (List.enumerate k ls)) = jn_lines st @ lls \<and> map ll_fields lls = fss
                \<and> list_all (\<lambda>l. \<not> ll_leadingWhitespace l) lls)"
  shows "joins ls fss"
  using assms by (simp add: joins_def Let_def)

lemma joinsD:
  assumes "joins ls fss" "jn_buffer st = []" "jn_depth st = 0"
  obtains lls where "jn_buffer (foldl join_line st (List.enumerate k ls)) = []"
    "jn_depth (foldl join_line st (List.enumerate k ls)) = 0"
    "jn_diags (foldl join_line st (List.enumerate k ls)) = jn_diags st"
    "jn_lines (foldl join_line st (List.enumerate k ls)) = jn_lines st @ lls"
    "map ll_fields lls = fss" "list_all (\<lambda>l. \<not> ll_leadingWhitespace l) lls"
  using assms unfolding joins_def Let_def by blast

lemma joins_Nil: "joins [] []"
  by (rule joinsI) simp

lemma joins_append:
  assumes a: "joins as fa" and b: "joins bs fb"
  shows "joins (as @ bs) (fa @ fb)"
proof (rule joinsI)
  fix k and st :: join_state
  assume st: "jn_buffer st = []" "jn_depth st = 0"
  obtain la where la: "jn_buffer (foldl join_line st (List.enumerate k as)) = []"
    "jn_depth (foldl join_line st (List.enumerate k as)) = 0"
    "jn_diags (foldl join_line st (List.enumerate k as)) = jn_diags st"
    "jn_lines (foldl join_line st (List.enumerate k as)) = jn_lines st @ la"
    "map ll_fields la = fa" "list_all (\<lambda>l. \<not> ll_leadingWhitespace l) la"
    using joinsD [OF a st] .
  define s1 where "s1 = foldl join_line st (List.enumerate k as)"
  note la = la [folded s1_def]
  obtain lb where lb: "jn_buffer (foldl join_line s1 (List.enumerate (k + length as) bs)) = []"
    "jn_depth (foldl join_line s1 (List.enumerate (k + length as) bs)) = 0"
    "jn_diags (foldl join_line s1 (List.enumerate (k + length as) bs)) = jn_diags s1"
    "jn_lines (foldl join_line s1 (List.enumerate (k + length as) bs)) = jn_lines s1 @ lb"
    "map ll_fields lb = fb" "list_all (\<lambda>l. \<not> ll_leadingWhitespace l) lb"
    using joinsD [OF b la(1,2)] .
  have f: "foldl join_line st (List.enumerate k (as @ bs)) = foldl join_line s1 (List.enumerate (k + length as) bs)"
    by (simp add: enumerate_append_eq s1_def)
  have "jn_lines (foldl join_line st (List.enumerate k (as @ bs))) = jn_lines st @ (la @ lb)
      \<and> map ll_fields (la @ lb) = fa @ fb \<and> list_all (\<lambda>l. \<not> ll_leadingWhitespace l) (la @ lb)"
    using la(4-6) lb(4-6) by (simp add: f)
  then show "jn_buffer (foldl join_line st (List.enumerate k (as @ bs))) = []
      \<and> jn_depth (foldl join_line st (List.enumerate k (as @ bs))) = 0
      \<and> jn_diags (foldl join_line st (List.enumerate k (as @ bs))) = jn_diags st
      \<and> (\<exists>lls. jn_lines (foldl join_line st (List.enumerate k (as @ bs))) = jn_lines st @ lls
           \<and> map ll_fields lls = fa @ fb \<and> list_all (\<lambda>l. \<not> ll_leadingWhitespace l) lls)"
    using lb(1-3) la(3) unfolding f by auto
qed

lemma joins_concat: "list_all (\<lambda>x. joins (f x) (g x)) xs \<Longrightarrow> joins (concat (map f xs)) (concat (map g xs))"
  by (induction xs) (simp_all add: joins_Nil joins_append)

lemma joins_line: "line_of l fs \<Longrightarrow> fs \<noteq> [] \<Longrightarrow> joins [l] [fs]"
  by (rule joinsI) (simp add: join_line_def line_of_def Let_def)

lemma joins_none: "line_of l [] \<Longrightarrow> joins [l] []"
  by (rule joinsI) (simp add: join_line_def line_of_def Let_def)

lemma joins_nothing: "list_all (\<lambda>l. line_of l []) ls \<Longrightarrow> joins ls []"
proof (induction ls)
  case (Cons l ls)
  then have "joins [l] []" "joins ls []" by (simp_all add: joins_none)
  from joins_append [OF this] show ?case by simp
qed (simp add: joins_Nil)

lemma join_lines_joins:
  assumes "joins ls fss"
  obtains lls where "jn_diags (join_lines ls) = []" "jn_lines (join_lines ls) = lls" "map ll_fields lls = fss"
    "list_all (\<lambda>l. \<not> ll_leadingWhitespace l) lls"
proof -
  have s: "jn_buffer join_start = []" "jn_depth join_start = 0" by (simp_all add: join_start_def)
  obtain lls where l: "jn_buffer (foldl join_line join_start (List.enumerate 0 ls)) = []"
    "jn_diags (foldl join_line join_start (List.enumerate 0 ls)) = jn_diags join_start"
    "jn_lines (foldl join_line join_start (List.enumerate 0 ls)) = jn_lines join_start @ lls"
    "map ll_fields lls = fss" "list_all (\<lambda>l. \<not> ll_leadingWhitespace l) lls"
    using joinsD [OF assms s, of 0] by metis
  then show ?thesis using that
    by (simp add: join_lines_def enumerate_eq_zip Let_def join_start_def)
qed

subsection \<open>The parenthesised SOA\<close>

lemma scan_open:
  assumes "bare_word v" "bare_word w"
  shows "scan_chars (v @ '' '' @ w @ '' ('') (scanning fs [] d) = scanning (fs @ [v, w]) [] (d + 1)"
proof -
  have "scan_chars (v @ '' '' @ w @ '' ('') (scanning fs [] d)
      = scan_chars (v @ replicate 1 SPACE @ w @ replicate 1 SPACE @ ''('') (scanning fs [] d)" by simp
  also have "\<dots> = scan_chars ''('' (scanning (fs @ [v] @ [w]) [] d)"
    unfolding scan_word [OF assms(1) zero_less_one] scan_word [OF assms(2) zero_less_one] append_assoc ..
  also have "\<dots> = scanning (fs @ [v, w]) [] (d + 1)" by (simp add: scanning_def scan_char_def is_blank_def flush_def)
  finally show ?thesis .
qed

lemma scan_continuation:
  assumes "bare_word p"
  shows "scan_chars (replicate 28 SPACE @ ''    '' @ padEnd 11 p @ '' ; '' @ s) (scanning [] [] d) = scanning [p] [] d"
proof -
  let ?t = "replicate (11 - length p + 1) SPACE"
  have e: "replicate 28 SPACE @ ''    '' @ padEnd 11 p @ '' ; '' @ s
      = replicate 28 SPACE @ replicate 4 SPACE @ p @ ?t @ ''; '' @ s"
    by (simp add: padEnd_def replicate_add numeral_eq_Suc replicate_append_same)
  have w: "scan_chars (p @ ?t @ ''; '' @ s) (scanning [] [] d) = scan_chars (''; '' @ s) (scanning ([] @ [p]) [] d)"
    by (rule scan_word [OF assms]) simp
  have "scan_chars (''; '' @ s) (scanning [p] [] d) = scanning [p] [] d" by (simp add: scanning_def scan_char_def)
  with w show ?thesis unfolding e by (simp add: scan_spaces flush_scanning)
qed

lemma continuation_line:
  "bare_word p \<Longrightarrow> scanLine (replicate 28 SPACE @ ''    '' @ padEnd 11 p @ '' ; '' @ s) 1
     = \<lparr>sl_fields = [p], sl_parenDepth = 1, sl_unterminatedQuote = False, sl_leadingWhitespace = True\<rparr>"
  unfolding scanLine_def scan_start_scanning scan_continuation flush_scanning
  by (simp add: scanning_def is_blank_def)

lemma closing_line:
  "scanLine (replicate 28 SPACE @ '')'') 1
     = \<lparr>sl_fields = [], sl_parenDepth = 0, sl_unterminatedQuote = False, sl_leadingWhitespace = True\<rparr>"
proof -
  have "scan_chars (replicate 28 SPACE @ '')'') (scanning [] [] 1) = scanning [] [] 0"
    by (simp add: scan_spaces flush_scanning) (simp add: scanning_def scan_char_def flush_def)
  then show ?thesis unfolding scanLine_def scan_start_scanning by (simp add: flush_scanning scanning_def is_blank_def flush_def)
qed

lemma join_opening:
  assumes "jn_buffer st = []" "jn_depth st = 0"
    and "scanLine l 0 = \<lparr>sl_fields = fs, sl_parenDepth = 1, sl_unterminatedQuote = False, sl_leadingWhitespace = w\<rparr>"
  shows "join_line st (k, l) = st\<lparr>jn_depth := 1, jn_start := k + 1, jn_leading := w, jn_buffer := fs\<rparr>"
  using assms by (cases st) (simp add: join_line_def Let_def)

lemma join_continuation:
  assumes "jn_buffer st \<noteq> []" "jn_depth st = 1"
    and "scanLine l 1 = \<lparr>sl_fields = fs, sl_parenDepth = 1, sl_unterminatedQuote = False, sl_leadingWhitespace = w\<rparr>"
  shows "join_line st (k, l) = st\<lparr>jn_buffer := jn_buffer st @ fs\<rparr>"
  using assms by (cases st) (simp add: join_line_def Let_def)

definition soa_text_lines :: "string list \<Rightarrow> string list" where
  "soa_text_lines parts =
     [parts ! 0 @ '' '' @ parts ! 1 @ '' ('',
      ''    '' @ padEnd 11 (parts ! 2) @ '' ; serial'', ''    '' @ padEnd 11 (parts ! 3) @ '' ; refresh'',
      ''    '' @ padEnd 11 (parts ! 4) @ '' ; retry'', ''    '' @ padEnd 11 (parts ! 5) @ '' ; expire'',
      ''    '' @ padEnd 11 (parts ! 6) @ '' ; minimum'', '')'']"

definition soa_lines :: "string \<Rightarrow> string list \<Rightarrow> string list" where
  "soa_lines columns parts =
     (columns @ hd (soa_text_lines parts)) # map (\<lambda>l. replicate 28 SPACE @ l) (tl (soa_text_lines parts))"

lemma list7: "length xs = 7 \<Longrightarrow> xs = [xs ! 0, xs ! 1, xs ! 2, xs ! 3, xs ! 4, xs ! 5, xs ! 6]"
  by (simp add: list_eq_iff_nth_eq less_Suc_eq numeral_eq_Suc)

lemma joins_soa:
  assumes w: "bare_word w" "columns = w @ rest"
    and c: "\<And>s. scan_chars (columns @ s) (scanning [] [] 0) = scan_chars s (scanning fs [] 0)"
    and p: "length parts = 7" "list_all bare_word parts"
  shows "joins (soa_lines columns parts) [fs @ parts]"
proof (rule joinsI)
  fix k and st :: join_state
  assume st: "jn_buffer st = []" "jn_depth st = 0"
  have pw: "bare_word (parts ! 0)" "bare_word (parts ! 1)" "bare_word (parts ! 2)" "bare_word (parts ! 3)"
    "bare_word (parts ! 4)" "bare_word (parts ! 5)" "bare_word (parts ! 6)"
    using p by (simp_all add: list_all_length)
  let ?l1 = "columns @ parts ! 0 @ '' '' @ parts ! 1 @ '' (''"
  have s1: "scanLine ?l1 0 = \<lparr>sl_fields = fs @ [parts ! 0, parts ! 1], sl_parenDepth = 1,
      sl_unterminatedQuote = False, sl_leadingWhitespace = False\<rparr>"
  proof -
    have sc: "scan_chars ?l1 (scanning [] [] 0) = scanning (fs @ [parts ! 0, parts ! 1]) [] 1"
      unfolding c scan_open [OF pw(1,2)] by simp
    have h: "(?l1 \<noteq> [] \<and> is_blank (hd ?l1)) = False" using plain_not_blank [OF w(1)] w(2) by simp
    show ?thesis unfolding scanLine_def scan_start_scanning sc flush_scanning h by (simp add: scanning_def)
  qed
  define b where "b = fs @ [parts ! 0, parts ! 1]"
  define t where "t = st\<lparr>jn_depth := 1, jn_start := k + 1, jn_leading := False, jn_buffer := b\<rparr>"
  have t1: "join_line st (k, ?l1) = t"
    unfolding t_def b_def by (rule join_opening [OF st s1])
  have c2: "scanLine (replicate 28 SPACE @ ''    '' @ padEnd 11 p @ '' ; '' @ s) 1
      = \<lparr>sl_fields = [p], sl_parenDepth = 1, sl_unterminatedQuote = False, sl_leadingWhitespace = True\<rparr>"
    if "bare_word p" for p s using continuation_line [OF that] .
  have step: "join_line (t\<lparr>jn_buffer := b @ ps\<rparr>) (i, replicate 28 SPACE @ ''    '' @ padEnd 11 p @ '' ; '' @ s)
      = t\<lparr>jn_buffer := b @ ps @ [p]\<rparr>" if "bare_word p" for p s ps i
    using join_continuation [OF _ _ c2 [OF that], of "t\<lparr>jn_buffer := b @ ps\<rparr>" i s] by (simp add: t_def b_def)
  have last: "join_line (t\<lparr>jn_buffer := b @ ps\<rparr>) (i, replicate 28 SPACE @ '')'')
      = t\<lparr>jn_depth := 0, jn_lines := jn_lines t @ [\<lparr>ll_line = jn_start t, ll_fields = b @ ps, ll_leadingWhitespace = False\<rparr>],
          jn_buffer := []\<rparr>" for ps i
    by (simp add: join_line_def closing_line [simplified] Let_def t_def b_def)
  let ?p = "[parts ! 2, parts ! 3, parts ! 4, parts ! 5, parts ! 6]"
  have t0: "t = t\<lparr>jn_buffer := b @ []\<rparr>" by (simp add: t_def)
  have l: "'' ; serial'' = '' ; '' @ ''serial''" "'' ; refresh'' = '' ; '' @ ''refresh''" "'' ; retry'' = '' ; '' @ ''retry''"
    "'' ; expire'' = '' ; '' @ ''expire''" "'' ; minimum'' = '' ; '' @ ''minimum''" by simp_all
  have f: "foldl join_line st (List.enumerate k (soa_lines columns parts))
      = t\<lparr>jn_depth := 0, jn_lines := jn_lines t @ [\<lparr>ll_line = jn_start t, ll_fields = b @ ?p, ll_leadingWhitespace = False\<rparr>],
          jn_buffer := []\<rparr>"
    unfolding soa_lines_def soa_text_lines_def list.sel list.map enumerate_simps foldl_Cons foldl_Nil t1 l
    by (subst t0) (simp only: step [OF pw(3)] step [OF pw(4)] step [OF pw(5)] step [OF pw(6)] step [OF pw(7)] last,
        simp only: append_Nil append_Cons)
  have "b @ ?p = fs @ parts" using list7 [OF p(1)] by (simp add: b_def)
  then show "jn_buffer (foldl join_line st (List.enumerate k (soa_lines columns parts))) = []
      \<and> jn_depth (foldl join_line st (List.enumerate k (soa_lines columns parts))) = 0
      \<and> jn_diags (foldl join_line st (List.enumerate k (soa_lines columns parts))) = jn_diags st
      \<and> (\<exists>lls. jn_lines (foldl join_line st (List.enumerate k (soa_lines columns parts))) = jn_lines st @ lls
           \<and> map ll_fields lls = [fs @ parts] \<and> list_all (\<lambda>l. \<not> ll_leadingWhitespace l) lls)"
    unfolding f by (simp add: t_def)
qed

subsection \<open>The lines of a zone\<close>

definition soa7 :: "string \<Rightarrow> string \<Rightarrow> bool" where
  "soa7 type content \<longleftrightarrow> type = ''SOA'' \<and> length (split_ws (js_trim content)) = 7"

definition readable :: "string \<Rightarrow> string \<Rightarrow> bool" where
  "readable type content \<longleftrightarrow>
     (if soa7 type content then list_all bare_word (split_ws (js_trim content))
      else tidy (formatRdata type content))"

definition content_fields :: "string \<Rightarrow> string \<Rightarrow> string list" where
  "content_fields type content =
     (if soa7 type content then split_ws (js_trim content) else tidy_fields (formatRdata type content))"

definition read_content :: "string \<Rightarrow> string \<Rightarrow> string" where
  "read_content type content =
     (if soa7 type content then join '' '' (split_ws (js_trim content)) else formatRdata type content)"

definition rrset_ok :: "string \<Rightarrow> nat \<Rightarrow> zonefile_rrset \<Rightarrow> bool" where
  "rrset_ok origin defaultTtl rr \<longleftrightarrow>
     (let owner = relativise (zf_name rr) origin in
      bare_word owner \<and> hd owner \<noteq> CHR ''$'' \<and> expandOwner owner origin = zf_name rr
      \<and> TYPE_TOKEN (zf_type rr) \<and> zf_type rr \<notin> set SKIPPED_TYPES \<and> length (zf_type rr) < 8
      \<and> (zf_ttl rr = defaultTtl \<or> length owner < 20 \<and> zf_ttl rr < 10 ^ 7)
      \<and> list_all (\<lambda>r. LF \<notin> set (zf_content r) \<and> (zf_disabled r \<or> readable (zf_type rr) (zf_content r))) (zf_records rr))"

lemma is_ws_LF: "is_ws LF"
  by (simp add: is_ws_def)

lemma TYPE_TOKEN_chars: "TYPE_TOKEN t \<Longrightarrow> c \<in> set t \<Longrightarrow> is_upper_letter c \<or> is_digit c \<or> c = CHR ''-''"
proof -
  assume t: "TYPE_TOKEN t" and c: "c \<in> set t"
  show ?thesis
  proof (cases "TYPE_digits t")
    case True
    then have "take 4 t = ''TYPE''" by (simp add: TYPE_digits_def starts_with_def numeral_eq_Suc)
    then have "t = ''TYPE'' @ drop 4 t" using append_take_drop_id [of 4 t] by metis
    then have "c \<in> set ''TYPE'' \<or> c \<in> set (drop 4 t)" using c by (metis Un_iff set_append)
    then show ?thesis
    proof
      assume "c \<in> set ''TYPE''"
      then show ?thesis by (auto simp: is_upper_letter_def)
    next
      assume "c \<in> set (drop 4 t)"
      then show ?thesis using True by (auto simp: TYPE_digits_def list_all_iff)
    qed
  next
    case False
    with t c show ?thesis by (cases t) (auto simp: TYPE_TOKEN_def list_all_iff)
  qed
qed

lemma TYPE_TOKEN_ne: "TYPE_TOKEN t \<Longrightarrow> t \<noteq> []"
  by (auto simp: TYPE_TOKEN_def TYPE_digits_def)

lemma TYPE_TOKEN_plain: "TYPE_TOKEN t \<Longrightarrow> bare_word t"
proof -
  assume t: "TYPE_TOKEN t"
  have "plain_char c" if "is_upper_letter c \<or> is_digit c \<or> c = CHR ''-''" for c
    using that by (auto simp: is_upper_letter_def is_digit_def plain_char_def is_blank_def)
  with TYPE_TOKEN_chars [OF t] TYPE_TOKEN_ne [OF t] show ?thesis by (auto simp: bare_word_def list_all_iff)
qed

lemma TYPE_TOKEN_upper: "TYPE_TOKEN t \<Longrightarrow> js_upper t = t"
proof -
  assume t: "TYPE_TOKEN t"
  have "upper_char c = [c]" if "is_upper_letter c \<or> is_digit c \<or> c = CHR ''-''" for c
    using that by (auto simp: is_upper_letter_def is_digit_def upper_char_def)
  then have "\<forall>c \<in> set t. upper_char c = [c]" using TYPE_TOKEN_chars [OF t] by blast
  then have "concat (map upper_char t) = t" by (induction t) simp_all
  then show ?thesis by (simp add: js_upper_def)
qed

lemma TYPE_TOKEN_hd: "TYPE_TOKEN t \<Longrightarrow> is_upper_letter (hd t)"
proof -
  assume t: "TYPE_TOKEN t"
  show ?thesis
  proof (cases "TYPE_digits t")
    case True
    then have "hd t = CHR ''T''" by (cases t) (auto simp: TYPE_digits_def starts_with_def)
    then show ?thesis by (simp add: is_upper_letter_def)
  next
    case False
    with t show ?thesis by (simp add: TYPE_TOKEN_def)
  qed
qed

lemma plain_no_LF: "bare_word w \<Longrightarrow> LF \<notin> set w"
  by (auto simp: bare_word_def plain_char_def list_all_iff)

lemma padEnd_no_LF: "LF \<notin> set w \<Longrightarrow> LF \<notin> set (padEnd n w)"
  by (simp add: padEnd_def)

lemma head_columns_no_LF:
  "bare_word owner \<Longrightarrow> bare_word t \<Longrightarrow> LF \<notin> set (head_columns owner ttl defaultTtl t)"
  using plain_no_LF [of owner] plain_no_LF [of t] plain_no_LF [OF plain_digits [of ttl]]
  by (simp add: head_columns_def padEnd_def)

lemma formatSoa7: "length (split_ws (js_trim content)) = 7 \<Longrightarrow> formatSoa content = join [LF] (soa_text_lines (split_ws (js_trim content)))"
  by (simp add: formatSoa_def soa_text_lines_def Let_def del: join.simps)

lemma escape_no_LF: "LF \<notin> set s \<Longrightarrow> d \<noteq> LF \<Longrightarrow> LF \<notin> set (escape_with d s)"
  by (auto simp: escape_with_def)

lemma formatRdata_no_LF:
  assumes "LF \<notin> set content" "\<not> soa7 type content"
  shows "LF \<notin> set (formatRdata type content)"
proof -
  have "LF \<notin> set (formatTxt content)"
    using escape_no_LF [OF escape_no_LF [OF assms(1), of BACKSLASH], of QUOTE] assms(1) by (simp add: formatTxt_def)
  then show ?thesis using assms by (simp add: formatRdata_def formatSoa_def soa7_def Let_def)
qed

lemma soa_text_lines_no_LF:
  assumes "length (split_ws (js_trim content)) = 7"
  shows "list_all (\<lambda>l. LF \<notin> set l) (soa_text_lines (split_ws (js_trim content)))"
proof -
  have n: "LF \<notin> set (split_ws (js_trim content) ! i)" if "i < 7" for i
    using split_ws_no_ws [of "split_ws (js_trim content) ! i" "js_trim content" LF] that assms is_ws_LF by auto
  show ?thesis using n [of 0] n [of 1] n [of 2] n [of 3] n [of 4] n [of 5] n [of 6]
    by (simp add: soa_text_lines_def padEnd_def)
qed

lemma soa7_rdata:
  assumes "soa7 type content"
  shows "split_on LF (formatRdata type content) = soa_text_lines (split_ws (js_trim content))"
    and "LF \<in> set (formatRdata type content)"
proof -
  let ?ls = "soa_text_lines (split_ws (js_trim content))"
  have f: "formatRdata type content = join [LF] ?ls"
    using assms formatSoa7 [of content] by (simp add: soa7_def formatRdata_def)
  have ne: "?ls \<noteq> []" "\<forall>l \<in> set ?ls. LF \<notin> set l"
    using soa_text_lines_no_LF [of content] assms by (simp_all add: soa7_def list_all_iff) (simp add: soa_text_lines_def)
  show s: "split_on LF (formatRdata type content) = ?ls" unfolding f by (rule split_join [OF ne])
  show "LF \<in> set (formatRdata type content)"
  proof (rule ccontr)
    assume "LF \<notin> set (formatRdata type content)"
    from split_on_no_sep [OF this] s show False by (simp add: soa_text_lines_def)
  qed
qed

lemma strip_cr_snoc: "c \<noteq> CR \<Longrightarrow> strip_cr (s @ [c]) = s @ [c]"
  by (simp add: strip_cr_def)

lemma strip_cr_last: "l \<noteq> [] \<Longrightarrow> last l \<noteq> CR \<Longrightarrow> strip_cr (s @ l) = s @ l"
  by (simp add: strip_cr_def)

lemma soa_lines_strip: "map strip_cr (soa_lines columns parts) = soa_lines columns parts"
proof -
  have l: "last l \<noteq> CR \<and> l \<noteq> []" if "l \<in> set (soa_text_lines parts)" for l
    using that by (auto simp: soa_text_lines_def)
  have "hd (soa_text_lines parts) \<in> set (soa_text_lines parts)" "set (tl (soa_text_lines parts)) \<subseteq> set (soa_text_lines parts)"
    by (auto simp: soa_text_lines_def)
  then show ?thesis using l by (auto simp: soa_lines_def strip_cr_last subset_iff)
qed

lemma strip_cr_comment: "\<exists>t. strip_cr (CHR '';'' # s) = CHR '';'' # t"
  by (simp add: strip_cr_def)

lemma comment_lines_joins: "list_all (\<lambda>l. l \<noteq> [] \<and> hd l = CHR '';'') ls \<Longrightarrow> joins (map strip_cr ls) []"
proof (rule joins_nothing, simp add: list_all_iff, intro ballI)
  fix l
  assume "\<forall>l \<in> set ls. l \<noteq> [] \<and> hd l = CHR '';''" "l \<in> set ls"
  then obtain s where "l = CHR '';'' # s" by (cases l) auto
  with strip_cr_comment [of s] comment_line show "line_of (strip_cr l) []" by auto
qed

definition rr_fields :: "string \<Rightarrow> nat \<Rightarrow> zonefile_rrset \<Rightarrow> zonefile_record \<Rightarrow> string list" where
  "rr_fields origin defaultTtl rr r =
     head_fields (relativise (zf_name rr) origin) (zf_ttl rr) defaultTtl (zf_type rr)
     @ content_fields (zf_type rr) (zf_content r)"

lemma record_lines_soa7:
  assumes "soa7 (zf_type rr) (zf_content r)"
  shows "record_lines rr origin defaultTtl r =
    (let parts = split_ws (js_trim (zf_content r));
         cols = head_columns (relativise (zf_name rr) origin) (zf_ttl rr) defaultTtl (zf_type rr) in
     if zf_disabled r then map ((@) DISABLED_PREFIX) (soa_lines cols parts) else soa_lines cols parts)"
  using assms soa7_rdata [OF assms]
  by (simp add: record_lines_def soa7_def soa_lines_def head_columns_def Let_def)

lemma record_lines_plain:
  assumes "\<not> soa7 (zf_type rr) (zf_content r)" "LF \<notin> set (zf_content r)"
  shows "record_lines rr origin defaultTtl r =
    [(if zf_disabled r then DISABLED_PREFIX else [])
      @ head_columns (relativise (zf_name rr) origin) (zf_ttl rr) defaultTtl (zf_type rr)
      @ formatRdata (zf_type rr) (zf_content r)]"
  using formatRdata_no_LF [OF assms(2,1)] by (simp add: record_lines_def head_columns_def Let_def)

lemma record_joins:
  assumes ok: "rrset_ok origin defaultTtl rr" and r: "r \<in> set (zf_records rr)"
  shows "joins (map strip_cr (record_lines rr origin defaultTtl r))
      (if zf_disabled r then [] else [rr_fields origin defaultTtl rr r])"
    and "list_all (\<lambda>l. LF \<notin> set l) (record_lines rr origin defaultTtl r)"
proof -
  let ?owner = "relativise (zf_name rr) origin" and ?t = "zf_type rr" and ?c = "zf_content r"
  let ?cols = "head_columns ?owner (zf_ttl rr) defaultTtl ?t" and ?fs = "head_fields ?owner (zf_ttl rr) defaultTtl ?t"
  have o: "bare_word ?owner" "TYPE_TOKEN ?t" "length ?t < 8"
    "zf_ttl rr = defaultTtl \<or> length ?owner < 20 \<and> zf_ttl rr < 10 ^ 7"
    using ok by (simp_all add: rrset_ok_def Let_def)
  have c: "LF \<notin> set ?c" "zf_disabled r \<or> readable ?t ?c"
    using ok r by (simp_all add: rrset_ok_def Let_def list_all_iff)
  note sc = scan_columns [OF o(1,4) TYPE_TOKEN_plain [OF o(2)] o(3)]
  obtain rest where rest: "?cols = ?owner @ rest" using head_columns_owner by blast
  have nl: "LF \<notin> set ?cols" by (rule head_columns_no_LF [OF o(1) TYPE_TOKEN_plain [OF o(2)]])
  have pre: "LF \<notin> set DISABLED_PREFIX" "DISABLED_PREFIX \<noteq> []" "hd DISABLED_PREFIX = CHR '';''"
    by (simp_all add: DISABLED_PREFIX_def)
  have both: "joins (map strip_cr (record_lines rr origin defaultTtl r)) (if zf_disabled r then [] else [?fs @ content_fields ?t ?c])
      \<and> list_all (\<lambda>l. LF \<notin> set l) (record_lines rr origin defaultTtl r)"
  proof (cases "soa7 ?t ?c")
    case True
    let ?p = "split_ws (js_trim ?c)"
    have len: "length ?p = 7" using True by (simp add: soa7_def)
    have nls: "list_all (\<lambda>l. LF \<notin> set l) (soa_lines ?cols ?p)"
      using soa_text_lines_no_LF [OF len] nl by (simp add: soa_lines_def soa_text_lines_def)
    show ?thesis
    proof (cases "zf_disabled r")
      case d: True
      have "joins (map strip_cr (map ((@) DISABLED_PREFIX) (soa_lines ?cols ?p))) []"
        by (rule comment_lines_joins) (simp add: list_all_iff pre)
      with nls pre(1) show ?thesis by (simp add: record_lines_soa7 [OF True] d Let_def list_all_iff)
    next
      case d: False
      with c(2) True have p: "list_all bare_word ?p" by (simp add: readable_def)
      show ?thesis
        using joins_soa [OF o(1) rest sc len p] nls True
        by (simp add: record_lines_soa7 [OF True] d Let_def soa_lines_strip content_fields_def)
    qed
  next
    case False
    let ?rd = "formatRdata ?t ?c"
    note rl = record_lines_plain [OF False c(1), of origin defaultTtl]
    have nl2: "LF \<notin> set ?rd" by (rule formatRdata_no_LF [OF c(1) False])
    show ?thesis
    proof (cases "zf_disabled r")
      case d: True
      have "joins (map strip_cr [DISABLED_PREFIX @ ?cols @ ?rd]) []"
        by (rule comment_lines_joins) (simp add: pre)
      with nl nl2 pre(1) show ?thesis by (simp add: rl d)
    next
      case d: False
      with c(2) False have t: "tidy ?rd" by (simp add: readable_def)
      have l: "line_of (?cols @ ?rd) (?fs @ tidy_fields ?rd)"
        by (rule scan_line_of [OF o(1) _ t sc]) (simp add: rest)
      have "strip_cr (?cols @ ?rd) = ?cols @ ?rd" by (rule strip_cr_last [OF tidyD(1,5) [OF t]])
      with joins_line [OF l] tidyD(6) [OF t] nl nl2 False show ?thesis
        by (simp add: rl d content_fields_def)
    qed
  qed
  from both show "joins (map strip_cr (record_lines rr origin defaultTtl r))
      (if zf_disabled r then [] else [rr_fields origin defaultTtl rr r])"
    unfolding rr_fields_def by (rule conjunct1)
  from both show "list_all (\<lambda>l. LF \<notin> set l) (record_lines rr origin defaultTtl r)" by (rule conjunct2)
qed

definition enabled :: "zonefile_rrset \<Rightarrow> zonefile_record list" where
  "enabled rr = filter (\<lambda>r. \<not> zf_disabled r) (zf_records rr)"

lemma concat_if: "concat (map (\<lambda>r. if P r then [] else [f r]) xs) = map f (filter (\<lambda>r. \<not> P r) xs)"
  by (induction xs) simp_all

lemma rrset_joins:
  assumes ok: "rrset_ok origin defaultTtl rr"
  shows "joins (map strip_cr (serializeRRSet rr origin defaultTtl)) (map (rr_fields origin defaultTtl rr) (enabled rr))"
    and "list_all (\<lambda>l. LF \<notin> set l) (serializeRRSet rr origin defaultTtl)"
proof -
  have "joins (concat (map (\<lambda>r. map strip_cr (record_lines rr origin defaultTtl r)) (zf_records rr)))
      (concat (map (\<lambda>r. if zf_disabled r then [] else [rr_fields origin defaultTtl rr r]) (zf_records rr)))"
    by (rule joins_concat) (simp add: list_all_iff record_joins [OF ok] del: if_split)
  then show "joins (map strip_cr (serializeRRSet rr origin defaultTtl)) (map (rr_fields origin defaultTtl rr) (enabled rr))"
    by (simp add: serializeRRSet_def map_concat comp_def concat_if enabled_def)
  show "list_all (\<lambda>l. LF \<notin> set l) (serializeRRSet rr origin defaultTtl)"
    using record_joins(2) [OF ok] by (auto simp: serializeRRSet_def list_all_iff)
qed

lemma header_joins:
  "joins (map strip_cr (header_lines inp)) []" "list_all (\<lambda>l. LF \<notin> set l) (header_lines inp)"
  by (rule comment_lines_joins) (auto simp: header_lines_def list_all_iff dest: split_lines_no_LF)

lemma zone_char_plain: "zone_char c \<Longrightarrow> plain_char c \<and> c \<noteq> CR"
  by (auto simp: zone_char_def plain_char_def is_blank_def is_digit_def)

definition printed_fields :: "(string \<Rightarrow> string \<Rightarrow> int) \<Rightarrow> serialize_input \<Rightarrow> string list list" where
  "printed_fields localeCompare inp =
     (let origin = ensureTrailingDot_zf (si_zoneName inp);
          defaultTtl = pickDefaultTtl (si_rrsets inp) (si_defaultTtl inp) in
      [[''$TTL'', dec_of_nat defaultTtl], [''$ORIGIN'', origin]]
      @ concat (map (\<lambda>rr. map (rr_fields origin defaultTtl rr) (enabled rr)) (sortRrsets localeCompare (si_rrsets inp))))"

lemma set_sortRrsets [simp]: "set (sortRrsets localeCompare rrsets) = set rrsets"
  by (auto simp: sortRrsets_def Let_def)

lemma last_dec_of_nat: "last (dec_of_nat n) \<noteq> CR"
proof -
  have "is_digit (last (dec_of_nat n))" using dec_of_nat_digits [of _ n] last_in_set [OF dec_of_nat_ne] by blast
  then show ?thesis by (auto simp: is_digit_def)
qed

lemma zone_joins:
  assumes o: "canonicalize (ensureTrailingDot_zf (si_zoneName inp)) = Some (ensureTrailingDot_zf (si_zoneName inp))"
    and ok: "list_all (rrset_ok (ensureTrailingDot_zf (si_zoneName inp)) (pickDefaultTtl (si_rrsets inp) (si_defaultTtl inp)))
      (si_rrsets inp)"
  shows "joins (map strip_cr (zonefile_lines localeCompare inp)) (printed_fields localeCompare inp)"
    and "list_all (\<lambda>l. LF \<notin> set l) (zonefile_lines localeCompare inp)"
proof -
  let ?o = "ensureTrailingDot_zf (si_zoneName inp)" and ?d = "pickDefaultTtl (si_rrsets inp) (si_defaultTtl inp)"
  let ?rrs = "sortRrsets localeCompare (si_rrsets inp)"
  have po: "list_all zone_char ?o" "?o \<noteq> []" "ends_with ?o ''.''"
    using o by (auto simp: canonicalize_def Let_def split: if_splits)
  have wo: "bare_word ?o" using po(1,2) zone_char_plain by (auto simp: bare_word_def list_all_iff)
  have lo: "last ?o \<noteq> CR" using po(3) by (simp add: ends_with_dot)
  have dw: "bare_word ''$TTL''" "bare_word ''$ORIGIN''" by (simp_all add: bare_word_def plain_char_def is_blank_def)
  have d1: "joins [''$TTL '' @ dec_of_nat ?d] [[''$TTL'', dec_of_nat ?d]]"
    using joins_line [OF two_words [OF dw(1) plain_digits]] by simp
  have d2: "joins [''$ORIGIN '' @ ?o] [[''$ORIGIN'', ?o]]"
    using joins_line [OF two_words [OF dw(2) wo]] by simp
  have d3: "joins [[]] []" by (rule joins_none [OF empty_line])
  have rs: "joins (concat (map (\<lambda>rr. map strip_cr (serializeRRSet rr ?o ?d)) ?rrs))
      (concat (map (\<lambda>rr. map (rr_fields ?o ?d rr) (enabled rr)) ?rrs))"
    by (rule joins_concat) (use ok in \<open>simp add: list_all_iff rrset_joins\<close>)
  have st: "strip_cr (''$TTL '' @ dec_of_nat ?d) = ''$TTL '' @ dec_of_nat ?d" "strip_cr (''$ORIGIN '' @ ?o) = ''$ORIGIN '' @ ?o"
    "strip_cr [] = []"
    using last_dec_of_nat lo po(2) by (simp_all add: strip_cr_def)
  have "map strip_cr (zonefile_lines localeCompare inp)
      = map strip_cr (header_lines inp) @ [''$TTL '' @ dec_of_nat ?d] @ [''$ORIGIN '' @ ?o] @ [[]]
        @ concat (map (\<lambda>rr. map strip_cr (serializeRRSet rr ?o ?d)) ?rrs)"
    unfolding zonefile_lines_def Let_def map_append list.map st by (simp add: map_concat comp_def)
  then show "joins (map strip_cr (zonefile_lines localeCompare inp)) (printed_fields localeCompare inp)"
    using joins_append [OF header_joins(1) [of inp] joins_append [OF d1 joins_append [OF d2 joins_append [OF d3 rs]]]]
    by (simp add: printed_fields_def Let_def)
  have "list_all (\<lambda>l. LF \<notin> set l) (concat (map (\<lambda>rr. serializeRRSet rr ?o ?d) ?rrs))"
    using ok rrset_joins(2) by (fastforce simp: list_all_iff)
  then show "list_all (\<lambda>l. LF \<notin> set l) (zonefile_lines localeCompare inp)"
    using header_joins(2) [of inp] plain_no_LF [OF plain_digits [of ?d]] plain_no_LF [OF wo]
    by (simp add: zonefile_lines_def Let_def)
qed

subsection \<open>Reading the records\<close>

lemma parseTtl_digits: "parseTtl (dec_of_nat n) = Some n"
  using dec_of_nat_digits [of _ n] by (auto simp: parseTtl_def list_all_iff)

lemma parseTtl_letter:
  assumes "t \<noteq> []" "\<not> is_digit (hd t)"
  shows "parseTtl t = None"
proof -
  obtain c cs where t: "t = c # cs" "\<not> is_digit c" using assms by (cases t) auto
  have "ttl_units t = None" by (subst ttl_units.simps) (simp add: t split: option.split)
  then show ?thesis using t by (simp add: parseTtl_def)
qed

lemma upper_not_digit: "is_upper_letter c \<Longrightarrow> \<not> is_digit c"
  by (simp add: is_upper_letter_def is_digit_def)

lemma parseTtl_IN: "parseTtl ''IN'' = None"
  by (rule parseTtl_letter) (simp_all add: is_digit_def)

lemma class_IN: "js_upper ''IN'' = ''IN''" "isClassToken ''IN''"
proof -
  show u: "js_upper ''IN'' = ''IN''" by (simp add: js_upper_def upper_char_def)
  then show "isClassToken ''IN''" by (simp add: isClassToken_def CLASS_TOKENS_def)
qed

lemma content_fields_join:
  assumes "readable type content"
  shows "js_trim (join '' '' (content_fields type content)) = read_content type content"
    and "read_content type content \<noteq> []"
proof -
  have "js_trim (join '' '' (content_fields type content)) = read_content type content \<and> read_content type content \<noteq> []"
  proof (cases "soa7 type content")
    case True
    let ?p = "split_ws (js_trim content)"
    have p: "length ?p = 7" "list_all bare_word ?p" using True assms by (simp_all add: soa7_def readable_def)
    then obtain a as where a1: "?p = a # as" by (cases ?p) auto
    with p(1) have a: "?p = a # as" "as \<noteq> []" by auto
    have w: "\<And>w c. w \<in> set ?p \<Longrightarrow> c \<in> set w \<Longrightarrow> \<not> is_ws c" using split_ws_no_ws by blast
    have ne: "\<And>w. w \<in> set ?p \<Longrightarrow> w \<noteq> []" using p(2) by (auto simp: list_all_iff bare_word_def)
    let ?l = "last ?p"
    have j: "join '' '' ?p = a @ '' '' @ join '' '' as" using a by (simp add: join_Cons)
    have "?p = butlast ?p @ [?l]" "butlast ?p \<noteq> []" using a by simp_all
    then have j2: "join '' '' ?p = join '' '' (butlast ?p) @ '' '' @ ?l" by (metis join_append join.simps(2) not_Cons_self2)
    have l: "?l \<in> set ?p" using a by simp
    have "\<not> is_ws (last (join '' '' ?p))" using w [OF l] ne [OF l] unfolding j2 by simp
    moreover have "\<not> is_ws (hd (join '' '' ?p))" using w [of a] ne [of a] a(1) unfolding j by simp
    ultimately have "js_trim (join '' '' ?p) = join '' '' ?p" by (intro js_trim_id conjI)
    then show ?thesis using True j ne [of a] a(1) by (simp add: content_fields_def read_content_def)
  next
    case False
    with assms have "tidy (formatRdata type content)" by (simp add: readable_def)
    from tidyD [OF this] False show ?thesis by (simp add: content_fields_def read_content_def)
  qed
  then show "js_trim (join '' '' (content_fields type content)) = read_content type content"
    "read_content type content \<noteq> []" by blast+
qed

lemma record_parts_printed:
  assumes ok: "rrset_ok origin defaultTtl rr" and r: "readable (zf_type rr) (zf_content r)"
  shows "record_parts False (rr_fields origin defaultTtl rr r) lastOwner
    = Inr \<lparr>rf_owner = relativise (zf_name rr) origin,
           rf_ttl = (if zf_ttl rr = defaultTtl then None else Some (zf_ttl rr)),
           rf_type = zf_type rr, rf_rdata = read_content (zf_type rr) (zf_content r)\<rparr>"
proof -
  let ?t = "zf_type rr" and ?c = "zf_content r"
  have t: "TYPE_TOKEN ?t" using ok by (simp add: rrset_ok_def Let_def)
  have pt: "parseTtl ?t = None"
    by (rule parseTtl_letter [OF TYPE_TOKEN_ne [OF t] upper_not_digit [OF TYPE_TOKEN_hd [OF t]]])
  have rt: "record_type (?t # content_fields ?t ?c) x = Inr (?t, read_content ?t ?c)" for x
    using content_fields_join [OF r] TYPE_TOKEN_ne [OF t] t
    by (simp add: record_type_def TYPE_TOKEN_upper [OF t] Let_def)
  show ?thesis
  proof (cases "zf_ttl rr = defaultTtl")
    case True
    then show ?thesis
      by (simp add: record_parts_def rr_fields_def head_fields_def record_owner_def take_ttl_def parseTtl_IN take_class_def
          class_IN pt rt Let_def)
  next
    case False
    then show ?thesis
      by (simp add: record_parts_def rr_fields_def head_fields_def record_owner_def take_ttl_def parseTtl_digits take_class_def
          class_IN rt Let_def)
  qed
qed

definition read_state :: "string \<Rightarrow> nat \<Rightarrow> string option \<Rightarrow> parsed_rrset list \<Rightarrow> parser_state" where
  "read_state origin defaultTtl lastOwner rrsets =
     \<lparr>ps_zones = [(origin, \<lparr>pz_name = origin, pz_rrsets = rrsets\<rparr>)], ps_origin = Some origin, ps_ttl = defaultTtl,
      ps_lastOwner = lastOwner, ps_diags = []\<rparr>"

lemma parse_printed:
  assumes ok: "rrset_ok origin defaultTtl rr" and r: "readable (zf_type rr) (zf_content r)"
    and l: "ll_fields l = rr_fields origin defaultTtl rr r" "\<not> ll_leadingWhitespace l"
  shows "\<exists>last'. parse_logical (read_state origin defaultTtl lastOwner rrsets) l
    = read_state origin defaultTtl last'
        (push_content rrsets (zf_name rr) (zf_type rr) (zf_ttl rr) (read_content (zf_type rr) (zf_content r)))"
proof -
  let ?o = "relativise (zf_name rr) origin"
  have o: "bare_word ?o" "hd ?o \<noteq> CHR ''$''" "expandOwner ?o origin = zf_name rr" "zf_type rr \<notin> set SKIPPED_TYPES"
    using ok by (simp_all add: rrset_ok_def Let_def)
  then have d: "\<not> starts_with ?o ''$''" by (cases ?o) (auto simp: starts_with_def bare_word_def)
  have h: "hd (rr_fields origin defaultTtl rr r) = ?o" by (simp add: rr_fields_def head_fields_def)
  show ?thesis
    by (intro exI [of _ "Some (zf_name rr)"])
      (simp add: parse_logical_def l h d zone_record_line_def read_state_def record_parts_printed [OF ok r] o(3,4) Let_def pushRRSet_def)
qed

definition push_record :: "zonefile_rrset \<Rightarrow> parsed_rrset list \<Rightarrow> zonefile_record \<Rightarrow> parsed_rrset list" where
  "push_record rr acc r =
     push_content acc (zf_name rr) (zf_type rr) (zf_ttl rr) (read_content (zf_type rr) (zf_content r))"

lemma parse_rrset:
  "rrset_ok origin defaultTtl rr \<Longrightarrow> list_all (\<lambda>r. readable (zf_type rr) (zf_content r)) rs \<Longrightarrow>
   map ll_fields lls = map (rr_fields origin defaultTtl rr) rs \<Longrightarrow> list_all (\<lambda>l. \<not> ll_leadingWhitespace l) lls \<Longrightarrow>
   \<exists>last'. foldl parse_logical (read_state origin defaultTtl lastOwner acc) lls
     = read_state origin defaultTtl last' (foldl (push_record rr) acc rs)"
proof (induction rs arbitrary: lls lastOwner acc)
  case (Cons r rs)
  from Cons.prems(3) obtain l ls where l: "lls = l # ls" "ll_fields l = rr_fields origin defaultTtl rr r"
    "map ll_fields ls = map (rr_fields origin defaultTtl rr) rs" by (cases lls) auto
  have p: "readable (zf_type rr) (zf_content r)" "\<not> ll_leadingWhitespace l" using Cons.prems(2,4) l(1) by simp_all
  obtain last1 where "parse_logical (read_state origin defaultTtl lastOwner acc) l
      = read_state origin defaultTtl last1 (push_record rr acc r)"
    using parse_printed [OF Cons.prems(1) p(1) l(2) p(2)] unfolding push_record_def by blast
  with Cons.IH [OF Cons.prems(1) _ l(3), of last1 "push_record rr acc r"] Cons.prems(2,4) l(1) show ?case by simp
qed auto

lemma rrset_ok_enabled: "rrset_ok origin defaultTtl rr \<Longrightarrow> list_all (\<lambda>r. readable (zf_type rr) (zf_content r)) (enabled rr)"
  by (auto simp: rrset_ok_def Let_def enabled_def list_all_iff)

lemma parse_rrsets:
  "list_all (rrset_ok origin defaultTtl) rrs \<Longrightarrow>
   map ll_fields lls = concat (map (\<lambda>rr. map (rr_fields origin defaultTtl rr) (enabled rr)) rrs) \<Longrightarrow>
   list_all (\<lambda>l. \<not> ll_leadingWhitespace l) lls \<Longrightarrow>
   \<exists>last'. foldl parse_logical (read_state origin defaultTtl lastOwner acc) lls
     = read_state origin defaultTtl last' (foldl (\<lambda>acc rr. foldl (push_record rr) acc (enabled rr)) acc rrs)"
proof (induction rrs arbitrary: lls lastOwner acc)
  case (Cons rr rrs)
  from Cons.prems(2) obtain la lb where l: "lls = la @ lb" "map ll_fields la = map (rr_fields origin defaultTtl rr) (enabled rr)"
    "map ll_fields lb = concat (map (\<lambda>rr. map (rr_fields origin defaultTtl rr) (enabled rr)) rrs)"
    by (auto simp: map_eq_append_conv)
  have p: "rrset_ok origin defaultTtl rr" "list_all (rrset_ok origin defaultTtl) rrs"
    "list_all (\<lambda>l. \<not> ll_leadingWhitespace l) la" "list_all (\<lambda>l. \<not> ll_leadingWhitespace l) lb"
    using Cons.prems(1,3) l(1) by simp_all
  obtain last1 where "foldl parse_logical (read_state origin defaultTtl lastOwner acc) la
      = read_state origin defaultTtl last1 (foldl (push_record rr) acc (enabled rr))"
    using parse_rrset [OF p(1) rrset_ok_enabled [OF p(1)] l(2) p(3)] by blast
  with Cons.IH [OF p(2) l(3) p(4), of last1 "foldl (push_record rr) acc (enabled rr)"] l(1) show ?case by simp
qed auto

subsection \<open>The zone read back\<close>

lemma push_content_new:
  "(name, type) \<notin> parsed_key ` set acc \<Longrightarrow>
   push_content acc name type ttl c = acc @ [\<lparr>pr_name = name, pr_type = type, pr_ttl = ttl, pr_records = [c]\<rparr>]"
  by (induction acc) (auto simp: parsed_key_def)

lemma push_content_last:
  "(name, type) \<notin> parsed_key ` set acc \<Longrightarrow>
   push_content (acc @ [\<lparr>pr_name = name, pr_type = type, pr_ttl = ttl', pr_records = cs\<rparr>]) name type ttl c
     = acc @ [\<lparr>pr_name = name, pr_type = type, pr_ttl = ttl', pr_records = cs @ [c]\<rparr>]"
  by (induction acc) (auto simp: parsed_key_def)

definition read_rrset :: "zonefile_rrset \<Rightarrow> parsed_rrset" where
  "read_rrset rr =
     \<lparr>pr_name = zf_name rr, pr_type = zf_type rr, pr_ttl = zf_ttl rr,
      pr_records = map (\<lambda>r. read_content (zf_type rr) (zf_content r)) (enabled rr)\<rparr>"

definition read_zone_back :: "zonefile_rrset list \<Rightarrow> parsed_rrset list" where
  "read_zone_back rrs = map read_rrset (filter (\<lambda>rr. enabled rr \<noteq> []) rrs)"

lemma push_records_more:
  "(zf_name rr, zf_type rr) \<notin> parsed_key ` set acc \<Longrightarrow>
   foldl (push_record rr) (acc @ [\<lparr>pr_name = zf_name rr, pr_type = zf_type rr, pr_ttl = zf_ttl rr, pr_records = cs\<rparr>]) rs
     = acc @ [\<lparr>pr_name = zf_name rr, pr_type = zf_type rr, pr_ttl = zf_ttl rr,
               pr_records = cs @ map (\<lambda>r. read_content (zf_type rr) (zf_content r)) rs\<rparr>]"
  by (induction rs arbitrary: cs) (simp_all add: push_record_def push_content_last)

lemma push_records:
  assumes "(zf_name rr, zf_type rr) \<notin> parsed_key ` set acc"
  shows "foldl (push_record rr) acc (enabled rr) = acc @ read_zone_back [rr]"
proof (cases "enabled rr")
  case Nil
  then show ?thesis by (simp add: read_zone_back_def)
next
  case (Cons r rs)
  then show ?thesis
    using push_content_new [OF assms] push_records_more [OF assms]
    by (simp add: read_zone_back_def read_rrset_def) (simp add: push_record_def)
qed

lemma keys_read_back: "parsed_key ` set (read_zone_back rrs) \<subseteq> (\<lambda>rr. (zf_name rr, zf_type rr)) ` set rrs"
  by (auto simp: read_zone_back_def parsed_key_def read_rrset_def)

lemma push_all:
  "distinct (map (\<lambda>rr. (zf_name rr, zf_type rr)) rrs) \<Longrightarrow>
   \<forall>rr \<in> set rrs. (zf_name rr, zf_type rr) \<notin> parsed_key ` set acc \<Longrightarrow>
   foldl (\<lambda>acc rr. foldl (push_record rr) acc (enabled rr)) acc rrs = acc @ read_zone_back rrs"
proof (induction rrs arbitrary: acc)
  case (Cons rr rrs)
  have n: "\<forall>x \<in> set rrs. (zf_name x, zf_type x) \<notin> parsed_key ` set (acc @ read_zone_back [rr])"
    using Cons.prems keys_read_back [of "[rr]"] by force
  have d: "distinct (map (\<lambda>rr. (zf_name rr, zf_type rr)) rrs)" using Cons.prems(1) by simp
  have p: "foldl (push_record rr) acc (enabled rr) = acc @ read_zone_back [rr]" using Cons.prems(2) by (simp add: push_records)
  have "read_zone_back (rr # rrs) = read_zone_back [rr] @ read_zone_back rrs" by (simp add: read_zone_back_def)
  with Cons.IH [OF d n] show ?case by (simp add: p)
qed (simp add: read_zone_back_def)

lemma mset_sortRrsets: "mset (sortRrsets localeCompare rrs) = mset rrs"
proof -
  have "mset (sortRrsets localeCompare rrs)
      = mset (filter (\<lambda>r. zf_type r = ''SOA'') rrs) + mset (filter (\<lambda>r. zf_type r = ''NS'') rrs)
        + mset (filter (\<lambda>r. zf_type r \<noteq> ''SOA'' \<and> zf_type r \<noteq> ''NS'') rrs)"
    by (simp add: sortRrsets_def Let_def)
  also have "\<dots> = mset rrs" by (induction rrs) auto
  finally show ?thesis .
qed

lemma distinct_sorted:
  "distinct (map f (sortRrsets localeCompare rrs)) = distinct (map f rrs)"
  by (metis mset_map mset_sortRrsets mset_eq_imp_distinct_iff)

lemma read_directives:
  assumes "canonicalize origin = Some origin" "length origin > 0"
    and "ll_fields a = [''$TTL'', dec_of_nat n]" "ll_fields b = [''$ORIGIN'', origin]"
  shows "foldl parse_logical (parser_start []) [a, b] = read_state origin n None []"
proof -
  have u: "js_upper ''TTL'' = ''TTL''" "js_upper ''ORIGIN'' = ''ORIGIN''" by code_simp+
  have d: "list_all directive_char ''TTL''" "list_all directive_char ''ORIGIN''" by code_simp+
  show ?thesis
    using assms(1,2)
    by (simp add: parse_logical_def assms(3,4) starts_with_def directive_def u d [simplified] parseTtl_digits parser_start_def
        read_state_def Let_def)
qed


subsection \<open>Quoted text\<close>

definition quoting :: "string list \<Rightarrow> string \<Rightarrow> nat \<Rightarrow> scan_state" where
  "quoting fs x d = \<lparr>sc_fields = fs, sc_field = x, sc_inQuotes = True, sc_escaped = False, sc_depth = d\<rparr>"

lemma escape_with_append: "escape_with d (s @ t) = escape_with d s @ escape_with d t"
  by (simp add: escape_with_def)

definition escaped_txt :: "string \<Rightarrow> string" where
  "escaped_txt s = escape_with QUOTE (escape_with BACKSLASH s)"

lemma escaped_txt_Cons:
  "escaped_txt (c # s) = (if c = BACKSLASH \<or> c = QUOTE then [BACKSLASH, c] else [c]) @ escaped_txt s"
proof -
  have "escape_with BACKSLASH (c # s) = escape_with BACKSLASH [c] @ escape_with BACKSLASH s"
    using escape_with_append [of BACKSLASH "[c]" s] by simp
  then have "escaped_txt (c # s) = escape_with QUOTE (escape_with BACKSLASH [c]) @ escaped_txt s"
    by (simp add: escaped_txt_def escape_with_append)
  then show ?thesis by (simp add: escape_with_def)
qed

lemma scan_escaped_txt: "scan_chars (escaped_txt s @ rest) (quoting fs x d) = scan_chars rest (quoting fs (x @ escaped_txt s) d)"
proof (induction s arbitrary: x)
  case Nil
  show ?case by (simp add: escaped_txt_def escape_with_def)
next
  case (Cons c s)
  then show ?case by (simp add: escaped_txt_Cons quoting_def scan_char_def add_char_def)
qed

lemma formatTxt_scans:
  assumes "\<not> (starts_with content [QUOTE] \<and> ends_with content [QUOTE])"
  shows "flush (scan_chars (formatTxt content) (scan_start d)) = scanning [formatTxt content] [] d"
proof -
  have f: "formatTxt content = [QUOTE] @ escaped_txt content @ [QUOTE]"
    unfolding formatTxt_def if_not_P [OF assms] escaped_txt_def ..
  have "scan_chars (formatTxt content) (scan_start d) = scan_chars (escaped_txt content @ [QUOTE]) (quoting [] [QUOTE] d)"
    unfolding f by (simp add: scan_start_def quoting_def scan_char_def add_char_def)
  also have "\<dots> = scanning [] (formatTxt content) d"
    unfolding scan_escaped_txt f by (simp add: quoting_def scanning_def scan_char_def add_char_def)
  finally show ?thesis by (simp add: flush_scanning f)
qed



subsection \<open>Examples\<close>

definition sample_a :: zonefile_rrset where
  "sample_a = \<lparr>zf_name = ''www.example.org.'', zf_type = ''A'', zf_ttl = 60,
     zf_records = [\<lparr>zf_content = ''192.0.2.1'', zf_disabled = False\<rparr>, \<lparr>zf_content = ''192.0.2.2'', zf_disabled = True\<rparr>]\<rparr>"

definition sample_txt :: zonefile_rrset where
  "sample_txt = \<lparr>zf_name = ''example.org.'', zf_type = ''TXT'', zf_ttl = 3600,
     zf_records = [\<lparr>zf_content = ''a (b; c)'', zf_disabled = False\<rparr>]\<rparr>"

definition sample_soa :: zonefile_rrset where
  "sample_soa = \<lparr>zf_name = ''example.org.'', zf_type = ''SOA'', zf_ttl = 3600,
     zf_records = [\<lparr>zf_content = ''ns h 1 2 3 4 5'', zf_disabled = False\<rparr>]\<rparr>"

definition sample_zone :: serialize_input where
  "sample_zone = \<lparr>si_zoneName = ''example.org'', si_rrsets = [sample_a, sample_txt, sample_soa],
     si_defaultTtl = Some 3600, si_headerComments = [''exported'']\<rparr>"

lemma apex_ok: "relativise ''example.org.'' ''example.org.'' = ''@'' \<and> bare_word ''@'' \<and> expandOwner ''@'' ''example.org.'' = ''example.org.''"
  by (simp add: relativise_def bare_word_def plain_char_def is_blank_def expandOwner_def)

lemma sample_types: "list_all (\<lambda>t. TYPE_TOKEN t \<and> t \<notin> set SKIPPED_TYPES) [''A'', ''TXT'', ''SOA'']"
  by (simp add: TYPE_TOKEN_def is_upper_letter_def SKIPPED_TYPES_def)

lemma sample_a_ok: "rrset_ok ''example.org.'' 3600 sample_a"
proof -
  have r: "relativise ''www.example.org.'' ''example.org.'' = ''www''" by (simp add: relativise_def ends_with_def)
  have e: "bare_word ''www''" "expandOwner ''www'' ''example.org.'' = ''www.example.org.''" by code_simp+
  have t: "readable ''A'' ''192.0.2.1''" by code_simp
  have "length ''www'' < 20" "(60 :: nat) < 10 ^ 7" by simp_all
  then show ?thesis using r e t sample_types by (simp add: rrset_ok_def sample_a_def)
qed

lemma sample_txt_ok: "rrset_ok ''example.org.'' 3600 sample_txt"
proof -
  have "readable ''TXT'' ''a (b; c)''" by code_simp
  then show ?thesis using apex_ok sample_types by (simp add: rrset_ok_def sample_txt_def)
qed

lemma sample_soa_ok: "rrset_ok ''example.org.'' 3600 sample_soa"
proof -
  have "readable ''SOA'' ''ns h 1 2 3 4 5''" by code_simp
  then show ?thesis using apex_ok sample_types by (simp add: rrset_ok_def sample_soa_def)
qed


text \<open>
  Outside the conditions the export is wrong: an owner of twenty characters or more with its own TTL is
  printed without a blank between the two, and comes back under another name with the default TTL.
\<close>

lemma long_owner_runs_into_ttl:
  "record_lines \<lparr>zf_name = ''autodiscover-service1.example.org.'', zf_type = ''A'', zf_ttl = 300,
       zf_records = [\<lparr>zf_content = ''192.0.2.1'', zf_disabled = False\<rparr>]\<rparr> ''example.org.'' 3600
     \<lparr>zf_content = ''192.0.2.1'', zf_disabled = False\<rparr>
   = [''autodiscover-service1300     IN      A       192.0.2.1'']"
proof -
  have r: "relativise ''autodiscover-service1.example.org.'' ''example.org.'' = ''autodiscover-service1''"
    by (simp add: relativise_def ends_with_def)
  have n: "dec_of_nat 300 = ''300''" by (simp add: dec_of_nat.simps [of 300] dec_of_nat.simps [of 30] dec_of_nat.simps [of 3] char_of_def bit_0)
  have p: "padEnd 20 ''autodiscover-service1'' = ''autodiscover-service1''" "padEnd 8 ''300'' = ''300     ''"
    "padEnd 8 ''A'' = ''A       ''"
    by (simp_all add: padEnd_def numeral_eq_Suc)
  show ?thesis by (simp add: record_lines_def r n p formatRdata_def)
qed

lemma long_owner_misread:
  "expandOwner (hd (sl_fields (scanLine ''autodiscover-service1300     IN      A       192.0.2.1'' 0))) ''example.org.''
   = ''autodiscover-service1300.example.org.''"
  by code_simp

end
