(* ===== verification/BindFormat.thy ===== *)
theory BindFormat
  imports Zonefile
begin

section \<open>The BIND view of a diff\<close>

text \<open>
  \<open>lib/dns/bind-format.ts\<close>: the text of a zone as the review dialog shows it, and the tokens of a line
  for its highlighting.
\<close>

record bind_rrset =
  bi_name :: string
  bi_type :: string
  bi_ttl :: nat
  bi_records :: "zonefile_record list"
  bi_comment :: "string option"

definition TAB :: string where "TAB = [CHR 0x09]"

definition DISABLED_SENTINEL :: string where "DISABLED_SENTINEL = ''; DISABLED ''"

definition bind_record_line :: "bind_rrset \<Rightarrow> zonefile_record \<Rightarrow> string" where
  "bind_record_line rr r =
     (if zf_disabled r then DISABLED_SENTINEL else []) @ bi_name rr @ TAB @ dec_of_nat (bi_ttl rr) @ TAB @ ''IN'' @ TAB
       @ bi_type rr @ TAB @ zf_content r"

definition bind_rrset_lines :: "(string \<Rightarrow> string \<Rightarrow> int) \<Rightarrow> bind_rrset \<Rightarrow> string list" where
  "bind_rrset_lines localeCompare rr =
     (let sorted = js_sort (\<lambda>a b. localeCompare (zf_content a) (zf_content b)) (bi_records rr);
          commentText = (case bi_comment rr of Some c \<Rightarrow> js_trim c | None \<Rightarrow> [])
      in map (bind_record_line rr) sorted
         @ (if commentText \<noteq> [] then [''; '' @ bi_name rr @ '' '' @ bi_type rr @ '' comment: '' @ commentText] else []))"

definition rrsetsToBindZonefile :: "(string \<Rightarrow> string \<Rightarrow> int) \<Rightarrow> bind_rrset list \<Rightarrow> string" where
  "rrsetsToBindZonefile localeCompare rrsets =
     join [LF] (''$ORIGIN .'' # concat (map (bind_rrset_lines localeCompare) rrsets)) @ [LF]"

datatype bind_token_kind =
  TkDirective | TkComment | TkDisabled | TkName | TkTtl | TkClass | TkType | TkRdata | TkWhitespace | TkEmpty

type_synonym bind_token = "bind_token_kind \<times> string"

text \<open>
  \<open>/^\$[A-Z]+\b/\<close>: the letters run on greedily, and giving any of them back leaves a letter on both
  sides, so the boundary can only be at the end of the run.
\<close>

definition is_word_char :: "char \<Rightarrow> bool" where
  "is_word_char c \<longleftrightarrow> is_upper_letter c \<or> 97 \<le> code c \<and> code c \<le> 122 \<or> is_digit c \<or> c = CHR ''_''"

definition directive_match :: "string \<Rightarrow> string option" where
  "directive_match line =
     (case line of
        [] \<Rightarrow> None
      | c # cs \<Rightarrow>
          (let run = takeWhile is_upper_letter cs; rest = dropWhile is_upper_letter cs in
           if c = CHR ''$'' \<and> run \<noteq> [] \<and> (rest = [] \<or> \<not> is_word_char (hd rest)) then Some (c # run) else None))"

record split_state =
  sp_parts :: "string list"
  sp_buf :: string
  sp_inWs :: bool

definition split_step :: "split_state \<Rightarrow> char \<Rightarrow> split_state" where
  "split_step st ch =
     (let isWs = is_ws ch in
      if isWs \<noteq> sp_inWs st then
        \<lparr>sp_parts = (if length (sp_buf st) > 0 then sp_parts st @ [sp_buf st] else sp_parts st), sp_buf = [ch], sp_inWs = isWs\<rparr>
      else st\<lparr>sp_buf := sp_buf st @ [ch]\<rparr>)"

definition splitPreservingWhitespace :: "string \<Rightarrow> string list" where
  "splitPreservingWhitespace inp =
     (let st = foldl split_step \<lparr>sp_parts = [], sp_buf = [], sp_inWs = (inp \<noteq> [] \<and> is_ws (hd inp))\<rparr> inp in
      if length (sp_buf st) > 0 then sp_parts st @ [sp_buf st] else sp_parts st)"

definition RR_CLASSES :: "string list" where
  "RR_CLASSES = [''IN'', ''CH'', ''HS'']"

fun classify_parts :: "nat \<Rightarrow> string list \<Rightarrow> bind_token list" where
  "classify_parts i [] = []"
| "classify_parts i (part # parts) =
     (if list_all is_ws part then (TkWhitespace, part) # classify_parts i parts
      else (if i = 0 then TkName
            else if i = 1 \<and> list_all is_digit part then TkTtl
            else if i = 2 \<and> part \<in> set RR_CLASSES then TkClass
            else if i = 3 then TkType
            else TkRdata, part) # classify_parts (i + 1) parts)"

function tokenizeBindLine :: "string \<Rightarrow> bind_token list" where
  "tokenizeBindLine line =
     (if line = [] then [(TkEmpty, [])]
      else if starts_with line DISABLED_SENTINEL then
        (TkDisabled, DISABLED_SENTINEL) # tokenizeBindLine (drop (length DISABLED_SENTINEL) line)
      else if starts_with line '';'' then [(TkComment, line)]
      else case directive_match line of
        Some d \<Rightarrow>
          (let rest = drop (length d) line in (TkDirective, d) # (if length rest > 0 then [(TkRdata, rest)] else []))
      | None \<Rightarrow> classify_parts 0 (splitPreservingWhitespace line))"
  by pat_completeness auto

termination
  by (relation "measure length") (auto simp: DISABLED_SENTINEL_def neq_Nil_conv)

declare tokenizeBindLine.simps [simp del]

lemma split_fold:
  "concat (sp_parts (foldl split_step st inp)) @ sp_buf (foldl split_step st inp) = concat (sp_parts st) @ sp_buf st @ inp"
  by (induction inp arbitrary: st) (simp_all add: split_step_def Let_def)

lemma splitPreservingWhitespace_concat: "concat (splitPreservingWhitespace inp) = inp"
  using split_fold [of "\<lparr>sp_parts = [], sp_buf = [], sp_inWs = (inp \<noteq> [] \<and> is_ws (hd inp))\<rparr>" inp]
  by (auto simp: splitPreservingWhitespace_def Let_def)

lemma classify_parts_text: "map snd (classify_parts i parts) = parts"
  by (induction i parts rule: classify_parts.induct) simp_all

lemma directive_match_prefix: "directive_match line = Some d \<Longrightarrow> d @ drop (length d) line = line"
  by (auto simp: directive_match_def Let_def dropWhile_eq_drop [symmetric] split: list.splits if_splits)

text \<open>Highlighting loses nothing: the texts of the tokens of a line, one after the other, are the line.\<close>

theorem tokenizeBindLine_lossless: "concat (map snd (tokenizeBindLine line)) = line"
proof (induction line rule: tokenizeBindLine.induct)
  case (1 line)
  consider "line = []" | "line \<noteq> []" "starts_with line DISABLED_SENTINEL"
    | "line \<noteq> []" "\<not> starts_with line DISABLED_SENTINEL" "starts_with line '';''"
    | d where "line \<noteq> []" "\<not> starts_with line DISABLED_SENTINEL" "\<not> starts_with line '';''" "directive_match line = Some d"
    | "line \<noteq> []" "\<not> starts_with line DISABLED_SENTINEL" "\<not> starts_with line '';''" "directive_match line = None"
    by (cases "directive_match line") blast+
  then show ?case
  proof cases
    case 1
    then show ?thesis by (simp add: tokenizeBindLine.simps [of "[]"])
  next
    case 2
    have "DISABLED_SENTINEL @ drop (length DISABLED_SENTINEL) line = line"
      using 2(2) unfolding starts_with_def by (metis append_take_drop_id)
    with 1 2 show ?thesis by (simp add: tokenizeBindLine.simps [of line])
  next
    case (4 d)
    then show ?thesis using directive_match_prefix [OF 4(4)] by (auto simp: tokenizeBindLine.simps [of line] Let_def)
  qed (simp_all add: tokenizeBindLine.simps [of line] classify_parts_text splitPreservingWhitespace_concat)
qed

end
