(* ===== verification/RrAddress.thy ===== *)
theory RrAddress
  imports RrNames
begin

section \<open>Record contents: addresses\<close>

text \<open>
  \<open>lib/validators/rr-types/a.ts\<close> and \<open>aaaa.ts\<close>: the parsers of IPv4 and IPv6 text, the warnings for
  special ranges, and the canonical text of RFC 5952.
\<close>

subsection \<open>a.ts\<close>

definition IPV4_RE :: "string \<Rightarrow> bool" where
  "IPV4_RE s \<longleftrightarrow> (let parts = split_on (CHR ''.'') s in length parts = 4 \<and> list_all digits13 parts)"

definition a_range_issues :: "nat list \<Rightarrow> rr_issue list" where
  "a_range_issues octets =
     (let a = octets ! 0; b = octets ! 1 in
      if a = 0 \<and> b = 0 \<and> octets ! 2 = 0 \<and> octets ! 3 = 0 then [rr_warning (SpecialAddress ''0.0.0.0'')]
      else if a = 127 then [rr_warning (SpecialAddress ''127.0.0.0/8'')]
      else if a = 169 \<and> b = 254 then [rr_warning (SpecialAddress ''169.254.0.0/16'')]
      else if a \<ge> 224 \<and> a \<le> 239 then [rr_warning (SpecialAddress ''224.0.0.0/4'')]
      else if a \<ge> 240 then [rr_warning (SpecialAddress ''240.0.0.0/4'')]
      else [])"

definition a_validate :: "string \<Rightarrow> rr_result" where
  "a_validate content =
     (let trimmed = js_trim content in
      if \<not> IPV4_RE trimmed then rr_return [rr_error NotIpv4] trimmed
      else
        let octets = map nat_of_dec (split_on (CHR ''.'') trimmed) in
        case List.find (\<lambda>oct. oct > 255) octets of
          Some oct \<Rightarrow> rr_return [rr_error (OctetRange oct)] trimmed
        | None \<Rightarrow> rr_return (a_range_issues octets) (join ''.'' (map dec_of_nat octets)))"

subsection \<open>aaaa.ts\<close>

text \<open>The dotted quad at the end, if there is one: what is left to parse, and its octets.\<close>

definition v6_dotted_tail :: "string \<Rightarrow> (string \<times> nat list option) option" where
  "v6_dotted_tail s =
     (let tail = rev (takeWhile (\<lambda>c. c \<noteq> CHR '':'') (rev s)) in
      if CHR '':'' \<in> set s \<and> CHR ''.'' \<in> set tail then
        (if \<not> IPV4_RE tail then None
         else
           let octets = map nat_of_dec (split_on (CHR ''.'') tail) in
           if list_ex (\<lambda>o'. o' > 255) octets then None
           else Some (take (length s - length tail) s @ ''0:0'', Some octets))
      else Some (s, None))"

definition v6_side :: "string \<Rightarrow> string list" where
  "v6_side half = (if half = [] then [] else split_on (CHR '':'') half)"

fun v6_numbers :: "string list \<Rightarrow> nat list option" where
  "v6_numbers [] = Some []"
| "v6_numbers (g # gs) =
     (if length g = 0 \<or> length g > 4 \<or> \<not> list_all is_hex_any g then None
      else map_option (Cons (nat_of_hex (js_lower g))) (v6_numbers gs))"

definition aaaa_groups :: "string \<Rightarrow> string list option" where
  "aaaa_groups s =
     (let halves = split_dcolon s in
      if length halves > 2 then None
      else
        let left = v6_side (halves ! 0) in
        if length halves = 2 then
          (let right = v6_side (halves ! 1) in
           if length left + length right > 7 then None
           else Some (left @ replicate (8 - length left - length right) ''0'' @ right))
        else if length left \<noteq> 8 then None else Some left)"

definition parseIpv6 :: "string \<Rightarrow> nat list option" where
  "parseIpv6 inp =
     (if inp = [] then None
      else
        let s = (if starts_with inp ''['' \<and> ends_with inp '']'' then butlast (tl inp) else inp) in
        if CHR ''%'' \<in> set s then None
        else case v6_dotted_tail s of
          None \<Rightarrow> None
        | Some (body, v4Tail) \<Rightarrow>
            (case aaaa_groups body of
               None \<Rightarrow> None
             | Some groups \<Rightarrow>
                 (case v6_numbers groups of
                    None \<Rightarrow> None
                  | Some out \<Rightarrow>
                      Some (case v4Tail of
                              None \<Rightarrow> out
                            | Some o4 \<Rightarrow> out[6 := o4 ! 0 * 256 + o4 ! 1, 7 := o4 ! 2 * 256 + o4 ! 3]))))"

record zero_scan =
  zr_bestStart :: nat
  zr_bestLen :: nat
  zr_curStart :: "nat option"
  zr_curLen :: nat

definition zero_run_step :: "nat list \<Rightarrow> zero_scan \<Rightarrow> nat \<Rightarrow> zero_scan" where
  "zero_run_step groups z i =
     (if groups ! i = 0 then
        (let start = (case zr_curStart z of None \<Rightarrow> i | Some k \<Rightarrow> k); len = zr_curLen z + 1;
             z1 = z\<lparr>zr_curStart := Some start, zr_curLen := len\<rparr>
         in if len > zr_bestLen z then z1\<lparr>zr_bestStart := start, zr_bestLen := len\<rparr> else z1)
      else z\<lparr>zr_curStart := None, zr_curLen := 0\<rparr>)"

definition longest_zero_run :: "nat list \<Rightarrow> zero_scan" where
  "longest_zero_run groups =
     foldl (zero_run_step groups) \<lparr>zr_bestStart = 0, zr_bestLen = 0, zr_curStart = None, zr_curLen = 0\<rparr> [0..<8]"

definition canonicalizeIpv6 :: "nat list \<Rightarrow> string" where
  "canonicalizeIpv6 groups =
     (let z = longest_zero_run groups; hex = map hex_of_nat groups in
      if zr_bestLen z < 2 then join '':'' hex
      else join '':'' (take (zr_bestStart z) hex) @ ''::'' @ join '':'' (drop (zr_bestStart z + zr_bestLen z) hex))"

definition aaaa_range_issues :: "nat list \<Rightarrow> rr_issue list" where
  "aaaa_range_issues gs =
     (let g0 = gs ! 0 in
      if list_all (\<lambda>g. g = 0) gs then [rr_warning (SpecialAddress ''::'')]
      else if list_all (\<lambda>g. g = 0) (take 7 gs) \<and> gs ! 7 = 1 then [rr_warning (SpecialAddress ''::1'')]
      else if and g0 0xffc0 = 0xfe80 then [rr_warning (SpecialAddress ''fe80::/10'')]
      else if and g0 0xfe00 = 0xfc00 then [rr_warning (SpecialAddress ''fc00::/7'')]
      else if and g0 0xff00 = 0xff00 then [rr_warning (SpecialAddress ''ff00::/8'')]
      else if g0 = 0 \<and> gs ! 1 = 0 \<and> gs ! 2 = 0 \<and> gs ! 3 = 0 \<and> gs ! 4 = 0 \<and> gs ! 5 = 0xffff
        then [rr_warning (SpecialAddress ''::ffff:0:0/96'')]
      else [])"

definition aaaa_validate :: "string \<Rightarrow> rr_result" where
  "aaaa_validate content =
     (let trimmed = js_trim content in
      case parseIpv6 trimmed of
        None \<Rightarrow> rr_return [rr_error NotIpv6] trimmed
      | Some parsed \<Rightarrow> rr_return (aaaa_range_issues parsed) (canonicalizeIpv6 parsed))"

subsection \<open>The canonical text\<close>

definition run_ok :: "nat list \<Rightarrow> nat \<Rightarrow> zero_scan \<Rightarrow> bool" where
  "run_ok gs n z \<longleftrightarrow>
     zr_bestStart z + zr_bestLen z \<le> n \<and> (\<forall>i \<in> {zr_bestStart z..<zr_bestStart z + zr_bestLen z}. gs ! i = 0)
     \<and> (case zr_curStart z of
          None \<Rightarrow> zr_curLen z = 0
        | Some k \<Rightarrow> k + zr_curLen z = n \<and> (\<forall>i \<in> {k..<n}. gs ! i = 0))"

lemma run_ok_step: "run_ok gs n z \<Longrightarrow> run_ok gs (Suc n) (zero_run_step gs z n)"
  by (auto simp: run_ok_def zero_run_step_def Let_def less_Suc_eq split: option.splits)

lemma run_ok_fold: "run_ok gs n (foldl (zero_run_step gs) \<lparr>zr_bestStart = 0, zr_bestLen = 0, zr_curStart = None, zr_curLen = 0\<rparr> [0..<n])"
  by (induction n) (simp_all add: run_ok_step, simp add: run_ok_def)

lemma longest_zero_run_ok: "run_ok gs 8 (longest_zero_run gs)"
  unfolding longest_zero_run_def by (rule run_ok_fold)

lemma zeros_between:
  assumes "\<forall>i \<in> {s..<s + n}. gs ! i = (0 :: nat)" "s + n \<le> length gs"
  shows "gs = take s gs @ replicate n 0 @ drop (s + n) gs"
proof -
  have "take n (drop s gs) = replicate n 0"
    using assms by (intro nth_equalityI) auto
  then show ?thesis by (metis append_take_drop_id drop_drop add.commute)
qed

lemma hex_of_nat_any: "list_all is_hex_any (hex_of_nat n)"
proof -
  have "is_hex_any c" if "is_hex c" for c using that by (auto simp: is_hex_def is_hex_any_def)
  with hex_of_nat_hex [of n] show ?thesis by (auto simp: list_all_iff)
qed

lemma hex_lower: "js_lower (hex_of_nat n) = hex_of_nat n"
proof (rule js_lower_id)
  fix c assume "c \<in> set (hex_of_nat n)"
  then have "is_hex c" using hex_of_nat_hex [of n] by (auto simp: list_all_iff)
  then show "\<not> is_upper c" by (auto simp: is_hex_def is_digit_def is_upper_def)
qed

lemma nat_of_hex_of_nat: "nat_of_hex (hex_of_nat n) = n"
proof (induction n rule: hex_of_nat.induct)
  case (1 n)
  show ?case
  proof (cases "n < 16")
    case True
    then show ?thesis by (simp add: hex_of_nat.simps [of n] nat_of_hex_def hex_val_digit)
  next
    case False
    then show ?thesis using 1 by (simp add: hex_of_nat.simps [of n] nat_of_hex_snoc hex_val_digit)
  qed
qed

lemma v6_numbers_hex:
  "list_all (\<lambda>g. g < 65536) gs \<Longrightarrow> v6_numbers (map hex_of_nat gs) = Some gs"
proof (induction gs)
  case (Cons g gs)
  then have "length (hex_of_nat g) \<le> 4" using hex_of_nat_length [of g 4] by simp
  with Cons show ?case by (simp add: hex_of_nat_any hex_lower nat_of_hex_of_nat not_less)
qed simp

lemma hex_addr_groups: "\<forall>g \<in> set (map hex_of_nat gs). addr_group g"
proof
  fix g assume "g \<in> set (map hex_of_nat gs)"
  then obtain n where g: "g = hex_of_nat n" by auto
  have "CHR '':'' \<notin> set (hex_of_nat n)" using hex_of_nat_hex [of n] by (auto simp: list_all_iff is_hex_def is_digit_def)
  then show "addr_group g" by (simp add: g addr_group_def)
qed

lemma v6_side_join: "v6_side (join '':'' (map hex_of_nat gs)) = map hex_of_nat gs"
proof (cases gs)
  case (Cons g gs')
  have "join '':'' (map hex_of_nat gs) \<noteq> []" using join_hd [OF hex_addr_groups, of gs "'':''"] Cons by simp
  moreover have "split_on (CHR '':'') (join '':'' (map hex_of_nat gs)) = map hex_of_nat gs"
    using hex_addr_groups [of gs] Cons by (intro split_join) (auto simp: addr_group_def)
  ultimately show ?thesis by (simp add: v6_side_def)
qed (simp add: v6_side_def)

lemma aaaa_groups_canonical:
  assumes l: "length gs = 8"
  shows "aaaa_groups (canonicalizeIpv6 gs) = Some (map hex_of_nat gs)"
proof -
  define z where "z = longest_zero_run gs"
  let ?s = "zr_bestStart z" and ?n = "zr_bestLen z"
  have r: "?s + ?n \<le> 8" "\<forall>i \<in> {?s..<?s + ?n}. gs ! i = 0" using longest_zero_run_ok [of gs] by (simp_all add: run_ok_def z_def)
  show ?thesis
  proof (cases "?n < 2")
    case True
    have "canonicalizeIpv6 gs = join '':'' (map hex_of_nat gs)" using True by (simp add: canonicalizeIpv6_def Let_def z_def [symmetric])
    with v6_side_join [of gs] split_dcolon_join [OF hex_addr_groups, of gs] l show ?thesis by (simp add: aaaa_groups_def Let_def)
  next
    case False
    let ?a = "take ?s gs" and ?b = "drop (?s + ?n) gs"
    have c: "canonicalizeIpv6 gs = join '':'' (map hex_of_nat ?a) @ ''::'' @ join '':'' (map hex_of_nat ?b)"
      using False by (simp add: canonicalizeIpv6_def Let_def z_def [symmetric] take_map drop_map)
    have d: "split_dcolon (canonicalizeIpv6 gs) = [join '':'' (map hex_of_nat ?a), join '':'' (map hex_of_nat ?b)]"
      unfolding c by (rule split_dcolon_join2 [OF hex_addr_groups hex_addr_groups])
    have g: "gs = ?a @ replicate ?n 0 @ ?b" by (rule zeros_between [OF r(2)]) (simp add: l r(1))
    have z0: "hex_of_nat 0 = ''0''" by code_simp
    have len: "length ?a + length ?b + ?n = 8" "\<not> length ?a + length ?b > 7" using r(1) l False by simp_all
    have "map hex_of_nat gs = map hex_of_nat ?a @ replicate ?n ''0'' @ map hex_of_nat ?b"
      by (subst g) (simp add: z0 map_replicate)
    with len show ?thesis
      by (simp add: aaaa_groups_def d v6_side_join Let_def)
  qed
qed

lemma set_join_hex: "c \<in> set (join '':'' (map hex_of_nat gs)) \<Longrightarrow> is_hex c \<or> c = CHR '':''"
  using set_join [of "'':''" "map hex_of_nat gs"] hex_of_nat_hex by (auto simp: list_all_iff)

lemma set_canonical: "c \<in> set (canonicalizeIpv6 gs) \<Longrightarrow> is_hex c \<or> c = CHR '':''"
  unfolding canonicalizeIpv6_def Let_def take_map drop_map by (auto dest!: set_join_hex split: if_splits)

lemma parse_canonical:
  assumes "length gs = 8" "list_all (\<lambda>g. g < 65536) gs"
  shows "parseIpv6 (canonicalizeIpv6 gs) = Some gs"
proof -
  let ?c = "canonicalizeIpv6 gs"
  have no: "c \<notin> set ?c" if "c = CHR ''['' \<or> c = CHR ''%'' \<or> c = CHR ''.''" for c
    using that set_canonical [of c gs] by (auto simp: is_hex_def is_digit_def)
  have ne: "?c \<noteq> []"
  proof
    assume "?c = []"
    with aaaa_groups_canonical [OF assms(1)] have "aaaa_groups [] = Some (map hex_of_nat gs)" by simp
    then show False by (simp add: aaaa_groups_def v6_side_def Let_def)
  qed
  have br: "\<not> starts_with ?c ''[''" using no [of "CHR ''[''"] ne by (cases ?c) (auto simp: starts_with_def)
  have t: "v6_dotted_tail ?c = Some (?c, None)"
  proof -
    have "CHR ''.'' \<notin> set (rev (takeWhile (\<lambda>c. c \<noteq> CHR '':'') (rev ?c)))"
      using no [of "CHR ''.''"] by (auto dest: set_takeWhileD)
    then show ?thesis by (simp add: v6_dotted_tail_def Let_def)
  qed
  show ?thesis
    using ne br no [of "CHR ''%''"] t aaaa_groups_canonical [OF assms(1)] v6_numbers_hex [OF assms(2)]
    by (simp add: parseIpv6_def Let_def)
qed

lemma v6_numbers_bound: "v6_numbers gs = Some out \<Longrightarrow> length out = length gs \<and> list_all (\<lambda>g. g < 65536) out"
proof (induction gs arbitrary: out)
  case (Cons g gs)
  then obtain r where r: "v6_numbers gs = Some r" "out = nat_of_hex (js_lower g) # r" "length g \<le> 4" "list_all is_hex_any g"
    by (auto split: if_splits)
  have "list_all is_hex (js_lower g)"
    using r(4) by (auto simp: list_all_iff js_lower_def is_hex_any_def is_hex_def is_digit_def code_lower_char is_upper_def)
  then have "nat_of_hex (js_lower g) < 16 ^ length (js_lower g)" by (rule nat_of_hex_less)
  also have "\<dots> \<le> 16 ^ 4" using r(3) by (intro power_increasing) (simp_all add: js_lower_def)
  finally show ?case using Cons.IH [OF r(1)] r(2) by simp
qed simp

lemma aaaa_groups_8: "aaaa_groups s = Some gs \<Longrightarrow> length gs = 8"
  by (auto simp: aaaa_groups_def Let_def split: if_splits)

lemma parseIpv6_bound:
  assumes "parseIpv6 s = Some gs"
  shows "length gs = 8 \<and> list_all (\<lambda>g. g < 65536) gs"
proof -
  obtain body v4 groups out where p: "v6_dotted_tail (if starts_with s ''['' \<and> ends_with s '']'' then butlast (tl s) else s) = Some (body, v4)"
    "aaaa_groups body = Some groups" "v6_numbers groups = Some out"
    "gs = (case v4 of None \<Rightarrow> out | Some o4 \<Rightarrow> out[6 := o4 ! 0 * 256 + o4 ! 1, 7 := o4 ! 2 * 256 + o4 ! 3])"
    using assms by (auto simp: parseIpv6_def Let_def split: if_splits option.splits prod.splits)
  have o: "length out = 8" "list_all (\<lambda>g. g < 65536) out" using v6_numbers_bound [OF p(3)] aaaa_groups_8 [OF p(2)] by simp_all
  show ?thesis
  proof (cases v4)
    case None
    with o p(4) show ?thesis by simp
  next
    case (Some o4)
    have "length o4 = 4 \<and> list_all (\<lambda>x. x \<le> 255) o4"
      using p(1) Some by (auto simp: v6_dotted_tail_def IPV4_RE_def Let_def list_ex_iff list_all_iff not_less split: if_splits)
    then have "o4 ! i \<le> 255" if "i < 4" for i using that by (simp add: list_all_length)
    from this [of 0] this [of 1] this [of 2] this [of 3] have
      "o4 ! 0 * 256 + o4 ! 1 < 65536" "o4 ! 2 * 256 + o4 ! 3 < 65536" by simp_all
    then have "list_all (\<lambda>g. g < 65536) (out[6 := o4 ! 0 * 256 + o4 ! 1, 7 := o4 ! 2 * 256 + o4 ! 3])"
      using o(2) by (auto simp: list_all_iff dest!: subsetD [OF set_update_subset_insert])
    then show ?thesis using o(1) p(4) Some by simp
  qed
qed

lemma aaaa_accepts: "hasErrors (aaaa_validate c) \<longleftrightarrow> parseIpv6 (js_trim c) = None"
  by (auto simp: aaaa_validate_def aaaa_range_issues_def Let_def split: option.splits)

text \<open>
  C23. The text an IPv6 value is stored as is canonical: it parses to the same eight groups, which fit
  sixteen bits, and two accepted values are stored alike exactly when they are the same address.
\<close>

theorem aaaa_normalized_canonical:
  assumes "\<not> hasErrors (aaaa_validate a)" "\<not> hasErrors (aaaa_validate b)"
  shows "parseIpv6 (rv_normalized (aaaa_validate a)) = parseIpv6 (js_trim a)
    \<and> (rv_normalized (aaaa_validate a) = rv_normalized (aaaa_validate b) \<longleftrightarrow> parseIpv6 (js_trim a) = parseIpv6 (js_trim b))"
proof -
  have e: "\<exists>gs. parseIpv6 (js_trim x) = Some gs \<and> rv_normalized (aaaa_validate x) = canonicalizeIpv6 gs
      \<and> parseIpv6 (canonicalizeIpv6 gs) = Some gs" if "\<not> hasErrors (aaaa_validate x)" for x
  proof (cases "parseIpv6 (js_trim x)")
    case None
    with that show ?thesis by (simp add: aaaa_validate_def hasErrors_def rr_return_def rr_error_def)
  next
    case (Some gs)
    with parseIpv6_bound [OF Some] parse_canonical show ?thesis by (simp add: aaaa_validate_def rr_return_def)
  qed
  obtain g where g: "parseIpv6 (js_trim a) = Some g" "rv_normalized (aaaa_validate a) = canonicalizeIpv6 g"
    "parseIpv6 (canonicalizeIpv6 g) = Some g" using e [OF assms(1)] by blast
  obtain h where h: "parseIpv6 (js_trim b) = Some h" "rv_normalized (aaaa_validate b) = canonicalizeIpv6 h"
    "parseIpv6 (canonicalizeIpv6 h) = Some h" using e [OF assms(2)] by blast
  have "canonicalizeIpv6 g = canonicalizeIpv6 h \<longleftrightarrow> g = h" using g(3) h(3) by (metis option.inject)
  then show ?thesis using g h by simp
qed

theorem aaaa_normalized_canonical_witness:
  "rv_normalized (aaaa_validate ''0:0::A'') = rv_normalized (aaaa_validate ''::0.0.0.10'')"
proof -
  have p: "parseIpv6 (js_trim ''0:0::A'') = Some [0, 0, 0, 0, 0, 0, 0, 10]" by code_simp
  have q: "parseIpv6 (js_trim ''::0.0.0.10'') = Some [0, 0, 0, 0, 0, 0, 0, 10]" by code_simp
  from aaaa_normalized_canonical [of "''0:0::A''" "''::0.0.0.10''"] show ?thesis by (simp add: aaaa_accepts p q)
qed

end
