(* ===== verification/RrText.thy ===== *)
theory RrText
  imports RrNames
begin

section \<open>Record contents: text, tags and snippets\<close>

text \<open>
  \<open>lib/validators/rr-types/txt.ts\<close>, \<open>caa.ts\<close>, \<open>uri.ts\<close>, \<open>lua.ts\<close>, \<open>naptr.ts\<close> and \<open>svcb.ts\<close>.  A regular
  expression of the form \<open>^(\S+)\s+...(.+)$\<close> is \<open>head_tokens\<close>: so many tokens, then the rest.
\<close>

fun head_tokens :: "nat \<Rightarrow> string \<Rightarrow> (string list \<times> string) option" where
  "head_tokens 0 s = (if s = [] then None else Some ([], s))"
| "head_tokens (Suc n) s =
     (let w = takeWhile (\<lambda>c. \<not> is_ws c) s; r = dropWhile (\<lambda>c. \<not> is_ws c) s in
      if w = [] \<or> r = [] then None
      else map_option (\<lambda>tr. (w # fst tr, snd tr)) (head_tokens n (dropWhile is_ws r)))"

text \<open>Without the \<open>s\<close> flag, \<open>.+\<close> ends at a line terminator.\<close>

definition one_line_tokens :: "nat \<Rightarrow> string \<Rightarrow> (string list \<times> string) option" where
  "one_line_tokens n s =
     (case head_tokens n s of
        None \<Rightarrow> None
      | Some tr \<Rightarrow> if LF \<in> set (snd tr) \<or> CR \<in> set (snd tr) then None else Some tr)"

definition is_quoted :: "string \<Rightarrow> bool" where
  "is_quoted v \<longleftrightarrow> starts_with v [QUOTE] \<and> ends_with v [QUOTE] \<and> length v \<ge> 2"

subsection \<open>txt.ts\<close>

definition txt_validate :: "string \<Rightarrow> rr_result" where
  "txt_validate content =
     (let trimmed = js_trim content in
      if trimmed = [] then rr_return [rr_error ContentEmpty] trimmed
      else if starts_with trimmed [QUOTE] then
        (case extractQuotedStrings trimmed of
           None \<Rightarrow> rr_return [rr_error TxtNotQuoted] trimmed
         | Some strings \<Rightarrow>
             rr_return
               (case List.find (\<lambda>s. octetLength s > 255) strings of
                  Some s \<Rightarrow> [rr_warning (TxtStringTooLong (octetLength s))] | None \<Rightarrow> [])
               trimmed)
      else
        rr_return
          (if octetLength trimmed > 255 then [rr_warning (TxtTooLong (octetLength trimmed))] else [rr_warning TxtAutoQuote])
          ([QUOTE] @ escape_with QUOTE (escape_with BACKSLASH trimmed) @ [QUOTE]))"

subsection \<open>caa.ts\<close>

definition KNOWN_TAGS :: "string list" where
  "KNOWN_TAGS = [''issue'', ''issuewild'', ''iodef'', ''contactemail'', ''contactphone'', ''accounturi'', ''validationmethods'']"

definition caa_flag_issues :: "string \<Rightarrow> rr_issue list" where
  "caa_flag_issues flagsStr =
     (if \<not> all_digits flagsStr then [rr_error (NotAnInteger ''flags'' flagsStr)]
      else let flags = nat_of_dec flagsStr in
        if flags > 255 then [rr_error (OutOfRange8 ''flags'')]
        else when_issue (flags mod 128 \<noteq> 0) (rr_warning CaaReservedFlags))"

definition caa_tag_issues :: "string \<Rightarrow> rr_issue list" where
  "caa_tag_issues tag =
     (if \<not> (1 \<le> length tag \<and> length tag \<le> 15 \<and> list_all (\<lambda>c. 97 \<le> code c \<and> code c \<le> 122 \<or> is_digit c) tag)
      then [rr_error CaaTagSyntax]
      else when_issue (tag \<notin> set KNOWN_TAGS) (rr_warning (CaaUnknownTag tag)))"

text \<open>\<open>Number(s) || 0\<close> as text.\<close>

definition number_or_zero :: "(string \<Rightarrow> string) \<Rightarrow> string \<Rightarrow> string" where
  "number_or_zero numText s = (let t = num_text numText s in if t = ''NaN'' then ''0'' else t)"

definition caa_validate :: "(string \<Rightarrow> string) \<Rightarrow> string \<Rightarrow> rr_result" where
  "caa_validate numText content =
     (let trimmed = js_trim content in
      case one_line_tokens 2 trimmed of
        None \<Rightarrow> rr_return [rr_error (WrongTokenCount 3)] trimmed
      | Some (parts, rawValue) \<Rightarrow>
          let flagsStr = parts ! 0; tag = js_lower (parts ! 1); v = js_trim rawValue in
          rr_return
            (caa_flag_issues flagsStr @ caa_tag_issues tag @ when_issue (\<not> is_quoted v) (rr_warning CaaAutoQuote))
            (number_or_zero numText flagsStr @ '' '' @ tag @ '' ''
              @ (if is_quoted v then v else [QUOTE] @ escape_with QUOTE (escape_with BACKSLASH v) @ [QUOTE])))"

subsection \<open>uri.ts\<close>

definition URI_HAS_SCHEME :: "string \<Rightarrow> bool" where
  "URI_HAS_SCHEME t \<longleftrightarrow>
     t \<noteq> [] \<and> is_letter (hd t)
     \<and> (let r = dropWhile (\<lambda>c. is_letter c \<or> is_digit c \<or> c \<in> set ''+-.'') (tl t) in r \<noteq> [] \<and> hd r = CHR '':'')"

definition uri_validate :: "string \<Rightarrow> rr_result" where
  "uri_validate content =
     (let trimmed = js_trim content in
      case head_tokens 2 trimmed of
        None \<Rightarrow> rr_return [rr_error (WrongTokenCount 3)] trimmed
      | Some (parts, quotedTarget) \<Rightarrow>
          if \<not> is_quoted quotedTarget then rr_return [rr_error (WrongTokenCount 3)] trimmed
          else
            let target = butlast (tl quotedTarget) in
            rr_return
              (uint16_issues ''priority'' (parts ! 0) @ uint16_issues ''weight'' (parts ! 1)
               @ (if length target = 0 then [rr_error UriEmptyTarget]
                  else when_issue (\<not> URI_HAS_SCHEME target) (rr_warning UriNoScheme)))
              trimmed)"

subsection \<open>lua.ts\<close>

text \<open>The inside of one quoted string, from after its opening quote: the chunk and what follows it.\<close>

function lua_chunk :: "string \<Rightarrow> rr_message + string \<times> string" where
  "lua_chunk s =
     (case s of
        [] \<Rightarrow> Inl (LuaSnippet ''unterminated'')
      | char # cs \<Rightarrow>
          if char = QUOTE then Inr ([], cs)
          else if char = BACKSLASH then
            (if cs = [] then Inl (LuaSnippet ''incomplete escape'')
             else
               let decimal = take 3 cs in
               if length decimal = 3 \<and> list_all is_digit decimal then
                 (if nat_of_dec decimal > 255 then Inl (LuaSnippet decimal)
                  else map_sum id (\<lambda>cr. (CHR ''x'' # fst cr, snd cr)) (lua_chunk (drop 3 cs)))
               else map_sum id (\<lambda>cr. (hd cs # fst cr, snd cr)) (lua_chunk (tl cs)))
          else map_sum id (\<lambda>cr. (char # fst cr, snd cr)) (lua_chunk cs))"
  by pat_completeness auto

termination by (relation "measure length") auto

declare lua_chunk.simps [simp del]

lemma lua_chunk_rest: "lua_chunk s = Inr cr \<Longrightarrow> length (snd cr) < length s"
proof (induction s arbitrary: cr rule: lua_chunk.induct)
  case (1 s)
  show ?case
  proof (cases s)
    case Nil
    with "1.prems" show ?thesis by (simp add: lua_chunk.simps [of "[]"])
  next
    case (Cons char cs)
    have e: "lua_chunk s = (if char = QUOTE then Inr ([], cs)
          else if char = BACKSLASH then
            (if cs = [] then Inl (LuaSnippet ''incomplete escape'')
             else if length (take 3 cs) = 3 \<and> list_all is_digit (take 3 cs) then
                 (if nat_of_dec (take 3 cs) > 255 then Inl (LuaSnippet (take 3 cs))
                  else map_sum id (\<lambda>cr. (CHR ''x'' # fst cr, snd cr)) (lua_chunk (drop 3 cs)))
               else map_sum id (\<lambda>cr. (hd cs # fst cr, snd cr)) (lua_chunk (tl cs)))
          else map_sum id (\<lambda>cr. (char # fst cr, snd cr)) (lua_chunk cs))"
      by (subst lua_chunk.simps) (simp add: Cons Let_def)
    have m: "\<exists>cr'. lua_chunk t = Inr cr' \<and> snd cr = snd cr'" if "map_sum id (\<lambda>cr. (f cr, snd cr)) (lua_chunk t) = Inr cr" for f t
      using that by (cases "lua_chunk t") auto
    consider "char = QUOTE" | "char \<noteq> QUOTE" "char = BACKSLASH" "cs \<noteq> []" "length (take 3 cs) = 3 \<and> list_all is_digit (take 3 cs)"
        "\<not> nat_of_dec (take 3 cs) > 255"
      | "char \<noteq> QUOTE" "char = BACKSLASH" "cs \<noteq> []" "\<not> (length (take 3 cs) = 3 \<and> list_all is_digit (take 3 cs))"
      | "char \<noteq> QUOTE" "char \<noteq> BACKSLASH"
      using "1.prems" unfolding e by (auto split: if_splits)
    then show ?thesis
    proof cases
      case 1
      with "1.prems" show ?thesis unfolding e by (auto simp: Cons)
    next
      case 2
      then have "map_sum id (\<lambda>cr. (CHR ''x'' # fst cr, snd cr)) (lua_chunk (drop 3 cs)) = Inr cr"
        using "1.prems" unfolding e by simp
      from m [OF this] obtain cr' where "lua_chunk (drop 3 cs) = Inr cr'" "snd cr = snd cr'" by blast
      with "1.IH"(1) [OF Cons 2(1,2,3) refl 2(4) 2(5)] show ?thesis using 2(4) by (auto simp: Cons)
    next
      case 3
      then have "map_sum id (\<lambda>cr. (hd cs # fst cr, snd cr)) (lua_chunk (tl cs)) = Inr cr"
        using "1.prems" unfolding e by (simp split: if_splits)
      from m [OF this] obtain cr' where "lua_chunk (tl cs) = Inr cr'" "snd cr = snd cr'" by blast
      with "1.IH"(2) [OF Cons 3(1,2,3) refl 3(4)] 3(3) show ?thesis by (cases cs) (auto simp: Cons)
    next
      case 4
      then have "map_sum id (\<lambda>cr. (char # fst cr, snd cr)) (lua_chunk cs) = Inr cr" using "1.prems" unfolding e by simp
      from m [OF this] obtain cr' where "lua_chunk cs = Inr cr'" "snd cr = snd cr'" by blast
      with "1.IH"(3) [OF Cons 4] show ?thesis by (auto simp: Cons)
    qed
  qed
qed

function parseQuotedSnippet :: "string \<Rightarrow> rr_message + string list" where
  "parseQuotedSnippet s =
     (case dropWhile is_ws s of
        [] \<Rightarrow> Inr []
      | c # cs \<Rightarrow>
          if c \<noteq> QUOTE then Inl (LuaSnippet ''not quoted'')
          else (case lua_chunk cs of
                  Inl e \<Rightarrow> Inl e
                | Inr cr \<Rightarrow> map_sum id (Cons (fst cr)) (parseQuotedSnippet (snd cr))))"
  by pat_completeness auto

termination
proof (relation "measure length")
  fix s c cs cr
  assume d: "dropWhile is_ws s = c # cs" and l: "lua_chunk cs = Inr cr"
  from lua_chunk_rest [OF l] d length_dropWhile_le [of is_ws s] show "(snd cr, s) \<in> measure length" by simp
qed simp

declare parseQuotedSnippet.simps [simp del]

definition lua_type_issues :: "string \<Rightarrow> string \<Rightarrow> rr_issue list" where
  "lua_type_issues rawQueryType queryType =
     (if \<not> (queryType \<noteq> [] \<and> is_upper_letter (hd queryType)
              \<and> list_all (\<lambda>c. is_upper_letter c \<or> is_digit c \<or> c = CHR ''-'') (tl queryType))
         \<or> starts_with queryType ''TYPE'' \<and> \<not> TYPE_digits queryType
      then [rr_error (LuaQueryType rawQueryType)]
      else when_issue (TYPE_digits queryType \<and> nat_of_dec (drop 4 queryType) > 65535) (rr_error LuaTypeRange))"

definition lua_validate :: "string \<Rightarrow> rr_result" where
  "lua_validate content =
     (let trimmed = js_trim content in
      if trimmed = [] then rr_return [rr_error ContentEmpty] trimmed
      else if CR \<in> set trimmed \<or> LF \<in> set trimmed then rr_return [rr_error ContentNewline] trimmed
      else case one_line_tokens 1 trimmed of
        None \<Rightarrow> rr_return [rr_error (WrongTokenCount 2)] trimmed
      | Some (parts, rawSnippet) \<Rightarrow>
          let rawQueryType = parts ! 0; queryType = js_upper rawQueryType in
          rr_return
            (lua_type_issues rawQueryType queryType
             @ (case parseQuotedSnippet rawSnippet of
                  Inl e \<Rightarrow> [rr_error e]
                | Inr chunks \<Rightarrow>
                    when_issue (length (concat chunks) = 0) (rr_error LuaEmptySnippet)
                    @ (case List.find (\<lambda>c. octetLength c > 255) chunks of
                         Some c \<Rightarrow> [rr_warning (LuaSegmentTooLong (octetLength c))] | None \<Rightarrow> []))
             @ when_issue (length trimmed > 65535) (rr_error (ContentTooLong (length trimmed))))
            (queryType @ '' '' @ rawSnippet))"

subsection \<open>naptr.ts\<close>

definition KNOWN_FLAGS :: "char list" where
  "KNOWN_FLAGS = ''SAUP''"

function tokenizeNaptr :: "string \<Rightarrow> string list option" where
  "tokenizeNaptr s =
     (case dropWhile is_ws s of
        [] \<Rightarrow> Some []
      | c # cs \<Rightarrow>
          if c = QUOTE then
            (case dropWhile (\<lambda>d. d \<noteq> QUOTE) cs of
               [] \<Rightarrow> None
             | _ # rest \<Rightarrow> map_option (Cons ([QUOTE] @ takeWhile (\<lambda>d. d \<noteq> QUOTE) cs @ [QUOTE])) (tokenizeNaptr rest))
          else map_option (Cons (takeWhile (\<lambda>d. \<not> is_ws d) (c # cs))) (tokenizeNaptr (dropWhile (\<lambda>d. \<not> is_ws d) (c # cs))))"
  by pat_completeness auto

termination
proof (relation "measure length")
  fix s c cs q rest
  assume "dropWhile is_ws s = c # cs" "dropWhile (\<lambda>d. d \<noteq> QUOTE) cs = q # rest"
  then show "(rest, s) \<in> measure length"
    using length_dropWhile_le [of is_ws s] length_dropWhile_le [of "\<lambda>d. d \<noteq> QUOTE" cs] by simp
next
  fix s c cs
  assume d: "dropWhile is_ws s = c # cs"
  then have "\<not> is_ws c" using hd_dropWhile [of is_ws s] by simp
  then show "(dropWhile (\<lambda>d. \<not> is_ws d) (c # cs), s) \<in> measure length"
    using d length_dropWhile_le [of is_ws s] length_dropWhile_le [of "\<lambda>d. \<not> is_ws d" cs] by simp
qed simp

declare tokenizeNaptr.simps [simp del]

definition stripQuotes :: "string \<Rightarrow> string option" where
  "stripQuotes token = (if is_quoted token then Some (butlast (tl token)) else None)"

definition naptr_flag_issues :: "string \<Rightarrow> rr_issue list" where
  "naptr_flag_issues flagsToken =
     (case stripQuotes flagsToken of
        None \<Rightarrow> [rr_error (NotQuoted ''flags'')]
      | Some inner \<Rightarrow>
          if length inner > 0 then
            when_issue (length inner > 1) (rr_warning (NaptrFlagsLong inner))
            @ (case List.find (\<lambda>ch. ch \<notin> set KNOWN_FLAGS) (js_upper inner) of
                 Some ch \<Rightarrow> [rr_warning (NaptrFlagUnknown ch)] | None \<Rightarrow> [])
          else [])"

definition naptr_regexp_issues :: "string \<Rightarrow> rr_issue list" where
  "naptr_regexp_issues regexpToken =
     (case stripQuotes regexpToken of
        None \<Rightarrow> [rr_error (NotQuoted ''regexp'')]
      | Some inner \<Rightarrow>
          if length inner > 0 then
            (let parts = split_on (hd inner) inner in
             when_issue (length parts \<noteq> 4) (rr_error (NaptrRegexpParts (length parts - 1))))
          else [])"

definition naptr_validate :: "string \<Rightarrow> rr_result" where
  "naptr_validate content =
     (let trimmed = js_trim content in
      case tokenizeNaptr trimmed of
        None \<Rightarrow> rr_return [rr_error NaptrTokens] trimmed
      | Some tokens \<Rightarrow>
          if length tokens \<noteq> 6 then rr_return [rr_error (WrongTokenCount 6)] trimmed
          else
            let replacement = tokens ! 5;
                regexpEmpty = (stripQuotes (tokens ! 4) = Some []);
                replacementEmpty = (replacement = ''.'')
            in rr_return
              (uint16_issues ''order'' (tokens ! 0) @ uint16_issues ''preference'' (tokens ! 1)
               @ naptr_flag_issues (tokens ! 2)
               @ when_issue (stripQuotes (tokens ! 3) = None) (rr_error (NotQuoted ''services''))
               @ naptr_regexp_issues (tokens ! 4)
               @ when_issue (replacement \<noteq> ''.'' \<and> \<not> ends_with replacement ''.'') (rr_warning (NaptrReplacementDot replacement))
               @ when_issue (regexpEmpty \<and> replacementEmpty) (rr_error NaptrNothing)
               @ when_issue (\<not> regexpEmpty \<and> \<not> replacementEmpty) (rr_warning NaptrBoth))
              trimmed)"

subsection \<open>svcb.ts\<close>

datatype param_shape = CommaList | Uint16 | BooleanParam | Base64 | StringParam | NoShape

text \<open>
  \<open>KNOWN_PARAMS[key]\<close> of an object literal also finds what the object inherits: the lower-case names are
  \<open>constructor\<close> and \<open>__proto__\<close>, whose values are truthy and match no case.
\<close>

definition KNOWN_PARAMS :: "(string \<times> param_shape) list" where
  "KNOWN_PARAMS =
     [(''alpn'', CommaList), (''no-default-alpn'', BooleanParam), (''port'', Uint16), (''ipv4hint'', CommaList),
      (''ipv6hint'', CommaList), (''mandatory'', CommaList), (''ech'', Base64), (''dohpath'', StringParam),
      (''constructor'', NoShape), (''__proto__'', NoShape)]"

definition is_base64_char :: "char \<Rightarrow> bool" where
  "is_base64_char c \<longleftrightarrow> is_letter c \<or> is_digit c \<or> c = CHR ''+'' \<or> c = CHR ''/''"

definition BASE64_VALUE :: "string \<Rightarrow> bool" where
  "BASE64_VALUE v \<longleftrightarrow> takeWhile is_base64_char v \<noteq> [] \<and> list_all (\<lambda>c. c = CHR ''='') (dropWhile is_base64_char v)"

definition param_value_issues :: "string \<Rightarrow> param_shape \<Rightarrow> string option \<Rightarrow> rr_issue list" where
  "param_value_issues key shape v =
     (let unquoted = (case v of
            Some x \<Rightarrow> Some (if starts_with x [QUOTE] \<and> ends_with x [QUOTE] then butlast (tl x) else x) | None \<Rightarrow> None)
      in case shape of
        BooleanParam \<Rightarrow> when_issue (v \<noteq> None) (rr_warning (ParamBoolean key))
      | Uint16 \<Rightarrow>
          (case unquoted of
             None \<Rightarrow> [rr_error (ParamNoValue key)]
           | Some u \<Rightarrow>
               if length u = 0 then [rr_error (ParamNoValue key)]
               else when_issue (\<not> all_digits u \<or> nat_of_dec u > 65535) (rr_error (ParamNotUint16 key u)))
      | CommaList \<Rightarrow> when_issue (unquoted = None \<or> unquoted = Some []) (rr_error (ParamNoValue key))
      | Base64 \<Rightarrow>
          (case unquoted of
             None \<Rightarrow> [rr_warning (ParamNotBase64 key [])]
           | Some u \<Rightarrow> when_issue (\<not> BASE64_VALUE u) (rr_warning (ParamNotBase64 key u)))
      | StringParam \<Rightarrow> when_issue (unquoted = None \<or> unquoted = Some []) (rr_error (ParamNoValue key))
      | NoShape \<Rightarrow> [])"

fun svcb_param_issues :: "string list \<Rightarrow> string list \<Rightarrow> rr_issue list" where
  "svcb_param_issues seen [] = []"
| "svcb_param_issues seen (param # params) =
     (let key = js_lower (takeWhile (\<lambda>c. c \<noteq> CHR ''='') param);
          v = (case dropWhile (\<lambda>c. c \<noteq> CHR ''='') param of [] \<Rightarrow> None | _ # x \<Rightarrow> Some x)
      in if length key = 0 then rr_error (ParamKeyEmpty param) # svcb_param_issues seen params
         else when_issue (key \<in> set seen) (rr_error (ParamDuplicate key))
           @ (case map_of KNOWN_PARAMS key of
                None \<Rightarrow> [rr_warning (ParamUnknown key)]
              | Some shape \<Rightarrow> param_value_issues key shape v)
           @ svcb_param_issues (jset_add key seen) params)"

definition svcb_validate :: "string \<Rightarrow> rr_result" where
  "svcb_validate content =
     (let trimmed = js_trim content; tokens = split_ws trimmed in
      if length tokens < 2 then rr_return [rr_error (WrongTokenCount 2)] trimmed
      else
        let priorityStr = tokens ! 0; target = tokens ! 1; params = drop 2 tokens;
            priority = (if all_digits priorityStr \<and> nat_of_dec priorityStr \<le> 65535 then Some (nat_of_dec priorityStr) else None)
        in rr_return
             (uint16_issues ''priority'' priorityStr
              @ when_issue (priority = Some 0 \<and> length params > 0) (rr_error AliasModeParams)
              @ when_issue (length target = 0) (rr_error TargetEmpty)
              @ svcb_param_issues [] params)
             trimmed)"

end
