(* ===== verification/RrDigest.thy ===== *)
theory RrDigest
  imports RrText
begin

section \<open>Record contents: digests and keys\<close>

text \<open>
  \<open>lib/validators/rr-types/ds.ts\<close>, \<open>sshfp.ts\<close>, \<open>tlsa.ts\<close>, \<open>smimea.ts\<close> and \<open>openpgpkey.ts\<close>: numeric fields of one
  or two octets, then hexadecimal or base64 text that may be broken by white space.
\<close>

text \<open>A numeric field: the issues, and the value when it is one.\<close>

definition small_field :: "string \<Rightarrow> nat \<Rightarrow> nat \<Rightarrow> string \<Rightarrow> rr_issue list \<times> nat option" where
  "small_field field lo hi s =
     (if \<not> all_digits s then ([rr_error (NotAnInteger field s)], None)
      else let n = nat_of_dec s in
        if n < lo \<or> n > hi then
          ([rr_error (if hi = 65535 then OutOfRange16 field else OutOfRange8 field)], None)
        else ([], Some n))"

definition field_text :: "nat option \<Rightarrow> string \<Rightarrow> string" where
  "field_text n s = (case n of Some m \<Rightarrow> dec_of_nat m | None \<Rightarrow> s)"

definition compact_hex :: "string \<Rightarrow> string" where
  "compact_hex raw = js_lower (filter (\<lambda>c. \<not> is_ws c) raw)"

text \<open>\<open>compact || raw.trim()\<close>.\<close>

definition hex_or_raw :: "string \<Rightarrow> string" where
  "hex_or_raw raw = (if compact_hex raw \<noteq> [] then compact_hex raw else js_trim raw)"

definition hex_issues :: "string \<Rightarrow> string \<Rightarrow> nat option \<Rightarrow> (nat \<Rightarrow> rr_issue list) \<Rightarrow> rr_issue list" where
  "hex_issues field compact kind check =
     (if \<not> list_all is_hex compact then [rr_error (HexRequired field)]
      else if length compact = 0 then [rr_error (HexEmpty field)]
      else case kind of Some k \<Rightarrow> check k | None \<Rightarrow> [])"

subsection \<open>ds.ts\<close>

definition DIGEST_HEX_LENGTH :: "(nat \<times> nat) list" where
  "DIGEST_HEX_LENGTH = [(1, 40), (2, 64), (3, 64), (4, 96)]"

definition COMMON_ALGORITHMS :: "nat list" where
  "COMMON_ALGORITHMS = [5, 7, 8, 10, 12, 13, 14, 15, 16]"

definition ds_digest_check :: "string \<Rightarrow> nat \<Rightarrow> rr_issue list" where
  "ds_digest_check compact k =
     (case map_of DIGEST_HEX_LENGTH k of
        None \<Rightarrow> [rr_warning (FieldUnknown ''digest-type'' k)]
      | Some n \<Rightarrow>
          when_issue (length compact \<noteq> n) (rr_error (HexLength ''digest'' n (length compact)))
          @ when_issue (k = 1) (rr_warning (FieldDeprecated ''digest-type'' k)))"

definition ds_validate :: "string \<Rightarrow> rr_result" where
  "ds_validate content =
     (let trimmed = js_trim content in
      case one_line_tokens 3 trimmed of
        None \<Rightarrow> rr_return [rr_error (WrongTokenCount 4)] trimmed
      | Some (parts, rawDigest) \<Rightarrow>
          let keyTag = small_field ''key tag'' 0 65535 (parts ! 0);
              algorithm = small_field ''algorithm'' 1 255 (parts ! 1);
              digestType = small_field ''digest type'' 1 255 (parts ! 2);
              compact = compact_hex rawDigest
          in rr_return
            (fst keyTag @ fst algorithm
             @ (case snd algorithm of
                  Some a \<Rightarrow> when_issue (a \<notin> set COMMON_ALGORITHMS) (rr_warning (FieldUnknown ''algorithm'' a)) | None \<Rightarrow> [])
             @ fst digestType @ hex_issues ''digest'' compact (snd digestType) (ds_digest_check compact))
            (join '' '' [field_text (snd keyTag) (parts ! 0), field_text (snd algorithm) (parts ! 1),
               field_text (snd digestType) (parts ! 2), hex_or_raw rawDigest]))"

subsection \<open>sshfp.ts\<close>

text \<open>The algorithms and fingerprint types, with whether they are deprecated.\<close>

definition ALGORITHMS :: "(nat \<times> bool) list" where
  "ALGORITHMS = [(1, False), (2, True), (3, False), (4, False), (6, False)]"

definition FINGERPRINT_TYPES :: "(nat \<times> nat \<times> bool) list" where
  "FINGERPRINT_TYPES = [(1, 40, True), (2, 64, False)]"

definition sshfp_check :: "string \<Rightarrow> nat \<Rightarrow> rr_issue list" where
  "sshfp_check compact k =
     (case map_of FINGERPRINT_TYPES k of
        None \<Rightarrow> [rr_warning (FieldUnknown ''fp-type'' k)]
      | Some (n, deprecated) \<Rightarrow>
          when_issue (length compact \<noteq> n) (rr_error (HexLength ''fingerprint'' n (length compact)))
          @ when_issue deprecated (rr_warning (FieldDeprecated ''fp-type'' k)))"

definition sshfp_validate :: "string \<Rightarrow> rr_result" where
  "sshfp_validate content =
     (let trimmed = js_trim content in
      case one_line_tokens 2 trimmed of
        None \<Rightarrow> rr_return [rr_error (WrongTokenCount 3)] trimmed
      | Some (parts, rawFp) \<Rightarrow>
          let algorithm = small_field ''algorithm'' 1 255 (parts ! 0);
              fpType = small_field ''fp-type'' 1 255 (parts ! 1);
              compact = compact_hex rawFp
          in rr_return
            (fst algorithm
             @ (case snd algorithm of
                  None \<Rightarrow> []
                | Some a \<Rightarrow>
                    (case map_of ALGORITHMS a of
                       None \<Rightarrow> [rr_warning (FieldUnknown ''algorithm'' a)]
                     | Some deprecated \<Rightarrow> when_issue deprecated (rr_warning (FieldDeprecated ''algorithm'' a))))
             @ fst fpType @ hex_issues ''fingerprint'' compact (snd fpType) (sshfp_check compact))
            (join '' '' [field_text (snd algorithm) (parts ! 0), field_text (snd fpType) (parts ! 1), hex_or_raw rawFp]))"

subsection \<open>tlsa.ts and smimea.ts\<close>

text \<open>The defined matching types; no length is the whole certificate.\<close>

definition MATCHING_TYPE :: "(nat \<times> nat option) list" where
  "MATCHING_TYPE = [(0, None), (1, Some 64), (2, Some 128)]"

definition tlsa_check :: "string \<Rightarrow> nat \<Rightarrow> rr_issue list" where
  "tlsa_check compact k =
     (case map_of MATCHING_TYPE k of
        None \<Rightarrow> [rr_warning (FieldUnknown ''matching-type'' k)]
      | Some (Some n) \<Rightarrow> when_issue (length compact \<noteq> n) (rr_error (HexLength ''cert-data'' n (length compact)))
      | Some None \<Rightarrow> when_issue (length compact < 200) (rr_warning CertShort))"

definition known_below :: "string \<Rightarrow> nat \<Rightarrow> nat option \<Rightarrow> rr_issue list" where
  "known_below field bound v =
     (case v of Some n \<Rightarrow> when_issue (n \<ge> bound) (rr_warning (FieldUnknown field n)) | None \<Rightarrow> [])"

definition tlsa_validate :: "string \<Rightarrow> rr_result" where
  "tlsa_validate content =
     (let trimmed = js_trim content in
      case head_tokens 3 trimmed of
        None \<Rightarrow> rr_return [rr_error (WrongTokenCount 4)] trimmed
      | Some (parts, rawCert) \<Rightarrow>
          let usage = small_field ''usage'' 0 255 (parts ! 0);
              selector = small_field ''selector'' 0 255 (parts ! 1);
              matchingType = small_field ''matching-type'' 0 255 (parts ! 2);
              compact = compact_hex rawCert
          in rr_return
            (fst usage @ known_below ''usage'' 4 (snd usage)
             @ fst selector @ known_below ''selector'' 2 (snd selector)
             @ fst matchingType @ hex_issues ''cert-data'' compact (snd matchingType) (tlsa_check compact))
            (join '' '' [field_text (snd usage) (parts ! 0), field_text (snd selector) (parts ! 1),
               field_text (snd matchingType) (parts ! 2), hex_or_raw rawCert]))"

definition smimea_validate :: "string \<Rightarrow> rr_result" where
  "smimea_validate content = tlsa_validate content"

subsection \<open>openpgpkey.ts\<close>

text \<open>\<open>/^[A-Za-z0-9+/]*={0,2}$/\<close>.\<close>

definition BASE64_RE :: "string \<Rightarrow> bool" where
  "BASE64_RE s \<longleftrightarrow>
     (let r = dropWhile is_base64_char s in length r \<le> 2 \<and> list_all (\<lambda>c. c = CHR ''='') r)"

definition openpgpkey_validate :: "string \<Rightarrow> rr_result" where
  "openpgpkey_validate content =
     (let compact = filter (\<lambda>c. \<not> is_ws c) content in
      if length compact = 0 then rr_return [rr_error ContentEmpty] compact
      else
        rr_return
          (if \<not> BASE64_RE compact then [rr_error NotBase64]
           else if length compact mod 4 \<noteq> 0 then [rr_error (Base64Length (length compact))]
           else
             let padCount = (if ends_with compact ''=='' then 2 else if ends_with compact ''='' then 1 else 0);
                 decodedLen = length compact div 4 * 3 - padCount
             in when_issue (decodedLen < 50) (rr_warning (KeyShort decodedLen)))
          compact)"

end
