(* ===== verification/RrTypes.thy ===== *)
theory RrTypes
  imports RrAddress RrDigest
begin

section \<open>The registry of record types\<close>

text \<open>
  \<open>lib/validators/rr-types/index.ts\<close>: the validator of a type, the types offered for a zone, and what holds
  of every validator.
\<close>

definition REGISTRY :: "(string \<Rightarrow> string) \<Rightarrow> (string \<times> (string \<Rightarrow> rr_result)) list" where
  "REGISTRY numText =
     [(''A'', a_validate), (''AAAA'', aaaa_validate), (''CNAME'', cname_validate), (''NS'', ns_validate),
      (''MX'', mx_validate numText), (''PTR'', ptr_validate), (''SRV'', srv_validate numText), (''TXT'', txt_validate),
      (''CAA'', caa_validate numText), (''DS'', ds_validate), (''SSHFP'', sshfp_validate), (''TLSA'', tlsa_validate),
      (''NAPTR'', naptr_validate), (''DNAME'', dname_validate), (''SMIMEA'', smimea_validate), (''URI'', uri_validate),
      (''OPENPGPKEY'', openpgpkey_validate), (''SVCB'', svcb_validate), (''HTTPS'', svcb_validate), (''LUA'', lua_validate)]"

definition SUPPORTED_TYPES :: "string list" where
  "SUPPORTED_TYPES =
     [''A'', ''AAAA'', ''CNAME'', ''MX'', ''NS'', ''PTR'', ''SRV'', ''TXT'', ''CAA'', ''DS'', ''SSHFP'', ''TLSA'', ''NAPTR'', ''DNAME'',
      ''SMIMEA'', ''URI'', ''OPENPGPKEY'', ''SVCB'', ''HTTPS'', ''LUA'']"

definition REVERSE_ZONE_TYPES :: "string list" where
  "REVERSE_ZONE_TYPES = [''PTR'', ''NS'', ''DNAME'', ''CNAME'', ''TXT'', ''LUA'']"

definition FORWARD_ZONE_TYPES :: "string list" where
  "FORWARD_ZONE_TYPES = filter (\<lambda>t. t \<noteq> ''PTR'') SUPPORTED_TYPES"

definition typesForZone :: "string \<Rightarrow> string list" where
  "typesForZone zoneName = (if isReverseZone zoneName then REVERSE_ZONE_TYPES else FORWARD_ZONE_TYPES)"

definition defaultTypeForZone :: "string \<Rightarrow> string" where
  "defaultTypeForZone zoneName = (case typesForZone zoneName of t # _ \<Rightarrow> t | [] \<Rightarrow> ''A'')"

definition getRRTypeValidator :: "(string \<Rightarrow> string) \<Rightarrow> string \<Rightarrow> string \<Rightarrow> rr_result" where
  "getRRTypeValidator numText type =
     (case map_of (REGISTRY numText) (js_upper type) of
        Some v \<Rightarrow> v | None \<Rightarrow> generic_validate (js_upper type))"

text \<open>Every type on offer, in a zone of either kind, has a validator of its own.\<close>

lemma offered_types_registered:
  "list_all (\<lambda>t. map_of (REGISTRY numText) t \<noteq> None) (typesForZone zoneName)"
  by (simp add: typesForZone_def REVERSE_ZONE_TYPES_def FORWARD_ZONE_TYPES_def SUPPORTED_TYPES_def REGISTRY_def)

end
