(* ===== verification/RrStable.thy ===== *)
theory RrStable
  imports RrTypes
begin

section \<open>Normalized contents are stable\<close>

text \<open>
  What a validator accepts, it stores in a normalized form.  Normalizing that form again changes nothing:
  an edit of a record that leaves its content alone is not a change.
\<close>

subsection \<open>Words and trimmed text\<close>

lemma plain_word_ends: "plain_word w \<Longrightarrow> w \<noteq> [] \<and> \<not> is_ws (hd w) \<and> \<not> is_ws (last w)"
  by (auto simp: plain_word_def list_all_iff)

lemma plain_word_trim: "plain_word w \<Longrightarrow> js_trim w = w"
  by (rule js_trim_no_ws) (auto simp: plain_word_def list_all_iff)

lemma split_ws_Nil: "split_ws [] = [[]]"
  by (subst split_ws.simps) simp

lemma last_dropWhile: "dropWhile P s \<noteq> [] \<Longrightarrow> last (dropWhile P s) = last s"
  by (metis last_append takeWhile_dropWhile_id)

lemma trimmed_rest:
  assumes "dropWhile (\<lambda>c. \<not> is_ws c) s = d # rest" "\<not> is_ws (last s)"
  shows "dropWhile is_ws rest \<noteq> [] \<and> \<not> is_ws (hd (dropWhile is_ws rest)) \<and> last (dropWhile is_ws rest) = last s"
proof -
  have d: "is_ws d" using hd_dropWhile [of "\<lambda>c. \<not> is_ws c" s] assms(1) by simp
  have "last (d # rest) = last s" using last_dropWhile [of "\<lambda>c. \<not> is_ws c" s] by (simp only: assms(1)) blast
  with d assms(2) have r: "rest \<noteq> []" "last rest = last s" by (auto split: if_splits)
  have "dropWhile is_ws rest \<noteq> []"
  proof
    assume "dropWhile is_ws rest = []"
    then have "\<forall>c \<in> set rest. is_ws c" by simp
    with r assms(2) show False by (metis last_in_set)
  qed
  with r(2) last_dropWhile [of is_ws rest] hd_dropWhile [of is_ws rest] show ?thesis by simp
qed

lemma plain_take: "s \<noteq> [] \<Longrightarrow> \<not> is_ws (hd s) \<Longrightarrow> plain_word (takeWhile (\<lambda>c. \<not> is_ws c) s)"
  by (cases s) (auto simp: plain_word_def list_all_iff dest: set_takeWhileD)

lemma split_ws_trimmed:
  "s \<noteq> [] \<Longrightarrow> \<not> is_ws (hd s) \<Longrightarrow> \<not> is_ws (last s) \<Longrightarrow> list_all plain_word (split_ws s)"
proof (induction s rule: split_ws.induct)
  case (1 s)
  note w = plain_take [OF 1(2,3)]
  show ?case
  proof (cases "dropWhile (\<lambda>c. \<not> is_ws c) s")
    case Nil
    then have t: "takeWhile (\<lambda>c. \<not> is_ws c) s = s" by (metis append_Nil2 takeWhile_dropWhile_id)
    have "split_ws s = [s]" by (subst split_ws.simps) (simp only: Nil list.case)
    with w show ?thesis unfolding t by simp
  next
    case (Cons d rest)
    have "split_ws s = takeWhile (\<lambda>c. \<not> is_ws c) s # split_ws (dropWhile is_ws rest)"
      by (subst split_ws.simps) (simp only: Cons list.case)
    with w 1(1) [OF Cons] trimmed_rest [OF Cons 1(4)] 1(4) show ?thesis by simp
  qed
qed

lemma split_ws_parts:
  assumes "length (split_ws (js_trim s)) = n" "n \<noteq> 1"
  shows "list_all plain_word (split_ws (js_trim s))"
proof -
  have "js_trim s \<noteq> []" using assms split_ws_Nil by auto
  then show ?thesis using js_trim_ends [of s] by (intro split_ws_trimmed) auto
qed

lemma plain_dec: "plain_word (dec_of_nat n)"
proof -
  have "\<not> is_ws c" if "c \<in> set (dec_of_nat n)" for c
    using dec_of_nat_digits [OF that] by (auto simp: is_digit_def is_ws_def)
  then show ?thesis by (auto simp: plain_word_def list_all_iff)
qed

lemma all_digits_dec [simp]: "all_digits (dec_of_nat n)"
  using dec_of_nat_digits [of _ n] by (auto simp: all_digits_def list_all_iff)

definition small_digits :: "string \<Rightarrow> bool" where
  "small_digits s \<longleftrightarrow> all_digits s \<and> nat_of_dec s \<le> 65535"

lemma small_digits_dec: "n \<le> 65535 \<Longrightarrow> small_digits (dec_of_nat n)"
  by (simp add: small_digits_def)

lemma small_digits_again: "small_digits s \<Longrightarrow> small_digits (dec_of_nat (nat_of_dec s))"
  by (simp add: small_digits_def)

lemma num_text_digits: "small_digits s \<Longrightarrow> num_text numText s = dec_of_nat (nat_of_dec s)"
  by (simp add: num_text_def small_digits_def)

lemma plain_digits_word: "small_digits s \<Longrightarrow> plain_word s"
  by (auto simp: small_digits_def all_digits_def plain_word_def list_all_iff is_digit_def is_ws_def)

subsection \<open>Results and their issues\<close>

lemma uint16_accepts: "\<not> list_ex (\<lambda>i. fst i = RrError) (uint16_issues f s) \<Longrightarrow> small_digits s"
  by (auto simp: small_digits_def uint16_issues_def split: if_splits)

lemma srv_field_accepts: "\<not> list_ex (\<lambda>i. fst i = RrError) (srv_field_issues f s) \<Longrightarrow> f \<in> {''priority'', ''weight'', ''port''} \<Longrightarrow> small_digits s"
  by (auto simp: small_digits_def Let_def srv_field_issues_def split: if_splits)

text \<open>The property, of one validator.\<close>

definition stable_validator :: "(string \<Rightarrow> rr_result) \<Rightarrow> bool" where
  "stable_validator v \<longleftrightarrow>
     (\<forall>c. \<not> hasErrors (v c) \<longrightarrow> rv_normalized (v (rv_normalized (v c))) = rv_normalized (v c))"

lemma stable_validatorI:
  "(\<And>c. \<not> hasErrors (v c) \<Longrightarrow> rv_normalized (v (rv_normalized (v c))) = rv_normalized (v c)) \<Longrightarrow> stable_validator v"
  by (simp add: stable_validator_def)

text \<open>A validator that keeps the trimmed text.\<close>

lemma stable_trim: "(\<And>c. rv_normalized (v c) = js_trim c) \<Longrightarrow> stable_validator v"
  by (rule stable_validatorI) simp

subsection \<open>Names\<close>

lemma hostname_normalized:
  "js_trim raw \<noteq> [] \<Longrightarrow> rv_normalized (validateHostname raw opts) = js_lower (strip_dot (js_trim raw)) @ ''.''"
  by (simp add: validateHostname_def Let_def strip_dot_def)

lemma strip_dot_hd: "strip_dot t \<noteq> [] \<Longrightarrow> hd (strip_dot t) = hd t"
  by (cases t) (auto simp: strip_dot_def split: if_splits)

lemma hostname_norm_trim:
  assumes "js_trim raw \<noteq> []"
  shows "js_trim (js_lower (strip_dot (js_trim raw)) @ ''.'') = js_lower (strip_dot (js_trim raw)) @ ''.''"
proof (rule js_trim_id)
  let ?t = "strip_dot (js_trim raw)"
  have "\<not> is_ws (hd ?t)" if "?t \<noteq> []" using strip_dot_hd [OF that] js_trim_ends [OF assms] by simp
  then show "\<not> is_ws (hd (js_lower ?t @ ''.'')) \<and> \<not> is_ws (last (js_lower ?t @ ''.''))"
    by (cases ?t) (simp_all add: js_lower_def)
qed

lemma hostname_accepted_ne: "\<not> hasErrors (validateHostname raw opts) \<Longrightarrow> js_trim raw \<noteq> []"
  by (auto simp: validateHostname_def)

lemma hostname_stable:
  assumes "js_trim raw \<noteq> []"
  shows "rv_normalized (validateHostname (rv_normalized (validateHostname raw opts)) opts')
    = rv_normalized (validateHostname raw opts)"
proof -
  let ?n = "js_lower (strip_dot (js_trim raw)) @ ''.''"
  have n: "rv_normalized (validateHostname raw opts) = ?n" by (rule hostname_normalized [OF assms])
  have "js_trim ?n \<noteq> []" unfolding hostname_norm_trim [OF assms] by simp
  from hostname_normalized [OF this, of opts'] show ?thesis unfolding n hostname_norm_trim [OF assms] by simp
qed

lemma hostname_normal_trim:
  "js_trim raw \<noteq> [] \<Longrightarrow> js_trim (rv_normalized (validateHostname raw opts)) = rv_normalized (validateHostname raw opts)"
  using hostname_norm_trim [of raw] by (simp add: hostname_normalized)

lemma plain_hostname:
  assumes "plain_word w"
  shows "plain_word (rv_normalized (validateHostname w opts))"
proof -
  have "js_trim w \<noteq> []" using assms by (simp add: plain_word_trim plain_word_def)
  from hostname_normalized [OF this, of opts] have n: "rv_normalized (validateHostname w opts) = js_lower (strip_dot w) @ ''.''"
    by (simp add: plain_word_trim [OF assms])
  have "\<not> is_ws c" if "c \<in> set (strip_dot w)" for c
    using that assms by (auto simp: plain_word_def list_all_iff strip_dot_def split: if_splits dest: in_set_butlastD)
  then show ?thesis unfolding n by (auto simp: plain_word_def list_all_iff js_lower_def)
qed

lemma hostname_not_dot:
  assumes "plain_word w" "w \<noteq> ''.''"
  shows "rv_normalized (validateHostname w opts) \<noteq> ''.''"
proof -
  have ne: "js_trim w \<noteq> []" using assms(1) by (simp add: plain_word_trim plain_word_def)
  have "strip_dot w \<noteq> []"
  proof
    assume "strip_dot w = []"
    then have "w = ''.''" using assms(1) by (auto simp: strip_dot_def plain_word_def ends_with_iff split: if_splits)
    with assms(2) show False ..
  qed
  with hostname_normalized [OF ne, of opts] show ?thesis by (simp add: plain_word_trim [OF assms(1)])
qed

lemma ns_stable: "stable_validator ns_validate"
proof (rule stable_validatorI)
  fix c assume "\<not> hasErrors (ns_validate c)"
  then have "js_trim (js_trim c) \<noteq> []" unfolding ns_validate_def by (rule hostname_accepted_ne)
  from hostname_stable [OF this] hostname_normal_trim [OF this]
  show "rv_normalized (ns_validate (rv_normalized (ns_validate c))) = rv_normalized (ns_validate c)"
    by (simp add: ns_validate_def)
qed

lemma ptr_stable: "stable_validator ptr_validate"
proof -
  have "ptr_validate = ns_validate" by (simp add: fun_eq_iff ptr_validate_def ns_validate_def)
  then show ?thesis using ns_stable by simp
qed

lemma name_target_stable: "stable_validator name_target_validate"
proof (rule stable_validatorI)
  fix c assume "\<not> hasErrors (name_target_validate c)"
  then have "\<not> hasErrors (validateHostname (js_trim c) no_options)"
    by (simp add: name_target_validate_def Let_def hasErrors_def list_ex_append)
  from hostname_accepted_ne [OF this] have "js_trim (js_trim c) \<noteq> []" .
  from hostname_stable [OF this] hostname_normal_trim [OF this]
  show "rv_normalized (name_target_validate (rv_normalized (name_target_validate c))) = rv_normalized (name_target_validate c)"
    by (simp add: name_target_validate_def Let_def)
qed

lemma cname_stable: "stable_validator cname_validate"
  and dname_stable: "stable_validator dname_validate"
  using name_target_stable by (simp_all add: stable_validator_def cname_validate_def dname_validate_def)

subsection \<open>Words: MX and SRV\<close>

lemma mx_accepted:
  assumes "\<not> hasErrors (mx_validate nt c)"
  obtains p e where "split_ws (js_trim c) = [p, e]" "plain_word e" "small_digits p"
    "rv_normalized (mx_validate nt c) =
       (if e = ''.'' then p @ '' .'' else dec_of_nat (nat_of_dec p) @ '' '' @ rv_normalized (validateHostname e no_options))"
proof -
  have l: "length (split_ws (js_trim c)) = 2" using assms by (auto simp: mx_validate_def Let_def split: if_splits)
  then obtain p e where s: "split_ws (js_trim c) = [p, e]" by (auto simp: length_Suc_conv numeral_2_eq_2)
  have w: "plain_word e" using split_ws_parts [OF l] s by simp
  have d: "small_digits p" using assms
    by (auto simp: mx_validate_def Let_def s list_ex_append intro: uint16_accepts split: if_splits)
  have "rv_normalized (mx_validate nt c) =
       (if e = ''.'' then p @ '' .'' else dec_of_nat (nat_of_dec p) @ '' '' @ rv_normalized (validateHostname e no_options))"
    by (simp add: mx_validate_def Let_def s num_text_digits [OF d])
  from that [OF s w d this] show thesis .
qed

lemma mx_on_words:
  assumes "plain_word p" "plain_word e" "small_digits p"
  shows "rv_normalized (mx_validate nt (join '' '' [p, e])) =
    (if e = ''.'' then p @ '' .'' else dec_of_nat (nat_of_dec p) @ '' '' @ rv_normalized (validateHostname e no_options))"
proof -
  have "split_ws (js_trim (join '' '' [p, e])) = [p, e]"
    using assms trim_join_words [of "[p, e]"] split_ws_join [of "[p, e]"] by simp
  then show ?thesis by (simp add: mx_validate_def Let_def num_text_digits [OF assms(3)])
qed

lemma mx_stable: "stable_validator (mx_validate nt)"
proof (rule stable_validatorI)
  fix c assume "\<not> hasErrors (mx_validate nt c)"
  then obtain p e where s: "plain_word e" "small_digits p" and n: "rv_normalized (mx_validate nt c) =
       (if e = ''.'' then p @ '' .'' else dec_of_nat (nat_of_dec p) @ '' '' @ rv_normalized (validateHostname e no_options))"
    by (rule mx_accepted)
  show "rv_normalized (mx_validate nt (rv_normalized (mx_validate nt c))) = rv_normalized (mx_validate nt c)"
  proof (cases "e = ''.''")
    case True
    then have "rv_normalized (mx_validate nt c) = join '' '' [p, ''.'']" using n by simp
    with mx_on_words [OF plain_digits_word [OF s(2)], of "''.''" nt] s True show ?thesis by simp
  next
    case False
    let ?e = "rv_normalized (validateHostname e no_options)"
    have j: "rv_normalized (mx_validate nt c) = join '' '' [dec_of_nat (nat_of_dec p), ?e]" using n False by simp
    have "js_trim e \<noteq> []" using s(1) by (simp add: plain_word_trim plain_word_def)
    from hostname_stable [OF this] mx_on_words [OF plain_dec [of "nat_of_dec p"] plain_hostname [OF s(1)] small_digits_again [OF s(2)], of nt]
      hostname_not_dot [OF s(1) False]
    show ?thesis unfolding j by simp
  qed
qed

lemma srv_accepted:
  assumes "\<not> hasErrors (srv_validate nt c)"
  obtains p w r t where "split_ws (js_trim c) = [p, w, r, t]" "plain_word t" "small_digits p" "small_digits w" "small_digits r"
proof -
  have l: "length (split_ws (js_trim c)) = 4" using assms by (auto simp: srv_validate_def Let_def split: if_splits)
  then obtain p w r t where s: "split_ws (js_trim c) = [p, w, r, t]" by (auto simp: length_Suc_conv numeral_eq_Suc)
  have w: "plain_word t" using split_ws_parts [OF l] s by simp
  have "small_digits p \<and> small_digits w \<and> small_digits r" using assms
    by (auto simp: srv_validate_def Let_def s list_ex_append intro: srv_field_accepts split: if_splits)
  with that [OF s w] show thesis by blast
qed

lemma srv_on_words:
  assumes "split_ws (js_trim c) = [p, w, r, t]" "small_digits p" "small_digits w" "small_digits r"
  shows "rv_normalized (srv_validate nt c) =
    join '' '' (if t = ''.'' then [p, w, r, ''.'']
      else [dec_of_nat (nat_of_dec p), dec_of_nat (nat_of_dec w), dec_of_nat (nat_of_dec r), rv_normalized (validateHostname t no_options)])"
  by (simp add: srv_validate_def Let_def assms(1) num_text_digits assms(2-))

lemma srv_stable: "stable_validator (srv_validate nt)"
proof (rule stable_validatorI)
  fix c assume "\<not> hasErrors (srv_validate nt c)"
  then obtain p w r t where s: "split_ws (js_trim c) = [p, w, r, t]" "plain_word t" "small_digits p" "small_digits w" "small_digits r"
    by (rule srv_accepted)
  note n = srv_on_words [OF s(1,3-5), of nt]
  show "rv_normalized (srv_validate nt (rv_normalized (srv_validate nt c))) = rv_normalized (srv_validate nt c)"
  proof (cases "t = ''.''")
    case True
    let ?ws = "[p, w, r, ''.'']"
    have "list_all plain_word ?ws" using s plain_digits_word True by simp
    then have "split_ws (js_trim (join '' '' ?ws)) = ?ws" using trim_join_words [of ?ws] split_ws_join [of ?ws] by simp
    from srv_on_words [OF this s(3-5), of nt] show ?thesis unfolding n using True by simp
  next
    case False
    let ?t = "rv_normalized (validateHostname t no_options)"
    let ?ws = "[dec_of_nat (nat_of_dec p), dec_of_nat (nat_of_dec w), dec_of_nat (nat_of_dec r), ?t]"
    have "list_all plain_word ?ws" using plain_hostname [OF s(2)] plain_dec by simp
    then have j: "split_ws (js_trim (join '' '' ?ws)) = ?ws" using trim_join_words [of ?ws] split_ws_join [of ?ws] by simp
    have "js_trim t \<noteq> []" using s(2) by (simp add: plain_word_trim plain_word_def)
    from hostname_stable [OF this, of no_options no_options] srv_on_words [OF j small_digits_again [OF s(3)] small_digits_again [OF s(4)] small_digits_again [OF s(5)], of nt]
      hostname_not_dot [OF s(2) False, of no_options]
    show ?thesis unfolding n using False by simp
  qed
qed

subsection \<open>Tokens and a rest\<close>

lemma head_tokens_Suc:
  "head_tokens (Suc n) s =
     (case dropWhile (\<lambda>c. \<not> is_ws c) s of
        [] \<Rightarrow> None
      | r # rs \<Rightarrow>
          (if takeWhile (\<lambda>c. \<not> is_ws c) s = [] then None
           else map_option (\<lambda>tr. (takeWhile (\<lambda>c. \<not> is_ws c) s # fst tr, snd tr)) (head_tokens n (dropWhile is_ws (r # rs)))))"
  by (cases "dropWhile (\<lambda>c. \<not> is_ws c) s") (simp_all only: head_tokens.simps Let_def list.case simp_thms if_True if_False list.distinct)

lemma head_tokens_join:
  "list_all plain_word ws \<Longrightarrow> r \<noteq> [] \<Longrightarrow> \<not> is_ws (hd r) \<Longrightarrow> head_tokens (length ws) (join '' '' (ws @ [r])) = Some (ws, r)"
proof (induction ws)
  case (Cons w ws)
  let ?s = "join '' '' (ws @ [r])"
  have w: "\<And>x. x \<in> set w \<Longrightarrow> \<not> is_ws x" "w \<noteq> []" using Cons.prems(1) by (simp_all add: plain_word_def list_all_iff)
  have j: "join '' '' ((w # ws) @ [r]) = w @ SPACE # ?s" by (simp add: join_Cons)
  have h: "?s \<noteq> [] \<and> \<not> is_ws (hd ?s)"
  proof (cases ws)
    case (Cons v vs)
    with Cons.prems(1) have "v \<noteq> [] \<and> \<not> is_ws (hd v)" using plain_word_ends by simp
    with Cons show ?thesis by (simp add: join_Cons)
  qed (use Cons.prems in simp)
  have sp: "is_ws SPACE" by (simp add: is_ws_def)
  have "dropWhile (\<lambda>c. \<not> is_ws c) (w @ SPACE # ?s) = SPACE # ?s" "takeWhile (\<lambda>c. \<not> is_ws c) (w @ SPACE # ?s) = w"
    using w sp by (simp_all add: dropWhile_append2 takeWhile_append2)
  moreover have "dropWhile is_ws (SPACE # ?s) = ?s" using h sp by (simp add: dropWhile_id_hd)
  ultimately show ?case
    using Cons.IH Cons.prems w(2) by (simp only: length_Cons j head_tokens_Suc list.case) simp
qed simp

lemma head_tokens_sound:
  "head_tokens n s = Some (ws, r) \<Longrightarrow> s \<noteq> [] \<Longrightarrow> \<not> is_ws (hd s) \<Longrightarrow> \<not> is_ws (last s) \<Longrightarrow>
    length ws = n \<and> list_all plain_word ws \<and> r \<noteq> [] \<and> \<not> is_ws (hd r) \<and> last r = last s"
proof (induction n arbitrary: s ws)
  case (Suc n)
  obtain d rest where d: "dropWhile (\<lambda>c. \<not> is_ws c) s = d # rest"
    using Suc.prems(1) by (cases "dropWhile (\<lambda>c. \<not> is_ws c) s") (simp_all add: head_tokens_Suc)
  obtain ws' where h: "ws = takeWhile (\<lambda>c. \<not> is_ws c) s # ws'" "head_tokens n (dropWhile is_ws (d # rest)) = Some (ws', r)"
    using Suc.prems(1) by (auto simp only: head_tokens_Suc d list.case split: if_splits dest!: map_option_eq_Some [THEN iffD1]) auto
  have "is_ws d" using hd_dropWhile [of "\<lambda>c. \<not> is_ws c" s] d by simp
  then have "dropWhile is_ws (d # rest) = dropWhile is_ws rest" by simp
  with Suc.IH [OF h(2)] trimmed_rest [OF d Suc.prems(4)] Suc.prems(4) h(1) plain_take [OF Suc.prems(2,3)] show ?case by simp
qed (auto split: if_splits)

lemma head_tokens_trim:
  assumes "head_tokens (Suc n) (js_trim s) = Some (ws, r)"
  shows "length ws = Suc n \<and> list_all plain_word ws \<and> r \<noteq> [] \<and> \<not> is_ws (hd r) \<and> \<not> is_ws (last r)"
proof -
  have ne: "js_trim s \<noteq> []" using assms by auto
  from head_tokens_sound [OF assms ne] js_trim_ends [OF ne] show ?thesis by auto
qed

lemma trim_join_rest:
  assumes "list_all plain_word ws" "ws \<noteq> []" "r \<noteq> []" "\<not> is_ws (last r)"
  shows "js_trim (join '' '' (ws @ [r])) = join '' '' (ws @ [r])"
proof (rule js_trim_id)
  have j: "join '' '' (ws @ [r]) = join '' '' ws @ '' '' @ r" using assms(2) by (simp add: join_append)
  from hd_join_word [OF assms(1,2)] have "hd (join '' '' ws @ '' '' @ r) = hd (join '' '' ws)" "\<not> is_ws (hd (join '' '' ws))"
    by (auto simp: hd_append)
  then show "\<not> is_ws (hd (join '' '' (ws @ [r]))) \<and> \<not> is_ws (last (join '' '' (ws @ [r])))"
    unfolding j using assms(3,4) by simp
qed

lemma one_line_join:
  assumes "list_all plain_word ws" "ws \<noteq> []" "r \<noteq> []" "\<not> is_ws (hd r)" "\<not> is_ws (last r)" "LF \<notin> set r" "CR \<notin> set r"
  shows "one_line_tokens (length ws) (js_trim (join '' '' (ws @ [r]))) = Some (ws, r)"
  using head_tokens_join [OF assms(1,3,4)] trim_join_rest [OF assms(1-3,5)] assms(6,7) by (simp add: one_line_tokens_def)

lemma one_line_trim:
  assumes "one_line_tokens n (js_trim s) = Some (ws, r)" "0 < n"
  shows "length ws = n" "list_all plain_word ws" "r \<noteq> []" "\<not> is_ws (hd r)" "\<not> is_ws (last r)" "LF \<notin> set r" "CR \<notin> set r"
proof -
  have "head_tokens n (js_trim s) = Some (ws, r)" "LF \<notin> set r" "CR \<notin> set r"
    using assms by (auto simp: one_line_tokens_def simp del: head_tokens.simps split: option.splits if_splits)
  with head_tokens_trim [of "n - 1" s ws r] assms(2) show "length ws = n" "list_all plain_word ws" "r \<noteq> []" "\<not> is_ws (hd r)" "\<not> is_ws (last r)"
    "LF \<notin> set r" "CR \<notin> set r" by simp_all
qed

lemma small_field_accepts:
  "\<not> list_ex (\<lambda>i. fst i = RrError) (fst (small_field f lo hi s)) \<Longrightarrow>
    all_digits s \<and> snd (small_field f lo hi s) = Some (nat_of_dec s) \<and> lo \<le> nat_of_dec s \<and> nat_of_dec s \<le> hi"
  by (auto simp: small_field_def Let_def split: if_splits)

lemma small_field_dec: "lo \<le> n \<Longrightarrow> n \<le> hi \<Longrightarrow> small_field f lo hi (dec_of_nat n) = ([], Some n)"
  by (simp add: small_field_def)

text \<open>The text of a field does not change when it is read again.\<close>

lemma field_text_again:
  "\<not> list_ex (\<lambda>i. fst i = RrError) (fst (small_field f lo hi s)) \<Longrightarrow>
    field_text (snd (small_field f lo hi (field_text (snd (small_field f lo hi s)) s))) t = field_text (snd (small_field f lo hi s)) s
    \<and> plain_word (field_text (snd (small_field f lo hi s)) s)"
  using small_field_accepts [of f lo hi s] small_field_dec [of lo "nat_of_dec s" hi f] by (simp add: field_text_def plain_dec)

lemma compact_hex_again: "hex_or_raw (compact_hex r) = compact_hex r"
proof -
  have "js_trim (compact_hex r) = compact_hex r"
    by (rule js_trim_no_ws) (auto simp: compact_hex_def js_lower_def)
  moreover have "compact_hex (compact_hex r) = compact_hex r"
    by (simp add: compact_hex_def js_lower_def filter_map comp_def)
  ultimately show ?thesis by (simp add: hex_or_raw_def)
qed

lemma hex_accepts:
  assumes "\<not> list_ex (\<lambda>i. fst i = RrError) (hex_issues f (compact_hex r) k ck)"
  shows "hex_or_raw r = compact_hex r" "compact_hex r \<noteq> []" "plain_word (compact_hex r)" "LF \<notin> set (compact_hex r)" "CR \<notin> set (compact_hex r)"
proof -
  have h: "list_all is_hex (compact_hex r)" "compact_hex r \<noteq> []" using assms by (auto simp: hex_issues_def split: if_splits)
  then show "hex_or_raw r = compact_hex r" "compact_hex r \<noteq> []" by (simp_all add: hex_or_raw_def)
  show "plain_word (compact_hex r)" "LF \<notin> set (compact_hex r)" "CR \<notin> set (compact_hex r)"
    using h by (auto simp: plain_word_def list_all_iff is_hex_def is_digit_def is_ws_def)
qed

text \<open>Fields, then hexadecimal text: DS, SSHFP, TLSA and SMIMEA are of this shape.\<close>

type_synonym field_spec = "string \<times> nat \<times> nat"

definition field_of :: "field_spec \<Rightarrow> string \<Rightarrow> rr_issue list \<times> nat option" where
  "field_of = (\<lambda>(f, lo, hi). small_field f lo hi)"

definition digest_text :: "field_spec list \<Rightarrow> string list \<Rightarrow> string list" where
  "digest_text fs ws = map2 (\<lambda>f w. field_text (snd (field_of f w)) w) fs ws"

definition digest_accepts :: "field_spec list \<Rightarrow> string list \<Rightarrow> string \<Rightarrow> bool" where
  "digest_accepts fs ws r \<longleftrightarrow>
     list_all2 (\<lambda>f w. \<not> list_ex (\<lambda>i. fst i = RrError) (fst (field_of f w))) fs ws
     \<and> (\<exists>f k ck. \<not> list_ex (\<lambda>i. fst i = RrError) (hex_issues f (compact_hex r) k ck))"

lemma digest_text_again:
  "list_all2 (\<lambda>f w. \<not> list_ex (\<lambda>i. fst i = RrError) (fst (field_of f w))) fs ws \<Longrightarrow>
    digest_text fs (digest_text fs ws) = digest_text fs ws \<and> list_all plain_word (digest_text fs ws) \<and> length (digest_text fs ws) = length fs"
proof (induction fs ws rule: list_all2_induct)
  case (Cons f fs w ws)
  obtain n lo hi where f: "f = (n, lo, hi)" by (cases f)
  from Cons field_text_again [of n lo hi w] show ?case by (simp add: digest_text_def field_of_def f)
qed (simp add: digest_text_def)

lemma tokens_again:
  assumes "tok = one_line_tokens n \<or> tok = head_tokens n" "0 < n" "length ws = n" "list_all plain_word ws"
    "plain_word r" "LF \<notin> set r" "CR \<notin> set r"
  shows "tok (js_trim (join '' '' (ws @ [r]))) = Some (ws, r)"
proof -
  note r = plain_word_ends [OF assms(5)]
  have ne: "ws \<noteq> []" using assms(2,3) by auto
  from assms(1) show ?thesis
  proof
    assume "tok = one_line_tokens n"
    with one_line_join [OF assms(4) ne _ _ _ assms(6,7)] r assms(3) show ?thesis by simp
  next
    assume "tok = head_tokens n"
    with head_tokens_join [OF assms(4), of r] trim_join_rest [OF assms(4) ne, of r] r assms(3) show ?thesis by simp
  qed
qed

lemma digest_stable:
  assumes tok: "tok = one_line_tokens (length fs) \<or> tok = head_tokens (length fs)" "fs \<noteq> []"
    and norm: "\<And>x ws r. tok (js_trim x) = Some (ws, r) \<Longrightarrow> length ws = length fs \<Longrightarrow>
      rv_normalized (v x) = join '' '' (digest_text fs ws @ [hex_or_raw r])"
    and acc: "\<And>x. \<not> hasErrors (v x) \<Longrightarrow> \<exists>ws r. tok (js_trim x) = Some (ws, r) \<and> digest_accepts fs ws r"
  shows "stable_validator v"
proof (rule stable_validatorI)
  fix c assume "\<not> hasErrors (v c)"
  then obtain ws r where t: "tok (js_trim c) = Some (ws, r)" and a: "digest_accepts fs ws r" using acc by blast
  obtain f k ck where h: "\<not> list_ex (\<lambda>i. fst i = RrError) (hex_issues f (compact_hex r) k ck)"
    using a unfolding digest_accepts_def by blast
  note h = hex_accepts [OF h]
  have l: "list_all2 (\<lambda>f w. \<not> list_ex (\<lambda>i. fst i = RrError) (fst (field_of f w))) fs ws" using a by (simp add: digest_accepts_def)
  note d = digest_text_again [OF l]
  have n: "rv_normalized (v c) = join '' '' (digest_text fs ws @ [compact_hex r])"
    using norm [OF t] list_all2_lengthD [OF l] h(1) by simp
  have "tok (js_trim (join '' '' (digest_text fs ws @ [compact_hex r]))) = Some (digest_text fs ws, compact_hex r)"
    using tok d by (intro tokens_again [OF tok(1) _ _ _ h(3-5)]) auto
  from norm [OF this] d show "rv_normalized (v (rv_normalized (v c))) = rv_normalized (v c)"
    unfolding n by (simp add: compact_hex_again)
qed

definition ds_fields :: "field_spec list" where
  "ds_fields = [(''key tag'', 0, 65535), (''algorithm'', 1, 255), (''digest type'', 1, 255)]"

lemma ds_tokens: "length ws = 3 \<Longrightarrow> \<exists>a b d. ws = [a, b, d]"
  by (auto simp: length_Suc_conv numeral_eq_Suc)

lemma ds_length: "length ds_fields = 3"
  by (simp add: ds_fields_def)

lemma ds_normalized:
  assumes "one_line_tokens 3 (js_trim x) = Some (ws, r)" "length ws = length ds_fields"
  shows "rv_normalized (ds_validate x) = join '' '' (digest_text ds_fields ws @ [hex_or_raw r])"
proof -
  from assms(2) have "length ws = 3" by (simp add: ds_fields_def)
  from ds_tokens [OF this] obtain a b d where ws: "ws = [a, b, d]" by blast
  from assms(1) show ?thesis by (simp add: ds_validate_def Let_def digest_text_def field_of_def ws ds_fields_def)
qed

lemma ds_accepts:
  assumes ok: "\<not> hasErrors (ds_validate x)"
  shows "\<exists>ws r. one_line_tokens 3 (js_trim x) = Some (ws, r) \<and> digest_accepts ds_fields ws r"
proof -
  have "one_line_tokens 3 (js_trim x) \<noteq> None" using ok by (intro notI) (simp add: ds_validate_def)
  then obtain ws r where t: "one_line_tokens 3 (js_trim x) = Some (ws, r)" by auto
  have "length ws = 3" using one_line_trim(1) [OF t(1)] by simp
  from ds_tokens [OF this] obtain a b d where ws: "ws = [a, b, d]" by blast
  have "\<not> list_ex (\<lambda>i. fst i = RrError) (hex_issues ''digest'' (compact_hex r) (snd (field_of (ds_fields ! 2) d)) (ds_digest_check (compact_hex r)))"
    using ok t by (simp add: ds_validate_def Let_def ws ds_fields_def field_of_def list_ex_append)
  moreover have "list_all2 (\<lambda>f w. \<not> list_ex (\<lambda>i. fst i = RrError) (fst (field_of f w))) ds_fields ws"
    using ok t by (simp add: ds_validate_def Let_def ws ds_fields_def field_of_def list_ex_append)
  ultimately show ?thesis using t unfolding digest_accepts_def by blast
qed

lemma ds_stable: "stable_validator ds_validate"
  by (rule digest_stable [where tok = "one_line_tokens 3" and fs = ds_fields and v = ds_validate, OF _ _ ds_normalized ds_accepts])
    (simp only: ds_length simp_thms, simp add: ds_fields_def)

definition sshfp_fields :: "field_spec list" where
  "sshfp_fields = [(''algorithm'', 1, 255), (''fp-type'', 1, 255)]"

lemma sshfp_tokens: "length ws = 2 \<Longrightarrow> \<exists>a b. ws = [a, b]"
  by (auto simp: length_Suc_conv numeral_eq_Suc)

lemma sshfp_length: "length sshfp_fields = 2"
  by (simp add: sshfp_fields_def)

lemma sshfp_normalized:
  assumes "one_line_tokens 2 (js_trim x) = Some (ws, r)" "length ws = length sshfp_fields"
  shows "rv_normalized (sshfp_validate x) = join '' '' (digest_text sshfp_fields ws @ [hex_or_raw r])"
proof -
  from assms(2) have "length ws = 2" by (simp add: sshfp_fields_def)
  from sshfp_tokens [OF this] obtain a b where ws: "ws = [a, b]" by blast
  from assms(1) show ?thesis by (simp add: sshfp_validate_def Let_def digest_text_def field_of_def ws sshfp_fields_def)
qed

lemma sshfp_accepts:
  assumes ok: "\<not> hasErrors (sshfp_validate x)"
  shows "\<exists>ws r. one_line_tokens 2 (js_trim x) = Some (ws, r) \<and> digest_accepts sshfp_fields ws r"
proof -
  have "one_line_tokens 2 (js_trim x) \<noteq> None" using ok by (intro notI) (simp add: sshfp_validate_def)
  then obtain ws r where t: "one_line_tokens 2 (js_trim x) = Some (ws, r)" by auto
  have "length ws = 2" using one_line_trim(1) [OF t(1)] by simp
  from sshfp_tokens [OF this] obtain a b where ws: "ws = [a, b]" by blast
  have "\<not> list_ex (\<lambda>i. fst i = RrError) (hex_issues ''fingerprint'' (compact_hex r) (snd (field_of (sshfp_fields ! 1) b)) (sshfp_check (compact_hex r)))"
    using ok t by (simp add: sshfp_validate_def Let_def ws sshfp_fields_def field_of_def list_ex_append)
  moreover have "list_all2 (\<lambda>f w. \<not> list_ex (\<lambda>i. fst i = RrError) (fst (field_of f w))) sshfp_fields ws"
    using ok t by (simp add: sshfp_validate_def Let_def ws sshfp_fields_def field_of_def list_ex_append)
  ultimately show ?thesis using t unfolding digest_accepts_def by blast
qed

lemma sshfp_stable: "stable_validator sshfp_validate"
  by (rule digest_stable [where tok = "one_line_tokens 2" and fs = sshfp_fields and v = sshfp_validate, OF _ _ sshfp_normalized sshfp_accepts])
    (simp only: sshfp_length simp_thms, simp add: sshfp_fields_def)

definition tlsa_fields :: "field_spec list" where
  "tlsa_fields = [(''usage'', 0, 255), (''selector'', 0, 255), (''matching-type'', 0, 255)]"

lemma tlsa_length: "length tlsa_fields = 3"
  by (simp add: tlsa_fields_def)

lemma tlsa_normalized:
  assumes "head_tokens 3 (js_trim x) = Some (ws, r)" "length ws = length tlsa_fields"
  shows "rv_normalized (tlsa_validate x) = join '' '' (digest_text tlsa_fields ws @ [hex_or_raw r])"
proof -
  from assms(2) have "length ws = 3" by (simp add: tlsa_fields_def)
  from ds_tokens [OF this] obtain a b d where ws: "ws = [a, b, d]" by blast
  from assms(1) show ?thesis by (simp add: tlsa_validate_def Let_def digest_text_def field_of_def ws tlsa_fields_def)
qed

lemma tlsa_accepts:
  assumes ok: "\<not> hasErrors (tlsa_validate x)"
  shows "\<exists>ws r. head_tokens 3 (js_trim x) = Some (ws, r) \<and> digest_accepts tlsa_fields ws r"
proof -
  have "head_tokens 3 (js_trim x) \<noteq> None" using ok by (intro notI) (simp add: tlsa_validate_def)
  then obtain ws r where t: "head_tokens 3 (js_trim x) = Some (ws, r)" by auto
  have "length ws = 3" using head_tokens_trim [of 2 x ws r] t(1) by simp
  from ds_tokens [OF this] obtain a b d where ws: "ws = [a, b, d]" by blast
  have "\<not> list_ex (\<lambda>i. fst i = RrError) (hex_issues ''cert-data'' (compact_hex r) (snd (field_of (tlsa_fields ! 2) d)) (tlsa_check (compact_hex r)))"
    using ok t by (simp add: tlsa_validate_def Let_def ws tlsa_fields_def field_of_def list_ex_append)
  moreover have "list_all2 (\<lambda>f w. \<not> list_ex (\<lambda>i. fst i = RrError) (fst (field_of f w))) tlsa_fields ws"
    using ok t by (simp add: tlsa_validate_def Let_def ws tlsa_fields_def field_of_def list_ex_append)
  ultimately show ?thesis using t unfolding digest_accepts_def by blast
qed

lemma tlsa_stable: "stable_validator tlsa_validate"
  by (rule digest_stable [where tok = "head_tokens 3" and fs = tlsa_fields and v = tlsa_validate, OF _ _ tlsa_normalized tlsa_accepts])
    (simp only: tlsa_length simp_thms, simp add: tlsa_fields_def)

lemma smimea_stable: "stable_validator smimea_validate"
  using tlsa_stable by (simp add: stable_validator_def smimea_validate_def)

subsection \<open>Quoted text: CAA, LUA and TXT\<close>

lemma escape_no: "c \<notin> set s \<Longrightarrow> c \<noteq> BACKSLASH \<Longrightarrow> c \<notin> set (escape_with d s)"
  by (auto simp: escape_with_def split: if_splits)

definition caa_value :: "string \<Rightarrow> string" where
  "caa_value v = (if is_quoted v then v else [QUOTE] @ escape_with QUOTE (escape_with BACKSLASH v) @ [QUOTE])"

lemma is_quoted_again: "is_quoted (caa_value v)"
  by (auto simp: caa_value_def is_quoted_def starts_with_def ends_with_def)

lemma quoted_ends: "is_quoted v \<Longrightarrow> v \<noteq> [] \<and> hd v = QUOTE \<and> last v = QUOTE"
  by (cases v) (auto simp: is_quoted_def starts_with_def ends_with_iff dest: arg_cong [where f = last] split: if_splits)

lemma quoted_trim: "is_quoted v \<Longrightarrow> js_trim v = v"
  using quoted_ends [of v] by (intro js_trim_id) (simp add: is_ws_def)

lemma caa_value_lines: "LF \<notin> set v \<Longrightarrow> CR \<notin> set v \<Longrightarrow> LF \<notin> set (caa_value v) \<and> CR \<notin> set (caa_value v)"
  by (simp add: caa_value_def escape_no)

lemma caa_normalized:
  "one_line_tokens 2 (js_trim c) = Some ([f, t], v) \<Longrightarrow> small_digits f \<Longrightarrow>
    rv_normalized (caa_validate nt c) = join '' '' ([dec_of_nat (nat_of_dec f), js_lower t] @ [caa_value (js_trim v)])"
proof -
  assume t: "one_line_tokens 2 (js_trim c) = Some ([f, t], v)" and d: "small_digits f"
  have "dec_of_nat n \<noteq> ''NaN''" for n using all_digits_dec [of n] by (auto simp: all_digits_def is_digit_def)
  with t d show ?thesis by (simp add: caa_validate_def Let_def number_or_zero_def num_text_digits caa_value_def)
qed

lemma caa_accepted:
  assumes "\<not> hasErrors (caa_validate nt c)"
  obtains f t v where "one_line_tokens 2 (js_trim c) = Some ([f, t], v)" "small_digits f" "plain_word (js_lower t)"
proof -
  have "one_line_tokens 2 (js_trim c) \<noteq> None" using assms by (intro notI) (simp add: caa_validate_def)
  then obtain ws v where t: "one_line_tokens 2 (js_trim c) = Some (ws, v)" by auto
  have "length ws = 2" using one_line_trim(1) [OF t] by simp
  from sshfp_tokens [OF this] obtain f a where ws: "ws = [f, a]" by blast
  have e: "\<not> list_ex (\<lambda>i. fst i = RrError) (caa_flag_issues f)" "\<not> list_ex (\<lambda>i. fst i = RrError) (caa_tag_issues (js_lower a))"
    using assms t by (simp_all add: caa_validate_def Let_def ws list_ex_append)
  have "small_digits f" using e(1) by (auto simp: small_digits_def caa_flag_issues_def Let_def split: if_splits)
  moreover have "plain_word (js_lower a)"
    using e(2) by (auto simp: caa_tag_issues_def plain_word_def list_all_iff is_ws_def is_digit_def split: if_splits)
  ultimately show thesis using that t ws by blast
qed

lemma caa_stable: "stable_validator (caa_validate nt)"
proof (rule stable_validatorI)
  fix c assume "\<not> hasErrors (caa_validate nt c)"
  then obtain f t v where t: "one_line_tokens 2 (js_trim c) = Some ([f, t], v)" "small_digits f" "plain_word (js_lower t)"
    by (rule caa_accepted)
  let ?v = "caa_value (js_trim v)" and ?ws = "[dec_of_nat (nat_of_dec f), js_lower t]"
  note n = caa_normalized [OF t(1,2), of nt]
  note o1 = one_line_trim [OF t(1)]
  have vt: "js_trim v = v" using o1(4,5) by (intro js_trim_id) simp
  note q = quoted_ends [OF is_quoted_again [of v]]
  have "one_line_tokens 2 (js_trim (join '' '' (?ws @ [?v]))) = Some (?ws, ?v)"
    using one_line_join [of ?ws ?v] t(3) plain_dec q caa_value_lines [of v] o1(6,7) by (simp add: vt is_ws_def numeral_2_eq_2)
  from caa_normalized [OF this small_digits_again [OF t(2)], of nt]
  show "rv_normalized (caa_validate nt (rv_normalized (caa_validate nt c))) = rv_normalized (caa_validate nt c)"
    unfolding n using quoted_trim [OF is_quoted_again [of v]] is_quoted_again [of v] by (simp add: vt) (simp add: caa_value_def)
qed

lemma upper_word: "list_all (\<lambda>c. is_upper_letter c \<or> is_digit c \<or> c = CHR ''-'') t \<Longrightarrow> js_upper t = t"
  by (induction t) (auto simp: js_upper_def upper_char_def is_upper_letter_def is_digit_def)

lemma lua_accepted:
  assumes "\<not> hasErrors (lua_validate c)"
  obtains t s where "one_line_tokens 1 (js_trim c) = Some ([t], s)" "plain_word (js_upper t)" "js_upper (js_upper t) = js_upper t"
    "rv_normalized (lua_validate c) = join '' '' ([js_upper t] @ [s])"
proof -
  have "js_trim c \<noteq> []" using assms by (intro notI) (simp add: lua_validate_def)
  then have "js_trim c \<noteq> []" "CR \<notin> set (js_trim c) \<and> LF \<notin> set (js_trim c)" using assms by (intro conjI notI; simp add: lua_validate_def)+
  note l = this
  have "one_line_tokens 1 (js_trim c) \<noteq> None" using assms l by (intro notI) (simp add: lua_validate_def)
  then obtain ws s where t: "one_line_tokens 1 (js_trim c) = Some (ws, s)" by auto
  have "length ws = 1" using one_line_trim(1) [OF t] by simp
  then obtain a where ws: "ws = [a]" by (auto simp: length_Suc_conv)
  have e: "\<not> list_ex (\<lambda>i. fst i = RrError) (lua_type_issues a (js_upper a))"
    using assms t l by (simp add: lua_validate_def Let_def ws list_ex_append)
  then have w: "js_upper a \<noteq> []" "list_all (\<lambda>c. is_upper_letter c \<or> is_digit c \<or> c = CHR ''-'') (js_upper a)"
    by (cases "js_upper a"; auto simp: lua_type_issues_def split: if_splits)+
  then have "plain_word (js_upper a)"
    by (auto simp: plain_word_def list_all_iff is_upper_letter_def is_ws_def is_digit_def)
  moreover have "rv_normalized (lua_validate c) = join '' '' ([js_upper a] @ [s])"
    using t l by (simp add: lua_validate_def Let_def ws)
  ultimately show thesis using that t ws upper_word [OF w(2)] by blast
qed

lemma lua_stable: "stable_validator lua_validate"
proof (rule stable_validatorI)
  fix c assume "\<not> hasErrors (lua_validate c)"
  then obtain t s where t: "one_line_tokens 1 (js_trim c) = Some ([t], s)" "plain_word (js_upper t)" "js_upper (js_upper t) = js_upper t"
    and n: "rv_normalized (lua_validate c) = join '' '' ([js_upper t] @ [s])" by (rule lua_accepted)
  note o1 = one_line_trim [OF t(1)]
  let ?j = "join '' '' ([js_upper t] @ [s])"
  have j: "js_trim ?j = ?j" using t(2) o1(3,5) by (intro trim_join_rest) simp_all
  have "one_line_tokens 1 ?j = Some ([js_upper t], s)"
    using one_line_join [of "[js_upper t]" s] t(2) o1(3-7) unfolding j by simp
  moreover have "CR \<notin> set ?j" "LF \<notin> set ?j" using t(2) o1(6,7) by (auto simp: plain_word_def list_all_iff is_ws_def)
  moreover have "?j \<noteq> []" using t(2) by simp
  ultimately show "rv_normalized (lua_validate (rv_normalized (lua_validate c))) = rv_normalized (lua_validate c)"
    unfolding n by (simp only: lua_validate_def Let_def j if_False de_Morgan_disj simp_thms option.case prod.case rr_return_sel nth_Cons_0 t(3)) simp
qed

lemma txt_normalized:
  "rv_normalized (txt_validate c) =
    (if js_trim c = [] \<or> starts_with (js_trim c) [QUOTE] then js_trim c
     else [QUOTE] @ escape_with QUOTE (escape_with BACKSLASH (js_trim c)) @ [QUOTE])"
  by (auto simp: txt_validate_def Let_def split: option.splits)

lemma txt_stable: "stable_validator txt_validate"
proof (rule stable_validatorI)
  fix c
  let ?q = "[QUOTE] @ escape_with QUOTE (escape_with BACKSLASH (js_trim c)) @ [QUOTE]"
  have "js_trim ?q = ?q" by (rule js_trim_id) (simp add: is_ws_def)
  then show "rv_normalized (txt_validate (rv_normalized (txt_validate c))) = rv_normalized (txt_validate c)"
    by (simp add: txt_normalized starts_with_def)
qed

subsection \<open>The other types\<close>

lemma generic_stable: "stable_validator (generic_validate t)"
  by (rule stable_trim) (simp add: generic_validate_def Let_def)

lemma uri_stable: "stable_validator uri_validate"
  by (rule stable_trim) (auto simp: uri_validate_def Let_def split: option.splits)

lemma naptr_stable: "stable_validator naptr_validate"
  by (rule stable_trim) (auto simp: naptr_validate_def Let_def split: option.splits)

lemma svcb_stable: "stable_validator svcb_validate"
  by (rule stable_trim) (simp add: svcb_validate_def Let_def)

lemma openpgpkey_stable: "stable_validator openpgpkey_validate"
  by (rule stable_validatorI) (simp add: openpgpkey_validate_def Let_def)

lemma a_stable: "stable_validator a_validate"
proof (rule stable_validatorI)
  fix c assume ok: "\<not> hasErrors (a_validate c)"
  let ?o = "map nat_of_dec (split_on (CHR ''.'') (js_trim c))"
  let ?n = "join ''.'' (map dec_of_nat ?o)"
  have r: "IPV4_RE (js_trim c)" using ok by (auto simp: a_validate_def Let_def split: if_splits)
  then have l: "length ?o = 4" by (simp add: IPV4_RE_def Let_def)
  have f: "List.find (\<lambda>oct. oct > 255) ?o = None" using ok r by (auto simp: a_validate_def Let_def split: option.splits)
  have n: "rv_normalized (a_validate c) = ?n" using r f by (simp add: a_validate_def Let_def)
  have le: "\<forall>x \<in> set ?o. x \<le> 255" using f by (auto simp: find_None_iff)
  have ne: "?o \<noteq> []" using l by auto
  have "CHR ''.'' \<notin> set (dec_of_nat x)" for x using dec_of_nat_digits [of "CHR ''.''" x] by (auto simp: is_digit_def)
  then have s: "split_on (CHR ''.'') ?n = map dec_of_nat ?o" using ne by (intro split_join) auto
  have t: "js_trim ?n = ?n"
  proof (rule js_trim_no_ws)
    fix x assume "x \<in> set ?n"
    then have "x = CHR ''.'' \<or> is_digit x" using set_join [of "''.''" "map dec_of_nat ?o"] dec_of_nat_digits by auto
    then show "\<not> is_ws x" by (auto simp: is_digit_def is_ws_def)
  qed
  have "IPV4_RE ?n" unfolding IPV4_RE_def s Let_def using l le digits13_dec_of_nat by (simp add: list_all_iff)
  moreover have "map nat_of_dec (split_on (CHR ''.'') ?n) = ?o" unfolding s by (simp add: comp_def)
  ultimately show "rv_normalized (a_validate (rv_normalized (a_validate c))) = rv_normalized (a_validate c)"
    unfolding n using f by (simp only: a_validate_def Let_def t not_True_eq_False if_False option.case rr_return_sel)
qed

lemma aaaa_stable: "stable_validator aaaa_validate"
proof (rule stable_validatorI)
  fix c assume ok: "\<not> hasErrors (aaaa_validate c)"
  then obtain gs where g: "parseIpv6 (js_trim c) = Some gs" by (cases "parseIpv6 (js_trim c)") (simp_all add: aaaa_validate_def)
  have t: "js_trim (canonicalizeIpv6 gs) = canonicalizeIpv6 gs"
    using set_canonical by (intro js_trim_no_ws) (fastforce simp: is_hex_def is_digit_def is_ws_def)
  from parseIpv6_bound [OF g] parse_canonical [of gs] g
  show "rv_normalized (aaaa_validate (rv_normalized (aaaa_validate c))) = rv_normalized (aaaa_validate c)"
    by (simp add: aaaa_validate_def t)
qed

subsection \<open>Every validator\<close>

lemma registry_stable: "list_all (\<lambda>tv. stable_validator (snd tv)) (REGISTRY nt)"
  by (simp add: REGISTRY_def a_stable aaaa_stable cname_stable dname_stable ns_stable ptr_stable mx_stable srv_stable txt_stable
      caa_stable ds_stable sshfp_stable tlsa_stable smimea_stable naptr_stable uri_stable openpgpkey_stable svcb_stable lua_stable)

lemma validator_stable: "stable_validator (getRRTypeValidator nt type)"
proof (cases "map_of (REGISTRY nt) (js_upper type)")
  case None
  then show ?thesis by (simp add: getRRTypeValidator_def generic_stable)
next
  case (Some v)
  from map_of_SomeD [OF Some] registry_stable [of nt] have "stable_validator v" by (auto simp: list_all_iff)
  with Some show ?thesis by (simp add: getRRTypeValidator_def)
qed

text \<open>
  C22. Whatever the type, registered or not: normalizing a content that was accepted and normalized already
  changes nothing.  An edit that leaves the content of a record alone is not a change.
\<close>

theorem normalization_idempotent:
  assumes "\<not> hasErrors (getRRTypeValidator nt type content)"
  shows "rv_normalized (getRRTypeValidator nt type (rv_normalized (getRRTypeValidator nt type content)))
    = rv_normalized (getRRTypeValidator nt type content)"
  using validator_stable [of nt type] assms by (simp add: stable_validator_def)

lemma ns_validator: "getRRTypeValidator nt ''ns'' = ns_validate"
proof -
  have "js_upper ''ns'' = ''NS''" by code_simp
  then show ?thesis by (simp add: getRRTypeValidator_def REGISTRY_def)
qed

theorem normalization_idempotent_witness:
  "rv_normalized (getRRTypeValidator id ''ns'' '' N.Ex'') = ''n.ex.''
   \<and> rv_normalized (getRRTypeValidator id ''ns'' ''n.ex.'') = ''n.ex.''"
proof -
  have e: "\<not> hasErrors (ns_validate '' N.Ex'')" by code_simp
  have n: "rv_normalized (getRRTypeValidator id ''ns'' '' N.Ex'') = ''n.ex.''" unfolding ns_validator by code_simp
  have "\<not> hasErrors (getRRTypeValidator id ''ns'' '' N.Ex'')" unfolding ns_validator by (rule e)
  from normalization_idempotent [OF this] show ?thesis unfolding n by simp
qed

text \<open>
  The length check counts the characters as they were typed, and allows 254 of them even without the dot at
  the end.  A name of four labels of 63, 63, 63 and 62 characters passes; it takes 256 octets on the wire,
  where 255 is the limit, and its own normalized form is refused.
\<close>

definition long_labels :: "string list" where
  "long_labels = [replicate 63 (CHR ''a''), replicate 63 (CHR ''b''), replicate 63 (CHR ''c''), replicate 62 (CHR ''d'')]"

definition long_name :: string where
  "long_name = join ''.'' long_labels"

lemma long_name_chars: "c \<in> set long_name \<Longrightarrow> c \<in> set ''abcd.''"
  by (auto simp: long_name_def long_labels_def)

lemma long_name_trim: "js_trim long_name = long_name" "js_trim (long_name @ ''.'') = long_name @ ''.''"
  using long_name_chars by (auto intro!: js_trim_no_ws simp: is_ws_def dest!: long_name_chars)

lemma long_name_length: "length long_name = 254"
  by (simp add: long_name_def long_labels_def)

lemma long_name_split: "split_on (CHR ''.'') (strip_dot long_name) = long_labels"
proof -
  have "last long_name = CHR ''d''" by (simp add: long_name_def long_labels_def)
  moreover have "last long_name = CHR ''.''" if "ends_with long_name ''.''" using that by (metis ends_with_iff last_snoc)
  ultimately have "\<not> ends_with long_name ''.''" by force
  then have "strip_dot long_name = long_name" by (simp add: strip_dot_def)
  moreover have "split_on (CHR ''.'') (join ''.'' long_labels) = long_labels"
    by (rule split_join) (auto simp: long_labels_def)
  ultimately show ?thesis by (simp add: long_name_def)
qed

lemma long_name_normal_form_refused:
  "\<not> hasErrors (validateHostname long_name no_options)
   \<and> hasErrors (validateHostname (rv_normalized (validateHostname long_name no_options)) no_options)"
proof
  have ne: "js_trim long_name \<noteq> []" using long_name_length unfolding long_name_trim by auto
  have "label_accepted no_options i l" if "l \<in> set long_labels" for i l
  proof -
    have "length l \<ge> 62" using that by (auto simp: long_labels_def)
    then have "l \<noteq> ''*''" by auto
    with that show ?thesis by (auto simp: long_labels_def label_accepted_def RELAXED_LABEL_def is_letter_def list_all_iff)
  qed
  then have "list_all (\<lambda>i. label_accepted no_options i (long_labels ! i)) [0..<length long_labels]" by (simp add: list_all_iff)
  then have "\<not> list_ex (\<lambda>i. fst i = RrError) (concat (map (\<lambda>il. label_issues no_options (fst il) (snd il)) (List.enumerate 0 long_labels)))"
    by (simp add: list_ex_concat_enumerate label_issues_accepted list_all_iff)
  then show "\<not> hasErrors (validateHostname long_name no_options)"
    using long_name_length by (simp add: hasErrors_def hostname_labels [OF ne] long_name_trim long_name_split list_ex_append)
  have "js_lower long_name = long_name" by (rule js_lower_id) (auto dest!: long_name_chars simp: is_upper_def)
  then have n: "rv_normalized (validateHostname long_name no_options) = long_name @ ''.''"
    using hostname_normalized [OF ne, of no_options] arg_cong [OF long_name_split, of "join ''.''"]
    by (simp add: long_name_trim flip: long_name_def)
  show "hasErrors (validateHostname (rv_normalized (validateHostname long_name no_options)) no_options)"
    using hostname_labels [of "long_name @ ''.''" no_options] long_name_length
    by (simp add: n hasErrors_def long_name_trim list_ex_append)
qed

subsection \<open>Boundaries\<close>

text \<open>
  A fingerprint broken over two lines is refused, since the dot of the regular expression does not match a
  line feed; the same break inside the certificate data of a TLSA record is allowed for.
\<close>

lemma sshfp_line_break_refused:
  "rv_issues (sshfp_validate (''4 2 ab'' @ LF # ''cd'')) = [rr_error (WrongTokenCount 3)]
   \<and> rv_normalized (tlsa_validate (''3 1 0 ab'' @ LF # ''cd'')) = ''3 1 0 abcd''"
proof -
  have "one_line_tokens 2 (js_trim (''4 2 ab'' @ LF # ''cd'')) = None" by code_simp
  moreover have "rv_normalized (tlsa_validate (''3 1 0 ab'' @ LF # ''cd'')) = ''3 1 0 abcd''" by code_simp
  ultimately show ?thesis by (simp add: sshfp_validate_def)
qed

text \<open>A value that ends in an escaped quote counts as balanced, and is stored as it is: no quoted string is.\<close>

lemma caa_escaped_quote_kept:
  "rv_normalized (caa_validate nt (''0 issue '' @ [QUOTE, CHR ''a'', BACKSLASH, QUOTE])) = ''0 issue '' @ [QUOTE, CHR ''a'', BACKSLASH, QUOTE]
   \<and> extractQuotedStrings [QUOTE, CHR ''a'', BACKSLASH, QUOTE] = None"
proof -
  let ?v = "[QUOTE, CHR ''a'', BACKSLASH, QUOTE]"
  have t: "one_line_tokens 2 (js_trim (''0 issue '' @ ?v)) = Some ([''0'', ''issue''], ?v)" by code_simp
  have d: "small_digits ''0''" by (simp add: small_digits_def all_digits_def is_digit_def nat_of_dec_def digit_val_def)
  have v: "caa_value (js_trim ?v) = ?v" "dec_of_nat (nat_of_dec ''0'') = ''0''" "js_lower ''issue'' = ''issue''" by code_simp+
  have "extractQuotedStrings ?v = None" by code_simp
  with caa_normalized [OF t d, of nt] show ?thesis by (simp add: v)
qed

text \<open>An SVCB parameter named after a property every object inherits passes without the warning for unknown keys.\<close>

lemma svcb_inherited_key:
  "svcb_param_issues [] [''constructor=1''] = [] \<and> svcb_param_issues [] [''unknown=1''] = [rr_warning (ParamUnknown ''unknown'')]"
proof -
  have "svcb_param_issues [] [''constructor=1''] = []" by code_simp
  moreover have "svcb_param_issues [] [''unknown=1''] = [rr_warning (ParamUnknown ''unknown'')]" by code_simp
  ultimately show ?thesis ..
qed

end
