(* ===== verification/SoaContent.thy ===== *)
theory SoaContent
  imports RrStable
begin

section \<open>The start-of-authority record\<close>

text \<open>
  \<open>lib/validators/soa.ts\<close>: the SOA panel parses the record's content, edits the fields and prints it again.
  \<open>jsNumber\<close> stands for \<open>Number(s)\<close> on text that is not a run of digits a double holds exactly
  (\<open>1e3\<close>, \<open>0x10\<close>), where it gives a non-negative integer, and \<open>numberText\<close> for \<open>String(n)\<close> from
  \<open>10 ^ 21\<close> on, where it uses an exponent.
\<close>

record soa_fields =
  soa_mname :: string
  soa_rname :: string
  soa_serial :: nat
  soa_refresh :: nat
  soa_retry :: nat
  soa_expire :: nat
  soa_minimum :: nat

datatype soa_error = SoaFieldCount nat | SoaTimer string

definition soa_number :: "(string \<Rightarrow> nat option) \<Rightarrow> string \<Rightarrow> soa_error + nat" where
  "soa_number jsNumber s =
     (if all_digits s \<and> nat_of_dec s \<le> 2 ^ 53 then Inr (nat_of_dec s)
      else case jsNumber s of Some n \<Rightarrow> Inr n | None \<Rightarrow> Inl (SoaTimer s))"

fun soa_numbers :: "(string \<Rightarrow> nat option) \<Rightarrow> string list \<Rightarrow> soa_error + nat list" where
  "soa_numbers jsNumber [] = Inr []"
| "soa_numbers jsNumber (s # ss) =
     (case soa_number jsNumber s of
        Inl e \<Rightarrow> Inl e
      | Inr n \<Rightarrow> map_sum id (Cons n) (soa_numbers jsNumber ss))"

definition parseSoaContent :: "(string \<Rightarrow> nat option) \<Rightarrow> string \<Rightarrow> soa_error + soa_fields" where
  "parseSoaContent jsNumber content =
     (let parts = split_ws (js_trim content) in
      if length parts \<noteq> 7 then Inl (SoaFieldCount (length parts))
      else case soa_numbers jsNumber (drop 2 parts) of
        Inl e \<Rightarrow> Inl e
      | Inr ints \<Rightarrow>
          Inr \<lparr>soa_mname = parts ! 0, soa_rname = parts ! 1, soa_serial = ints ! 0, soa_refresh = ints ! 1,
            soa_retry = ints ! 2, soa_expire = ints ! 3, soa_minimum = ints ! 4\<rparr>)"

definition soa_number_text :: "(nat \<Rightarrow> string) \<Rightarrow> nat \<Rightarrow> string" where
  "soa_number_text numberText n = (if n < 10 ^ 21 then dec_of_nat n else numberText n)"

definition serializeSoaContent :: "(nat \<Rightarrow> string) \<Rightarrow> soa_fields \<Rightarrow> string" where
  "serializeSoaContent numberText f =
     join '' '' [soa_mname f, soa_rname f, soa_number_text numberText (soa_serial f), soa_number_text numberText (soa_refresh f),
       soa_number_text numberText (soa_retry f), soa_number_text numberText (soa_expire f),
       soa_number_text numberText (soa_minimum f)]"

definition SOA_DEFAULTS :: "soa_fields \<Rightarrow> soa_fields" where
  "SOA_DEFAULTS f = f\<lparr>soa_refresh := 3600, soa_retry := 900, soa_expire := 604800, soa_minimum := 3600\<rparr>"

datatype soa_warning = RetryNotBelowRefresh | ExpireLow | RefreshLow | MinimumLow | MinimumHigh

definition soaSanityWarnings :: "soa_fields \<Rightarrow> soa_warning list" where
  "soaSanityWarnings f =
     (if soa_retry f \<ge> soa_refresh f then [RetryNotBelowRefresh] else [])
     @ (if soa_expire f \<le> soa_refresh f + soa_retry f then [ExpireLow] else [])
     @ (if soa_refresh f < 1200 then [RefreshLow] else [])
     @ (if soa_minimum f < 60 then [MinimumLow] else [])
     @ (if soa_minimum f > 86400 then [MinimumHigh] else [])"

text \<open>The defaults raise no warning.\<close>

lemma defaults_are_sane: "soaSanityWarnings (SOA_DEFAULTS f) = []"
  by (simp add: soaSanityWarnings_def SOA_DEFAULTS_def)

subsection \<open>Printing and parsing\<close>

definition soa_exact :: "soa_fields \<Rightarrow> bool" where
  "soa_exact f \<longleftrightarrow> plain_word (soa_mname f) \<and> plain_word (soa_rname f)
     \<and> list_all (\<lambda>n. n \<le> 2 ^ 53) [soa_serial f, soa_refresh f, soa_retry f, soa_expire f, soa_minimum f]"

lemma exact_text: "n \<le> 2 ^ 53 \<Longrightarrow> soa_number_text numberText n = dec_of_nat n"
  by (simp add: soa_number_text_def)

lemma soa_number_dec: "n \<le> 2 ^ 53 \<Longrightarrow> soa_number jsNumber (dec_of_nat n) = Inr n"
  by (simp add: soa_number_def)

lemma soa_numbers_dec: "list_all (\<lambda>n. n \<le> 2 ^ 53) ns \<Longrightarrow> soa_numbers jsNumber (map dec_of_nat ns) = Inr ns"
  by (induction ns) (simp_all add: soa_number_dec)

text \<open>
  What the panel prints it reads back: every field of a record whose names are single words and whose
  numbers a double holds exactly comes back, whatever the panel's number functions do beyond that.
\<close>

theorem soa_roundtrip:
  assumes "soa_exact f"
  shows "parseSoaContent jsNumber (serializeSoaContent numberText f) = Inr f"
proof -
  let ?ns = "[soa_serial f, soa_refresh f, soa_retry f, soa_expire f, soa_minimum f]"
  let ?ws = "[soa_mname f, soa_rname f] @ map dec_of_nat ?ns"
  have b: "list_all (\<lambda>n. n \<le> 2 ^ 53) ?ns" and w: "list_all plain_word ?ws" using assms plain_dec by (simp_all add: soa_exact_def)
  have "serializeSoaContent numberText f = join '' '' ?ws" using b by (simp add: serializeSoaContent_def exact_text)
  then have "split_ws (js_trim (serializeSoaContent numberText f)) = ?ws"
    using trim_join_words [OF w] split_ws_join [OF w] by simp
  moreover have "soa_numbers jsNumber (map dec_of_nat ?ns) = Inr ?ns" by (rule soa_numbers_dec [OF b])
  ultimately show ?thesis by (simp add: parseSoaContent_def Let_def)
qed

theorem soa_roundtrip_witness:
  "parseSoaContent (\<lambda>_. None) (serializeSoaContent (\<lambda>_. []) \<lparr>soa_mname = ''ns.'', soa_rname = ''h.'', soa_serial = 4294967295,
      soa_refresh = 3600, soa_retry = 900, soa_expire = 604800, soa_minimum = 60\<rparr>)
    = Inr \<lparr>soa_mname = ''ns.'', soa_rname = ''h.'', soa_serial = 4294967295,
      soa_refresh = 3600, soa_retry = 900, soa_expire = 604800, soa_minimum = 60\<rparr>"
  by (rule soa_roundtrip) (simp add: soa_exact_def plain_word_def is_ws_def)

end
