(* ===== verification/Spec2Isabelle.thy ===== *)
theory Spec2Isabelle
  imports CurrentUser ReverseLookup PtrReconcile ZonePermissions ZoneSettings Serials RrsetRoute ZoneDiff
    RateLimit RevealStore Dyndns UrlSafety AutoPtrRun Wire ZonefileRoundtrip BindFormat SoaContent
begin

text \<open>
  PowerDNS-AuthAdmin is a web front end for PowerDNS authoritative servers: it authenticates
  operators, decides what each of them may do on each zone of each server, validates and writes
  resource record sets through the PowerDNS HTTP API, keeps reverse (PTR) records in step with
  forward ones, and watches that the copies of a zone on several servers agree.  This library
  models the decision logic of that program, file by file, and proves what makes it correct.

  How the parts interact.  A request to change records (\<open>app/api/admin/pdns/zones/[zoneId]/rrsets/route.ts\<close>)
  is validated (\<open>lib/validators/rrsets.ts\<close>), authorized by the caller's roles, scoped roles and
  grants (\<open>lib/rbac\<close>), checked against the zone as it stands (kind, Lua policy, conflicts:
  \<open>lib/pdns\<close>), written as one patch, and followed by audit rows, a NOTIFY and the automatic PTR
  records (\<open>lib/dns/auto-ptr.ts\<close>).  The reconciliation page and the replication checks read whole
  zones and compare them (\<open>lib/dns/ptr-reconcile.ts\<close>, \<open>lib/pdns/zone-diff.ts\<close>,
  \<open>lib/pdns/serial-sync.ts\<close>).

  The theories, each with the files it models:
  \<^item> Prelude: JavaScript strings (character lists, code units below 256), \<open>trim\<close>, lower and upper
    case, \<open>split\<close>, \<open>join\<close>, decimal numerals, \<open>Set\<close> as a list without repetition, \<open>Map\<close> as an
    association list in insertion order; their lemmas.
  \<^item> Json: the text \<open>JSON.stringify\<close> writes for strings and booleans, and a reader that recovers it.
  \<^item> JsSort: \<open>Array.sort\<close> with a comparator as a stable insertion sort, and the locale
    \<open>comparison\<close> of what a comparator must satisfy for the result to be canonical.
  \<^item> ZoneNames: \<open>lib/dns/zone-name.ts\<close>, \<open>zone-kind.ts\<close>, \<open>zone-horizon.ts\<close>, \<open>zone-dedupe.ts\<close>; the
    locale \<open>canonical_form\<close> (an idempotent normal form and the equality it induces), interpreted
    on zone names, on lower case and, in ZoneDiff, on TXT values.
  \<^item> ReverseName and ReverseLookup: \<open>lib/dns/reverse-name.ts\<close>; parsing and printing of addresses,
    reverse owner names, the choice of the reverse zone.
  \<^item> AutoPtr: \<open>lib/dns/auto-ptr.ts\<close>, \<open>auto-ptr-setting.ts\<close>; the plan of PTR changes.
  \<^item> PtrReconcile: \<open>lib/dns/ptr-reconcile.ts\<close>; the table of forward addresses against PTRs.
  \<^item> ZoneDiff: \<open>lib/dns/txt.ts\<close>, \<open>lib/pdns/zone-diff.ts\<close>; TXT presentation and the comparison of
    two copies of a zone.
  \<^item> Errors: \<open>lib/errors.ts\<close>, \<open>lib/http/error-response.ts\<close>.
  \<^item> Permissions, Ability, ZonePermissions: \<open>lib/rbac\<close>; the catalogue and the default roles, the
    rules built from assignments and the ceilings on what may be granted, the authorization of an
    action on a zone.
  \<^item> ZoneSettings: \<open>lib/pdns/zone-kinds.ts\<close>, \<open>writable-kind.ts\<close>, \<open>metadata-policy.ts\<close>,
    \<open>lua-enablement.ts\<close>, \<open>version.ts\<close>, \<open>zone-id.ts\<close>, \<open>lib/dns/default-ttl.ts\<close>.
  \<^item> Serials: \<open>lib/dns/soa-serial.ts\<close>, \<open>lib/pdns/serial-sync.ts\<close>, \<open>dnssec-plan.ts\<close>.
  \<^item> RrsetHash: \<open>lib/pdns/rrset-hash.ts\<close>, \<open>rrsets.ts\<close>; the locale \<open>collation\<close> of what
    \<open>localeCompare\<close> must satisfy for the hash to be canonical.
  \<^item> RrsetRoute: the validators of a patch and the PATCH handler, as a function from the answers of
    its environment to a response and the list of effects it performs, in order.
  \<^item> AutoPtrRun: \<open>rrsets/_auto-ptr.ts\<close>; the run that reads, plans, gates and writes the PTR
    records of a batch of changes, with the dry run that predicts it.
  \<^item> RateLimit: \<open>lib/auth/rate-limit.ts\<close>; token buckets in the process and in Redis.
  \<^item> RevealStore: \<open>lib/auth/temp-reveal-store.ts\<close>; the single-use store as a state machine
    (\<open>reveal_run\<close>) over two backends whose commands may fail.
  \<^item> Dyndns: \<open>lib/dyndns/parse.ts\<close>, \<open>lib/auth/tokens.ts\<close>, \<open>token-scope-narrowing.ts\<close>,
    \<open>lib/client-ip.ts\<close> and the handler \<open>app/nic/update/route.ts\<close>.
  \<^item> UrlSafety: \<open>lib/net/url-safety.ts\<close>, \<open>pinned-fetch.ts\<close>, \<open>lib/pdns/url-safety.ts\<close>,
    \<open>lib/auth/providers/oidc-url-safety.ts\<close>, \<open>lib/auth/safe-redirect.ts\<close>, \<open>email-domain-allowlist.ts\<close>;
    which addresses the server may connect to, where a browser may be sent.
  \<^item> Zonefile, ZonefileParser, ZonefileRoundtrip: \<open>lib/dns/zonefile.ts\<close>, \<open>zonefile-parser.ts\<close>; printing
    and reading master files, what the parser guarantees of any text, and the round trip.
  \<^item> BindFormat: \<open>lib/dns/bind-format.ts\<close>; the text of the review dialog and its tokens.
  \<^item> Wire: \<open>lib/dns/wire.ts\<close>; the DNS message codec, the reassembly of a TCP stream, queries and the
    transfer probe.  \<open>name_fuel\<close> counts the iterations of the name reader: 65 times the length of the
    message is enough, since at most 64 pointers are followed and each walk between two moves forward.
  \<^item> RrNames, RrAddress, RrText, RrDigest, RrTypes, RrStable: \<open>lib/validators/rr-types\<close>; the validator
    of each record type, the registry, and the stability of what a validator stores.
  \<^item> SoaContent: \<open>lib/validators/soa.ts\<close>; parsing and printing of the SOA record's content.
  \<^item> Totp: \<open>lib/auth/totp.ts\<close>; base32 and one-time passwords.
  \<^item> SignedToken: \<open>lib/auth/password-reset-token.ts\<close> and \<open>email-verification-token.ts\<close>; signed links.
  \<^item> AuthPolicy: the decisions of \<open>lib/auth\<close> that need no state.
  \<^item> AuthState: the tables of users and sessions (\<open>lib/db/repositories\<close>), the session cookie, the CSRF check and
    local authentication (\<open>lib/auth/session.ts\<close>, \<open>csrf.ts\<close>, \<open>providers/local.ts\<close>).
  \<^item> SignIn: the handlers under \<open>app/api/auth\<close> that need no session; SignInRun: any sequence of them as a
    trace over the accounts and the pending secrets, and what precedes a session; AccountLinks: reset links.
  \<^item> CurrentUser: \<open>lib/auth/get-current-user.ts\<close>, \<open>require-user.ts\<close>, and the handlers that change a password
    or end a session.

  Conventions.  A definition carries the name of the function it models; a body too long for one
  definition is cut into named parts in the order of the code.  Objects are records, string unions
  are datatypes, \<open>null\<close> and \<open>undefined\<close> are \<open>None\<close>, a thrown error is the left side of a sum.
  Numbers are \<open>nat\<close> or \<open>int\<close> where the code keeps them integral; 32-bit serials are written with
  the remainder the code writes, and related to \<open>32 word\<close> in the theorems.  Loops are structural
  recursion, folds over the list the code walks, or recursion with a measure (names, frames).  \<open>localeCompare\<close>, SHA-256,
  CASL's \<open>can\<close>, the redaction of secrets, the clock and the answers of PowerDNS and the database
  are parameters; what a theorem needs of them is a hypothesis in its statement.

  What the groups of lemmas show: that parsers accept exactly the canonical forms and are inverse
  to the printers; that the normal forms identify exactly what they should; that planning and
  reconciliation never touch a record that points elsewhere, and report every address once; that
  authorization is exactly the union of its documented sources and stays inside the caller's
  scope; that a write happens only after every check passed, all changes or none; that a session is
  started only after every factor the account has was proved, and that nobody passes the guard of a
  handler without a live session or token of an enabled, compliant account.

  Not modelled: the React pages, the database layer (SQL through Drizzle), the HTTP client of
  PowerDNS, sign-in by OIDC, SAML and LDAP, the WebAuthn ceremonies themselves, timers, metrics and logging.  They call libraries
  or perform input and output; their decisions, where they have any, are in the modules above.
\<close>

end
